(* ===== verification/Prelude.thy ===== *)
theory Prelude
  imports Main
begin

text \<open>
  Vocabulary shared by every component.

  The source is Python; what it takes from the language is modelled here once: text as
  \<^typ>\<open>string\<close> (code points below 256), \<open>str\<close> methods and the regular expressions the
  source compiles for identifiers, digests and reason codes, integers as \<^typ>\<open>int\<close> with the
  signed 64-bit column range written out, timestamps as \<^typ>\<open>int\<close> (microseconds, UTC).
  The collections \<open>sql_simps\<close> and \<open>text_simps\<close> are filled by the theories that
  follow and carry most of the component proofs.
\<close>

named_theorems sql_simps "rewrite rules for statements on tables"
named_theorems text_simps "rewrite rules for text predicates"

type_synonym timestamp = int

subsection \<open>Integers of a BIGINT column\<close>

definition MAX_BIGINT :: int where
  "MAX_BIGINT = 2 ^ 63 - 1"

definition bigint_range :: "int \<Rightarrow> bool" where
  "bigint_range n = (0 \<le> n \<and> n \<le> MAX_BIGINT)"

subsection \<open>Text\<close>

definition ascii_lower :: "char \<Rightarrow> bool" where
  "ascii_lower c = (of_char c \<ge> (97::nat) \<and> of_char c \<le> (122::nat))"

definition ascii_upper :: "char \<Rightarrow> bool" where
  "ascii_upper c = (of_char c \<ge> (65::nat) \<and> of_char c \<le> (90::nat))"

definition ascii_digit :: "char \<Rightarrow> bool" where
  "ascii_digit c = (of_char c \<ge> (48::nat) \<and> of_char c \<le> (57::nat))"

definition ascii_alnum :: "char \<Rightarrow> bool" where
  "ascii_alnum c = (ascii_lower c \<or> ascii_upper c \<or> ascii_digit c)"

definition hex_lower :: "char \<Rightarrow> bool" where
  "hex_lower c = (ascii_digit c \<or> (of_char c \<ge> (97::nat) \<and> of_char c \<le> (102::nat)))"

text \<open>\<open>c.lower()\<close> on code points below 256: the ASCII and the Latin-1 capitals.\<close>

definition lower_char :: "char \<Rightarrow> char" where
  "lower_char c =
     (let n = of_char c :: nat in
      if (65 \<le> n \<and> n \<le> 90) \<or> (192 \<le> n \<and> n \<le> 222 \<and> n \<noteq> 215)
      then char_of (n + 32) else c)"

definition str_lower :: "string \<Rightarrow> string" where
  "str_lower s = map lower_char s"

text \<open>\<open>s.startswith(p)\<close> and \<open>s.endswith(p)\<close>.\<close>

fun startswith :: "'a list \<Rightarrow> 'a list \<Rightarrow> bool" where
  "startswith s [] = True"
| "startswith [] (p # ps) = False"
| "startswith (c # cs) (p # ps) = (c = p \<and> startswith cs ps)"

definition endswith :: "'a list \<Rightarrow> 'a list \<Rightarrow> bool" where
  "endswith s p = startswith (rev s) (rev p)"

text \<open>\<open>p in s\<close> for text.\<close>

fun infix_of :: "'a list \<Rightarrow> 'a list \<Rightarrow> bool" where
  "infix_of p [] = (p = [])"
| "infix_of p (c # cs) = (startswith (c # cs) p \<or> infix_of p cs)"

text \<open>The regular expression \<open>^[A-Za-z0-9][A-Za-z0-9_.:-]*$\<close> under \<open>fullmatch\<close>.\<close>

definition safe_id_char :: "char \<Rightarrow> bool" where
  "safe_id_char c = (ascii_alnum c \<or> c \<in> set ''_.:-'')"

definition SAFE_ID :: "string \<Rightarrow> bool" where
  "SAFE_ID s = (case s of [] \<Rightarrow> False | c # cs \<Rightarrow> ascii_alnum c \<and> list_all safe_id_char cs)"

text \<open>The regular expression \<open>^[0-9a-f]{64}$\<close>: a lowercase SHA-256 digest.\<close>

definition HASH :: "string \<Rightarrow> bool" where
  "HASH s = (length s = 64 \<and> list_all hex_lower s)"

text \<open>The regular expression \<open>^[a-z][a-z0-9_]{0,63}$\<close>: a sanitized reason code.\<close>

definition SAFE_CODE :: "string \<Rightarrow> bool" where
  "SAFE_CODE s =
     (case s of [] \<Rightarrow> False
      | c # cs \<Rightarrow> ascii_lower c \<and> length cs \<le> 63 \<and>
                list_all (\<lambda>d. ascii_lower d \<or> ascii_digit d \<or> d = CHR ''_'') cs)"

text \<open>\<open>str(n)\<close> of an integer.\<close>

fun show_nat :: "nat \<Rightarrow> string" where
  "show_nat n =
     (if n < 10 then [char_of (48 + n)] else show_nat (n div 10) @ [char_of (48 + n mod 10)])"

definition show_int :: "int \<Rightarrow> string" where
  "show_int n = (if n < 0 then CHR ''-'' # show_nat (nat (- n)) else show_nat (nat n))"

declare show_nat.simps [simp del]

subsection \<open>Lemmas\<close>

text \<open>The character classes read off the bits of a character, for evaluation.\<close>

lemma ascii_lower_code [code]:
  "ascii_lower (Char b0 b1 b2 b3 b4 b5 b6 b7) =
     (\<not> b7 \<and> b6 \<and> b5 \<and> (b0 \<or> b1 \<or> b2 \<or> b3 \<or> b4) \<and> \<not> (b4 \<and> b3 \<and> (b2 \<or> b1 \<and> b0)))"
  by (cases b0; cases b1; cases b2; cases b3; cases b4; cases b5; cases b6; cases b7) (simp_all add: ascii_lower_def)

lemma ascii_upper_code [code]:
  "ascii_upper (Char b0 b1 b2 b3 b4 b5 b6 b7) =
     (\<not> b7 \<and> b6 \<and> \<not> b5 \<and> (b0 \<or> b1 \<or> b2 \<or> b3 \<or> b4) \<and> \<not> (b4 \<and> b3 \<and> (b2 \<or> b1 \<and> b0)))"
  by (cases b0; cases b1; cases b2; cases b3; cases b4; cases b5; cases b6; cases b7) (simp_all add: ascii_upper_def)

lemma ascii_digit_code [code]:
  "ascii_digit (Char b0 b1 b2 b3 b4 b5 b6 b7) = (\<not> b7 \<and> \<not> b6 \<and> b5 \<and> b4 \<and> \<not> (b3 \<and> (b2 \<or> b1)))"
  by (cases b0; cases b1; cases b2; cases b3; cases b4; cases b5; cases b6; cases b7) (simp_all add: ascii_digit_def)

lemma hex_lower_code [code]:
  "hex_lower (Char b0 b1 b2 b3 b4 b5 b6 b7) =
     (\<not> b7 \<and> b5 \<and> (\<not> b6 \<and> b4 \<and> \<not> (b3 \<and> (b2 \<or> b1)) \<or> b6 \<and> \<not> b4 \<and> \<not> b3 \<and> (b0 \<or> b1 \<or> b2) \<and> \<not> (b0 \<and> b1 \<and> b2)))"
  by (cases b0; cases b1; cases b2; cases b3; cases b4; cases b5; cases b6; cases b7)
    (simp_all add: hex_lower_def ascii_digit_def)

lemma lower_char_code [code]:
  "lower_char (Char b0 b1 b2 b3 b4 b5 b6 b7) =
     (if b6 \<and> \<not> b5 \<and> (b0 \<or> b1 \<or> b2 \<or> b3 \<or> b4 \<or> b7) \<and> (if b7 then \<not> (b0 \<and> b1 \<and> b2 \<and> b3 \<and> b4)
          \<and> \<not> (b0 \<and> b1 \<and> b2 \<and> \<not> b3 \<and> b4) else \<not> (b4 \<and> b3 \<and> (b2 \<or> b1 \<and> b0)))
      then Char b0 b1 b2 b3 b4 True b6 b7 else Char b0 b1 b2 b3 b4 b5 b6 b7)"
  by (cases b0; cases b1; cases b2; cases b3; cases b4; cases b5; cases b6; cases b7)
    (simp_all add: lower_char_def Let_def char_of_def bit_0)

lemma digit_char_eq: "char_of (48 + m mod 10) = (char_of (48 + n mod 10) :: char) \<longleftrightarrow> m mod 10 = (n mod 10 :: nat)"
proof
  assume "char_of (48 + m mod 10) = (char_of (48 + n mod 10) :: char)"
  then have "(of_char (char_of (48 + m mod 10) :: char) :: nat) = of_char (char_of (48 + n mod 10) :: char)"
    by simp
  then show "m mod 10 = n mod 10" by (simp add: of_char_of take_bit_nat_eq_self)
qed simp

lemma show_nat_nonempty [simp]: "show_nat n \<noteq> []"
  by (subst show_nat.simps) simp

lemma show_nat_inject: "show_nat m = show_nat n \<Longrightarrow> m = n"
proof (induction m arbitrary: n rule: show_nat.induct)
  case (1 m)
  have eq: "show_nat k = (if k < 10 then [] else show_nat (k div 10)) @ [char_of (48 + k mod 10)]" for k
    by (subst show_nat.simps) simp
  from 1(2) have last: "m mod 10 = n mod 10" by (simp add: eq [of m] eq [of n] digit_char_eq)
  from 1(2) have init: "(if m < 10 then [] else show_nat (m div 10)) = (if n < 10 then [] else show_nat (n div 10))"
    by (simp add: eq [of m] eq [of n])
  show ?case
  proof (cases "m < 10")
    case True
    with init have "n < 10" by (metis show_nat_nonempty)
    with True last show ?thesis by simp
  next
    case False
    with init have "\<not> n < 10" "show_nat (m div 10) = show_nat (n div 10)" by (simp_all split: if_splits)
    with 1(1) False have "m div 10 = n div 10" by simp
    with last show ?thesis by (metis mult_div_mod_eq)
  qed
qed

lemma startswith_append [text_simps]: "startswith (p @ s) p"
  by (induction p) auto

lemma startswith_iff: "startswith s p \<longleftrightarrow> (\<exists>r. s = p @ r)"
  by (induction s p rule: startswith.induct) auto

lemma endswith_iff: "endswith s p \<longleftrightarrow> (\<exists>r. s = r @ p)"
proof
  assume "endswith s p"
  then obtain r where "rev s = rev p @ r"
    by (auto simp: endswith_def startswith_iff)
  then have "s = rev r @ p"
    by (metis rev_append rev_rev_ident)
  then show "\<exists>r. s = r @ p" ..
next
  assume "\<exists>r. s = r @ p"
  then show "endswith s p"
    by (auto simp: endswith_def startswith_iff)
qed

lemma infix_of_iff: "infix_of p s \<longleftrightarrow> (\<exists>a b. s = a @ p @ b)"
proof (induction s)
  case Nil
  then show ?case by auto
next
  case (Cons c cs)
  show ?case
  proof
    assume "infix_of p (c # cs)"
    then consider (here) "startswith (c # cs) p" | (later) "infix_of p cs"
      by auto
    then show "\<exists>a b. c # cs = a @ p @ b"
    proof cases
      case here
      then show ?thesis by (metis append_Nil startswith_iff)
    next
      case later
      with Cons.IH show ?thesis by (metis append_Cons)
    qed
  next
    assume "\<exists>a b. c # cs = a @ p @ b"
    then obtain a b where "c # cs = a @ p @ b" by blast
    then have "startswith (c # cs) p \<or> infix_of p cs"
      using Cons.IH by (cases a) (auto simp: startswith_iff)
    then show "infix_of p (c # cs)" by simp
  qed
qed

lemma MAX_BIGINT_pos [simp]: "0 < MAX_BIGINT"
  by (simp add: MAX_BIGINT_def)

lemma length_filter_one_iff: "length (filter P xs) = 1 \<longleftrightarrow> (\<exists>x. filter P xs = [x])"
  by (cases "filter P xs") auto

lemma filter_singletonD: "filter P xs = [x] \<Longrightarrow> x \<in> set xs \<and> P x"
  by (metis filter_eq_ConsD in_set_conv_decomp)

end
