(* ===== verification/Sql_Table.thy ===== *)
theory Sql_Table
  imports Prelude
begin

text \<open>
  Relational tables and the three statements the repositories write:
  \<open>select(T).where(P)\<close>, \<open>update(T).where(P).values(f)\<close> with its row count, and an insert
  under unique constraints. A table is its list of rows; a statement of the source is one call
  here with the statement's own condition and assignments, and a transaction is the state
  passing between calls, where a rollback keeps the state of its start.

  The locale \<open>durable_ledger\<close> is the contract that all the durable ledgers of the program
  share: a row has a key that no transaction rewrites, no row is removed, and a row only moves
  forward in its life cycle. What follows for any sequence of transactions (what a key holds
  later has moved on from what it held before, and a final row stays) is proved here once.
\<close>

definition select_where :: "('r \<Rightarrow> bool) \<Rightarrow> 'r list \<Rightarrow> 'r list" where
  "select_where P t = filter P t"

text \<open>\<open>session.scalar\<close>: the first row, or None.\<close>

definition scalar :: "'r list \<Rightarrow> 'r option" where
  "scalar rows = (case rows of [] \<Rightarrow> None | r # _ \<Rightarrow> Some r)"

definition updated :: "('r \<Rightarrow> bool) \<Rightarrow> ('r \<Rightarrow> 'r) \<Rightarrow> 'r list \<Rightarrow> 'r list" where
  "updated P f t = map (\<lambda>r. if P r then f r else r) t"

definition rowcount :: "('r \<Rightarrow> bool) \<Rightarrow> 'r list \<Rightarrow> nat" where
  "rowcount P t = length (filter P t)"

text \<open>
  An insert of the row \<open>r\<close> where \<open>clash\<close> says that two rows violate a primary key or
  a unique constraint. \<open>None\<close> is the integrity error.
\<close>

definition insert_unique :: "('r \<Rightarrow> 'r \<Rightarrow> bool) \<Rightarrow> 'r \<Rightarrow> 'r list \<Rightarrow> 'r list option" where
  "insert_unique clash r t = (if list_ex (clash r) t then None else Some (t @ [r]))"

text \<open>\<open>INSERT ... ON CONFLICT DO NOTHING\<close>: the new table and whether a row went in.\<close>

definition insert_or_ignore :: "('r \<Rightarrow> 'r \<Rightarrow> bool) \<Rightarrow> 'r \<Rightarrow> 'r list \<Rightarrow> 'r list \<times> bool" where
  "insert_or_ignore clash r t = (if list_ex (clash r) t then (t, False) else (t @ [r], True))"

subsection \<open>Statements\<close>

lemma set_select_where [simp, sql_simps]: "set (select_where P t) = {r \<in> set t. P r}"
  by (auto simp: select_where_def)

lemma scalar_Some: "scalar rows = Some r \<Longrightarrow> r \<in> set rows"
  by (auto simp: scalar_def split: list.splits)

lemma scalar_None [simp]: "scalar rows = None \<longleftrightarrow> rows = []"
  by (auto simp: scalar_def split: list.splits)

lemma scalar_select_Some: "scalar (select_where P t) = Some r \<Longrightarrow> r \<in> set t \<and> P r"
  by (auto dest: scalar_Some)

lemma scalar_select_None: "scalar (select_where P t) = None \<longleftrightarrow> (\<forall>r\<in>set t. \<not> P r)"
  by (auto simp: select_where_def filter_empty_conv)

lemma length_updated [simp, sql_simps]: "length (updated P f t) = length t"
  by (simp add: updated_def)

lemma set_updated [sql_simps]: "set (updated P f t) = (\<lambda>r. if P r then f r else r) ` set t"
  by (simp add: updated_def)

lemma in_updatedE:
  assumes "x \<in> set (updated P f t)"
  obtains r where "r \<in> set t" and "x = (if P r then f r else r)"
  using assms by (auto simp: set_updated)

lemma updatedI: "r \<in> set t \<Longrightarrow> (if P r then f r else r) \<in> set (updated P f t)"
  by (simp add: set_updated image_iff) blast

lemma updated_ident [simp]: "(\<And>r. r \<in> set t \<Longrightarrow> P r \<Longrightarrow> f r = r) \<Longrightarrow> updated P f t = t"
  by (auto simp: updated_def intro: map_idI)

lemma updated_none [simp]: "(\<And>r. r \<in> set t \<Longrightarrow> \<not> P r) \<Longrightarrow> updated P f t = t"
  by (auto simp: updated_def intro: map_idI)

lemma map_updated_same:
  assumes "\<And>r. r \<in> set t \<Longrightarrow> P r \<Longrightarrow> g (f r) = g r"
  shows "map g (updated P f t) = map g t"
  using assms by (auto simp: updated_def)

lemma bex_updated_same:
  assumes "\<And>r. Q (f r) = Q r"
  shows "(\<exists>x\<in>set (updated P f t). Q x) = (\<exists>r\<in>set t. Q r)"
  using assms by (auto simp: updated_def)

lemma rowcount_pos: "0 < rowcount P t \<longleftrightarrow> (\<exists>r\<in>set t. P r)"
  by (auto simp: rowcount_def filter_empty_conv)

lemma rowcount_zero: "rowcount P t = 0 \<longleftrightarrow> (\<forall>r\<in>set t. \<not> P r)"
  by (auto simp: rowcount_def filter_empty_conv)

lemma rowcount_oneE:
  assumes "rowcount P t = Suc 0"
  obtains r where "filter P t = [r]" and "r \<in> set t" and "P r"
proof -
  from assms obtain r where r: "filter P t = [r]"
    by (auto simp: rowcount_def length_Suc_conv)
  with filter_singletonD [OF r] that show thesis by blast
qed

text \<open>How a total over a table changes under an update.\<close>

lemma sum_list_updated:
  fixes g :: "'r \<Rightarrow> int"
  shows "sum_list (map g (updated P f t)) =
    sum_list (map g t) + sum_list (map (\<lambda>r. g (f r) - g r) (filter P t))"
  by (induction t) (auto simp: updated_def)

lemma sum_list_updated_one:
  fixes g :: "'r \<Rightarrow> int"
  assumes "filter P t = [r]"
  shows "sum_list (map g (updated P f t)) = sum_list (map g t) + (g (f r) - g r)"
  using assms by (simp add: sum_list_updated)

text \<open>
  A conditional update that names a key and counts one row has found the row of that key, so
  the rest of its condition holds there.
\<close>

lemma distinct_filter_key:
  assumes "distinct (map key t)" and "r \<in> set t"
  shows "filter (\<lambda>x. key x = key r) t = [r]"
  using assms
  by (induction t) (auto simp: filter_empty_conv image_iff dest: sym)

lemma rowcount_key_le:
  assumes "distinct (map key t)"
  shows "rowcount (\<lambda>r. key r = k \<and> G r) t \<le> 1"
proof (cases "\<exists>r\<in>set t. key r = k")
  case True
  then obtain r where r: "r \<in> set t" "key r = k" by blast
  have "filter (\<lambda>r. key r = k \<and> G r) t = filter G (filter (\<lambda>x. key x = key r) t)"
    using r by (simp add: conj_commute)
  also have "\<dots> = filter G [r]"
    using distinct_filter_key [OF assms r(1)] by simp
  finally show ?thesis by (simp add: rowcount_def)
next
  case False
  then show ?thesis by (simp add: rowcount_def)
qed

lemma rowcount_key_guard:
  assumes "distinct (map key t)" and "rowcount (\<lambda>r. key r = k \<and> G r) t = Suc 0"
    and "x \<in> set t" and "key x = k"
  shows "G x"
proof -
  from assms(2) obtain r where r: "r \<in> set t" "key r = k" "G r"
    by (auto elim: rowcount_oneE)
  with assms(1,3,4) have "r = x" by (auto dest: distinct_map [THEN iffD1] inj_onD)
  with r show ?thesis by simp
qed

lemma insert_unique_Some:
  "insert_unique clash r t = Some t' \<Longrightarrow> t' = t @ [r] \<and> (\<forall>x\<in>set t. \<not> clash r x)"
  by (auto simp: insert_unique_def list_ex_iff split: if_splits)

subsection \<open>The contract of a durable ledger\<close>

text \<open>
  How one table may follow another: rows are appended, never removed, and each row moves on
  within the relation \<open>moves\<close>.
\<close>

definition ledger_follows :: "('r \<Rightarrow> 'r \<Rightarrow> bool) \<Rightarrow> 'r list \<Rightarrow> 'r list \<Rightarrow> bool" where
  "ledger_follows moves t t' \<longleftrightarrow>
     length t \<le> length t' \<and> (\<forall>i<length t. moves (t ! i) (t' ! i))"

lemma ledger_follows_refl: "reflp moves \<Longrightarrow> ledger_follows moves t t"
  by (simp add: ledger_follows_def reflp_def)

lemma ledger_follows_trans:
  "transp moves \<Longrightarrow> ledger_follows moves t u \<Longrightarrow> ledger_follows moves u v \<Longrightarrow> ledger_follows moves t v"
  unfolding ledger_follows_def by (meson dual_order.strict_trans1 order_trans transpD)

lemma ledger_follows_append: "reflp moves \<Longrightarrow> ledger_follows moves t (t @ u)"
  by (simp add: ledger_follows_def nth_append reflp_def)

lemma ledger_follows_updated:
  assumes "reflp moves" and "\<And>r. r \<in> set t \<Longrightarrow> P r \<Longrightarrow> moves r (f r)"
  shows "ledger_follows moves t (updated P f t)"
  using assms by (simp add: ledger_follows_def updated_def reflp_def)

text \<open>
  The interface of every durable repository: \<open>rows\<close> reads the table out of the state,
  \<open>step\<close> is one transaction, and \<open>settles\<close> is what the repository promises of it.
  A row whose only move is to stay is final.
\<close>

locale durable_ledger =
  fixes rows :: "'s \<Rightarrow> 'r list"
    and key :: "'r \<Rightarrow> 'k"
    and moves :: "'r \<Rightarrow> 'r \<Rightarrow> bool"
    and step :: "'s \<Rightarrow> 's \<Rightarrow> bool"
  assumes refl: "reflp moves"
    and trans: "transp moves"
    and key_kept: "moves r r' \<Longrightarrow> key r' = key r"
    and settles: "step s s' \<Longrightarrow> ledger_follows moves (rows s) (rows s')"
begin

lemma settles_star: "step\<^sup>*\<^sup>* s s' \<Longrightarrow> ledger_follows moves (rows s) (rows s')"
  by (induction rule: rtranclp_induct)
    (auto intro: ledger_follows_refl [OF refl] ledger_follows_trans [OF trans] settles)

lemma row_moves:
  assumes "step\<^sup>*\<^sup>* s s'" and "r \<in> set (rows s)"
  shows "\<exists>r'\<in>set (rows s'). moves r r'"
proof -
  from assms(2) obtain i where i: "i < length (rows s)" "r = rows s ! i" by (auto simp: in_set_conv_nth)
  from settles_star [OF assms(1)] i have "moves r (rows s' ! i)" "i < length (rows s')"
    by (auto simp: ledger_follows_def)
  then show ?thesis by auto
qed

text \<open>What is found under a key later has moved on from what was found there before.\<close>

lemma key_moves:
  assumes "step\<^sup>*\<^sup>* s s'" and "distinct (map key (rows s'))"
    and "r \<in> set (rows s)" "r' \<in> set (rows s')" "key r' = key r"
  shows "moves r r'"
proof -
  from row_moves [OF assms(1,3)] obtain x where x: "x \<in> set (rows s')" "moves r x" by blast
  with key_kept assms(5) have "key x = key r'" by simp
  with assms(2,4) x(1) have "x = r'" by (auto simp: distinct_map inj_on_def)
  with x show ?thesis by simp
qed

lemma one_outcome:
  assumes "step\<^sup>*\<^sup>* s s'" and "distinct (map key (rows s'))"
    and "r \<in> set (rows s)" "\<And>x. moves r x \<Longrightarrow> x = r" "r' \<in> set (rows s')" "key r' = key r"
  shows "r' = r"
  using key_moves [OF assms(1-3,5,6)] assms(4) by blast

end

end
