(* ===== verification/Cost_Tracker.thy ===== *)
theory Cost_Tracker
  imports Prelude Complex_Main
begin

text \<open>
  Exact nano-USD pricing of model calls (\<open>observability/cost_tracker.py\<close>): the price table,
  the canonical provider/model pair, the price of one usage report and the quote of a call over
  several candidates.

  The code multiplies \<open>Decimal\<close> values; the model uses \<^typ>\<open>rat\<close>. The lemma
  \<open>usage_sum_decimal\<close> shows that every sum the code forms has at most 25 digits with seven
  decimals, inside the 28 digits of Python's default decimal context, so that the decimal
  arithmetic is exact and the two agree. The remaining factor \<open>10 ^ 9 / 1000\<close> only moves
  the decimal point.
\<close>

datatype pricing_error = UnknownModelPricing | PricingValueError | PricingOverflowError

record model_pricing =
  mp_input :: rat
  mp_output :: rat
  mp_cache_read :: "rat option"
  mp_cache_write :: "rat option"
  mp_providers :: "string list"

definition MODEL_PRICING :: "(string \<times> model_pricing) list" where
  "MODEL_PRICING =
    [(''claude-opus-4-6'', \<lparr>mp_input = 5 / 1000, mp_output = 25 / 1000,
        mp_cache_read = Some (5 / 10000), mp_cache_write = Some (625 / 100000),
        mp_providers = [''anthropic'', ''foundry'']\<rparr>),
     (''claude-sonnet-4-20250514'', \<lparr>mp_input = 3 / 1000, mp_output = 15 / 1000,
        mp_cache_read = Some (3 / 10000), mp_cache_write = Some (375 / 100000),
        mp_providers = [''anthropic'', ''foundry'']\<rparr>),
     (''claude-haiku-3'', \<lparr>mp_input = 25 / 100000, mp_output = 125 / 100000,
        mp_cache_read = Some (25 / 1000000), mp_cache_write = Some (3125 / 10000000),
        mp_providers = [''anthropic'', ''foundry'']\<rparr>),
     (''gpt-4o'', \<lparr>mp_input = 25 / 10000, mp_output = 1 / 100,
        mp_cache_read = None, mp_cache_write = None,
        mp_providers = [''openai'', ''foundry'']\<rparr>),
     (''gpt-4o-mini'', \<lparr>mp_input = 15 / 100000, mp_output = 6 / 10000,
        mp_cache_read = None, mp_cache_write = None,
        mp_providers = [''openai'', ''foundry'']\<rparr>),
     (''gpt-4-turbo'', \<lparr>mp_input = 1 / 100, mp_output = 3 / 100,
        mp_cache_read = None, mp_cache_write = None,
        mp_providers = [''openai'', ''foundry'']\<rparr>),
     (''o1'', \<lparr>mp_input = 15 / 1000, mp_output = 6 / 100,
        mp_cache_read = None, mp_cache_write = None,
        mp_providers = [''openai'', ''foundry'']\<rparr>),
     (''llama3.1:8b'', \<lparr>mp_input = 0, mp_output = 0,
        mp_cache_read = None, mp_cache_write = None, mp_providers = [''ollama'']\<rparr>),
     (''llava:7b'', \<lparr>mp_input = 0, mp_output = 0,
        mp_cache_read = None, mp_cache_write = None, mp_providers = [''ollama'']\<rparr>),
     (''mock-model'', \<lparr>mp_input = 0, mp_output = 0,
        mp_cache_read = None, mp_cache_write = None, mp_providers = [''mock'']\<rparr>),
     (''default'', \<lparr>mp_input = 1 / 1000, mp_output = 2 / 1000,
        mp_cache_read = None, mp_cache_write = None, mp_providers = []\<rparr>)]"

text \<open>
  \<open>str.casefold\<close> where it matters: on code points below 256 no other folding than the ASCII
  one produces a string of the alias table.
\<close>

definition casefold :: "string \<Rightarrow> string" where
  "casefold s = map (\<lambda>c. if ascii_upper c then lower_char c else c) s"

definition supports_cache_pricing :: "string \<Rightarrow> bool" where
  "supports_cache_pricing provider =
     (filter ascii_alnum (casefold provider)
        \<in> set [''anthropic'', ''anthropicadapter'', ''foundry'', ''foundryadapter''])"

definition provider_aliases :: "(string \<times> string) list" where
  "provider_aliases =
    [(''openai'', ''openai''), (''openaiadapter'', ''openai''),
     (''anthropic'', ''anthropic''), (''anthropicadapter'', ''anthropic''),
     (''foundry'', ''foundry''), (''foundryadapter'', ''foundry''),
     (''ollama'', ''ollama''), (''ollamaadapter'', ''ollama''),
     (''mock'', ''mock'')]"

definition validated_pricing_pair :: "string \<Rightarrow> string \<Rightarrow> pricing_error + string \<times> string" where
  "validated_pricing_pair model provider =
     (if model = [] \<or> model = ''default'' then Inl UnknownModelPricing
      else (case map_of MODEL_PRICING model of
          None \<Rightarrow> Inl UnknownModelPricing
        | Some pricing \<Rightarrow>
            if provider = [] then Inl PricingValueError
            else (case map_of provider_aliases (casefold provider) of
                None \<Rightarrow> Inl UnknownModelPricing
              | Some family \<Rightarrow>
                  if family \<in> set (mp_providers pricing) then Inr (family, model)
                  else Inl UnknownModelPricing)))"

definition token_count_ok :: "int \<Rightarrow> bool" where
  "token_count_ok n = (0 \<le> n \<and> n \<le> MAX_BIGINT)"

definition optional_count :: "int option \<Rightarrow> int" where
  "optional_count n = (case n of None \<Rightarrow> 0 | Some k \<Rightarrow> k)"

definition read_rate :: "model_pricing \<Rightarrow> bool \<Rightarrow> rat" where
  "read_rate p cache_rates =
     (case mp_cache_read p of None \<Rightarrow> mp_input p | Some x \<Rightarrow> if cache_rates then x else mp_input p)"

definition write_rate :: "model_pricing \<Rightarrow> bool \<Rightarrow> rat" where
  "write_rate p cache_rates =
     (case mp_cache_write p of None \<Rightarrow> mp_input p | Some x \<Rightarrow> if cache_rates then x else mp_input p)"

text \<open>The sum inside the price, in USD per thousand tokens times tokens.\<close>

definition usage_sum :: "model_pricing \<Rightarrow> bool \<Rightarrow> int \<Rightarrow> int \<Rightarrow> int \<Rightarrow> int \<Rightarrow> rat" where
  "usage_sum p cache_rates i out r w =
     of_int (i - r - w) * mp_input p + of_int r * read_rate p cache_rates
     + of_int w * write_rate p cache_rates + of_int out * mp_output p"

definition usage_nusd :: "model_pricing \<Rightarrow> bool \<Rightarrow> int \<Rightarrow> int \<Rightarrow> int \<Rightarrow> int \<Rightarrow> int" where
  "usage_nusd p cache_rates i out r w = \<lceil>usage_sum p cache_rates i out r w * 10 ^ 9 / 1000\<rceil>"

definition price_model_usage_nusd ::
  "string \<Rightarrow> string \<Rightarrow> int \<Rightarrow> int \<Rightarrow> int option \<Rightarrow> int option \<Rightarrow> pricing_error + int" where
  "price_model_usage_nusd model provider input_tokens output_tokens cache_read cache_write =
     (case validated_pricing_pair model provider of
        Inl e \<Rightarrow> Inl e
      | Inr (family, m) \<Rightarrow>
          if \<not> (token_count_ok input_tokens \<and> token_count_ok output_tokens
                \<and> pred_option token_count_ok cache_read \<and> pred_option token_count_ok cache_write)
          then Inl PricingValueError
          else
            let r = optional_count cache_read; w = optional_count cache_write in
            if r + w > input_tokens then Inl PricingValueError
            else (case map_of MODEL_PRICING m of
                None \<Rightarrow> Inl UnknownModelPricing
              | Some p \<Rightarrow>
                  let integral = usage_nusd p (supports_cache_pricing family)
                                   input_tokens output_tokens r w in
                  if 0 \<le> integral \<and> integral \<le> MAX_BIGINT then Inr integral
                  else Inl PricingOverflowError))"

text \<open>The quotes of one candidate: uncached, all input read from cache, all input written to it.\<close>

fun collect :: "('e + 'a) list \<Rightarrow> 'e + 'a list" where
  "collect [] = Inr []"
| "collect (x # xs) =
     (case x of Inl e \<Rightarrow> Inl e
      | Inr v \<Rightarrow> (case collect xs of Inl e \<Rightarrow> Inl e | Inr vs \<Rightarrow> Inr (v # vs)))"

definition max_list :: "int list \<Rightarrow> int" where
  "max_list xs = fold max (tl xs) (hd xs)"

definition candidate_prices :: "string \<Rightarrow> string \<Rightarrow> model_pricing \<Rightarrow> int \<Rightarrow> int \<Rightarrow> (pricing_error + int) list" where
  "candidate_prices m family p max_in max_out =
     [price_model_usage_nusd m family max_in max_out None None]
     @ (if supports_cache_pricing family \<and> mp_cache_read p \<noteq> None
        then [price_model_usage_nusd m family max_in max_out (Some max_in) None] else [])
     @ (if supports_cache_pricing family \<and> mp_cache_write p \<noteq> None
        then [price_model_usage_nusd m family max_in max_out None (Some max_in)] else [])"

definition candidate_quote :: "int \<Rightarrow> int \<Rightarrow> string \<times> string \<Rightarrow> pricing_error + int" where
  "candidate_quote max_in max_out candidate =
     (case candidate of (provider, model) \<Rightarrow>
        if provider = [] \<or> model = [] then Inl PricingValueError
        else (case validated_pricing_pair model provider of
          Inl e \<Rightarrow> Inl e
        | Inr (family, m) \<Rightarrow>
            (case map_of MODEL_PRICING m of
               None \<Rightarrow> Inl UnknownModelPricing
             | Some p \<Rightarrow> map_sum id max_list (collect (candidate_prices m family p max_in max_out)))))"

definition quote_model_call_nusd :: "(string \<times> string) list \<Rightarrow> int \<Rightarrow> int \<Rightarrow> pricing_error + int" where
  "quote_model_call_nusd candidates max_in max_out =
     (if \<not> token_count_ok max_in \<or> \<not> token_count_ok max_out then Inl PricingValueError
      else if candidates = [] then Inl PricingValueError
      else map_sum id max_list (collect (map (candidate_quote max_in max_out) candidates)))"

subsection \<open>The price table\<close>

definition rate_ok :: "rat \<Rightarrow> bool" where
  "rate_ok x = (0 \<le> x \<and> x = of_int \<lfloor>x * 10 ^ 7\<rfloor> / 10 ^ 7 \<and> \<lfloor>x * 10 ^ 7\<rfloor> \<in> {0..600000})"

definition row_ok :: "model_pricing \<Rightarrow> bool" where
  "row_ok p = (rate_ok (mp_input p) \<and> rate_ok (mp_output p)
     \<and> (\<forall>c. rate_ok (read_rate p c) \<and> rate_ok (write_rate p c)))"

lemma pricing_rows_ok: "list_all row_ok (map snd MODEL_PRICING)"
  by (simp add: MODEL_PRICING_def row_ok_def rate_ok_def read_rate_def write_rate_def)

lemma pricing_row_ok: "map_of MODEL_PRICING m = Some p \<Longrightarrow> row_ok p"
  using pricing_rows_ok by (force simp: list_all_iff dest: map_of_SomeD)

lemma MODEL_PRICING_rates:
  assumes "map_of MODEL_PRICING m = Some p"
  shows "0 \<le> mp_input p" and "0 \<le> mp_output p"
    and "0 \<le> read_rate p c" and "0 \<le> write_rate p c"
  using pricing_row_ok [OF assms] by (simp_all add: row_ok_def rate_ok_def)

lemma validated_pricing_pairD:
  assumes "validated_pricing_pair m p = Inr (f, m')"
  shows "m' = m" and "m \<noteq> ''default''" and "\<exists>pr. map_of MODEL_PRICING m = Some pr \<and> f \<in> set (mp_providers pr)"
  using assms by (auto simp: validated_pricing_pair_def split: if_splits option.splits)

lemma provider_family:
  "list_all (\<lambda>f. map_of provider_aliases (casefold f) = Some f \<and> f \<noteq> []) (map snd provider_aliases)"
  by code_simp

text \<open>A canonical pair is its own canonical pair.\<close>

lemma validated_pricing_pair_idem:
  assumes "validated_pricing_pair m p = Inr (f, m')"
  shows "validated_pricing_pair m' f = Inr (f, m')"
proof -
  from assms obtain pr where *: "m' = m" "m \<noteq> []" "m \<noteq> ''default''"
    "map_of MODEL_PRICING m = Some pr" "f \<in> set (mp_providers pr)"
    "map_of provider_aliases (casefold p) = Some f"
    by (auto simp: validated_pricing_pair_def split: if_splits option.splits)
  from map_of_SomeD [OF *(6)] have "f \<in> set (map snd provider_aliases)" by force
  with provider_family have "map_of provider_aliases (casefold f) = Some f" and "f \<noteq> []"
    by (auto simp only: list_all_iff)
  with * show ?thesis by (simp add: validated_pricing_pair_def)
qed

subsection \<open>Quotes dominate prices\<close>

lemma max_list_Max: "xs \<noteq> [] \<Longrightarrow> max_list xs = Max (set xs)"
  by (metis Max.set_eq_fold list.sel max_list_def neq_Nil_conv)

lemma max_list_ge: "x \<in> set xs \<Longrightarrow> x \<le> max_list xs"
  by (subst max_list_Max) auto

lemma max_list_in: "xs \<noteq> [] \<Longrightarrow> max_list xs \<in> set xs"
  by (simp add: max_list_Max)

lemma collect_Inr: "collect xs = Inr vs \<Longrightarrow> xs = map Inr vs"
  by (induction xs arbitrary: vs) (auto split: sum.splits)

lemma price_InrD:
  assumes "price_model_usage_nusd m p i out r w = Inr a"
  shows "\<exists>f pr. validated_pricing_pair m p = Inr (f, m) \<and> map_of MODEL_PRICING m = Some pr \<and>
    a = usage_nusd pr (supports_cache_pricing f) i out (optional_count r) (optional_count w) \<and>
    0 \<le> a \<and> a \<le> MAX_BIGINT"
  using assms
  by (auto simp: price_model_usage_nusd_def Let_def
      dest: validated_pricing_pairD split: sum.splits if_splits option.splits)

lemma usage_sum_mono:
  assumes "0 \<le> mp_input p" "0 \<le> mp_output p" "0 \<le> read_rate p c" "0 \<le> write_rate p c"
    and "0 \<le> r" "0 \<le> w" "r + w \<le> i" "i \<le> I" "0 \<le> out" "out \<le> Out"
    and M: "mp_input p \<le> M" "read_rate p c \<le> M" "write_rate p c \<le> M"
  shows "usage_sum p c i out r w \<le> of_int I * M + of_int Out * mp_output p"
proof -
  have "0 \<le> M" using assms(1) M(1) by linarith
  have "of_int (i - r - w) * mp_input p \<le> of_int (i - r - w) * M"
    using assms by (intro mult_left_mono) auto
  moreover have "of_int r * read_rate p c \<le> of_int r * M"
    using assms by (intro mult_left_mono) auto
  moreover have "of_int w * write_rate p c \<le> of_int w * M"
    using assms by (intro mult_left_mono) auto
  moreover have "of_int out * mp_output p \<le> of_int Out * mp_output p"
    using assms by (intro mult_right_mono) auto
  moreover have "of_int (i - r - w) * M + of_int r * M + of_int w * M = of_int i * M"
    by (simp add: algebra_simps)
  moreover have "of_int i * M \<le> of_int I * M"
    using assms \<open>0 \<le> M\<close> by (intro mult_right_mono) auto
  ultimately show ?thesis unfolding usage_sum_def by linarith
qed

lemma usage_sum_extremes:
  "usage_sum p c I out 0 0 = of_int I * mp_input p + of_int out * mp_output p"
  "usage_sum p c I out I 0 = of_int I * read_rate p c + of_int out * mp_output p"
  "usage_sum p c I out 0 I = of_int I * write_rate p c + of_int out * mp_output p"
  by (simp_all add: usage_sum_def)

lemma map_sum_InrE:
  assumes "map_sum id g x = Inr y"
  obtains v where "x = Inr v" and "y = g v"
  using assms by (cases x) auto

lemma candidate_quoteE:
  assumes "candidate_quote I Out (prov, m) = Inr q"
  obtains f p vs where "validated_pricing_pair m prov = Inr (f, m)" "map_of MODEL_PRICING m = Some p"
    "candidate_prices m f p I Out = map Inr vs" "vs \<noteq> []" "q = max_list vs"
proof -
  from assms obtain f m' p where v: "validated_pricing_pair m prov = Inr (f, m')"
    and p: "map_of MODEL_PRICING m' = Some p"
    and q: "map_sum id max_list (collect (candidate_prices m' f p I Out)) = Inr q"
    by (auto simp: candidate_quote_def split: if_splits sum.splits option.splits)
  from q obtain vs where vs: "collect (candidate_prices m' f p I Out) = Inr vs" "q = max_list vs"
    by (rule map_sum_InrE)
  from collect_Inr [OF vs(1)] have eq: "candidate_prices m' f p I Out = map Inr vs" .
  then have "vs \<noteq> []" by (auto simp: candidate_prices_def)
  with that v p eq vs(2) validated_pricing_pairD(1) [OF v] show thesis by blast
qed

lemma candidate_pricesD:
  assumes "candidate_prices m f p I Out = map Inr vs" and "a \<in> set vs"
  shows "\<exists>r w. price_model_usage_nusd m f I Out r w = Inr a"
proof -
  have "Inr a \<in> set (candidate_prices m f p I Out)" using assms by simp
  then show ?thesis by (auto simp: candidate_prices_def split: if_splits dest: sym)
qed

lemma candidate_quote_bigint:
  assumes "candidate_quote I Out (prov, m) = Inr q"
  shows "q \<le> MAX_BIGINT"
  using assms
  by (rule candidate_quoteE) (metis candidate_pricesD max_list_in price_InrD)

lemma candidate_quote_extremes:
  assumes q: "candidate_quote I Out (prov, m) = Inr q"
    and v: "validated_pricing_pair m prov = Inr (f, m)" and pr: "map_of MODEL_PRICING m = Some p"
  defines "c \<equiv> supports_cache_pricing f"
  shows "\<lceil>(of_int I * mp_input p + of_int Out * mp_output p) * 10 ^ 9 / 1000\<rceil> \<le> q"
    and "\<lceil>(of_int I * read_rate p c + of_int Out * mp_output p) * 10 ^ 9 / 1000\<rceil> \<le> q"
    and "\<lceil>(of_int I * write_rate p c + of_int Out * mp_output p) * 10 ^ 9 / 1000\<rceil> \<le> q"
proof -
  from q v pr obtain vs where vs: "candidate_prices m f p I Out = map Inr vs" "q = max_list vs"
    by (elim candidate_quoteE) auto
  have ge: "usage_nusd p c I Out (optional_count r) (optional_count w) \<le> q"
    if "price_model_usage_nusd m f I Out r w \<in> set (candidate_prices m f p I Out)" for r w
  proof -
    from that vs(1) obtain a where "price_model_usage_nusd m f I Out r w = Inr a" "a \<in> set vs"
      by auto
    with price_InrD [of m f I Out r w a] validated_pricing_pair_idem [OF v] pr vs(2) show ?thesis
      by (auto simp: c_def max_list_ge)
  qed
  show plain: "\<lceil>(of_int I * mp_input p + of_int Out * mp_output p) * 10 ^ 9 / 1000\<rceil> \<le> q"
    using ge [of None None]
    by (simp add: usage_nusd_def optional_count_def usage_sum_extremes candidate_prices_def)
  show "\<lceil>(of_int I * read_rate p c + of_int Out * mp_output p) * 10 ^ 9 / 1000\<rceil> \<le> q"
  proof (cases "c \<and> mp_cache_read p \<noteq> None")
    case True
    with ge [of "Some I" None] show ?thesis
      by (simp add: c_def usage_nusd_def optional_count_def usage_sum_extremes candidate_prices_def)
  next
    case False
    with plain show ?thesis by (auto simp: read_rate_def split: option.splits)
  qed
  show "\<lceil>(of_int I * write_rate p c + of_int Out * mp_output p) * 10 ^ 9 / 1000\<rceil> \<le> q"
  proof (cases "c \<and> mp_cache_write p \<noteq> None")
    case True
    with ge [of None "Some I"] show ?thesis
      by (simp add: c_def usage_nusd_def optional_count_def usage_sum_extremes candidate_prices_def)
  next
    case False
    with plain show ?thesis by (auto simp: write_rate_def split: option.splits)
  qed
qed

lemma usage_nusd_le_quote:
  assumes q: "candidate_quote I Out (prov, m) = Inr q"
    and v: "validated_pricing_pair m prov = Inr (f, m)" and pr: "map_of MODEL_PRICING m = Some p"
    and b: "0 \<le> r" "0 \<le> w" "r + w \<le> i" "i \<le> I" "0 \<le> out" "out \<le> Out"
  shows "usage_nusd p (supports_cache_pricing f) i out r w \<le> q"
proof -
  let ?c = "supports_cache_pricing f"
  define M where "M = max (mp_input p) (max (read_rate p ?c) (write_rate p ?c))"
  note rates = MODEL_PRICING_rates [OF pr]
  note ext = candidate_quote_extremes [OF q v pr]
  have "M = mp_input p \<or> M = read_rate p ?c \<or> M = write_rate p ?c"
    by (auto simp: M_def max_def)
  then have "\<lceil>(of_int I * M + of_int Out * mp_output p) * 10 ^ 9 / 1000\<rceil> \<le> q"
    using ext by metis
  moreover have "usage_sum p ?c i out r w \<le> of_int I * M + of_int Out * mp_output p"
    using rates b by (intro usage_sum_mono) (auto simp: M_def)
  then have "usage_nusd p ?c i out r w \<le> \<lceil>(of_int I * M + of_int Out * mp_output p) * 10 ^ 9 / 1000\<rceil>"
    unfolding usage_nusd_def by (intro ceiling_mono) simp
  ultimately show ?thesis by linarith
qed

lemma usage_nusd_nonneg:
  assumes "map_of MODEL_PRICING m = Some p" and "0 \<le> r" "0 \<le> w" "r + w \<le> i" "0 \<le> out"
  shows "0 \<le> usage_nusd p c i out r w"
proof -
  note rates = MODEL_PRICING_rates [OF assms(1)]
  have "0 \<le> usage_sum p c i out r w"
    unfolding usage_sum_def using rates assms by (intro add_nonneg_nonneg mult_nonneg_nonneg) auto
  then show ?thesis by (simp add: usage_nusd_def)
qed

lemma quote_candidate:
  assumes "quote_model_call_nusd cands I Out = Inr q" and "cand \<in> set cands"
  shows "\<exists>cq. candidate_quote I Out cand = Inr cq \<and> cq \<le> q"
proof -
  let ?qs = "map (candidate_quote I Out) cands"
  from assms(1) obtain vs where vs: "collect ?qs = Inr vs" and q: "q = max_list vs"
    by (cases "collect ?qs") (auto simp: quote_model_call_nusd_def split: if_splits)
  from assms(2) collect_Inr [OF vs] have "candidate_quote I Out cand \<in> Inr ` set vs"
    by (metis image_eqI image_set)
  with q max_list_ge show ?thesis by fastforce
qed

lemma price_bound_by_quote:
  assumes q: "quote_model_call_nusd cands I Out = Inr q" and "(prov, m) \<in> set cands"
    and counts: "0 \<le> optional_count r" "0 \<le> optional_count w"
      "optional_count r + optional_count w \<le> i" "i \<le> I" "0 \<le> out" "out \<le> Out"
      "pred_option token_count_ok r" "pred_option token_count_ok w"
  shows "\<exists>a. price_model_usage_nusd m prov i out r w = Inr a \<and> a \<le> q"
proof -
  from quote_candidate [OF assms(1,2)] obtain cq where
    cq: "candidate_quote I Out (prov, m) = Inr cq" "cq \<le> q" by blast
  from cq(1) obtain f p where
    v: "validated_pricing_pair m prov = Inr (f, m)" and p: "map_of MODEL_PRICING m = Some p"
    by (rule candidate_quoteE)
  let ?n = "usage_nusd p (supports_cache_pricing f) i out (optional_count r) (optional_count w)"
  have le: "?n \<le> cq" using usage_nusd_le_quote [OF cq(1) v p] counts by blast
  have nonneg: "0 \<le> ?n" using usage_nusd_nonneg [OF p] counts by blast
  have "token_count_ok I" "token_count_ok Out"
    using q by (auto simp: quote_model_call_nusd_def split: if_splits)
  with counts have ok: "token_count_ok i" "token_count_ok out"
    by (auto simp: token_count_ok_def)
  have "cq \<le> MAX_BIGINT" by (rule candidate_quote_bigint [OF cq(1)])
  with le nonneg v p ok counts cq(2) show ?thesis
    by (auto simp: price_model_usage_nusd_def Let_def)
qed

lemmas pricing_eval =
  quote_model_call_nusd_def candidate_quote_def candidate_prices_def price_model_usage_nusd_def
  validated_pricing_pair_def token_count_ok_def optional_count_def MAX_BIGINT_def Let_def
  MODEL_PRICING_def provider_aliases_def casefold_def ascii_upper_def supports_cache_pricing_def
  ascii_alnum_def ascii_lower_def ascii_digit_def usage_nusd_def usage_sum_def read_rate_def
  write_rate_def max_list_def

text \<open>
  C22: If the quote of a call over a list of candidates succeeds, then every usage report the
  provider can send back for one of those candidates within the quoted token bounds, with any
  split of the input into uncached, cache-read and cache-write tokens, is priced successfully and
  costs no more than the quote. So a reservation of the quote always covers the reconciled price.
\<close>

theorem quote_covers_price:
  assumes "quote_model_call_nusd cands max_in max_out = Inr q" and "(provider, model) \<in> set cands"
    and "0 \<le> i" "i \<le> max_in" "0 \<le> out" "out \<le> max_out"
    and "case r of None \<Rightarrow> True | Some k \<Rightarrow> 0 \<le> k \<and> k \<le> i"
    and "case w of None \<Rightarrow> True | Some k \<Rightarrow> 0 \<le> k \<and> k \<le> i"
    and "optional_count r + optional_count w \<le> i"
  shows "\<exists>a. price_model_usage_nusd model provider i out r w = Inr a \<and> 0 \<le> a \<and> a \<le> q"
proof -
  have "token_count_ok max_in"
    using assms(1) by (auto simp: quote_model_call_nusd_def split: if_splits)
  with assms have "pred_option token_count_ok r" "pred_option token_count_ok w"
    by (auto simp: token_count_ok_def split: option.splits)
  moreover have "0 \<le> optional_count r" "0 \<le> optional_count w"
    using assms by (auto simp: optional_count_def split: option.splits)
  ultimately obtain a where "price_model_usage_nusd model provider i out r w = Inr a" "a \<le> q"
    using price_bound_by_quote [OF assms(1,2)] assms by blast
  with price_InrD [OF this(1)] show ?thesis by auto
qed

theorem quote_covers_price_witness:
  "quote_model_call_nusd [(''anthropic'', ''claude-haiku-3'')] 1000 10 = Inr 325000 \<and>
   (\<exists>a. price_model_usage_nusd ''claude-haiku-3'' ''anthropic'' 900 10 (Some 300) (Some 200) = Inr a
        \<and> 0 \<le> a \<and> a \<le> 325000)"
proof -
  have q: "quote_model_call_nusd [(''anthropic'', ''claude-haiku-3'')] 1000 10 = Inr 325000"
    by (simp add: pricing_eval)
  show ?thesis
    using q quote_covers_price [OF q, of "''anthropic''" "''claude-haiku-3''" 900 10 "Some 300" "Some 200"]
    by (simp add: optional_count_def)
qed

subsection \<open>Decimal arithmetic is exact\<close>

lemma MODEL_PRICING_decimals:
  assumes "map_of MODEL_PRICING m = Some p"
  shows "\<exists>a b c d. mp_input p = of_int a / 10 ^ 7 \<and> mp_output p = of_int b / 10 ^ 7 \<and>
    read_rate p cr = of_int c / 10 ^ 7 \<and> write_rate p cr = of_int d / 10 ^ 7 \<and>
    {a, b, c, d} \<subseteq> {0..600000}"
proof (intro exI conjI)
  note ok = pricing_row_ok [OF assms]
  show "mp_input p = of_int \<lfloor>mp_input p * 10 ^ 7\<rfloor> / 10 ^ 7"
    "mp_output p = of_int \<lfloor>mp_output p * 10 ^ 7\<rfloor> / 10 ^ 7"
    "read_rate p cr = of_int \<lfloor>read_rate p cr * 10 ^ 7\<rfloor> / 10 ^ 7"
    "write_rate p cr = of_int \<lfloor>write_rate p cr * 10 ^ 7\<rfloor> / 10 ^ 7"
    using ok unfolding row_ok_def rate_ok_def by blast+
  show "{\<lfloor>mp_input p * 10 ^ 7\<rfloor>, \<lfloor>mp_output p * 10 ^ 7\<rfloor>, \<lfloor>read_rate p cr * 10 ^ 7\<rfloor>,
      \<lfloor>write_rate p cr * 10 ^ 7\<rfloor>} \<subseteq> {0..600000}"
    using ok unfolding row_ok_def rate_ok_def insert_subset by blast
qed

lemma scaled_sum_bound:
  fixes a b c d i out r w :: int
  assumes "{a, b, c, d} \<subseteq> {0..600000}" "0 \<le> r" "0 \<le> w" "r + w \<le> i" "0 \<le> out"
    "i \<le> MAX_BIGINT" "out \<le> MAX_BIGINT"
  shows "0 \<le> (i - r - w) * a + r * c + w * d + out * b"
    and "(i - r - w) * a + r * c + w * d + out * b < 10 ^ 25 * 2"
proof -
  show "0 \<le> (i - r - w) * a + r * c + w * d + out * b"
    using assms by (intro add_nonneg_nonneg mult_nonneg_nonneg) auto
  have "(i - r - w) * a \<le> (i - r - w) * 600000" "r * c \<le> r * 600000"
    "w * d \<le> w * 600000" "out * b \<le> out * 600000"
    using assms by (auto simp only: insert_subset atLeastAtMost_iff intro!: mult_left_mono)
  then show "(i - r - w) * a + r * c + w * d + out * b < 10 ^ 25 * 2"
    using assms(6,7) by (simp add: MAX_BIGINT_def algebra_simps)
qed

lemma usage_sum_decimal:
  assumes "map_of MODEL_PRICING m = Some p" "0 \<le> r" "0 \<le> w" "r + w \<le> i" "0 \<le> out"
    "i \<le> MAX_BIGINT" "out \<le> MAX_BIGINT"
  shows "\<exists>n::int. usage_sum p cr i out r w = of_int n / 10 ^ 7 \<and> 0 \<le> n \<and> n < 10 ^ 28"
proof -
  from MODEL_PRICING_decimals [OF assms(1), of cr] obtain a b c d where
    r: "mp_input p = of_int a / 10 ^ 7" "mp_output p = of_int b / 10 ^ 7"
    "read_rate p cr = of_int c / 10 ^ 7" "write_rate p cr = of_int d / 10 ^ 7"
    and ab: "{a, b, c, d} \<subseteq> {0..600000}" by blast
  let ?n = "(i - r - w) * a + r * c + w * d + out * b"
  have "usage_sum p cr i out r w = of_int ?n / 10 ^ 7"
    by (simp add: usage_sum_def r add_divide_distrib)
  moreover have "0 \<le> ?n" "?n < 10 ^ 28"
    using scaled_sum_bound [OF ab assms(2-7)] by simp_all
  ultimately show ?thesis by blast
qed

end
