(* ===== verification/Monetary_Budget.thy ===== *)
theory Monetary_Budget
  imports Sql_Table Cost_Tracker "HOL-Library.List_Lexorder" "HOL-Library.Char_ord"
    "HOL-Library.Product_Lexorder"
begin

text \<open>
  The durable nano-USD ledger (\<open>services/monetary_budget.py\<close> with the tables of
  \<open>services/db_store.py\<close>): project budgets, run budgets and one charge row per model call.
  Every operation is one database transaction, written as a function from the three tables to
  the tables after the transaction and a result or the exception raised; a rollback returns the
  tables of the start. \<open>recover_stale\<close> reads its candidates in one transaction and settles
  each in another, so that the step for one candidate (\<open>recover_one\<close>) takes the possibly
  outdated snapshot as an argument.

  The step relation \<open>budget_step\<close> runs these transactions in any order, and
  \<open>budget_inv\<close> is the double-entry invariant of its reachable states: what an account holds
  as reserved or spent is exactly what the charges in its scope hold, never more than its limit.
\<close>

subsection \<open>Rows\<close>

datatype charge_state = Reserved | Dispatched | Reconciled | Released | Indeterminate

datatype budget_error =
    BudgetValueError
  | BudgetPricingError pricing_error
  | RunBudgetExceeded
  | ProjectBudgetExceeded
  | BudgetLimitConflict
  | ChargeStateConflict
  | ChargeConflict
  | QuoteExceeded
  | BudgetAssertionError
  | BudgetMultipleResults

record project_budget_row =
  pb_owner_id :: string
  pb_project_id :: string
  pb_limit_nusd :: int
  pb_spent_nusd :: int
  pb_reserved_nusd :: int
  pb_updated_at :: timestamp

record run_budget_row =
  rn_run_id :: string
  rn_user_id :: string
  rn_project_id :: string
  rn_limit_nusd :: int
  rn_spent_nusd :: int
  rn_reserved_nusd :: int
  rn_opened_at :: "timestamp option"

record model_charge_row =
  ch_charge_id :: string
  ch_owner_id :: string
  ch_project_id :: string
  ch_run_id :: string
  ch_ordinal :: int
  ch_state :: charge_state
  ch_reserved_nusd :: int
  ch_actual_nusd :: "int option"
  ch_provider :: "string option"
  ch_model :: "string option"
  ch_input_tokens :: "int option"
  ch_output_tokens :: "int option"
  ch_cache_read_tokens :: "int option"
  ch_cache_write_tokens :: "int option"
  ch_reason_code :: "string option"
  ch_created_at :: timestamp
  ch_updated_at :: timestamp
  ch_dispatched_at :: "timestamp option"
  ch_reconciled_at :: "timestamp option"

record budget_db =
  projects :: "project_budget_row list"
  runs :: "run_budget_row list"
  charges :: "model_charge_row list"

record charge_reservation =
  res_charge_id :: string
  res_state :: charge_state
  res_should_dispatch :: bool
  res_reserved_nusd :: int

record budget_summary =
  bs_project_limit :: int
  bs_project_spent :: int
  bs_project_reserved :: int
  bs_run_limit :: int
  bs_run_spent :: int
  bs_run_reserved :: int

subsection \<open>Validation and row conditions\<close>

definition id_ok :: "string \<Rightarrow> nat \<Rightarrow> bool" where
  "id_ok value maximum = (length value \<le> maximum \<and> SAFE_ID value)"

definition scope_ids_ok :: "string \<Rightarrow> string \<Rightarrow> string \<Rightarrow> string \<Rightarrow> bool" where
  "scope_ids_ok charge_id owner project run =
     (id_ok charge_id 128 \<and> id_ok owner 255 \<and> id_ok project 255 \<and> id_ok run 36)"

definition in_project :: "string \<Rightarrow> string \<Rightarrow> project_budget_row \<Rightarrow> bool" where
  "in_project owner project r = (pb_owner_id r = owner \<and> pb_project_id r = project)"

definition in_run :: "string \<Rightarrow> string \<Rightarrow> string \<Rightarrow> run_budget_row \<Rightarrow> bool" where
  "in_run owner project run r =
     (rn_run_id r = run \<and> rn_user_id r = owner \<and> rn_project_id r = project)"

definition charge_filters :: "string \<Rightarrow> string \<Rightarrow> string \<Rightarrow> string \<Rightarrow> model_charge_row \<Rightarrow> bool" where
  "charge_filters charge_id owner project run c =
     (ch_charge_id c = charge_id \<and> ch_owner_id c = owner \<and> ch_project_id c = project
      \<and> ch_run_id c = run)"

text \<open>The primary key and the unique constraint of the charge table.\<close>

definition charge_clash :: "model_charge_row \<Rightarrow> model_charge_row \<Rightarrow> bool" where
  "charge_clash a b =
     (ch_charge_id a = ch_charge_id b
      \<or> (ch_run_id a = ch_run_id b \<and> ch_ordinal a = ch_ordinal b))"

subsection \<open>Reading\<close>

definition summary ::
  "string \<Rightarrow> string \<Rightarrow> string \<Rightarrow> budget_db \<Rightarrow> budget_error + budget_summary option" where
  "summary owner project run db =
     (if \<not> (id_ok owner 255 \<and> id_ok project 255 \<and> id_ok run 36) then Inl BudgetValueError
      else
        (case [(p, r). p \<leftarrow> projects db, r \<leftarrow> runs db,
                 rn_user_id r = pb_owner_id p \<and> rn_project_id r = pb_project_id p
                 \<and> in_project owner project p \<and> rn_run_id r = run] of
           [] \<Rightarrow> Inr None
         | [(p, r)] \<Rightarrow> Inr (Some \<lparr>bs_project_limit = pb_limit_nusd p,
               bs_project_spent = pb_spent_nusd p, bs_project_reserved = pb_reserved_nusd p,
               bs_run_limit = rn_limit_nusd r, bs_run_spent = rn_spent_nusd r,
               bs_run_reserved = rn_reserved_nusd r\<rparr>)
         | _ \<Rightarrow> Inl BudgetMultipleResults))"

definition get_charge ::
  "string \<Rightarrow> string \<Rightarrow> string \<Rightarrow> string \<Rightarrow> budget_db \<Rightarrow> budget_error + model_charge_row option" where
  "get_charge charge_id owner project run db =
     (if \<not> scope_ids_ok charge_id owner project run then Inl BudgetValueError
      else Inr (scalar (select_where (charge_filters charge_id owner project run) (charges db))))"

definition list_charges ::
  "string \<Rightarrow> string \<Rightarrow> string \<Rightarrow> int \<Rightarrow> int \<Rightarrow> budget_db \<Rightarrow> budget_error + model_charge_row list" where
  "list_charges owner project run limit offset db =
     (if \<not> (id_ok owner 255 \<and> id_ok project 255 \<and> id_ok run 36) then Inl BudgetValueError
      else if \<not> (1 \<le> limit \<and> limit \<le> 200 \<and> 0 \<le> offset) then Inl BudgetValueError
      else Inr (take (nat limit) (drop (nat offset)
             (sort_key (\<lambda>c. (ch_ordinal c, ch_charge_id c))
                (select_where (\<lambda>c. ch_owner_id c = owner \<and> ch_project_id c = project
                                   \<and> ch_run_id c = run) (charges db))))))"

subsection \<open>Opening a run\<close>

definition new_project_row :: "timestamp \<Rightarrow> string \<Rightarrow> string \<Rightarrow> int \<Rightarrow> project_budget_row" where
  "new_project_row now owner project limit =
     \<lparr>pb_owner_id = owner, pb_project_id = project, pb_limit_nusd = limit,
      pb_spent_nusd = 0, pb_reserved_nusd = 0, pb_updated_at = now\<rparr>"

definition same_project :: "project_budget_row \<Rightarrow> project_budget_row \<Rightarrow> bool" where
  "same_project a b = (pb_owner_id a = pb_owner_id b \<and> pb_project_id a = pb_project_id b)"

definition open_result ::
  "string \<Rightarrow> string \<Rightarrow> string \<Rightarrow> budget_db \<Rightarrow> budget_db \<times> (budget_error + budget_summary)" where
  "open_result owner project run db =
     (db, case summary owner project run db of
            Inl e \<Rightarrow> Inl e
          | Inr None \<Rightarrow> Inl BudgetAssertionError
          | Inr (Some s) \<Rightarrow> Inr s)"

definition open_run ::
  "timestamp \<Rightarrow> string \<Rightarrow> string \<Rightarrow> string \<Rightarrow> int \<Rightarrow> int \<Rightarrow> budget_db
     \<Rightarrow> budget_db \<times> (budget_error + budget_summary)" where
  "open_run now owner project run run_limit project_limit db =
     (if \<not> (id_ok owner 255 \<and> id_ok project 255 \<and> id_ok run 36) then (db, Inl BudgetValueError)
      else if \<not> (bigint_range run_limit \<and> bigint_range project_limit)
      then (db, Inl BudgetValueError)
      else
        let db1 = db\<lparr>projects := fst (insert_or_ignore same_project
                     (new_project_row now owner project project_limit) (projects db))\<rparr> in
        (case scalar (select_where (in_project owner project) (projects db1)) of
           None \<Rightarrow> (db, Inl BudgetLimitConflict)
         | Some p \<Rightarrow>
             if pb_limit_nusd p \<noteq> project_limit then (db, Inl BudgetLimitConflict)
             else
               let P = (\<lambda>r. in_run owner project run r \<and> rn_opened_at r = None);
                   db2 = db1\<lparr>runs := updated P
                     (\<lambda>r. r\<lparr>rn_limit_nusd := run_limit, rn_opened_at := Some now\<rparr>) (runs db1)\<rparr> in
               if rowcount P (runs db1) \<noteq> 1 then
                 (case scalar (select_where (in_run owner project run) (runs db2)) of
                    None \<Rightarrow> (db, Inl BudgetValueError)
                  | Some r \<Rightarrow>
                      if rn_opened_at r = None \<or> rn_limit_nusd r \<noteq> run_limit
                      then (db, Inl BudgetLimitConflict)
                      else open_result owner project run db2)
               else open_result owner project run db2))"

subsection \<open>Reserving a call\<close>

definition duplicate ::
  "string \<Rightarrow> string \<Rightarrow> string \<Rightarrow> string \<Rightarrow> int \<Rightarrow> budget_db
     \<Rightarrow> budget_error + model_charge_row option" where
  "duplicate charge_id owner project run ordinal db =
     (case scalar (select_where (\<lambda>c. ch_owner_id c = owner \<and> ch_project_id c = project
              \<and> (ch_charge_id c = charge_id \<or> (ch_run_id c = run \<and> ch_ordinal c = ordinal)))
            (charges db)) of
        None \<Rightarrow> Inr None
      | Some row \<Rightarrow> if ch_run_id row \<noteq> run then Inl ChargeConflict else Inr (Some row))"

definition reservation :: "model_charge_row \<Rightarrow> bool \<Rightarrow> charge_reservation" where
  "reservation row should_dispatch =
     \<lparr>res_charge_id = ch_charge_id row, res_state = ch_state row,
      res_should_dispatch = should_dispatch, res_reserved_nusd = ch_reserved_nusd row\<rparr>"

text \<open>After a rollback: an existing charge answers for the call, else the error is raised.\<close>

definition duplicate_or ::
  "budget_error \<Rightarrow> budget_error + model_charge_row option \<Rightarrow> budget_error + charge_reservation" where
  "duplicate_or e d =
     (case d of Inl e' \<Rightarrow> Inl e' | Inr None \<Rightarrow> Inl e | Inr (Some row) \<Rightarrow> Inr (reservation row False))"

definition new_charge ::
  "timestamp \<Rightarrow> string \<Rightarrow> string \<Rightarrow> string \<Rightarrow> string \<Rightarrow> int \<Rightarrow> int \<Rightarrow> string \<Rightarrow> string
     \<Rightarrow> model_charge_row" where
  "new_charge now charge_id owner project run ordinal quote provider model =
     \<lparr>ch_charge_id = charge_id, ch_owner_id = owner, ch_project_id = project, ch_run_id = run,
      ch_ordinal = ordinal, ch_state = Reserved, ch_reserved_nusd = quote, ch_actual_nusd = None,
      ch_provider = Some provider, ch_model = Some model, ch_input_tokens = None,
      ch_output_tokens = None, ch_cache_read_tokens = None, ch_cache_write_tokens = None,
      ch_reason_code = None, ch_created_at = now, ch_updated_at = now,
      ch_dispatched_at = None, ch_reconciled_at = None\<rparr>"

definition reserve_call ::
  "timestamp \<Rightarrow> string \<Rightarrow> string \<Rightarrow> string \<Rightarrow> string \<Rightarrow> int \<Rightarrow> int \<Rightarrow> string \<Rightarrow> string \<Rightarrow> budget_db
     \<Rightarrow> budget_db \<times> (budget_error + charge_reservation)" where
  "reserve_call now charge_id owner project run ordinal quote provider model db =
     (if \<not> scope_ids_ok charge_id owner project run then (db, Inl BudgetValueError)
      else if \<not> (0 \<le> ordinal \<and> ordinal \<le> 2 ^ 31 - 1) then (db, Inl BudgetValueError)
      else if \<not> bigint_range quote then (db, Inl BudgetValueError)
      else if \<not> (id_ok provider 100 \<and> id_ok model 255) then (db, Inl BudgetValueError)
      else (case validated_pricing_pair model provider of
        Inl e \<Rightarrow> (db, Inl (BudgetPricingError e))
      | Inr (family, m) \<Rightarrow>
          let dup = duplicate charge_id owner project run ordinal db;
              PP = (\<lambda>p. in_project owner project p
                        \<and> quote \<le> pb_limit_nusd p - pb_spent_nusd p - pb_reserved_nusd p);
              PR = (\<lambda>r. in_run owner project run r \<and> rn_opened_at r \<noteq> None
                        \<and> quote \<le> rn_limit_nusd r - rn_spent_nusd r - rn_reserved_nusd r) in
          (case dup of
             Inl e \<Rightarrow> (db, Inl e)
           | Inr (Some row) \<Rightarrow> (db, Inr (reservation row False))
           | Inr None \<Rightarrow>
               if rowcount PP (projects db) \<noteq> 1 then (db, duplicate_or ProjectBudgetExceeded dup)
               else if rowcount PR (runs db) \<noteq> 1 then (db, duplicate_or RunBudgetExceeded dup)
               else
                 (case insert_unique charge_clash
                         (new_charge now charge_id owner project run ordinal quote family m)
                         (charges db) of
                    None \<Rightarrow> (db, duplicate_or ChargeConflict dup)
                  | Some cs \<Rightarrow>
                      (db\<lparr>projects := updated PP
                             (\<lambda>p. p\<lparr>pb_reserved_nusd := pb_reserved_nusd p + quote,
                                   pb_updated_at := now\<rparr>) (projects db),
                          runs := updated PR
                             (\<lambda>r. r\<lparr>rn_reserved_nusd := rn_reserved_nusd r + quote\<rparr>) (runs db),
                          charges := cs\<rparr>,
                       Inr \<lparr>res_charge_id = charge_id, res_state = Reserved,
                            res_should_dispatch = True, res_reserved_nusd = quote\<rparr>)))))"

subsection \<open>Transitions that move no money\<close>

text \<open>
  The two account updates of \<open>_simple_transition\<close> assign a column to itself: they lock the
  rows and count them.
\<close>

definition persisted_charge :: "string \<Rightarrow> budget_db \<Rightarrow> budget_error + model_charge_row" where
  "persisted_charge charge_id db =
     (case scalar (select_where (\<lambda>c. ch_charge_id c = charge_id) (charges db)) of
        None \<Rightarrow> Inl BudgetAssertionError | Some c \<Rightarrow> Inr c)"

definition simple_transition ::
  "timestamp \<Rightarrow> string \<Rightarrow> string \<Rightarrow> string \<Rightarrow> string \<Rightarrow> charge_state list \<Rightarrow> charge_state
     \<Rightarrow> (model_charge_row \<Rightarrow> model_charge_row) \<Rightarrow> budget_db
     \<Rightarrow> budget_db \<times> (budget_error + model_charge_row)" where
  "simple_transition now charge_id owner project run source target values_of db =
     (if \<not> scope_ids_ok charge_id owner project run then (db, Inl BudgetValueError)
      else
        let PC = (\<lambda>c. charge_filters charge_id owner project run c \<and> ch_state c \<in> set source);
            db' = db\<lparr>charges := updated PC
                   (\<lambda>c. values_of (c\<lparr>ch_state := target, ch_updated_at := now\<rparr>)) (charges db)\<rparr> in
        if rowcount (in_project owner project) (projects db) \<noteq> 1
           \<or> rowcount (in_run owner project run) (runs db) \<noteq> 1
           \<or> rowcount PC (charges db) \<noteq> 1
        then (db, Inl ChargeStateConflict)
        else (db', persisted_charge charge_id db'))"

definition mark_dispatched ::
  "timestamp \<Rightarrow> timestamp \<Rightarrow> string \<Rightarrow> string \<Rightarrow> string \<Rightarrow> string \<Rightarrow> budget_db
     \<Rightarrow> budget_db \<times> (budget_error + model_charge_row)" where
  "mark_dispatched dispatched now charge_id owner project run db =
     simple_transition now charge_id owner project run [Reserved] Dispatched
       (\<lambda>c. c\<lparr>ch_dispatched_at := Some dispatched\<rparr>) db"

definition mark_indeterminate ::
  "timestamp \<Rightarrow> string \<Rightarrow> string \<Rightarrow> string \<Rightarrow> string \<Rightarrow> string \<Rightarrow> budget_db
     \<Rightarrow> budget_db \<times> (budget_error + model_charge_row)" where
  "mark_indeterminate now charge_id owner project run reason db =
     (if \<not> id_ok reason 64 then (db, Inl BudgetValueError)
      else simple_transition now charge_id owner project run [Reserved, Dispatched] Indeterminate
        (\<lambda>c. c\<lparr>ch_reason_code := Some reason\<rparr>) db)"

subsection \<open>Reconciling a dispatched call\<close>

text \<open>The branch in which the trusted price is above the reservation: the money stays held.\<close>

definition quote_exceeded ::
  "timestamp \<Rightarrow> string \<Rightarrow> string \<Rightarrow> string \<Rightarrow> string \<Rightarrow> budget_db
     \<Rightarrow> budget_db \<times> (budget_error + model_charge_row)" where
  "quote_exceeded now charge_id owner project run db =
     (let PD = (\<lambda>c. charge_filters charge_id owner project run c \<and> ch_state c = Dispatched) in
      if rowcount (in_project owner project) (projects db) \<noteq> 1
         \<or> rowcount (in_run owner project run) (runs db) \<noteq> 1
         \<or> rowcount PD (charges db) \<noteq> 1
      then (db, Inl ChargeStateConflict)
      else (db\<lparr>charges := updated PD
              (\<lambda>c. c\<lparr>ch_state := Indeterminate, ch_reason_code := Some ''quote_exceeded'',
                    ch_updated_at := now\<rparr>) (charges db)\<rparr>,
            Inl QuoteExceeded))"

text \<open>The branch in which the reservation \<open>quote\<close> becomes the spending \<open>actual\<close>.\<close>

definition settle_charge ::
  "timestamp \<Rightarrow> string \<Rightarrow> string \<Rightarrow> string \<Rightarrow> string \<Rightarrow> int \<Rightarrow> int \<Rightarrow> int \<Rightarrow> int \<Rightarrow> int option
     \<Rightarrow> int option \<Rightarrow> string \<Rightarrow> string \<Rightarrow> budget_db \<Rightarrow> budget_db \<times> (budget_error + model_charge_row)" where
  "settle_charge now charge_id owner project run quote actual input_count output_count rd wr p' m' db =
     (let PP = (\<lambda>b. in_project owner project b \<and> pb_reserved_nusd b \<ge> quote);
          PR = (\<lambda>r. in_run owner project run r \<and> rn_reserved_nusd r \<ge> quote);
          PC = (\<lambda>c. charge_filters charge_id owner project run c \<and> ch_state c = Dispatched
                    \<and> ch_reserved_nusd c = quote);
          db' = db\<lparr>
            projects := updated PP
              (\<lambda>b. b\<lparr>pb_reserved_nusd := pb_reserved_nusd b - quote,
                    pb_spent_nusd := pb_spent_nusd b + actual,
                    pb_updated_at := now\<rparr>) (projects db),
            runs := updated PR
              (\<lambda>r. r\<lparr>rn_reserved_nusd := rn_reserved_nusd r - quote,
                    rn_spent_nusd := rn_spent_nusd r + actual\<rparr>) (runs db),
            charges := updated PC
              (\<lambda>c. c\<lparr>ch_state := Reconciled, ch_actual_nusd := Some actual,
                    ch_provider := Some p', ch_model := Some m',
                    ch_input_tokens := Some input_count, ch_output_tokens := Some output_count,
                    ch_cache_read_tokens := rd, ch_cache_write_tokens := wr,
                    ch_updated_at := now, ch_reconciled_at := Some now\<rparr>) (charges db)\<rparr> in
      if rowcount PP (projects db) \<noteq> 1 \<or> rowcount PR (runs db) \<noteq> 1 \<or> rowcount PC (charges db) \<noteq> 1
      then (db, Inl ChargeStateConflict)
      else (db', persisted_charge charge_id db'))"

definition reconcile ::
  "timestamp \<Rightarrow> string \<Rightarrow> string \<Rightarrow> string \<Rightarrow> string \<Rightarrow> int option \<Rightarrow> int \<Rightarrow> int \<Rightarrow> int option
     \<Rightarrow> int option \<Rightarrow> string option \<Rightarrow> string option \<Rightarrow> budget_db
     \<Rightarrow> budget_db \<times> (budget_error + model_charge_row)" where
  "reconcile now charge_id owner project run supplied input_count output_count rd wr provider model db =
     (if \<not> scope_ids_ok charge_id owner project run then (db, Inl BudgetValueError)
      else if \<not> (pred_option bigint_range supplied \<and> bigint_range input_count
                  \<and> bigint_range output_count \<and> pred_option bigint_range rd
                  \<and> pred_option bigint_range wr) then (db, Inl BudgetValueError)
      else if optional_count rd + optional_count wr > input_count then (db, Inl BudgetValueError)
      else if \<not> (pred_option (\<lambda>p. id_ok p 100) provider \<and> pred_option (\<lambda>m. id_ok m 255) model)
      then (db, Inl BudgetValueError)
      else (case scalar (select_where (charge_filters charge_id owner project run) (charges db)) of
        None \<Rightarrow> (db, Inl ChargeStateConflict)
      | Some charge \<Rightarrow>
          if ch_state charge \<noteq> Dispatched then (db, Inl ChargeStateConflict)
          else
            (case (case provider of None \<Rightarrow> ch_provider charge | Some p \<Rightarrow> Some p,
                   case model of None \<Rightarrow> ch_model charge | Some m \<Rightarrow> Some m) of
               (Some p, Some m) \<Rightarrow>
                 (case validated_pricing_pair m p of
                    Inl e \<Rightarrow> (db, Inl (BudgetPricingError e))
                  | Inr (p', m') \<Rightarrow>
                      (case price_model_usage_nusd m' p' input_count output_count rd wr of
                         Inl e \<Rightarrow> (db, Inl (BudgetPricingError e))
                       | Inr actual \<Rightarrow>
                           if supplied \<noteq> None \<and> supplied \<noteq> Some actual
                           then (db, Inl BudgetValueError)
                           else if actual > ch_reserved_nusd charge
                           then quote_exceeded now charge_id owner project run db
                           else settle_charge now charge_id owner project run
                                  (ch_reserved_nusd charge) actual input_count output_count
                                  rd wr p' m' db))
             | _ \<Rightarrow> (db, Inl BudgetValueError))))"

subsection \<open>Releasing a reservation\<close>

text \<open>The three updates that give a reservation of \<open>quote\<close> back, and their row counts.\<close>

definition give_back ::
  "timestamp \<Rightarrow> string \<Rightarrow> string \<Rightarrow> string \<Rightarrow> int \<Rightarrow> (model_charge_row \<Rightarrow> bool) \<Rightarrow> string \<Rightarrow> budget_db
     \<Rightarrow> budget_db \<times> nat \<times> nat \<times> nat" where
  "give_back now owner project run quote PC reason db =
     (let PP = (\<lambda>b. in_project owner project b \<and> pb_reserved_nusd b \<ge> quote);
          PR = (\<lambda>r. in_run owner project run r \<and> rn_reserved_nusd r \<ge> quote) in
      (db\<lparr>projects := updated PP
             (\<lambda>b. b\<lparr>pb_reserved_nusd := pb_reserved_nusd b - quote, pb_updated_at := now\<rparr>)
             (projects db),
          runs := updated PR
             (\<lambda>r. r\<lparr>rn_reserved_nusd := rn_reserved_nusd r - quote\<rparr>) (runs db),
          charges := updated PC
             (\<lambda>c. c\<lparr>ch_state := Released, ch_reason_code := Some reason, ch_updated_at := now\<rparr>)
             (charges db)\<rparr>,
       rowcount PP (projects db), rowcount PR (runs db), rowcount PC (charges db)))"

definition release_for ::
  "timestamp \<Rightarrow> string \<Rightarrow> string \<Rightarrow> string \<Rightarrow> string \<Rightarrow> string \<Rightarrow> budget_db
     \<Rightarrow> budget_db \<times> (budget_error + model_charge_row)" where
  "release_for now charge_id owner project run reason db =
     (if \<not> scope_ids_ok charge_id owner project run then (db, Inl BudgetValueError)
      else (case scalar (select_where (\<lambda>c. charge_filters charge_id owner project run c
                                        \<and> ch_state c = Reserved) (charges db)) of
        None \<Rightarrow> (db, Inl ChargeStateConflict)
      | Some charge \<Rightarrow>
          (case give_back now owner project run (ch_reserved_nusd charge)
                  (\<lambda>c. charge_filters charge_id owner project run c \<and> ch_state c = Reserved
                       \<and> ch_reserved_nusd c = ch_reserved_nusd charge) reason db of
             (db', rp, rr, rc) \<Rightarrow>
               if rp \<noteq> 1 \<or> rr \<noteq> 1 \<or> rc \<noteq> 1 then (db, Inl ChargeStateConflict)
               else (db', persisted_charge charge_id db'))))"

definition release ::
  "timestamp \<Rightarrow> string \<Rightarrow> string \<Rightarrow> string \<Rightarrow> string \<Rightarrow> budget_db
     \<Rightarrow> budget_db \<times> (budget_error + model_charge_row)" where
  "release now charge_id owner project run db =
     release_for now charge_id owner project run ''released'' db"

subsection \<open>Recovery of stale charges\<close>

record stale_candidate =
  sc_charge_id :: string
  sc_owner_id :: string
  sc_project_id :: string
  sc_run_id :: string
  sc_state :: charge_state
  sc_reserved_nusd :: int

definition stale_candidates :: "timestamp \<Rightarrow> budget_db \<Rightarrow> stale_candidate list" where
  "stale_candidates cutoff db =
     map (\<lambda>c. \<lparr>sc_charge_id = ch_charge_id c, sc_owner_id = ch_owner_id c,
               sc_project_id = ch_project_id c, sc_run_id = ch_run_id c,
               sc_state = ch_state c, sc_reserved_nusd = ch_reserved_nusd c\<rparr>)
       (sort_key (\<lambda>c. (ch_owner_id c, ch_project_id c, ch_run_id c, ch_charge_id c))
          (select_where (\<lambda>c. ch_state c \<in> {Reserved, Dispatched} \<and> ch_updated_at c < cutoff)
             (charges db)))"

definition recover_one ::
  "timestamp \<Rightarrow> timestamp \<Rightarrow> stale_candidate \<Rightarrow> budget_db \<Rightarrow> budget_db \<times> (budget_error + bool)" where
  "recover_one cutoff now sc db =
     (let owner = sc_owner_id sc; project = sc_project_id sc; run = sc_run_id sc;
          F = charge_filters (sc_charge_id sc) owner project run;
          PD = (\<lambda>c. F c \<and> ch_state c = Dispatched \<and> ch_updated_at c < cutoff) in
      (case (if sc_state sc = Reserved
             then give_back now owner project run (sc_reserved_nusd sc)
                    (\<lambda>c. F c \<and> ch_state c = Reserved \<and> ch_reserved_nusd c = sc_reserved_nusd sc
                         \<and> ch_updated_at c < cutoff) ''stale_reserved'' db
             else (db\<lparr>charges := updated PD
                        (\<lambda>c. c\<lparr>ch_state := Indeterminate,
                              ch_reason_code := Some ''stale_dispatched'',
                              ch_updated_at := now\<rparr>) (charges db)\<rparr>,
                   rowcount (in_project owner project) (projects db),
                   rowcount (in_run owner project run) (runs db),
                   rowcount PD (charges db))) of
         (db', rp, rr, rc) \<Rightarrow>
           if rp = 1 \<and> rr = 1 \<and> rc = 1 then (db', Inr True)
           else if rc = 0 then (db, Inr False)
           else (db, Inl ChargeStateConflict)))"

fun recover_each ::
  "timestamp \<Rightarrow> (nat \<Rightarrow> timestamp) \<Rightarrow> nat \<Rightarrow> nat \<Rightarrow> stale_candidate list \<Rightarrow> budget_db
     \<Rightarrow> budget_db \<times> (budget_error + nat)" where
  "recover_each cutoff clock k count [] db = (db, Inr count)"
| "recover_each cutoff clock k count (sc # scs) db =
     (case recover_one cutoff (clock k) sc db of
        (db', Inl e) \<Rightarrow> (db', Inl e)
      | (db', Inr settled) \<Rightarrow>
          recover_each cutoff clock (Suc k) (if settled then Suc count else count) scs db')"

definition recover_stale ::
  "timestamp \<Rightarrow> (nat \<Rightarrow> timestamp) \<Rightarrow> budget_db \<Rightarrow> budget_db \<times> (budget_error + nat)" where
  "recover_stale cutoff clock db = recover_each cutoff clock 0 0 (stale_candidates cutoff db) db"

end
