(* ===== verification/Budget_Invariant.thy ===== *)
theory Budget_Invariant
  imports Monetary_Budget
begin

text \<open>
  The double-entry invariant of the monetary ledger and its preservation by every transaction of
  \<open>Monetary_Budget\<close>, in any order and for any arguments. The lemma \<open>settle_inv\<close> covers all
  transactions that settle one existing charge (dispatch, reconcile, release, mark as
  indeterminate, recovery); reserving, opening and registering a run are treated on their own.
\<close>

subsection \<open>What a charge holds in its accounts\<close>

definition held :: "model_charge_row \<Rightarrow> int" where
  "held c = (if ch_state c \<in> {Reserved, Dispatched, Indeterminate} then ch_reserved_nusd c else 0)"

definition paid :: "model_charge_row \<Rightarrow> int" where
  "paid c = (if ch_state c = Reconciled then optional_count (ch_actual_nusd c) else 0)"

definition total :: "(model_charge_row \<Rightarrow> int) \<Rightarrow> (model_charge_row \<Rightarrow> bool) \<Rightarrow> model_charge_row list \<Rightarrow> int" where
  "total g Q cs = sum_list (map (\<lambda>c. if Q c then g c else 0) cs)"

definition project_scope :: "project_budget_row \<Rightarrow> model_charge_row \<Rightarrow> bool" where
  "project_scope p c = (ch_owner_id c = pb_owner_id p \<and> ch_project_id c = pb_project_id p)"

definition run_scope :: "run_budget_row \<Rightarrow> model_charge_row \<Rightarrow> bool" where
  "run_scope r c =
     (ch_run_id c = rn_run_id r \<and> ch_owner_id c = rn_user_id r \<and> ch_project_id c = rn_project_id r)"

definition charge_counts_ok :: "model_charge_row \<Rightarrow> bool" where
  "charge_counts_ok c =
     (0 \<le> ch_ordinal c \<and> pred_option bigint_range (ch_input_tokens c)
      \<and> pred_option bigint_range (ch_output_tokens c)
      \<and> pred_option bigint_range (ch_cache_read_tokens c)
      \<and> pred_option bigint_range (ch_cache_write_tokens c))"

definition charge_ok :: "model_charge_row \<Rightarrow> bool" where
  "charge_ok c =
     (charge_counts_ok c \<and> 0 \<le> ch_reserved_nusd c \<and> ch_reserved_nusd c \<le> MAX_BIGINT
      \<and> (ch_state c = Reconciled \<longleftrightarrow> ch_actual_nusd c \<noteq> None)
      \<and> (case ch_actual_nusd c of None \<Rightarrow> True
          | Some a \<Rightarrow> 0 \<le> a \<and> a \<le> ch_reserved_nusd c))"

definition project_ok :: "model_charge_row list \<Rightarrow> project_budget_row \<Rightarrow> bool" where
  "project_ok cs p =
     (pb_reserved_nusd p = total held (project_scope p) cs
      \<and> pb_spent_nusd p = total paid (project_scope p) cs
      \<and> pb_spent_nusd p + pb_reserved_nusd p \<le> pb_limit_nusd p
      \<and> pb_limit_nusd p \<le> MAX_BIGINT)"

definition run_ok :: "model_charge_row list \<Rightarrow> run_budget_row \<Rightarrow> bool" where
  "run_ok cs r =
     (rn_reserved_nusd r = total held (run_scope r) cs
      \<and> rn_spent_nusd r = total paid (run_scope r) cs
      \<and> rn_spent_nusd r + rn_reserved_nusd r \<le> rn_limit_nusd r
      \<and> rn_limit_nusd r \<le> MAX_BIGINT
      \<and> (rn_opened_at r = None \<longrightarrow> rn_limit_nusd r = 0))"

definition pb_key :: "project_budget_row \<Rightarrow> string \<times> string" where
  "pb_key p = (pb_owner_id p, pb_project_id p)"

definition budget_inv :: "budget_db \<Rightarrow> bool" where
  "budget_inv db =
     (distinct (map pb_key (projects db)) \<and> distinct (map rn_run_id (runs db))
      \<and> distinct (map ch_charge_id (charges db))
      \<and> distinct (map (\<lambda>c. (ch_run_id c, ch_ordinal c)) (charges db))
      \<and> list_all (project_ok (charges db)) (projects db)
      \<and> list_all (run_ok (charges db)) (runs db)
      \<and> list_all charge_ok (charges db)
      \<and> list_all (\<lambda>c. list_ex (\<lambda>r. run_scope r c) (runs db)) (charges db)
      \<and> list_all (\<lambda>c. list_ex (\<lambda>p. project_scope p c) (projects db)) (charges db))"

subsection \<open>Totals\<close>

lemma total_append [simp]: "total g Q (cs @ [c]) = total g Q cs + (if Q c then g c else 0)"
  by (simp add: total_def)

lemma total_updated_one:
  assumes "filter P cs = [c]" and "Q (f c) = Q c"
  shows "total g Q (updated P f cs) = total g Q cs + (if Q c then g (f c) - g c else 0)"
  using sum_list_updated_one [OF assms(1), of "\<lambda>c. if Q c then g c else 0" f] assms(2)
  by (simp add: total_def)

lemma total_nonneg: "(\<And>c. c \<in> set cs \<Longrightarrow> 0 \<le> g c) \<Longrightarrow> 0 \<le> total g Q cs"
  by (auto simp: total_def intro!: sum_list_nonneg)

lemma charge_ok_nonneg: "charge_ok c \<Longrightarrow> 0 \<le> held c \<and> 0 \<le> paid c"
  by (auto simp: charge_ok_def held_def paid_def optional_count_def split: option.splits)

lemma total_zero: "(\<And>c. c \<in> set cs \<Longrightarrow> \<not> Q c) \<Longrightarrow> total g Q cs = 0"
  by (induction cs) (auto simp: total_def)

subsection \<open>Settling one charge\<close>

definition same_identity :: "model_charge_row \<Rightarrow> model_charge_row \<Rightarrow> bool" where
  "same_identity c d =
     (ch_charge_id d = ch_charge_id c \<and> ch_owner_id d = ch_owner_id c
      \<and> ch_project_id d = ch_project_id c \<and> ch_run_id d = ch_run_id c \<and> ch_ordinal d = ch_ordinal c)"

lemma same_identity_scope:
  assumes "same_identity c d"
  shows "project_scope p d = project_scope p c" and "run_scope r d = run_scope r c"
  using assms by (auto simp: same_identity_def project_scope_def run_scope_def)

lemma charge_filters_scope:
  assumes "charge_filters cid owner project run c"
  shows "project_scope p c = in_project owner project p" and "run_scope r c = in_run owner project run r"
  using assms by (auto simp: charge_filters_def project_scope_def run_scope_def in_project_def in_run_def)

definition moves_project :: "int \<Rightarrow> int \<Rightarrow> (project_budget_row \<Rightarrow> project_budget_row) \<Rightarrow> bool" where
  "moves_project dh dp f \<longleftrightarrow>
     (\<forall>b. pb_key (f b) = pb_key b \<and> pb_limit_nusd (f b) = pb_limit_nusd b
        \<and> pb_reserved_nusd (f b) = pb_reserved_nusd b + dh
        \<and> pb_spent_nusd (f b) = pb_spent_nusd b + dp)"

definition moves_run :: "int \<Rightarrow> int \<Rightarrow> (run_budget_row \<Rightarrow> run_budget_row) \<Rightarrow> bool" where
  "moves_run dh dp f \<longleftrightarrow>
     (\<forall>r. rn_run_id (f r) = rn_run_id r \<and> rn_user_id (f r) = rn_user_id r
        \<and> rn_project_id (f r) = rn_project_id r \<and> rn_limit_nusd (f r) = rn_limit_nusd r
        \<and> rn_opened_at (f r) = rn_opened_at r
        \<and> rn_reserved_nusd (f r) = rn_reserved_nusd r + dh
        \<and> rn_spent_nusd (f r) = rn_spent_nusd r + dp)"

lemma rowcount_project_guard:
  assumes "distinct (map pb_key ps)" "rowcount (\<lambda>b. in_project owner project b \<and> G b) ps = Suc 0"
    "p \<in> set ps" "in_project owner project p"
  shows "G p"
proof -
  have eq: "(\<lambda>b. in_project owner project b \<and> G b) = (\<lambda>b. pb_key b = (owner, project) \<and> G b)"
    by (auto simp: in_project_def pb_key_def)
  show ?thesis
    using rowcount_key_guard [OF assms(1), of "(owner, project)" G p] assms(2-4)
    by (auto simp: eq in_project_def pb_key_def)
qed

lemma rowcount_run_guard:
  assumes "distinct (map rn_run_id rs)" "rowcount (\<lambda>r. in_run owner project run r \<and> G r) rs = Suc 0"
    "r \<in> set rs" "in_run owner project run r"
  shows "G r"
proof -
  let ?G = "\<lambda>r. rn_user_id r = owner \<and> rn_project_id r = project \<and> G r"
  have eq: "(\<lambda>r. in_run owner project run r \<and> G r) = (\<lambda>r. rn_run_id r = run \<and> ?G r)"
    by (auto simp: in_run_def)
  show ?thesis
    using rowcount_key_guard [OF assms(1), of run ?G r] assms(2-4) by (auto simp: eq in_run_def)
qed

lemma project_ok_move:
  assumes ok: "project_ok cs p" and m: "moves_project dh dp f" and le: "dh + dp \<le> 0"
    and h: "total held (project_scope p) cs' = total held (project_scope p) cs + (if S then dh else 0)"
    and pd: "total paid (project_scope p) cs' = total paid (project_scope p) cs + (if S then dp else 0)"
  shows "project_ok cs' (if S then f p else p)"
proof -
  have key: "project_scope (f p) = project_scope p"
    using m by (auto simp: moves_project_def project_scope_def pb_key_def fun_eq_iff)
  show ?thesis
    using ok m le h pd by (cases S) (auto simp: project_ok_def key moves_project_def)
qed

lemma run_ok_move:
  assumes ok: "run_ok cs r" and m: "moves_run dh dp f" and le: "dh + dp \<le> 0"
    and h: "total held (run_scope r) cs' = total held (run_scope r) cs + (if S then dh else 0)"
    and pd: "total paid (run_scope r) cs' = total paid (run_scope r) cs + (if S then dp else 0)"
  shows "run_ok cs' (if S then f r else r)"
proof -
  have key: "run_scope (f r) = run_scope r"
    using m by (auto simp: moves_run_def run_scope_def fun_eq_iff)
  show ?thesis
    using ok m le h pd by (cases S) (auto simp: run_ok_def key moves_run_def)
qed

text \<open>The tables after one charge \<open>c\<close> was rewritten to \<open>fc c\<close> and its accounts moved along.\<close>

lemma settle_inv:
  assumes inv: "budget_inv db"
    and c: "filter PC (charges db) = [c]" "charge_filters cid owner project run c"
    and fc: "\<And>c. same_identity c (fc c)" "charge_ok (fc c)"
    and pp: "rowcount (\<lambda>b. in_project owner project b \<and> GP b) (projects db) = Suc 0"
      "moves_project (held (fc c) - held c) (paid (fc c) - paid c) fp"
    and rr: "rowcount (\<lambda>r. in_run owner project run r \<and> GR r) (runs db) = Suc 0"
      "moves_run (held (fc c) - held c) (paid (fc c) - paid c) fr"
    and le: "held (fc c) + paid (fc c) \<le> held c + paid c"
  shows "budget_inv (db\<lparr>projects := updated (\<lambda>b. in_project owner project b \<and> GP b) fp (projects db),
     runs := updated (\<lambda>r. in_run owner project run r \<and> GR r) fr (runs db),
     charges := updated PC fc (charges db)\<rparr>)"
proof -
  let ?cs = "charges db" and ?cs' = "updated PC fc (charges db)"
  let ?ps' = "updated (\<lambda>b. in_project owner project b \<and> GP b) fp (projects db)"
  let ?rs' = "updated (\<lambda>r. in_run owner project run r \<and> GR r) fr (runs db)"
  note I = inv [unfolded budget_inv_def]
  have le': "held (fc c) - held c + (paid (fc c) - paid c) \<le> 0" using le by linarith
  have tp: "total g (project_scope p) ?cs' = total g (project_scope p) ?cs +
      (if in_project owner project p then g (fc c) - g c else 0)" for g p
    using total_updated_one [OF c(1), of "project_scope p" fc g]
    by (simp add: same_identity_scope [OF fc(1)] charge_filters_scope [OF c(2)])
  have tr: "total g (run_scope r) ?cs' = total g (run_scope r) ?cs +
      (if in_run owner project run r then g (fc c) - g c else 0)" for g r
    using total_updated_one [OF c(1), of "run_scope r" fc g]
    by (simp add: same_identity_scope [OF fc(1)] charge_filters_scope [OF c(2)])
  have ids: "map ch_charge_id ?cs' = map ch_charge_id ?cs"
    "map (\<lambda>c. (ch_run_id c, ch_ordinal c)) ?cs' = map (\<lambda>c. (ch_run_id c, ch_ordinal c)) ?cs"
    by (rule map_updated_same, use fc(1) in \<open>auto simp: same_identity_def\<close>)+
  have keys: "map pb_key ?ps' = map pb_key (projects db)" "map rn_run_id ?rs' = map rn_run_id (runs db)"
    by (rule map_updated_same, use pp(2) rr(2) in \<open>auto simp: moves_project_def moves_run_def\<close>)+
  have "project_ok ?cs' x" if "x \<in> set ?ps'" for x
  proof -
    from that obtain p where p: "p \<in> set (projects db)"
      "x = (if in_project owner project p \<and> GP p then fp p else p)" by (rule in_updatedE)
    with rowcount_project_guard [OF _ pp(1) p(1)] I
    have x: "x = (if in_project owner project p then fp p else p)" by auto
    show ?thesis unfolding x
      by (rule project_ok_move [OF _ pp(2) le' tp tp]) (use I p in \<open>auto simp: list_all_iff\<close>)
  qed
  moreover have "run_ok ?cs' x" if "x \<in> set ?rs'" for x
  proof -
    from that obtain r where r: "r \<in> set (runs db)"
      "x = (if in_run owner project run r \<and> GR r then fr r else r)" by (rule in_updatedE)
    with rowcount_run_guard [OF _ rr(1) r(1)] I
    have x: "x = (if in_run owner project run r then fr r else r)" by auto
    show ?thesis unfolding x
      by (rule run_ok_move [OF _ rr(2) le' tr tr]) (use I r in \<open>auto simp: list_all_iff\<close>)
  qed
  moreover have "charge_ok x" if "x \<in> set ?cs'" for x
  proof -
    from that obtain d where d: "d \<in> set ?cs" "x = (if PC d then fc d else d)" by (rule in_updatedE)
    have "d = c" if "PC d"
    proof -
      from that d(1) have "d \<in> set (filter PC ?cs)" by simp
      with c(1) show ?thesis by simp
    qed
    with d fc(2) I show ?thesis by (auto simp: list_all_iff)
  qed
  moreover have "\<exists>r\<in>set ?rs'. run_scope r x" if "x \<in> set ?cs'" for x
  proof -
    from that obtain d where d: "d \<in> set ?cs" "x = (if PC d then fc d else d)" by (rule in_updatedE)
    with I obtain r where r: "r \<in> set (runs db)" "run_scope r d" by (auto simp: list_all_iff list_ex_iff)
    have "run_scope (if in_run owner project run r \<and> GR r then fr r else r) x"
      using r(2) d(2) rr(2) fc(1) [of d] by (auto simp: run_scope_def moves_run_def same_identity_def)
    then show ?thesis by (rule bexI) (rule updatedI [OF r(1)])
  qed
  moreover have "\<exists>p\<in>set ?ps'. project_scope p x" if "x \<in> set ?cs'" for x
  proof -
    from that obtain d where d: "d \<in> set ?cs" "x = (if PC d then fc d else d)" by (rule in_updatedE)
    with I obtain p where p: "p \<in> set (projects db)" "project_scope p d" by (auto simp: list_all_iff list_ex_iff)
    have "project_scope (if in_project owner project p \<and> GP p then fp p else p) x"
      using p(2) d(2) pp(2) fc(1) [of d]
      by (auto simp: project_scope_def moves_project_def same_identity_def pb_key_def)
    then show ?thesis by (rule bexI) (rule updatedI [OF p(1)])
  qed
  ultimately show ?thesis using I ids keys by (auto simp: budget_inv_def list_all_iff list_ex_iff)
qed

text \<open>A transition that moves no money only has to keep what the charge holds.\<close>

lemma relabel_inv:
  assumes inv: "budget_inv db" and n: "rowcount PC (charges db) = Suc 0"
    and PC: "\<And>c. PC c \<Longrightarrow> charge_filters cid owner project run c"
    and fc: "\<And>c. same_identity c (fc c)"
      "\<And>c. PC c \<Longrightarrow> charge_ok c \<Longrightarrow> charge_ok (fc c) \<and> held (fc c) = held c \<and> paid (fc c) = paid c"
    and pp: "rowcount (in_project owner project) (projects db) = Suc 0"
    and rr: "rowcount (in_run owner project run) (runs db) = Suc 0"
  shows "budget_inv (db\<lparr>charges := updated PC fc (charges db)\<rparr>)"
proof -
  from n obtain c where c: "filter PC (charges db) = [c]" "c \<in> set (charges db)" "PC c"
    by (rule rowcount_oneE)
  with inv have ok: "charge_ok c" by (auto simp: budget_inv_def list_all_iff)
  have "budget_inv (db\<lparr>projects := updated (\<lambda>b. in_project owner project b \<and> True) id (projects db),
     runs := updated (\<lambda>r. in_run owner project run r \<and> True) id (runs db),
     charges := updated PC fc (charges db)\<rparr>)"
    by (rule settle_inv [OF inv c(1) PC [OF c(3)] fc(1)])
      (use fc(2) [OF c(3) ok] pp rr in \<open>auto simp: moves_project_def moves_run_def\<close>)
  then show ?thesis by simp
qed

lemma simple_transition_inv:
  assumes inv: "budget_inv db"
    and v: "\<And>c. same_identity c (vals c) \<and> ch_state (vals c) = ch_state c
      \<and> ch_reserved_nusd (vals c) = ch_reserved_nusd c \<and> ch_actual_nusd (vals c) = ch_actual_nusd c
      \<and> charge_counts_ok (vals c) = charge_counts_ok c"
    and st: "set source \<subseteq> {Reserved, Dispatched}" "target \<in> {Dispatched, Indeterminate}"
  shows "budget_inv (fst (simple_transition now cid owner project run source target vals db))"
proof -
  let ?PC = "\<lambda>c. charge_filters cid owner project run c \<and> ch_state c \<in> set source"
  let ?f = "\<lambda>c. vals (c\<lparr>ch_state := target, ch_updated_at := now\<rparr>)"
  have f: "same_identity c (?f c)" "ch_state (?f c) = target"
    "ch_reserved_nusd (?f c) = ch_reserved_nusd c" "ch_actual_nusd (?f c) = ch_actual_nusd c"
    "charge_counts_ok (?f c) = charge_counts_ok c" for c
    using v [of "c\<lparr>ch_state := target, ch_updated_at := now\<rparr>"]
    by (auto simp: same_identity_def charge_counts_ok_def)
  have "budget_inv (db\<lparr>charges := updated ?PC ?f (charges db)\<rparr>)"
    if "rowcount (in_project owner project) (projects db) = Suc 0"
      "rowcount (in_run owner project run) (runs db) = Suc 0" "rowcount ?PC (charges db) = Suc 0"
  proof (rule relabel_inv [OF inv that(3) _ f(1) _ that(1,2)])
    show "charge_filters cid owner project run c" if "?PC c" for c using that by simp
    show "charge_ok (?f c) \<and> held (?f c) = held c \<and> paid (?f c) = paid c" if "?PC c" "charge_ok c" for c
      using that st by (auto simp: f charge_ok_def held_def paid_def split: option.splits)
  qed
  then show ?thesis using inv by (simp add: simple_transition_def Let_def)
qed

lemma mark_dispatched_inv: "budget_inv db \<Longrightarrow> budget_inv (fst (mark_dispatched d now cid owner project run db))"
  unfolding mark_dispatched_def by (rule simple_transition_inv) (auto simp: same_identity_def charge_counts_ok_def)

lemma mark_indeterminate_inv:
  "budget_inv db \<Longrightarrow> budget_inv (fst (mark_indeterminate now cid owner project run reason db))"
  unfolding mark_indeterminate_def
  by (cases "id_ok reason 64") (auto intro!: simple_transition_inv simp: same_identity_def charge_counts_ok_def)

subsection \<open>Reconciling, releasing and recovering\<close>

lemma give_back_inv:
  assumes inv: "budget_inv db"
    and PC: "\<And>c. PC c \<Longrightarrow> charge_filters cid owner project run c \<and> ch_state c = Reserved
      \<and> ch_reserved_nusd c = quote"
    and g: "give_back now owner project run quote PC reason db = (db', Suc 0, Suc 0, Suc 0)"
  shows "budget_inv db'"
proof -
  let ?fc = "\<lambda>c. c\<lparr>ch_state := Released, ch_reason_code := Some reason, ch_updated_at := now\<rparr>"
  from g have n: "rowcount PC (charges db) = Suc 0" by (simp add: give_back_def Let_def)
  then obtain c where c: "filter PC (charges db) = [c]" "c \<in> set (charges db)" "PC c"
    by (rule rowcount_oneE)
  with inv have ok: "charge_ok c" by (auto simp: budget_inv_def list_all_iff)
  note c' = PC [OF c(3)]
  have d: "held (?fc c) - held c = - quote" "paid (?fc c) - paid c = 0" "0 \<le> quote"
    using ok c' by (auto simp: held_def paid_def charge_ok_def)
  have "budget_inv (db\<lparr>
     projects := updated (\<lambda>b. in_project owner project b \<and> pb_reserved_nusd b \<ge> quote)
        (\<lambda>b. b\<lparr>pb_reserved_nusd := pb_reserved_nusd b - quote, pb_updated_at := now\<rparr>) (projects db),
     runs := updated (\<lambda>r. in_run owner project run r \<and> rn_reserved_nusd r \<ge> quote)
        (\<lambda>r. r\<lparr>rn_reserved_nusd := rn_reserved_nusd r - quote\<rparr>) (runs db),
     charges := updated PC ?fc (charges db)\<rparr>)"
    by (rule settle_inv [OF inv c(1) conjunct1 [OF c']])
      (use ok c' d g in \<open>auto simp: same_identity_def charge_ok_def charge_counts_ok_def moves_project_def moves_run_def
        pb_key_def give_back_def Let_def\<close>)
  with g show ?thesis by (auto simp: give_back_def Let_def)
qed

lemma release_for_inv:
  assumes inv: "budget_inv db"
  shows "budget_inv (fst (release_for now cid owner project run reason db))"
proof -
  have "budget_inv db'"
    if "give_back now owner project run (ch_reserved_nusd charge)
        (\<lambda>c. charge_filters cid owner project run c \<and> ch_state c = Reserved
           \<and> ch_reserved_nusd c = ch_reserved_nusd charge) reason db = (db', Suc 0, Suc 0, Suc 0)"
    for charge db'
    by (rule give_back_inv [where cid = cid, OF inv _ that]) simp
  then show ?thesis using inv by (auto simp: release_for_def split: option.splits prod.splits)
qed

lemma release_inv: "budget_inv db \<Longrightarrow> budget_inv (fst (release now cid owner project run db))"
  by (simp add: release_def release_for_inv)

lemma recover_one_inv:
  assumes inv: "budget_inv db"
  shows "budget_inv (fst (recover_one cutoff now sc db))"
proof (cases "sc_state sc = Reserved")
  case True
  let ?F = "charge_filters (sc_charge_id sc) (sc_owner_id sc) (sc_project_id sc) (sc_run_id sc)"
  have "budget_inv db'"
    if "give_back now (sc_owner_id sc) (sc_project_id sc) (sc_run_id sc) (sc_reserved_nusd sc)
        (\<lambda>c. ?F c \<and> ch_state c = Reserved \<and> ch_reserved_nusd c = sc_reserved_nusd sc
           \<and> ch_updated_at c < cutoff) ''stale_reserved'' db = (db', Suc 0, Suc 0, Suc 0)" for db'
    by (rule give_back_inv [where cid = "sc_charge_id sc", OF inv _ that]) simp
  with True inv show ?thesis by (simp add: recover_one_def Let_def split: prod.splits)
next
  case False
  let ?PD = "\<lambda>c. charge_filters (sc_charge_id sc) (sc_owner_id sc) (sc_project_id sc) (sc_run_id sc) c
     \<and> ch_state c = Dispatched \<and> ch_updated_at c < cutoff"
  let ?f = "\<lambda>c. c\<lparr>ch_state := Indeterminate, ch_reason_code := Some ''stale_dispatched'', ch_updated_at := now\<rparr>"
  have "budget_inv (db\<lparr>charges := updated ?PD ?f (charges db)\<rparr>)"
    if "rowcount (in_project (sc_owner_id sc) (sc_project_id sc)) (projects db) = Suc 0"
      "rowcount (in_run (sc_owner_id sc) (sc_project_id sc) (sc_run_id sc)) (runs db) = Suc 0"
      "rowcount ?PD (charges db) = Suc 0"
    by (rule relabel_inv [OF inv that(3) _ _ _ that(1,2)])
      (auto simp: same_identity_def charge_ok_def charge_counts_ok_def held_def paid_def)
  with False inv show ?thesis by (simp add: recover_one_def Let_def)
qed

lemma recover_each_inv: "budget_inv db \<Longrightarrow> budget_inv (fst (recover_each cutoff clock k n scs db))"
proof (induction scs arbitrary: k n db)
  case Nil
  then show ?case by simp
next
  case (Cons sc scs)
  with recover_one_inv [OF Cons.prems, of cutoff "clock k" sc] show ?case
    by (auto split: prod.splits sum.splits)
qed

lemma recover_stale_inv: "budget_inv db \<Longrightarrow> budget_inv (fst (recover_stale cutoff clock db))"
  by (simp add: recover_stale_def recover_each_inv)

text \<open>The charge that \<open>reconcile\<close> read is the only one its conditional update can find.\<close>

lemma charge_filter_unique:
  assumes "distinct (map ch_charge_id cs)" "c \<in> set cs" "ch_charge_id c = cid"
    and "rowcount (\<lambda>c. charge_filters cid owner project run c \<and> G c) cs = Suc 0"
  shows "filter (\<lambda>c. charge_filters cid owner project run c \<and> G c) cs = [c]"
proof -
  from assms(4) obtain d where d: "filter (\<lambda>c. charge_filters cid owner project run c \<and> G c) cs = [d]"
    "d \<in> set cs" "charge_filters cid owner project run d \<and> G d" by (rule rowcount_oneE)
  with assms(1-3) have "d = c"
    by (auto simp: charge_filters_def dest: distinct_map [THEN iffD1] inj_onD)
  with d show ?thesis by simp
qed

lemma settle_charge_inv:
  assumes inv: "budget_inv db"
    and c: "c \<in> set (charges db)" "charge_filters cid owner project run c" "ch_state c = Dispatched"
    and amounts: "0 \<le> actual" "actual \<le> ch_reserved_nusd c"
    and counts: "bigint_range i" "bigint_range k" "pred_option bigint_range rd" "pred_option bigint_range wr"
  shows "budget_inv (fst (settle_charge now cid owner project run (ch_reserved_nusd c) actual i k rd wr p' m' db))"
proof -
  let ?fc = "\<lambda>c. c\<lparr>ch_state := Reconciled, ch_actual_nusd := Some actual, ch_provider := Some p', ch_model := Some m',
       ch_input_tokens := Some i, ch_output_tokens := Some k, ch_cache_read_tokens := rd,
       ch_cache_write_tokens := wr, ch_updated_at := now, ch_reconciled_at := Some now\<rparr>"
  from inv c(1) have ok: "charge_ok c" and d: "distinct (map ch_charge_id (charges db))"
    by (auto simp: budget_inv_def list_all_iff)
  have m: "held (?fc c) - held c = - ch_reserved_nusd c" "paid (?fc c) - paid c = actual"
    using c(3) by (simp_all add: held_def paid_def optional_count_def)
  note u = charge_filter_unique [OF d c(1) _, of cid owner project run
    "\<lambda>x. ch_state x = Dispatched \<and> ch_reserved_nusd x = ch_reserved_nusd c"]
  have cid: "ch_charge_id c = cid" using c(2) by (simp add: charge_filters_def)
  note s = settle_inv [OF inv u [OF cid] c(2), where fc = ?fc]
  show ?thesis unfolding settle_charge_def Let_def
    by (simp add: inv, intro impI, elim conjE, rule s)
      (use ok c(3) amounts counts m in \<open>auto simp: charge_ok_def charge_counts_ok_def held_def paid_def optional_count_def
        same_identity_def moves_project_def moves_run_def pb_key_def\<close>)
qed

lemma quote_exceeded_inv:
  assumes inv: "budget_inv db"
  shows "budget_inv (fst (quote_exceeded now cid owner project run db))"
proof -
  let ?PD = "\<lambda>c. charge_filters cid owner project run c \<and> ch_state c = Dispatched"
  have "budget_inv (db\<lparr>charges := updated ?PD (\<lambda>c. c\<lparr>ch_state := Indeterminate,
      ch_reason_code := Some ''quote_exceeded'', ch_updated_at := now\<rparr>) (charges db)\<rparr>)"
    if "rowcount (in_project owner project) (projects db) = Suc 0"
      "rowcount (in_run owner project run) (runs db) = Suc 0" "rowcount ?PD (charges db) = Suc 0"
    by (rule relabel_inv [OF inv that(3) _ _ _ that(1,2)])
      (auto simp: same_identity_def charge_ok_def charge_counts_ok_def held_def paid_def)
  with inv show ?thesis by (simp add: quote_exceeded_def Let_def)
qed

text \<open>The outcome of \<open>reconcile\<close> is a refusal without effect or one of the two settlements.\<close>

lemma reconcile_cases:
  obtains (refused) e where
    "reconcile now cid owner project run supplied i k rd wr provider model db = (db, Inl e)"
  | (exceeded) c a p m where
    "c \<in> set (charges db)" "charge_filters cid owner project run c" "ch_state c = Dispatched"
    "price_model_usage_nusd m p i k rd wr = Inr a" "ch_reserved_nusd c < a"
    "reconcile now cid owner project run supplied i k rd wr provider model db =
       quote_exceeded now cid owner project run db"
  | (settled) c a p m where
    "c \<in> set (charges db)" "charge_filters cid owner project run c" "ch_state c = Dispatched"
    "price_model_usage_nusd m p i k rd wr = Inr a" "a \<le> ch_reserved_nusd c"
    "bigint_range i" "bigint_range k" "pred_option bigint_range rd" "pred_option bigint_range wr"
    "reconcile now cid owner project run supplied i k rd wr provider model db =
       settle_charge now cid owner project run (ch_reserved_nusd c) a i k rd wr p m db"
  unfolding reconcile_def
  by (fastforce dest!: scalar_select_Some split: if_splits option.splits sum.splits prod.splits)

lemma reconcile_inv:
  assumes inv: "budget_inv db"
  shows "budget_inv (fst (reconcile now cid owner project run supplied i k rd wr provider model db))"
  by (cases rule: reconcile_cases [of now cid owner project run supplied i k rd wr provider model db])
    (use inv in \<open>auto intro!: quote_exceeded_inv settle_charge_inv dest: price_InrD\<close>)

subsection \<open>Reserving a call\<close>

lemma reserve_call_cases:
  obtains (same) r where "reserve_call now cid owner project run ordinal quote provider model db = (db, r)"
    "\<And>x. r = Inr x \<Longrightarrow> \<not> res_should_dispatch x"
  | (reserved) family m where
    "validated_pricing_pair model provider = Inr (family, m)" "0 \<le> ordinal" "0 \<le> quote" "quote \<le> MAX_BIGINT"
    "rowcount (\<lambda>p. in_project owner project p
        \<and> quote \<le> pb_limit_nusd p - pb_spent_nusd p - pb_reserved_nusd p) (projects db) = Suc 0"
    "rowcount (\<lambda>r. in_run owner project run r \<and> rn_opened_at r \<noteq> None
        \<and> quote \<le> rn_limit_nusd r - rn_spent_nusd r - rn_reserved_nusd r) (runs db) = Suc 0"
    "\<forall>x\<in>set (charges db). \<not> charge_clash (new_charge now cid owner project run ordinal quote family m) x"
    "reserve_call now cid owner project run ordinal quote provider model db =
      (db\<lparr>projects := updated (\<lambda>p. in_project owner project p
              \<and> quote \<le> pb_limit_nusd p - pb_spent_nusd p - pb_reserved_nusd p)
             (\<lambda>p. p\<lparr>pb_reserved_nusd := pb_reserved_nusd p + quote, pb_updated_at := now\<rparr>) (projects db),
          runs := updated (\<lambda>r. in_run owner project run r \<and> rn_opened_at r \<noteq> None
              \<and> quote \<le> rn_limit_nusd r - rn_spent_nusd r - rn_reserved_nusd r)
             (\<lambda>r. r\<lparr>rn_reserved_nusd := rn_reserved_nusd r + quote\<rparr>) (runs db),
          charges := charges db @ [new_charge now cid owner project run ordinal quote family m]\<rparr>,
       Inr \<lparr>res_charge_id = cid, res_state = Reserved, res_should_dispatch = True, res_reserved_nusd = quote\<rparr>)"
proof -
  let ?res = "reserve_call now cid owner project run ordinal quote provider model db"
  have "(\<exists>r. ?res = (db, r) \<and> (\<forall>x. r = Inr x \<longrightarrow> \<not> res_should_dispatch x)) \<or> thesis"
    unfolding reserve_call_def Let_def
    by (auto simp: duplicate_or_def reservation_def bigint_range_def dest!: insert_unique_Some
        split: if_splits option.splits sum.splits prod.splits)
      (fastforce intro!: reserved simp: reserve_call_def bigint_range_def insert_unique_def list_ex_iff)
  then show thesis using same by blast
qed

lemma new_charge_accounts:
  "held (new_charge now cid owner project run ordinal quote family m) = quote"
  "paid (new_charge now cid owner project run ordinal quote family m) = 0"
  "project_scope p (new_charge now cid owner project run ordinal quote family m) = in_project owner project p"
  "run_scope r (new_charge now cid owner project run ordinal quote family m) = in_run owner project run r"
  by (auto simp: new_charge_def held_def paid_def project_scope_def run_scope_def in_project_def in_run_def)

lemma scope_of_moved [simp]:
  "project_scope (p\<lparr>pb_reserved_nusd := x, pb_updated_at := t\<rparr>) = project_scope p"
  "in_project owner project (p\<lparr>pb_reserved_nusd := x, pb_updated_at := t\<rparr>) = in_project owner project p"
  "run_scope (r\<lparr>rn_reserved_nusd := x\<rparr>) = run_scope r"
  "in_run owner project run (r\<lparr>rn_reserved_nusd := x\<rparr>) = in_run owner project run r"
  "run_scope (r\<lparr>rn_limit_nusd := x, rn_opened_at := t'\<rparr>) = run_scope r"
  by (auto simp: project_scope_def run_scope_def in_project_def in_run_def fun_eq_iff)

lemma reserve_call_inv:
  assumes inv: "budget_inv db"
  shows "budget_inv (fst (reserve_call now cid owner project run ordinal quote provider model db))"
proof (cases rule: reserve_call_cases [of now cid owner project run ordinal quote provider model db])
  case same
  with inv show ?thesis by simp
next
  case (reserved family m)
  note I = inv [unfolded budget_inv_def]
  let ?nc = "new_charge now cid owner project run ordinal quote family m"
  let ?GP = "\<lambda>p. quote \<le> pb_limit_nusd p - pb_spent_nusd p - pb_reserved_nusd p"
  let ?GR = "\<lambda>r. rn_opened_at r \<noteq> None \<and> quote \<le> rn_limit_nusd r - rn_spent_nusd r - rn_reserved_nusd r"
  let ?fp = "\<lambda>p. p\<lparr>pb_reserved_nusd := pb_reserved_nusd p + quote, pb_updated_at := now\<rparr>"
  let ?fr = "\<lambda>r. r\<lparr>rn_reserved_nusd := rn_reserved_nusd r + quote\<rparr>"
  let ?ps' = "updated (\<lambda>p. in_project owner project p \<and> ?GP p) ?fp (projects db)"
  let ?rs' = "updated (\<lambda>r. in_run owner project run r \<and> ?GR r) ?fr (runs db)"
  let ?cs' = "charges db @ [?nc]"
  have keys: "map pb_key ?ps' = map pb_key (projects db)" "map rn_run_id ?rs' = map rn_run_id (runs db)"
    by (rule map_updated_same; simp add: pb_key_def)+
  have "project_ok ?cs' x" if x: "x \<in> set ?ps'" for x
    using x
  proof (rule in_updatedE)
    fix p assume p: "p \<in> set (projects db)" "x = (if in_project owner project p \<and> ?GP p then ?fp p else p)"
    with I have "project_ok (charges db) p" by (simp add: list_all_iff)
    with p rowcount_project_guard [OF _ reserved(5) p(1)] I show ?thesis
      by (auto simp: project_ok_def new_charge_accounts)
  qed
  moreover have "run_ok ?cs' x" if x: "x \<in> set ?rs'" for x
    using x
  proof (rule in_updatedE)
    fix r assume r: "r \<in> set (runs db)" "x = (if in_run owner project run r \<and> ?GR r then ?fr r else r)"
    with I have "run_ok (charges db) r" by (simp add: list_all_iff)
    with r rowcount_run_guard [OF _ reserved(6) r(1)] I show ?thesis
      by (auto simp: run_ok_def new_charge_accounts)
  qed
  moreover have "charge_ok ?nc" using reserved(2,3,4) by (simp add: charge_ok_def charge_counts_ok_def new_charge_def)
  moreover have "\<exists>r\<in>set ?rs'. run_scope r c" if c: "c \<in> set ?cs'" for c
  proof -
    have "\<exists>r\<in>set (runs db). run_scope r c"
      using c I rowcount_oneE [OF reserved(6)]
      by (simp add: list_all_iff list_ex_iff) (metis new_charge_accounts(4))
    then show ?thesis by (simp add: bex_updated_same)
  qed
  moreover have "\<exists>p\<in>set ?ps'. project_scope p c" if c: "c \<in> set ?cs'" for c
  proof -
    have "\<exists>p\<in>set (projects db). project_scope p c"
      using c I rowcount_oneE [OF reserved(5)]
      by (simp add: list_all_iff list_ex_iff) (metis new_charge_accounts(3))
    then show ?thesis by (simp add: bex_updated_same)
  qed
  moreover have "distinct (map ch_charge_id ?cs')" "distinct (map (\<lambda>c. (ch_run_id c, ch_ordinal c)) ?cs')"
    using I reserved(7) by (auto simp: charge_clash_def new_charge_def)
  ultimately show ?thesis unfolding reserved(8) using I keys
    by (simp add: budget_inv_def list_all_iff list_ex_iff)
qed

subsection \<open>Opening a run\<close>

lemma fresh_project_inv:
  assumes inv: "budget_inv db" and lim: "bigint_range limit"
  shows "budget_inv (db\<lparr>projects := fst (insert_or_ignore same_project
     (new_project_row now owner project limit) (projects db))\<rparr>)"
proof (cases "list_ex (same_project (new_project_row now owner project limit)) (projects db)")
  case True
  with inv show ?thesis by (simp add: insert_or_ignore_def)
next
  case False
  let ?p = "new_project_row now owner project limit"
  note I = inv [unfolded budget_inv_def]
  have none: "\<not> project_scope ?p c" if "c \<in> set (charges db)" for c
    using that I False
    by (fastforce simp: list_all_iff list_ex_iff project_scope_def same_project_def new_project_row_def)
  have "project_ok (charges db) ?p"
    using lim none by (simp add: project_ok_def total_zero new_project_row_def bigint_range_def)
  moreover have "pb_key ?p \<notin> set (map pb_key (projects db))"
    using False by (auto simp: list_ex_iff same_project_def pb_key_def new_project_row_def)
  ultimately show ?thesis using I False by (simp add: insert_or_ignore_def budget_inv_def list_all_iff)
qed

lemma opened_run_inv:
  assumes inv: "budget_inv db" and lim: "bigint_range limit"
  shows "budget_inv (db\<lparr>runs := updated (\<lambda>r. in_run owner project run r \<and> rn_opened_at r = None)
     (\<lambda>r. r\<lparr>rn_limit_nusd := limit, rn_opened_at := Some now\<rparr>) (runs db)\<rparr>)"
proof -
  let ?f = "\<lambda>r. r\<lparr>rn_limit_nusd := limit, rn_opened_at := Some now\<rparr>"
  let ?rs' = "updated (\<lambda>r. in_run owner project run r \<and> rn_opened_at r = None) ?f (runs db)"
  note I = inv [unfolded budget_inv_def]
  have keys: "map rn_run_id ?rs' = map rn_run_id (runs db)" by (rule map_updated_same) simp
  have "run_ok (charges db) x" if x: "x \<in> set ?rs'" for x
    using x
  proof (rule in_updatedE)
    fix r assume r: "r \<in> set (runs db)" "x = (if in_run owner project run r \<and> rn_opened_at r = None then ?f r else r)"
    with I have "run_ok (charges db) r" by (simp add: list_all_iff)
    with r lim show ?thesis by (auto simp: run_ok_def bigint_range_def)
  qed
  moreover have "\<exists>r\<in>set ?rs'. run_scope r c" if "c \<in> set (charges db)" for c
  proof -
    have "\<exists>r\<in>set (runs db). run_scope r c" using that I by (auto simp: list_all_iff list_ex_iff)
    then show ?thesis by (simp add: bex_updated_same)
  qed
  ultimately show ?thesis using I keys by (simp add: budget_inv_def list_all_iff list_ex_iff)
qed

lemma open_run_inv:
  assumes inv: "budget_inv db"
  shows "budget_inv (fst (open_run now owner project run run_limit project_limit db))"
  using opened_run_inv [OF fresh_project_inv [OF inv]] inv
  by (auto simp: open_run_def open_result_def Let_def split: option.splits)

end
