(* ===== verification/Durable_Calls.thy ===== *)
theory Durable_Calls
  imports Sql_Table
begin

text \<open>
  How a runtime component calls a durable repository. A \<open>call_env\<close> says of one call which
  transactions of other processes ran before it, and whether the call itself was lost:
  \<open>FaultBefore\<close> (nothing was written) or \<open>FaultAfter\<close> (the commit went through and its
  acknowledgement was lost). \<open>cancelled_while\<close> is the loop of \<open>_cancellation_resistant\<close>
  (\<open>runtime/monetary_budget.py\<close>), which both the budgeted provider and the effect executor use
  to run a repository call to its end while the caller may be cancelled any number of times.
\<close>

datatype fault = NoFault | FaultBefore | FaultAfter

record 'db call_env =
  ce_before :: "'db \<Rightarrow> 'db"
  ce_fault :: fault
  ce_now :: timestamp

datatype 'e call_failure = LostCall | Raised 'e

definition repository_call ::
  "'db call_env \<Rightarrow> (timestamp \<Rightarrow> 'db \<Rightarrow> 'db \<times> ('e + 'a)) \<Rightarrow> 'db \<Rightarrow> 'db \<times> ('e call_failure + 'a)" where
  "repository_call e op db0 =
     (let db = ce_before e db0 in
      case ce_fault e of
        FaultBefore \<Rightarrow> (db, Inl LostCall)
      | FaultAfter \<Rightarrow> (fst (op (ce_now e) db), Inl LostCall)
      | NoFault \<Rightarrow>
          (case op (ce_now e) db of
             (db', Inl x) \<Rightarrow> (db', Inl (Raised x))
           | (db', Inr v) \<Rightarrow> (db', Inr v)))"

datatype wake = CallerCancelled | ChildFinished

text \<open>
  The awaited task always ends; what is left of the cancellations is whether there was one
  before it did.
\<close>

fun cancelled_while :: "wake list \<Rightarrow> bool \<Rightarrow> bool" where
  "cancelled_while [] cancellation = cancellation"
| "cancelled_while (CallerCancelled # ws) cancellation = cancelled_while ws True"
| "cancelled_while (ChildFinished # ws) cancellation = cancellation"

lemma cancelled_while_iff:
  "cancelled_while ws c \<longleftrightarrow> c \<or> CallerCancelled \<in> set (takeWhile (\<lambda>w. w \<noteq> ChildFinished) ws)"
  by (induction ws c rule: cancelled_while.induct) auto

lemma repository_call_cases:
  "fst (repository_call e op db) = ce_before e db
   \<or> fst (repository_call e op db) = fst (op (ce_now e) (ce_before e db))"
  by (auto simp: repository_call_def Let_def split: fault.splits prod.splits sum.splits)

lemma repository_call_Inr:
  assumes "repository_call e op db = (db', Inr v)"
  shows "op (ce_now e) (ce_before e db) = (db', Inr v)"
  using assms by (auto simp: repository_call_def Let_def split: fault.splits prod.splits sum.splits)

lemma repository_call_ok:
  "ce_fault e = NoFault \<Longrightarrow> op (ce_now e) (ce_before e db) = (db', Inr v) \<Longrightarrow> repository_call e op db = (db', Inr v)"
  by (simp add: repository_call_def Let_def)

lemma repository_call_refused:
  assumes "repository_call e op db = (db', res)" and "ce_fault e \<noteq> FaultAfter"
    and "\<And>now db db' r. op now db = (db', r) \<Longrightarrow> (\<And>x. r = Inr x \<Longrightarrow> \<not> R x) \<Longrightarrow> db' = db"
    and "\<And>x. res = Inr x \<Longrightarrow> \<not> R x"
  shows "db' = ce_before e db"
  using assms by (auto simp: repository_call_def Let_def split: fault.splits prod.splits sum.splits) blast+

context durable_ledger
begin

text \<open>A call through the repository is a history of the ledger's own transactions.\<close>

lemma call_steps:
  assumes "\<And>db. step\<^sup>*\<^sup>* db (ce_before e db)" and "\<And>now db. step\<^sup>*\<^sup>* db (fst (op now db))"
    and "repository_call e op db = (db', res)"
  shows "step\<^sup>*\<^sup>* db db'"
  using repository_call_cases [of e op db] assms by (metis fst_conv rtranclp_trans)

end

end
