(* ===== verification/Budget_Ledger.thy ===== *)
theory Budget_Ledger
  imports Budget_Invariant Durable_Calls
begin

text \<open>
  The monetary ledger as a state machine: \<open>budget_step\<close> is one transaction of
  \<open>Monetary_Budget\<close> with any arguments, or the registration of a fresh run, and the
  reachable states are those a history of them builds from empty tables. The interpretation
  \<open>charge_ledger\<close> discharges the contract of a durable ledger for the charge table.
\<close>

definition budget_empty :: budget_db where
  "budget_empty = \<lparr>projects = [], runs = [], charges = []\<rparr>"

text \<open>A fresh row of the runs table: the budget columns take their defaults.\<close>

definition register_run :: "string \<Rightarrow> string \<Rightarrow> string \<Rightarrow> budget_db \<Rightarrow> budget_db" where
  "register_run owner project run db =
     (if list_ex (\<lambda>r. rn_run_id r = run) (runs db) then db
      else db\<lparr>runs := runs db @ [\<lparr>rn_run_id = run, rn_user_id = owner, rn_project_id = project,
             rn_limit_nusd = 0, rn_spent_nusd = 0, rn_reserved_nusd = 0, rn_opened_at = None\<rparr>]\<rparr>)"

inductive budget_step :: "budget_db \<Rightarrow> budget_db \<Rightarrow> bool" where
  run_registered: "budget_step db (register_run owner project run db)"
| run_opened: "budget_step db (fst (open_run now owner project run run_limit project_limit db))"
| call_reserved: "budget_step db (fst (reserve_call now cid owner project run ordinal quote provider model db))"
| call_dispatched: "budget_step db (fst (mark_dispatched d now cid owner project run db))"
| call_reconciled: "budget_step db (fst (reconcile now cid owner project run supplied i k rd wr provider model db))"
| call_released: "budget_step db (fst (release now cid owner project run db))"
| call_abandoned: "budget_step db (fst (mark_indeterminate now cid owner project run reason db))"
| stale_recovered: "budget_step db (fst (recover_one cutoff now sc db))"

definition budget_reachable :: "budget_db \<Rightarrow> bool" where
  "budget_reachable db = budget_step\<^sup>*\<^sup>* budget_empty db"

lemma register_run_inv: "budget_inv db \<Longrightarrow> budget_inv (register_run owner project run db)"
proof (cases "list_ex (\<lambda>r. rn_run_id r = run) (runs db)")
  case False
  assume inv: "budget_inv db"
  let ?r = "\<lparr>rn_run_id = run, rn_user_id = owner, rn_project_id = project,
     rn_limit_nusd = 0, rn_spent_nusd = 0, rn_reserved_nusd = 0, rn_opened_at = None\<rparr>"
  note I = inv [unfolded budget_inv_def]
  have "\<not> run_scope ?r c" if "c \<in> set (charges db)" for c
    using that I False by (fastforce simp: list_all_iff list_ex_iff run_scope_def)
  then have "run_ok (charges db) ?r" by (simp add: run_ok_def total_zero less_imp_le)
  with I False show ?thesis
    by (auto simp: register_run_def budget_inv_def list_all_iff list_ex_iff)
qed (simp add: register_run_def)

lemmas transactions_inv = register_run_inv open_run_inv reserve_call_inv mark_dispatched_inv
  reconcile_inv release_inv mark_indeterminate_inv recover_one_inv

lemma budget_step_inv: "budget_step db db' \<Longrightarrow> budget_inv db \<Longrightarrow> budget_inv db'"
  by (induction rule: budget_step.induct) (simp_all add: transactions_inv)

lemma budget_steps_inv: "budget_step\<^sup>*\<^sup>* db db' \<Longrightarrow> budget_inv db \<Longrightarrow> budget_inv db'"
  by (induction rule: rtranclp_induct) (auto intro: budget_step_inv)

lemma budget_empty_inv: "budget_inv budget_empty"
  by (simp add: budget_inv_def budget_empty_def)

lemma budget_reachable_inv: "budget_reachable db \<Longrightarrow> budget_inv db"
  using budget_steps_inv budget_empty_inv by (auto simp: budget_reachable_def)

subsection \<open>The life cycle of a charge\<close>

fun charge_rank :: "charge_state \<Rightarrow> nat" where
  "charge_rank Reserved = 0"
| "charge_rank Dispatched = 1"
| "charge_rank _ = 2"

definition charge_moves :: "model_charge_row \<Rightarrow> model_charge_row \<Rightarrow> bool" where
  "charge_moves c c' =
     (c' = c \<or> same_identity c c' \<and> ch_reserved_nusd c' = ch_reserved_nusd c
        \<and> ch_created_at c' = ch_created_at c
        \<and> charge_rank (ch_state c) < charge_rank (ch_state c'))"

lemma charge_moves_refl: "reflp charge_moves"
  by (simp add: reflp_def charge_moves_def)

lemma charge_moves_trans: "transp charge_moves"
  by (auto simp: transp_def charge_moves_def same_identity_def)

lemma charge_moves_final:
  assumes "charge_moves c c'" "ch_state c \<in> {Reconciled, Released, Indeterminate}"
  shows "c' = c"
  using assms by (cases "ch_state c'") (auto simp: charge_moves_def)

lemmas charge_follows_updated = ledger_follows_updated [OF charge_moves_refl]
lemmas charge_follows_refl = ledger_follows_refl [OF charge_moves_refl]
lemmas charge_follows_append = ledger_follows_append [OF charge_moves_refl]
lemmas charge_move_defs = charge_moves_def same_identity_def

lemma transition_follows:
  assumes "\<And>c. c \<in> set (charges db) \<Longrightarrow> ch_state c \<in> set source \<Longrightarrow>
      charge_moves c (vals (c\<lparr>ch_state := target, ch_updated_at := now\<rparr>))"
  shows "ledger_follows charge_moves (charges db)
    (charges (fst (simple_transition now cid owner project run source target vals db)))"
  using assms
  by (auto simp: simple_transition_def Let_def charge_follows_refl intro!: charge_follows_updated)

lemma mark_dispatched_follows: "ledger_follows charge_moves (charges db)
    (charges (fst (mark_dispatched d now cid owner project run db)))"
  unfolding mark_dispatched_def by (rule transition_follows) (simp add: charge_move_defs)

lemma mark_indeterminate_follows: "ledger_follows charge_moves (charges db)
    (charges (fst (mark_indeterminate now cid owner project run reason db)))"
  unfolding mark_indeterminate_def
  by (auto simp: charge_follows_refl charge_move_defs intro!: transition_follows)

lemma give_back_follows:
  assumes "\<And>c. PC c \<Longrightarrow> ch_state c = Reserved"
    and "give_back now owner project run quote PC reason db = (db', n)"
  shows "ledger_follows charge_moves (charges db) (charges db')"
  using assms by (auto simp: give_back_def Let_def charge_move_defs intro!: charge_follows_updated)

lemma release_follows:
  "ledger_follows charge_moves (charges db) (charges (fst (release now cid owner project run db)))"
  unfolding release_def release_for_def
  by (auto simp: charge_follows_refl split: option.splits prod.splits elim: give_back_follows [rotated])

lemma recover_one_follows:
  "ledger_follows charge_moves (charges db) (charges (fst (recover_one cutoff now sc db)))"
  unfolding recover_one_def Let_def
  by (auto simp: charge_follows_refl charge_move_defs split: prod.splits if_splits
      elim: give_back_follows [rotated] intro!: charge_follows_updated)

lemma reconcile_follows: "ledger_follows charge_moves (charges db)
    (charges (fst (reconcile now cid owner project run supplied i k rd wr provider model db)))"
  by (cases rule: reconcile_cases [of now cid owner project run supplied i k rd wr provider model db])
    (auto simp: charge_follows_refl quote_exceeded_def settle_charge_def Let_def charge_move_defs
      intro!: charge_follows_updated)

lemma reserve_call_follows: "ledger_follows charge_moves (charges db)
    (charges (fst (reserve_call now cid owner project run ordinal quote provider model db)))"
  by (cases rule: reserve_call_cases [of now cid owner project run ordinal quote provider model db])
    (auto simp: charge_follows_refl charge_follows_append)

lemma reserve_granted:
  assumes "reserve_call now cid owner project run ordinal quote provider model db = (db1, Inr res)"
    and "res_should_dispatch res"
  shows "\<exists>f m. charges db1 = charges db @ [new_charge now cid owner project run ordinal quote f m]"
proof (cases rule: reserve_call_cases [of now cid owner project run ordinal quote provider model db])
  case same
  with assms show ?thesis by auto
next
  case (reserved f m)
  from reserved(8) assms(1) show ?thesis by auto
qed

lemma open_run_charges [simp]:
  "charges (fst (open_run now owner project run run_limit project_limit db)) = charges db"
  by (auto simp: open_run_def open_result_def Let_def split: option.splits)

lemma register_run_charges [simp]: "charges (register_run owner project run db) = charges db"
  by (simp add: register_run_def)

lemma budget_step_follows: "budget_step db db' \<Longrightarrow> ledger_follows charge_moves (charges db) (charges db')"
  by (induction rule: budget_step.induct)
    (simp_all add: charge_follows_refl mark_dispatched_follows mark_indeterminate_follows release_follows
      recover_one_follows reconcile_follows reserve_call_follows)

interpretation charge_ledger: durable_ledger charges ch_charge_id charge_moves budget_step
  by unfold_locales
    (auto simp: charge_moves_refl charge_moves_trans charge_move_defs budget_step_follows)

subsection \<open>The CHECK constraints of the tables\<close>

definition project_budget_checks :: "project_budget_row \<Rightarrow> bool" where
  "project_budget_checks p =
     ((pb_limit_nusd p \<ge> 0 \<and> pb_spent_nusd p \<ge> 0 \<and> pb_reserved_nusd p \<ge> 0)
      \<and> pb_spent_nusd p + pb_reserved_nusd p \<le> pb_limit_nusd p)"

definition run_budget_checks :: "run_budget_row \<Rightarrow> bool" where
  "run_budget_checks r =
     ((rn_limit_nusd r \<ge> 0 \<and> rn_spent_nusd r \<ge> 0 \<and> rn_reserved_nusd r \<ge> 0)
      \<and> rn_spent_nusd r + rn_reserved_nusd r \<le> rn_limit_nusd r)"

definition model_charge_checks :: "model_charge_row \<Rightarrow> bool" where
  "model_charge_checks c =
     (ch_ordinal c \<ge> 0 \<and> ch_reserved_nusd c \<ge> 0
      \<and> (case ch_actual_nusd c of None \<Rightarrow> True | Some a \<Rightarrow> a \<ge> 0)
      \<and> ((case ch_input_tokens c of None \<Rightarrow> True | Some n \<Rightarrow> n \<ge> 0)
         \<and> (case ch_output_tokens c of None \<Rightarrow> True | Some n \<Rightarrow> n \<ge> 0)
         \<and> (case ch_cache_read_tokens c of None \<Rightarrow> True | Some n \<Rightarrow> n \<ge> 0)
         \<and> (case ch_cache_write_tokens c of None \<Rightarrow> True | Some n \<Rightarrow> n \<ge> 0)))"

lemma total_charges_nonneg:
  assumes "budget_inv db"
  shows "0 \<le> total held Q (charges db)" and "0 \<le> total paid Q (charges db)"
  using assms by (auto intro!: total_nonneg simp: budget_inv_def list_all_iff dest: charge_ok_nonneg)

lemma charge_key_distinct: "budget_inv db \<Longrightarrow> distinct (map ch_charge_id (charges db))"
  by (simp add: budget_inv_def)

lemma inv_project_ok: "budget_inv db \<Longrightarrow> p \<in> set (projects db) \<Longrightarrow> project_ok (charges db) p"
  by (simp add: budget_inv_def list_all_iff)

lemma inv_run_ok: "budget_inv db \<Longrightarrow> r \<in> set (runs db) \<Longrightarrow> run_ok (charges db) r"
  by (simp add: budget_inv_def list_all_iff)

lemma inv_charge_ok: "budget_inv db \<Longrightarrow> c \<in> set (charges db) \<Longrightarrow> charge_ok c"
  by (simp add: budget_inv_def list_all_iff)

subsection \<open>Recovery finds every account\<close>

lemma total_ge_member:
  assumes "\<And>x. x \<in> set cs \<Longrightarrow> 0 \<le> g x" and "c \<in> set cs" and "Q c"
  shows "g c \<le> total g Q cs"
proof -
  have "(if Q c then g c else 0) \<le> sum_list (map (\<lambda>x. if Q x then g x else 0) cs)"
    using assms(1,2) by (intro member_le_sum_list) (auto simp: image_iff)
  with assms(3) show ?thesis by (simp add: total_def)
qed

lemma rowcount_key_one:
  assumes "distinct (map key t)" and "r \<in> set t" and "key r = k" and "G r"
  shows "rowcount (\<lambda>x. key x = k \<and> G x) t = Suc 0"
  using rowcount_key_le [OF assms(1), of k G] rowcount_pos [of "\<lambda>x. key x = k \<and> G x" t] assms(2-4)
  by force

lemma charge_accountsE:
  assumes "budget_inv db" and "c \<in> set (charges db)"
  obtains p r where "p \<in> set (projects db)" "project_scope p c" "r \<in> set (runs db)" "run_scope r c"
  using assms unfolding budget_inv_def list_all_iff list_ex_iff by blast

text \<open>The account rows of a charge are found under every guard that holds for them.\<close>

lemma accounts_found:
  assumes inv: "budget_inv db" and c: "c \<in> set (charges db)" "charge_filters cid owner project run c"
  shows "(\<And>p. p \<in> set (projects db) \<Longrightarrow> project_scope p c \<Longrightarrow> GP p) \<Longrightarrow>
      rowcount (\<lambda>b. in_project owner project b \<and> GP b) (projects db) = Suc 0"
    and "(\<And>r. r \<in> set (runs db) \<Longrightarrow> run_scope r c \<Longrightarrow> GR r) \<Longrightarrow>
      rowcount (\<lambda>r. in_run owner project run r \<and> GR r) (runs db) = Suc 0"
proof -
  obtain p r where p: "p \<in> set (projects db)" "project_scope p c"
    and r: "r \<in> set (runs db)" "run_scope r c" by (rule charge_accountsE [OF inv c(1)])
  have d: "distinct (map pb_key (projects db))" "distinct (map rn_run_id (runs db))"
    using inv by (simp_all add: budget_inv_def)
  let ?R = "\<lambda>r. rn_user_id r = owner \<and> rn_project_id r = project \<and> GR r"
  have eq: "(\<lambda>b. in_project owner project b \<and> GP b) = (\<lambda>b. pb_key b = (owner, project) \<and> GP b)"
    "(\<lambda>r. in_run owner project run r \<and> GR r) = (\<lambda>r. rn_run_id r = run \<and> ?R r)"
    by (auto simp: in_project_def pb_key_def in_run_def)
  have k: "pb_key p = (owner, project)" "rn_run_id r = run" "rn_user_id r = owner \<and> rn_project_id r = project"
    using p(2) r(2) c(2) by (auto simp: project_scope_def run_scope_def charge_filters_def pb_key_def)
  show "rowcount (\<lambda>b. in_project owner project b \<and> GP b) (projects db) = Suc 0"
    if "\<And>p. p \<in> set (projects db) \<Longrightarrow> project_scope p c \<Longrightarrow> GP p"
    unfolding eq by (rule rowcount_key_one [OF d(1) p(1) k(1)]) (rule that [OF p])
  show "rowcount (\<lambda>r. in_run owner project run r \<and> GR r) (runs db) = Suc 0"
    if "\<And>r. r \<in> set (runs db) \<Longrightarrow> run_scope r c \<Longrightarrow> GR r"
    unfolding eq by (rule rowcount_key_one [OF d(2) r(1) k(2)]) (use that [OF r] k(3) in simp)
qed

lemma accounts_hold:
  assumes inv: "budget_inv db" and c: "c \<in> set (charges db)"
  shows "p \<in> set (projects db) \<Longrightarrow> project_scope p c \<Longrightarrow> held c \<le> pb_reserved_nusd p"
    and "r \<in> set (runs db) \<Longrightarrow> run_scope r c \<Longrightarrow> held c \<le> rn_reserved_nusd r"
proof -
  have nn: "0 \<le> held x" if "x \<in> set (charges db)" for x
    using charge_ok_nonneg [OF inv_charge_ok [OF inv that]] by simp
  note ge = total_ge_member [of "charges db" held c, OF nn c]
  show "held c \<le> pb_reserved_nusd p" if "p \<in> set (projects db)" "project_scope p c"
    using ge [of "project_scope p"] that inv_project_ok [OF inv that(1)] by (simp add: project_ok_def)
  show "held c \<le> rn_reserved_nusd r" if "r \<in> set (runs db)" "run_scope r c"
    using ge [of "run_scope r"] that inv_run_ok [OF inv that(1)] by (simp add: run_ok_def)
qed

definition candidate_of :: "model_charge_row \<Rightarrow> stale_candidate" where
  "candidate_of c = \<lparr>sc_charge_id = ch_charge_id c, sc_owner_id = ch_owner_id c,
     sc_project_id = ch_project_id c, sc_run_id = ch_run_id c, sc_state = ch_state c,
     sc_reserved_nusd = ch_reserved_nusd c\<rparr>"

definition is_stale :: "timestamp \<Rightarrow> model_charge_row \<Rightarrow> bool" where
  "is_stale cutoff c = (ch_state c \<in> {Reserved, Dispatched} \<and> ch_updated_at c < cutoff)"

text \<open>Recovery of one row: what it becomes.\<close>

definition recovered :: "timestamp \<Rightarrow> model_charge_row \<Rightarrow> model_charge_row" where
  "recovered now c =
     (if ch_state c = Reserved
      then c\<lparr>ch_state := Released, ch_reason_code := Some ''stale_reserved'', ch_updated_at := now\<rparr>
      else c\<lparr>ch_state := Indeterminate, ch_reason_code := Some ''stale_dispatched'', ch_updated_at := now\<rparr>)"

lemma recover_one_settles:
  assumes inv: "budget_inv db" and c: "c \<in> set (charges db)" "is_stale cutoff c"
  shows "\<exists>db'. recover_one cutoff now (candidate_of c) db = (db', Inr True)
     \<and> charges db' = updated (\<lambda>x. x = c) (recovered now) (charges db)"
proof -
  let ?F = "charge_filters (ch_charge_id c) (ch_owner_id c) (ch_project_id c) (ch_run_id c)"
  have F: "?F c" by (simp add: charge_filters_def)
  note d = charge_key_distinct [OF inv]
  have only: "(?F x \<and> G x) = (x = c \<and> G c)" if "x \<in> set (charges db)" for x G
    using that c(1) d by (auto simp: charge_filters_def distinct_map inj_on_def)
  have n: "rowcount (\<lambda>x. ?F x \<and> G x) (charges db) = Suc 0" if "G c" for G
    using rowcount_key_one [OF d c(1), of "ch_charge_id c" "\<lambda>x. ?F x \<and> G x"] that F
    by (simp add: charge_filters_def conj_ac)
  have upd: "updated (\<lambda>x. ?F x \<and> G x) f (charges db) = updated (\<lambda>x. x = c) h (charges db)"
    if "G c" "f c = h c" for G f h
    using that only by (auto simp: updated_def)
  note acc = accounts_found [OF inv c(1) F]
  show ?thesis
  proof (cases "ch_state c = Reserved")
    case True
    let ?G = "\<lambda>x. ch_state x = Reserved \<and> ch_reserved_nusd x = ch_reserved_nusd c \<and> ch_updated_at x < cutoff"
    let ?f = "\<lambda>c. c\<lparr>ch_state := Released, ch_reason_code := Some ''stale_reserved'', ch_updated_at := now\<rparr>"
    from True c(2) have G: "?G c" and h: "ch_reserved_nusd c = held c" by (auto simp: is_stale_def held_def)
    have "updated (\<lambda>x. ?F x \<and> ?G x) ?f (charges db) = updated (\<lambda>x. x = c) (recovered now) (charges db)"
      by (rule upd [of ?G, OF G]) (simp add: recovered_def True)
    moreover have "rowcount (\<lambda>b. in_project (ch_owner_id c) (ch_project_id c) b
        \<and> ch_reserved_nusd c \<le> pb_reserved_nusd b) (projects db) = Suc 0"
      "rowcount (\<lambda>r. in_run (ch_owner_id c) (ch_project_id c) (ch_run_id c) r
        \<and> ch_reserved_nusd c \<le> rn_reserved_nusd r) (runs db) = Suc 0"
      unfolding h by (rule acc, rule accounts_hold [OF inv c(1)], assumption+)+
    ultimately show ?thesis using n [of ?G, OF G] True
      by (simp add: recover_one_def candidate_of_def give_back_def Let_def)
  next
    case False
    let ?G = "\<lambda>x. ch_state x = Dispatched \<and> ch_updated_at x < cutoff"
    let ?f = "\<lambda>c. c\<lparr>ch_state := Indeterminate, ch_reason_code := Some ''stale_dispatched'', ch_updated_at := now\<rparr>"
    from False c(2) have G: "?G c" by (auto simp: is_stale_def)
    have "updated (\<lambda>x. ?F x \<and> ?G x) ?f (charges db) = updated (\<lambda>x. x = c) (recovered now) (charges db)"
      by (rule upd [of ?G, OF G]) (simp add: recovered_def False)
    with acc(1) [of "\<lambda>_. True"] acc(2) [of "\<lambda>_. True"] n [of ?G, OF G] False show ?thesis
      by (simp add: recover_one_def candidate_of_def Let_def)
  qed
qed

lemma recover_each_settles:
  assumes "budget_inv db" and "distinct cs" and "set cs \<subseteq> set (charges db)" and "\<forall>c\<in>set cs. is_stale cutoff c"
  shows "\<exists>db' times. recover_each cutoff clock k n (map candidate_of cs) db = (db', Inr (n + length cs))
     \<and> charges db' = map (\<lambda>x. if x \<in> set cs then recovered (times x) x else x) (charges db)"
  using assms
proof (induction cs arbitrary: db k n)
  case Nil
  then show ?case by simp
next
  case (Cons c cs)
  from recover_one_settles [OF Cons.prems(1), of c cutoff "clock k"] Cons.prems(3,4) obtain db1 where
    one: "recover_one cutoff (clock k) (candidate_of c) db = (db1, Inr True)"
    and ch: "charges db1 = updated (\<lambda>x. x = c) (recovered (clock k)) (charges db)" by auto
  have inv1: "budget_inv db1" using recover_one_inv [OF Cons.prems(1), of cutoff "clock k" "candidate_of c"] one by simp
  have sub: "set cs \<subseteq> set (charges db1)" using Cons.prems(2,3) ch by (auto simp: set_updated image_iff)
  from Cons.IH [OF inv1 _ sub, of "Suc k" "Suc n"] Cons.prems(2,4) obtain db' times where
    rest: "recover_each cutoff clock (Suc k) (Suc n) (map candidate_of cs) db1 = (db', Inr (Suc n + length cs))"
    and ch': "charges db' = map (\<lambda>x. if x \<in> set cs then recovered (times x) x else x) (charges db1)" by auto
  have new: "recovered (clock k) c \<notin> set cs"
    using Cons.prems(4) by (auto simp: is_stale_def recovered_def split: if_splits)
  have "charges db' = map (\<lambda>x. if x \<in> set (c # cs) then recovered ((times(c := clock k)) x) x else x) (charges db)"
    using new Cons.prems(2) by (auto simp: ch' ch updated_def)
  with one rest show ?case by (intro exI conjI) (simp_all only: list.map recover_each.simps prod.case sum.case
    if_True length_Cons add_Suc_shift)
qed

subsection \<open>A concrete history\<close>

text \<open>
  One run of one project: registered, opened, one call reserved, dispatched and reconciled.
  The states are written out, so that the witnesses below can be read without evaluation.
\<close>

definition demo_accounts :: "int \<Rightarrow> int \<Rightarrow> timestamp \<Rightarrow> model_charge_row list \<Rightarrow> budget_db" where
  "demo_accounts spent kept now cs =
     \<lparr>projects = [\<lparr>pb_owner_id = ''u'', pb_project_id = ''p'', pb_limit_nusd = 200000,
         pb_spent_nusd = spent, pb_reserved_nusd = kept, pb_updated_at = now\<rparr>],
      runs = [\<lparr>rn_run_id = ''r'', rn_user_id = ''u'', rn_project_id = ''p'', rn_limit_nusd = 100000,
         rn_spent_nusd = spent, rn_reserved_nusd = kept, rn_opened_at = Some 1\<rparr>],
      charges = cs\<rparr>"

definition demo_charge :: model_charge_row where
  "demo_charge = new_charge 2 ''c1'' ''u'' ''p'' ''r'' 0 25000 ''openai'' ''gpt-4o-mini''"

definition demo_dispatched :: model_charge_row where
  "demo_dispatched = demo_charge\<lparr>ch_state := Dispatched, ch_updated_at := 3, ch_dispatched_at := Some 3\<rparr>"

definition demo_reconciled :: model_charge_row where
  "demo_reconciled = demo_dispatched\<lparr>ch_state := Reconciled, ch_actual_nusd := Some 21000,
     ch_provider := Some ''openai'', ch_model := Some ''gpt-4o-mini'', ch_input_tokens := Some 100,
     ch_output_tokens := Some 10, ch_cache_read_tokens := None, ch_cache_write_tokens := None,
     ch_updated_at := 4, ch_reconciled_at := Some 4\<rparr>"

lemmas budget_eval =
  open_run_def open_result_def summary_def register_run_def reserve_call_def simple_transition_def
  mark_dispatched_def reconcile_def settle_charge_def persisted_charge_def duplicate_def
  budget_empty_def demo_accounts_def demo_charge_def demo_dispatched_def demo_reconciled_def
  insert_or_ignore_def insert_unique_def same_project_def new_project_row_def new_charge_def
  charge_clash_def in_project_def in_run_def charge_filters_def scope_ids_ok_def id_ok_def
  SAFE_ID_def safe_id_char_def bigint_range_def scalar_def select_where_def updated_def rowcount_def

lemma demo_opened:
  "fst (open_run 1 ''u'' ''p'' ''r'' 100000 200000 (register_run ''u'' ''p'' ''r'' budget_empty)) =
     demo_accounts 0 0 1 []"
  by (simp add: budget_eval pricing_eval)

lemma demo_reserve:
  "reserve_call 2 ''c1'' ''u'' ''p'' ''r'' 0 25000 ''openai'' ''gpt-4o-mini'' (demo_accounts 0 0 1 []) =
     (demo_accounts 0 25000 2 [demo_charge],
      Inr \<lparr>res_charge_id = ''c1'', res_state = Reserved, res_should_dispatch = True, res_reserved_nusd = 25000\<rparr>)"
  by (simp add: budget_eval pricing_eval)

lemma demo_dispatch:
  "mark_dispatched 3 3 ''c1'' ''u'' ''p'' ''r'' (demo_accounts 0 25000 2 [demo_charge]) =
     (demo_accounts 0 25000 2 [demo_dispatched], Inr demo_dispatched)"
  by (simp add: budget_eval pricing_eval)

lemma demo_reconcile:
  "reconcile 4 ''c1'' ''u'' ''p'' ''r'' None 100 10 None None (Some ''openai'') (Some ''gpt-4o-mini'')
     (demo_accounts 0 25000 2 [demo_dispatched]) =
     (demo_accounts 21000 0 4 [demo_reconciled], Inr demo_reconciled)"
  by (simp add: budget_eval pricing_eval)

lemma demo_reachable_open: "budget_reachable (demo_accounts 0 0 1 [])"
proof -
  have "budget_step budget_empty (register_run ''u'' ''p'' ''r'' budget_empty)" by (rule run_registered)
  moreover have "budget_step (register_run ''u'' ''p'' ''r'' budget_empty) (demo_accounts 0 0 1 [])"
    unfolding demo_opened [symmetric] by (rule run_opened)
  ultimately show ?thesis by (auto simp: budget_reachable_def)
qed

lemma demo_steps:
  "budget_step (demo_accounts 0 0 1 []) (demo_accounts 0 25000 2 [demo_charge])"
  "budget_step (demo_accounts 0 25000 2 [demo_charge]) (demo_accounts 0 25000 2 [demo_dispatched])"
  "budget_step (demo_accounts 0 25000 2 [demo_dispatched]) (demo_accounts 21000 0 4 [demo_reconciled])"
  using call_reserved [of "demo_accounts 0 0 1 []" 2 "''c1''" "''u''" "''p''" "''r''" 0 25000 "''openai''" "''gpt-4o-mini''"]
    call_dispatched [of "demo_accounts 0 25000 2 [demo_charge]" 3 3 "''c1''" "''u''" "''p''" "''r''"]
    call_reconciled [of "demo_accounts 0 25000 2 [demo_dispatched]" 4 "''c1''" "''u''" "''p''" "''r''" None 100 10
      None None "Some ''openai''" "Some ''gpt-4o-mini''"]
  by (simp_all only: demo_reserve demo_dispatch demo_reconcile fst_conv)

lemma demo_reachable:
  "budget_reachable (demo_accounts 0 25000 2 [demo_charge])"
  "budget_reachable (demo_accounts 0 25000 2 [demo_dispatched])"
  "budget_reachable (demo_accounts 21000 0 4 [demo_reconciled])"
  using demo_reachable_open demo_steps unfolding budget_reachable_def
  by (meson rtranclp.rtrancl_into_rtrancl)+

subsection \<open>Properties\<close>

text \<open>
  C3: Double entry. After any history of transactions, the reserved and the spent amount of a
  project (and of a run) are exactly the sums over the charges of its scope that still hold a
  reservation, and that were reconciled, and together they do not exceed the limit.
\<close>

theorem budget_conservation:
  assumes "budget_reachable db" and "p \<in> set (projects db)" and "r \<in> set (runs db)"
  shows "pb_reserved_nusd p = total held (project_scope p) (charges db)
      \<and> pb_spent_nusd p = total paid (project_scope p) (charges db)
      \<and> pb_spent_nusd p + pb_reserved_nusd p \<le> pb_limit_nusd p
      \<and> rn_reserved_nusd r = total held (run_scope r) (charges db)
      \<and> rn_spent_nusd r = total paid (run_scope r) (charges db)
      \<and> rn_spent_nusd r + rn_reserved_nusd r \<le> rn_limit_nusd r"
  using inv_project_ok [OF budget_reachable_inv assms(2)] inv_run_ok [OF budget_reachable_inv assms(3)] assms(1)
  by (simp add: project_ok_def run_ok_def)

theorem budget_conservation_witness:
  "\<exists>p r. p \<in> set (projects (demo_accounts 21000 0 4 [demo_reconciled]))
     \<and> r \<in> set (runs (demo_accounts 21000 0 4 [demo_reconciled]))
     \<and> pb_spent_nusd p = total paid (project_scope p) [demo_reconciled]
     \<and> rn_spent_nusd r = total paid (run_scope r) [demo_reconciled]
     \<and> pb_spent_nusd p = 21000 \<and> rn_reserved_nusd r = 0"
  using budget_conservation [OF demo_reachable(3)]
  by (auto simp: demo_accounts_def)

text \<open>
  No transaction ever violates a CHECK constraint of the budget tables, and every amount
  fits a signed 64-bit column: the counters do not overflow.
\<close>

theorem budget_checks_hold:
  assumes "budget_reachable db"
  shows "list_all (\<lambda>p. project_budget_checks p \<and> pb_limit_nusd p \<le> MAX_BIGINT
            \<and> pb_spent_nusd p \<le> MAX_BIGINT \<and> pb_reserved_nusd p \<le> MAX_BIGINT) (projects db)
      \<and> list_all (\<lambda>r. run_budget_checks r \<and> rn_limit_nusd r \<le> MAX_BIGINT
            \<and> rn_spent_nusd r \<le> MAX_BIGINT \<and> rn_reserved_nusd r \<le> MAX_BIGINT) (runs db)
      \<and> list_all model_charge_checks (charges db)"
proof -
  note inv = budget_reachable_inv [OF assms]
  note nn = total_charges_nonneg [OF inv]
  have "project_budget_checks p \<and> pb_limit_nusd p \<le> MAX_BIGINT
      \<and> pb_spent_nusd p \<le> MAX_BIGINT \<and> pb_reserved_nusd p \<le> MAX_BIGINT" if "p \<in> set (projects db)" for p
    using inv_project_ok [OF inv that] nn [of "project_scope p"]
    unfolding project_ok_def project_budget_checks_def by linarith
  moreover have "run_budget_checks r \<and> rn_limit_nusd r \<le> MAX_BIGINT
      \<and> rn_spent_nusd r \<le> MAX_BIGINT \<and> rn_reserved_nusd r \<le> MAX_BIGINT" if "r \<in> set (runs db)" for r
    using inv_run_ok [OF inv that] nn [of "run_scope r"]
    unfolding run_ok_def run_budget_checks_def by linarith
  moreover have "model_charge_checks c" if "c \<in> set (charges db)" for c
    using inv_charge_ok [OF inv that]
    by (auto simp: charge_ok_def charge_counts_ok_def model_charge_checks_def bigint_range_def split: option.splits)
  ultimately show ?thesis by (simp add: list_all_iff)
qed

theorem budget_checks_hold_witness:
  "list_all model_charge_checks [demo_dispatched]
     \<and> list_all project_budget_checks (projects (demo_accounts 0 25000 2 [demo_dispatched]))"
  using budget_checks_hold [OF demo_reachable(2)] by (simp add: demo_accounts_def)

text \<open>
  A charge has one outcome. Once a charge is reconciled, released or indeterminate, no later
  history of transactions rewrites its row or replaces it.
\<close>

theorem charge_outcome_is_final:
  assumes "budget_reachable db" and "budget_step\<^sup>*\<^sup>* db db'"
    and "c \<in> set (charges db)" and "ch_state c \<in> {Reconciled, Released, Indeterminate}"
  shows "c \<in> set (charges db')
      \<and> (\<forall>c'. c' \<in> set (charges db') \<and> ch_charge_id c' = ch_charge_id c \<longrightarrow> c' = c)"
proof -
  have d: "distinct (map ch_charge_id (charges db'))"
    by (rule charge_key_distinct [OF budget_steps_inv [OF assms(2) budget_reachable_inv [OF assms(1)]]])
  have f: "x = c" if "charge_moves c x" for x by (rule charge_moves_final [OF that assms(4)])
  from charge_ledger.row_moves [OF assms(2,3)] f have "c \<in> set (charges db')" by blast
  with charge_ledger.one_outcome [OF assms(2) d assms(3) f] show ?thesis by blast
qed

theorem charge_outcome_is_final_witness:
  "demo_reconciled \<in> set (charges (fst (release 9 ''c1'' ''u'' ''p'' ''r''
       (demo_accounts 21000 0 4 [demo_reconciled]))))"
proof -
  have "budget_step\<^sup>*\<^sup>* (demo_accounts 21000 0 4 [demo_reconciled])
      (fst (release 9 ''c1'' ''u'' ''p'' ''r'' (demo_accounts 21000 0 4 [demo_reconciled])))"
    by (rule r_into_rtranclp) (rule call_released)
  from charge_outcome_is_final [OF demo_reachable(3) this, of demo_reconciled] show ?thesis
    by (simp add: demo_accounts_def demo_reconciled_def)
qed

text \<open>
  At most one dispatch per call. After a reservation was granted for dispatch, no later
  reservation under the same charge id, or for the same ordinal of the same run, is granted
  again, whatever happened in between.
\<close>

theorem reservation_granted_once:
  assumes "budget_reachable db"
    and "reserve_call now cid owner project run ordinal quote provider model db = (db1, Inr res)"
    and "res_should_dispatch res"
    and "budget_step\<^sup>*\<^sup>* db1 db2"
    and "cid' = cid \<or> (run' = run \<and> ordinal' = ordinal)"
    and "reserve_call now' cid' owner' project' run' ordinal' quote' provider' model' db2 = (db3, Inr res')"
  shows "\<not> res_should_dispatch res' \<and> db3 = db2"
proof (cases rule: reserve_call_cases [of now' cid' owner' project' run' ordinal' quote' provider' model' db2])
  case same
  with assms(6) show ?thesis by auto
next
  case (reserved family m)
  from reserve_granted [OF assms(2,3)] obtain f' m' where
    "new_charge now cid owner project run ordinal quote f' m' \<in> set (charges db1)"
    by (metis in_set_conv_decomp)
  from charge_ledger.row_moves [OF assms(4) this] obtain c where "c \<in> set (charges db2)"
    "ch_charge_id c = cid" "ch_run_id c = run" "ch_ordinal c = ordinal"
    by (auto simp: charge_move_defs new_charge_def)
  with reserved(7) assms(5) have False by (auto simp: charge_clash_def new_charge_def)
  then show ?thesis ..
qed

theorem reservation_granted_once_witness:
  "\<exists>res. reserve_call 7 ''c1'' ''u'' ''p'' ''r'' 0 25000 ''openai'' ''gpt-4o-mini''
       (demo_accounts 0 25000 2 [demo_dispatched]) = (demo_accounts 0 25000 2 [demo_dispatched], Inr res)
     \<and> res_state res = Dispatched \<and> \<not> res_should_dispatch res"
proof -
  have again: "reserve_call 7 ''c1'' ''u'' ''p'' ''r'' 0 25000 ''openai'' ''gpt-4o-mini''
       (demo_accounts 0 25000 2 [demo_dispatched]) =
     (demo_accounts 0 25000 2 [demo_dispatched], Inr (reservation demo_dispatched False))"
    by (simp add: budget_eval pricing_eval)
  from reservation_granted_once [OF demo_reachable_open demo_reserve _ r_into_rtranclp [of budget_step, OF demo_steps(2)] _ again]
  show ?thesis using again by (simp add: reservation_def demo_dispatched_def)
qed



end
