(* ===== verification/Budgeted_Provider.thy ===== *)
theory Budgeted_Provider
  imports Budget_Ledger
begin

text \<open>
  The run-scoped provider wrapper (\<open>runtime/monetary_budget.py\<close>): quote, open, reserve,
  dispatch, call the delegate, reconcile, and the clean-up of every failure in between.

  What the wrapper cannot control is an argument of the model: per repository call a
  \<open>call_env\<close> of \<open>Durable_Calls\<close>, and a list of \<open>wake\<close> events that says when
  the caller was cancelled while the call was awaited. The delegate's answer is an argument too,
  a Python object whose fields may have any type. The wrapper's result names the state of the
  ledger at the moment the delegate was called.
\<close>

subsection \<open>Python values at the delegate boundary\<close>

datatype py = PyNone | PyInt int | PyStr string | PyOther

datatype tool_call_object = ToolCallObject py py bool | OtherCallObject
datatype tool_calls_object = CallTuple "tool_call_object list" | NotATuple

record usage_object =
  uo_input :: py
  uo_output :: py
  uo_cache_read :: py
  uo_cache_write :: py

text \<open>\<open>ro_usage\<close> is None when the field does not hold a \<open>TokenUsage\<close>;
  \<open>ro_structured_copies\<close> says whether \<open>copy.deepcopy\<close> of the structured output returns.\<close>

record response_object =
  ro_content :: py
  ro_tool_calls :: tool_calls_object
  ro_usage :: "usage_object option"
  ro_stop_reason :: py
  ro_structured_copies :: bool
  ro_actual_provider :: py
  ro_actual_model :: py

datatype delegate_answer =
    Answer response_object
  | NotAModelResponse
  | DelegateRaised
  | DelegateCancelled

record response_snapshot =
  sn_content :: "string option"
  sn_tool_calls :: "(string \<times> string) list"
  sn_input :: int
  sn_output :: int
  sn_cache_read :: "int option"
  sn_cache_write :: "int option"
  sn_stop_reason :: "string option"
  sn_provider :: "string option"
  sn_model :: "string option"

fun py_count :: "py \<Rightarrow> int option" where
  "py_count (PyInt n) = (if bigint_range n then Some n else None)"
| "py_count _ = None"

fun py_optional_count :: "py \<Rightarrow> int option option" where
  "py_optional_count PyNone = Some None"
| "py_optional_count v = map_option Some (py_count v)"

fun py_optional_str :: "py \<Rightarrow> string option option" where
  "py_optional_str PyNone = Some None"
| "py_optional_str (PyStr s) = Some (Some s)"
| "py_optional_str _ = None"

text \<open>\<open>ToolCall(...)\<close> raises for an empty id or name.\<close>

fun copied_call :: "tool_call_object \<Rightarrow> (string \<times> string) option" where
  "copied_call (ToolCallObject (PyStr i) (PyStr n) copies) =
     (if copies \<and> i \<noteq> [] \<and> n \<noteq> [] then Some (i, n) else None)"
| "copied_call _ = None"

fun copied_calls :: "tool_call_object list \<Rightarrow> (string \<times> string) list option" where
  "copied_calls [] = Some []"
| "copied_calls (c # cs) =
     (case copied_call c of None \<Rightarrow> None | Some x \<Rightarrow> map_option ((#) x) (copied_calls cs))"

text \<open>\<open>_snapshot_response\<close>; None is \<open>IndeterminateModelCharge\<close>.\<close>

definition snapshot_response :: "response_object \<Rightarrow> response_snapshot option" where
  "snapshot_response r =
     (case ro_usage r of None \<Rightarrow> None
      | Some u \<Rightarrow>
        (case (py_count (uo_input u), py_count (uo_output u),
               py_optional_count (uo_cache_read u), py_optional_count (uo_cache_write u)) of
           (Some i, Some k, Some rd, Some wr) \<Rightarrow>
             if optional_count rd + optional_count wr > i then None
             else
               (case (py_optional_str (ro_content r), py_optional_str (ro_stop_reason r),
                      py_optional_str (ro_actual_provider r), py_optional_str (ro_actual_model r)) of
                  (Some content, Some stop, Some provider, Some model) \<Rightarrow>
                    (case ro_tool_calls r of NotATuple \<Rightarrow> None
                     | CallTuple cs \<Rightarrow>
                       (case copied_calls cs of None \<Rightarrow> None
                        | Some calls \<Rightarrow>
                            if \<not> ro_structured_copies r \<or> (content = None \<and> calls = []) then None
                            else Some \<lparr>sn_content = content, sn_tool_calls = calls, sn_input = i,
                              sn_output = k, sn_cache_read = rd, sn_cache_write = wr,
                              sn_stop_reason = stop, sn_provider = provider, sn_model = model\<rparr>))
                | _ \<Rightarrow> None)
         | _ \<Rightarrow> None))"

subsection \<open>Configuration\<close>

record provider_config =
  pv_owner :: string
  pv_project :: string
  pv_run :: string
  pv_run_limit :: int
  pv_project_limit :: int
  pv_max_input :: int
  pv_headroom :: int
  pv_candidates :: "(string \<times> string) list"

record provider_state =
  pv_opened :: bool
  pv_next_ordinal :: int

datatype call_error =
    ModelBudgetExhausted
  | DuplicateModelCharge
  | IndeterminateModelCharge
  | DurableModelChargeStateError
  | CallCancelled
  | CallOverflow
  | CallValueError
  | DelegateFailure
  | RepositoryFailure "budget_error call_failure"

text \<open>\<open>BudgetRunContext\<close>, \<open>PricingCandidate\<close> and the checks of \<open>__init__\<close>;
  a candidate is given as written by the caller and stored as its validated pair.\<close>

definition make_provider ::
  "string \<Rightarrow> string \<Rightarrow> string \<Rightarrow> int \<Rightarrow> int \<Rightarrow> int \<Rightarrow> (string \<times> string) list \<Rightarrow> int
     \<Rightarrow> call_error + provider_config \<times> provider_state" where
  "make_provider owner project run run_limit project_limit max_input candidates headroom =
     (if \<not> (id_ok owner 255 \<and> id_ok project 255 \<and> id_ok run 36) then Inl CallValueError
      else
        (case collect (map (\<lambda>(provider, model). validated_pricing_pair model provider) candidates) of
           Inl e \<Rightarrow> Inl CallValueError
         | Inr pairs \<Rightarrow>
             if pairs = [] \<or> \<not> distinct pairs then Inl CallValueError
             else if \<not> (bigint_range run_limit \<and> bigint_range project_limit
                         \<and> bigint_range max_input \<and> bigint_range headroom) then Inl CallValueError
             else Inr (\<lparr>pv_owner = owner, pv_project = project, pv_run = run,
                        pv_run_limit = run_limit, pv_project_limit = project_limit,
                        pv_max_input = max_input, pv_headroom = headroom, pv_candidates = pairs\<rparr>,
                       \<lparr>pv_opened = False, pv_next_ordinal = 0\<rparr>)))"

text \<open>\<open>_quoted_candidate\<close>: the quote of all candidates, and the first candidate whose own
  quote is the largest.\<close>

fun first_max :: "('a \<Rightarrow> int) \<Rightarrow> 'a \<Rightarrow> 'a list \<Rightarrow> 'a" where
  "first_max key best [] = best"
| "first_max key best (x # xs) = first_max key (if key x > key best then x else best) xs"

definition quoted_candidate ::
  "provider_config \<Rightarrow> int \<Rightarrow> int \<Rightarrow> pricing_error + int \<times> string \<times> string" where
  "quoted_candidate pv input_tokens max_tokens =
     (case quote_model_call_nusd (pv_candidates pv) input_tokens max_tokens of
        Inl e \<Rightarrow> Inl e
      | Inr quote \<Rightarrow>
          (case collect (map (\<lambda>c. quote_model_call_nusd [c] input_tokens max_tokens) (pv_candidates pv)) of
             Inl e \<Rightarrow> Inl e
           | Inr own \<Rightarrow>
               (case zip own (pv_candidates pv) of
                  [] \<Rightarrow> Inl PricingValueError
                | b # bs \<Rightarrow> Inr (quote, snd (first_max fst b bs)))))"

subsection \<open>Repository calls that may fail or be cancelled\<close>

datatype call_site =
    AtOpen | AtReserve | AtRelease | AtDispatch | AtInspectDispatch | AtRecoverDispatch
  | AtReconcile | AtInspect | AtMark | AtVerify

record provider_env =
  en_call :: "call_site \<Rightarrow> budget_db call_env"
  en_wakes :: "call_site \<Rightarrow> wake list"
  en_answer :: delegate_answer

definition cancelled_at :: "provider_env \<Rightarrow> call_site \<Rightarrow> bool" where
  "cancelled_at en site = cancelled_while (en_wakes en site) False"

subsection \<open>Opening and ordinals\<close>

definition ensure_open ::
  "provider_config \<Rightarrow> provider_env \<Rightarrow> provider_state \<Rightarrow> budget_db
     \<Rightarrow> provider_state \<times> budget_db \<times> (call_error + unit)" where
  "ensure_open pv en st db =
     (if pv_opened st then (st, db, Inr ())
      else
        (case repository_call (en_call en AtOpen)
                (\<lambda>now. open_run now (pv_owner pv) (pv_project pv) (pv_run pv)
                         (pv_run_limit pv) (pv_project_limit pv)) db of
           (db', Inl e) \<Rightarrow>
             (st, db', Inl (if cancelled_at en AtOpen then CallCancelled else RepositoryFailure e))
         | (db', Inr _) \<Rightarrow> (st\<lparr>pv_opened := True\<rparr>, db', Inr ())))"

definition allocate_ordinal :: "provider_state \<Rightarrow> provider_state \<times> (call_error + int)" where
  "allocate_ordinal st =
     (if pv_next_ordinal st > 2 ^ 31 - 1 then (st, Inl CallOverflow)
      else (st\<lparr>pv_next_ordinal := pv_next_ordinal st + 1\<rparr>, Inr (pv_next_ordinal st)))"

subsection \<open>Clean-up\<close>

definition lookup_charge ::
  "provider_config \<Rightarrow> provider_env \<Rightarrow> call_site \<Rightarrow> string \<Rightarrow> budget_db
     \<Rightarrow> budget_db \<times> (budget_error call_failure + model_charge_row option)" where
  "lookup_charge pv en site cid db =
     repository_call (en_call en site)
       (\<lambda>_ db. (db, get_charge cid (pv_owner pv) (pv_project pv) (pv_run pv) db)) db"

definition mark_call ::
  "provider_config \<Rightarrow> provider_env \<Rightarrow> call_site \<Rightarrow> string \<Rightarrow> string \<Rightarrow> budget_db
     \<Rightarrow> budget_db \<times> (budget_error call_failure + model_charge_row)" where
  "mark_call pv en site cid reason db =
     repository_call (en_call en site)
       (\<lambda>now. mark_indeterminate now cid (pv_owner pv) (pv_project pv) (pv_run pv) reason) db"

definition release_call ::
  "provider_config \<Rightarrow> provider_env \<Rightarrow> call_site \<Rightarrow> string \<Rightarrow> budget_db
     \<Rightarrow> budget_db \<times> (budget_error call_failure + model_charge_row)" where
  "release_call pv en site cid db =
     repository_call (en_call en site)
       (\<lambda>now. release now cid (pv_owner pv) (pv_project pv) (pv_run pv)) db"

definition mark_indeterminate_if_active ::
  "provider_config \<Rightarrow> provider_env \<Rightarrow> string \<Rightarrow> string \<Rightarrow> budget_db \<Rightarrow> budget_db \<times> (budget_error call_failure + unit)" where
  "mark_indeterminate_if_active pv en cid reason db =
     (case lookup_charge pv en AtInspect cid db of
        (db1, Inl e) \<Rightarrow> (db1, Inl e)
      | (db1, Inr None) \<Rightarrow> (db1, Inl (Raised ChargeStateConflict))
      | (db1, Inr (Some charge)) \<Rightarrow>
          if ch_state charge \<notin> {Reserved, Dispatched} then (db1, Inr ())
          else
            (case mark_call pv en AtMark cid reason db1 of
               (db2, Inr _) \<Rightarrow> (db2, Inr ())
             | (db2, Inl e) \<Rightarrow>
                 if e \<noteq> Raised ChargeStateConflict then (db2, Inl e)
                 else
                   (case lookup_charge pv en AtVerify cid db2 of
                      (db3, Inl e') \<Rightarrow> (db3, Inl e')
                    | (db3, Inr None) \<Rightarrow> (db3, Inl e)
                    | (db3, Inr (Some charge)) \<Rightarrow>
                        if ch_state charge \<in> {Reserved, Dispatched} then (db3, Inl e)
                        else (db3, Inr ()))))"

definition recover_failed_dispatch ::
  "provider_config \<Rightarrow> provider_env \<Rightarrow> string \<Rightarrow> budget_db \<Rightarrow> budget_db \<times> (budget_error call_failure + unit)" where
  "recover_failed_dispatch pv en cid db =
     (case lookup_charge pv en AtInspectDispatch cid db of
        (db1, Inl e) \<Rightarrow> (db1, Inl e)
      | (db1, Inr None) \<Rightarrow> (db1, Inl (Raised ChargeStateConflict))
      | (db1, Inr (Some charge)) \<Rightarrow>
          if ch_state charge = Reserved
          then (case release_call pv en AtRecoverDispatch cid db1 of
                  (db2, Inl e) \<Rightarrow> (db2, Inl e) | (db2, Inr _) \<Rightarrow> (db2, Inr ()))
          else if ch_state charge = Dispatched
          then (case mark_call pv en AtRecoverDispatch cid ''dispatch_interrupted'' db1 of
                  (db2, Inl e) \<Rightarrow> (db2, Inl e) | (db2, Inr _) \<Rightarrow> (db2, Inr ()))
          else (db1, Inr ()))"

subsection \<open>One call\<close>

text \<open>The pair that is billed, or None where \<open>complete\<close> raises \<open>IndeterminateModelCharge\<close>.\<close>

definition billed_pair :: "provider_config \<Rightarrow> response_snapshot \<Rightarrow> (string \<times> string) option" where
  "billed_pair pv sn =
     (case (case (sn_provider sn, sn_model sn) of
              (Some p, Some m) \<Rightarrow> Some (p, m)
            | (None, None) \<Rightarrow> (case pv_candidates pv of [c] \<Rightarrow> Some c | _ \<Rightarrow> None)
            | _ \<Rightarrow> None) of
        None \<Rightarrow> None
      | Some (p, m) \<Rightarrow>
          (case validated_pricing_pair m p of
             Inl e \<Rightarrow> None
           | Inr pair \<Rightarrow> if pair \<in> set (pv_candidates pv) then Some pair else None))"

text \<open>From the delegate's answer to the end of the \<open>try\<close> block.\<close>

definition settle_answer ::
  "provider_config \<Rightarrow> provider_env \<Rightarrow> string \<Rightarrow> budget_db \<Rightarrow> budget_db \<times> (call_error + response_snapshot)" where
  "settle_answer pv en cid db =
     (case en_answer en of
        DelegateRaised \<Rightarrow> (db, Inl DelegateFailure)
      | DelegateCancelled \<Rightarrow> (db, Inl CallCancelled)
      | NotAModelResponse \<Rightarrow> (db, Inl IndeterminateModelCharge)
      | Answer r \<Rightarrow>
          (case snapshot_response r of
             None \<Rightarrow> (db, Inl IndeterminateModelCharge)
           | Some sn \<Rightarrow>
               (case billed_pair pv sn of
                  None \<Rightarrow> (db, Inl IndeterminateModelCharge)
                | Some (p, m) \<Rightarrow>
                    (case repository_call (en_call en AtReconcile)
                            (\<lambda>now. reconcile now cid (pv_owner pv) (pv_project pv) (pv_run pv) None
                               (sn_input sn) (sn_output sn) (sn_cache_read sn) (sn_cache_write sn)
                               (Some p) (Some m)) db of
                       (db', res) \<Rightarrow>
                         if cancelled_at en AtReconcile then (db', Inl CallCancelled)
                         else
                           (case res of
                              Inr _ \<Rightarrow> (db', Inr sn)
                            | Inl (Raised e) \<Rightarrow>
                                (case e of
                                   QuoteExceeded \<Rightarrow> (db', Inl IndeterminateModelCharge)
                                 | ChargeStateConflict \<Rightarrow> (db', Inl IndeterminateModelCharge)
                                 | BudgetValueError \<Rightarrow> (db', Inl IndeterminateModelCharge)
                                 | BudgetPricingError _ \<Rightarrow> (db', Inl IndeterminateModelCharge)
                                 | _ \<Rightarrow> (db', Inl (RepositoryFailure (Raised e))))
                            | Inl LostCall \<Rightarrow> (db', Inl (RepositoryFailure LostCall)))))))"

record call_result =
  cr_state :: provider_state
  cr_db :: budget_db
  cr_charge_id :: "string option"
  cr_delegate_at :: "budget_db option"
  cr_outcome :: "call_error + response_snapshot"

definition finish_call ::
  "provider_config \<Rightarrow> provider_env \<Rightarrow> string \<Rightarrow> budget_db \<Rightarrow> budget_db \<times> (call_error + response_snapshot)" where
  "finish_call pv en cid db =
     (case settle_answer pv en cid db of
        (db1, Inr sn) \<Rightarrow> (db1, Inr sn)
      | (db1, Inl original) \<Rightarrow>
          (case mark_indeterminate_if_active pv en cid
                  (if original = CallCancelled then ''call_cancelled'' else ''call_failed'') db1 of
             (db2, Inl _) \<Rightarrow> (db2, Inl DurableModelChargeStateError)
           | (db2, Inr _) \<Rightarrow>
               (db2, Inl (if original = CallCancelled then original
                          else if cancelled_at en AtInspect then CallCancelled
                          else original))))"

definition dispatch_call ::
  "provider_config \<Rightarrow> provider_env \<Rightarrow> string \<Rightarrow> budget_db
     \<Rightarrow> budget_db \<times> budget_db option \<times> (call_error + response_snapshot)" where
  "dispatch_call pv en cid db =
     (case repository_call (en_call en AtDispatch)
             (\<lambda>now. mark_dispatched now now cid (pv_owner pv) (pv_project pv) (pv_run pv)) db of
        (db1, res) \<Rightarrow>
          if cancelled_at en AtDispatch \<or> isl res then
            (case recover_failed_dispatch pv en cid db1 of
               (db2, Inl _) \<Rightarrow> (db2, None, Inl DurableModelChargeStateError)
             | (db2, Inr _) \<Rightarrow>
                 (db2, None,
                  Inl (if cancelled_at en AtDispatch \<or> cancelled_at en AtInspectDispatch
                       then CallCancelled
                       else (case res of Inl e \<Rightarrow> RepositoryFailure e | Inr _ \<Rightarrow> CallCancelled))))
          else (case finish_call pv en cid db1 of (db2, out) \<Rightarrow> (db2, Some db1, out)))"

definition reserve_and_dispatch ::
  "provider_config \<Rightarrow> provider_env \<Rightarrow> string \<Rightarrow> int \<Rightarrow> int \<Rightarrow> string \<times> string \<Rightarrow> budget_db
     \<Rightarrow> budget_db \<times> budget_db option \<times> (call_error + response_snapshot)" where
  "reserve_and_dispatch pv en cid ordinal quote candidate db =
     (case repository_call (en_call en AtReserve)
             (\<lambda>now. reserve_call now cid (pv_owner pv) (pv_project pv) (pv_run pv) ordinal quote
                      (fst candidate) (snd candidate)) db of
        (db1, Inl e) \<Rightarrow>
          (db1, None,
           Inl (if cancelled_at en AtReserve then CallCancelled
                else if e \<in> {Raised ProjectBudgetExceeded, Raised RunBudgetExceeded}
                then ModelBudgetExhausted else RepositoryFailure e))
      | (db1, Inr granted) \<Rightarrow>
          if cancelled_at en AtReserve then
            (if res_should_dispatch granted then
               (case release_call pv en AtRelease cid db1 of
                  (db2, Inl _) \<Rightarrow> (db2, None, Inl DurableModelChargeStateError)
                | (db2, Inr _) \<Rightarrow> (db2, None, Inl CallCancelled))
             else (db1, None, Inl CallCancelled))
          else if \<not> res_should_dispatch granted then (db1, None, Inl DuplicateModelCharge)
          else dispatch_call pv en cid db1)"

text \<open>
  \<open>complete\<close>. The estimate of the request's input tokens is an argument and so is
  the digest function \<open>sha256\<close> behind \<open>_charge_id\<close>.
\<close>

definition charge_id :: "(string \<Rightarrow> string) \<Rightarrow> string \<Rightarrow> int \<Rightarrow> string" where
  "charge_id sha256 run_id ordinal = ''model_v1_'' @ sha256 (run_id @ '':'' @ show_int ordinal)"

definition complete ::
  "(string \<Rightarrow> string) \<Rightarrow> provider_config \<Rightarrow> provider_env \<Rightarrow> bool \<Rightarrow> bool \<Rightarrow> int \<Rightarrow> int
     \<Rightarrow> provider_state \<Rightarrow> budget_db \<Rightarrow> call_result" where
  "complete sha256 pv en has_contract has_format estimated max_tokens st db =
     (let stop = (\<lambda>st db e. \<lparr>cr_state = st, cr_db = db, cr_charge_id = None,
                             cr_delegate_at = None, cr_outcome = Inl e\<rparr>) in
      if has_contract \<and> has_format then stop st db CallValueError
      else if estimated > pv_max_input pv then stop st db ModelBudgetExhausted
      else
        (case quoted_candidate pv (min (pv_max_input pv) (estimated + pv_headroom pv)) max_tokens of
           Inl e \<Rightarrow> stop st db CallValueError
         | Inr (quote, candidate) \<Rightarrow>
             (case ensure_open pv en st db of
                (st1, db1, Inl e) \<Rightarrow> stop st1 db1 e
              | (st1, db1, Inr _) \<Rightarrow>
                  (case allocate_ordinal st1 of
                     (st2, Inl e) \<Rightarrow> stop st2 db1 e
                   | (st2, Inr ordinal) \<Rightarrow>
                       (case reserve_and_dispatch pv en (charge_id sha256 (pv_run pv) ordinal)
                               ordinal quote candidate db1 of
                          (db2, called, out) \<Rightarrow>
                            \<lparr>cr_state = st2, cr_db = db2,
                             cr_charge_id = Some (charge_id sha256 (pv_run pv) ordinal),
                             cr_delegate_at = called, cr_outcome = out\<rparr>)))))"

subsection \<open>Every call is a history of ledger transactions\<close>

definition foreign_ok :: "provider_env \<Rightarrow> bool" where
  "foreign_ok en \<longleftrightarrow> (\<forall>site db. budget_step\<^sup>*\<^sup>* db (ce_before (en_call en site) db))"

lemma repository_call_steps:
  assumes "foreign_ok en" and "\<And>now db. budget_step\<^sup>*\<^sup>* db (fst (op now db))"
    and "repository_call (en_call en site) op db = (db', res)"
  shows "budget_step\<^sup>*\<^sup>* db db'"
  by (rule charge_ledger.call_steps [OF _ assms(2,3)]) (use assms(1) in \<open>simp add: foreign_ok_def\<close>)

lemmas step_once = r_into_rtranclp [of budget_step]

lemma transaction_steps:
  "budget_step\<^sup>*\<^sup>* db (fst (open_run now owner project run rl pl db))"
  "budget_step\<^sup>*\<^sup>* db (fst (reserve_call now cid owner project run ordinal quote p m db))"
  "budget_step\<^sup>*\<^sup>* db (fst (mark_dispatched d now cid owner project run db))"
  "budget_step\<^sup>*\<^sup>* db (fst (reconcile now cid owner project run supplied i k rd wr pr mo db))"
  "budget_step\<^sup>*\<^sup>* db (fst (release now cid owner project run db))"
  "budget_step\<^sup>*\<^sup>* db (fst (mark_indeterminate now cid owner project run reason db))"
  by (rule step_once, rule budget_step.intros)+

lemma lookup_charge_steps:
  "foreign_ok en \<Longrightarrow> lookup_charge pv en site cid db = (db', res) \<Longrightarrow> budget_step\<^sup>*\<^sup>* db db'"
  unfolding lookup_charge_def by (erule repository_call_steps [rotated 2]) simp_all

lemma mark_call_steps:
  "foreign_ok en \<Longrightarrow> mark_call pv en site cid reason db = (db', res) \<Longrightarrow> budget_step\<^sup>*\<^sup>* db db'"
  unfolding mark_call_def by (erule repository_call_steps [rotated 2]) (simp_all add: transaction_steps)

lemma release_call_steps:
  "foreign_ok en \<Longrightarrow> release_call pv en site cid db = (db', res) \<Longrightarrow> budget_step\<^sup>*\<^sup>* db db'"
  unfolding release_call_def by (erule repository_call_steps [rotated 2]) (simp_all add: transaction_steps)

lemma ensure_open_steps:
  "foreign_ok en \<Longrightarrow> ensure_open pv en st db = (st', db', res) \<Longrightarrow> budget_step\<^sup>*\<^sup>* db db'"
  unfolding ensure_open_def
  by (auto split: if_splits prod.splits sum.splits elim!: repository_call_steps [rotated 2] simp: transaction_steps)

lemma mark_indeterminate_if_active_steps:
  assumes f: "foreign_ok en" and r: "mark_indeterminate_if_active pv en cid reason db = (db', res)"
  shows "budget_step\<^sup>*\<^sup>* db db'"
proof -
  note L = lookup_charge_steps [OF f] and M = mark_call_steps [OF f]
  from r show ?thesis unfolding mark_indeterminate_if_active_def
    by (auto split: if_splits prod.split_asm sum.split_asm option.split_asm dest!: L M intro: rtranclp_trans)
qed

lemma recover_failed_dispatch_steps:
  assumes f: "foreign_ok en" and r: "recover_failed_dispatch pv en cid db = (db', res)"
  shows "budget_step\<^sup>*\<^sup>* db db'"
proof -
  note L = lookup_charge_steps [OF f] and M = mark_call_steps [OF f] release_call_steps [OF f]
  from r show ?thesis unfolding recover_failed_dispatch_def
    by (auto split: if_splits prod.split_asm sum.split_asm option.split_asm dest!: L M intro: rtranclp_trans)
qed

lemma settle_answer_steps:
  assumes f: "foreign_ok en" and r: "settle_answer pv en cid db = (db', res)"
  shows "budget_step\<^sup>*\<^sup>* db db'"
proof -
  note R = repository_call_steps [OF f transaction_steps(4)]
  from r show ?thesis unfolding settle_answer_def
    by (auto split: if_splits prod.split_asm sum.split_asm option.split_asm delegate_answer.split_asm
        call_failure.split_asm budget_error.split_asm dest!: R)
qed

lemma finish_call_steps:
  assumes f: "foreign_ok en" and r: "finish_call pv en cid db = (db', res)"
  shows "budget_step\<^sup>*\<^sup>* db db'"
proof -
  note S = settle_answer_steps [OF f] mark_indeterminate_if_active_steps [OF f]
  from r show ?thesis unfolding finish_call_def
    by (auto split: prod.split_asm sum.split_asm dest!: S intro: rtranclp_trans)
qed

lemma dispatch_call_steps:
  assumes f: "foreign_ok en" and r: "dispatch_call pv en cid db = (db', called, res)"
  shows "budget_step\<^sup>*\<^sup>* db db'"
proof -
  note S = repository_call_steps [OF f transaction_steps(3)] finish_call_steps [OF f]
    recover_failed_dispatch_steps [OF f]
  from r show ?thesis unfolding dispatch_call_def
    by (auto split: if_splits prod.split_asm sum.split_asm dest!: S intro: rtranclp_trans)
qed

lemma reserve_and_dispatch_steps:
  assumes f: "foreign_ok en" and r: "reserve_and_dispatch pv en cid ordinal quote c db = (db', called, res)"
  shows "budget_step\<^sup>*\<^sup>* db db'"
proof -
  note S = repository_call_steps [OF f transaction_steps(2)] dispatch_call_steps [OF f] release_call_steps [OF f]
  from r show ?thesis unfolding reserve_and_dispatch_def
    by (auto split: if_splits prod.split_asm sum.split_asm dest!: S intro: rtranclp_trans)
qed

lemma complete_steps:
  assumes f: "foreign_ok en"
  shows "budget_step\<^sup>*\<^sup>* db (cr_db (complete sha256 pv en hc hf est mt st db))"
proof -
  note S = ensure_open_steps [OF f] reserve_and_dispatch_steps [OF f]
  show ?thesis unfolding complete_def Let_def
    by (auto split: prod.split sum.split dest!: S intro: rtranclp_trans)
qed

subsection \<open>Closing a charge\<close>

definition closed :: "string \<Rightarrow> budget_db \<Rightarrow> bool" where
  "closed cid db = list_ex (\<lambda>c. ch_charge_id c = cid \<and> ch_state c \<notin> {Reserved, Dispatched}) (charges db)"

definition unused :: "string \<Rightarrow> budget_db \<Rightarrow> bool" where
  "unused cid db = list_all (\<lambda>c. ch_charge_id c \<noteq> cid) (charges db)"

lemma inactive_final: "s \<notin> {Reserved, Dispatched} \<longleftrightarrow> s \<in> {Reconciled, Released, Indeterminate}"
  by (cases s) auto

lemma closed_steps:
  assumes "closed cid db" and "budget_step\<^sup>*\<^sup>* db db'"
  shows "closed cid db'"
proof -
  from assms(1) obtain c where c: "c \<in> set (charges db)" "ch_charge_id c = cid"
    "ch_state c \<in> {Reconciled, Released, Indeterminate}"
    unfolding closed_def list_ex_iff inactive_final by blast
  from charge_ledger.row_moves [OF assms(2) c(1)] charge_moves_final [OF _ c(3)] have "c \<in> set (charges db')"
    by blast
  with c show ?thesis unfolding closed_def list_ex_iff inactive_final by blast
qed

lemma closed_settled:
  assumes "closed cid db" and "budget_inv db" and "c \<in> set (charges db)" and "ch_charge_id c = cid"
  shows "ch_state c \<notin> {Reserved, Dispatched}"
  using assms charge_key_distinct [OF assms(2)]
  by (fastforce simp: closed_def list_ex_iff distinct_map inj_on_def)

lemma rowcount_one_updated:
  assumes "rowcount P t = Suc 0" and "\<And>r. P r \<Longrightarrow> Q (f r)"
  shows "\<exists>r\<in>set (updated P f t). Q r"
proof -
  from assms(1) obtain r where r: "r \<in> set t" "P r" by (rule rowcount_oneE)
  with updatedI [OF r(1), of P f] assms(2) show ?thesis by auto
qed

lemma simple_transition_reaches:
  assumes "simple_transition now cid owner project run source target vals db = (db', Inr c)"
    and "\<And>c. ch_state (vals c) = ch_state c \<and> same_identity c (vals c)"
  shows "\<exists>c\<in>set (charges db'). charge_filters cid owner project run c \<and> ch_state c = target"
proof -
  let ?PC = "\<lambda>c. charge_filters cid owner project run c \<and> ch_state c \<in> set source"
  let ?f = "\<lambda>c. vals (c\<lparr>ch_state := target, ch_updated_at := now\<rparr>)"
  have db': "db' = db\<lparr>charges := updated ?PC ?f (charges db)\<rparr>" "rowcount ?PC (charges db) = Suc 0"
    using assms(1) by (auto simp: simple_transition_def Let_def split: if_splits)
  have hit: "charge_filters cid owner project run (?f c) \<and> ch_state (?f c) = target" if "?PC c" for c
    using assms(2) [of "c\<lparr>ch_state := target, ch_updated_at := now\<rparr>"] that
    by (auto simp: charge_filters_def same_identity_def)
  have "\<exists>c\<in>set (updated ?PC ?f (charges db)). charge_filters cid owner project run c \<and> ch_state c = target"
    by (rule rowcount_one_updated [OF db'(2)]) (rule hit)
  then show ?thesis using db'(1) by simp
qed

lemma mark_indeterminate_closes:
  "mark_indeterminate now cid owner project run reason db = (db', Inr c) \<Longrightarrow> closed cid db'"
  unfolding mark_indeterminate_def
  by (auto simp: closed_def list_ex_iff charge_filters_def same_identity_def split: if_splits
      dest!: simple_transition_reaches)

lemma mark_dispatched_reaches:
  "mark_dispatched d now cid owner project run db = (db', Inr c) \<Longrightarrow>
    \<exists>c\<in>set (charges db'). charge_filters cid owner project run c \<and> ch_state c = Dispatched"
  unfolding mark_dispatched_def by (erule simple_transition_reaches) (simp add: same_identity_def)

lemma release_closes:
  assumes "release now cid owner project run db = (db', Inr c)"
  shows "closed cid db'"
proof -
  obtain PC where PC: "rowcount PC (charges db) = Suc 0" "\<And>c. PC c \<Longrightarrow> charge_filters cid owner project run c"
    and db': "charges db' = updated PC (\<lambda>c. c\<lparr>ch_state := Released, ch_reason_code := Some ''released'',
       ch_updated_at := now\<rparr>) (charges db)"
    using assms by (auto simp: release_def release_for_def give_back_def Let_def split: if_splits option.splits)
  show ?thesis unfolding closed_def list_ex_iff db'
    by (rule rowcount_one_updated [OF PC(1)]) (auto dest: PC(2) simp: charge_filters_def)
qed

lemma quote_exceeded_raises: "quote_exceeded now cid owner project run db \<noteq> (db', Inr c)"
  by (simp add: quote_exceeded_def Let_def)

lemma reconcile_Inr:
  assumes "reconcile now cid owner project run supplied i k rd wr (Some p) (Some m) db = (db', Inr c)"
    and "validated_pricing_pair m p = Inr (p, m)"
  obtains q a where "price_model_usage_nusd m p i k rd wr = Inr a" "a \<le> q"
    "settle_charge now cid owner project run q a i k rd wr p m db = (db', Inr c)"
  using assms
  by (auto simp: reconcile_def quote_exceeded_raises not_less split: if_split_asm option.split_asm sum.split_asm)

lemma reconcile_bills:
  assumes "reconcile now cid owner project run supplied i k rd wr (Some p) (Some m) db = (db', Inr c)"
    and "validated_pricing_pair m p = Inr (p, m)"
  shows "\<exists>c\<in>set (charges db'). \<exists>a. charge_filters cid owner project run c \<and> ch_state c = Reconciled
     \<and> ch_actual_nusd c = Some a \<and> price_model_usage_nusd m p i k rd wr = Inr a \<and> a \<le> ch_reserved_nusd c"
proof -
  from assms obtain q a where a: "price_model_usage_nusd m p i k rd wr = Inr a" "a \<le> q"
    and st: "settle_charge now cid owner project run q a i k rd wr p m db = (db', Inr c)"
    by (rule reconcile_Inr)
  let ?PC = "\<lambda>c. charge_filters cid owner project run c \<and> ch_state c = Dispatched \<and> ch_reserved_nusd c = q"
  from st have n: "rowcount ?PC (charges db) = Suc 0"
    and db': "charges db' = updated ?PC (\<lambda>c. c\<lparr>ch_state := Reconciled, ch_actual_nusd := Some a,
        ch_provider := Some p, ch_model := Some m, ch_input_tokens := Some i, ch_output_tokens := Some k,
        ch_cache_read_tokens := rd, ch_cache_write_tokens := wr, ch_updated_at := now,
        ch_reconciled_at := Some now\<rparr>) (charges db)"
    unfolding settle_charge_def Let_def by (auto split: if_split_asm)
  show ?thesis unfolding db'
    by (rule rowcount_one_updated [OF n]) (use a in \<open>auto simp: charge_filters_def\<close>)
qed

subsection \<open>Each stage closes the charge or reports a durable failure\<close>

lemma lookup_closed:
  assumes "lookup_charge pv en site cid db = (db', Inr (Some c))" and "ch_state c \<notin> {Reserved, Dispatched}"
  shows "closed cid db'"
  using repository_call_Inr [OF assms(1) [unfolded lookup_charge_def]] assms(2)
  by (auto simp: get_charge_def closed_def list_ex_iff charge_filters_def split: if_splits dest!: scalar_select_Some)

lemma mark_call_closed: "mark_call pv en site cid reason db = (db', Inr c) \<Longrightarrow> closed cid db'"
  unfolding mark_call_def by (auto dest!: repository_call_Inr mark_indeterminate_closes)

lemma release_call_closed: "release_call pv en site cid db = (db', Inr c) \<Longrightarrow> closed cid db'"
  unfolding release_call_def by (auto dest!: repository_call_Inr release_closes)

lemma mark_if_active_closed:
  "mark_indeterminate_if_active pv en cid reason db = (db', Inr u) \<Longrightarrow> closed cid db'"
  unfolding mark_indeterminate_if_active_def
  by (auto split: if_splits prod.split_asm sum.split_asm option.split_asm dest: lookup_closed mark_call_closed)

lemma recover_failed_dispatch_closed:
  assumes "recover_failed_dispatch pv en cid db = (db', Inr u)"
  shows "closed cid db'"
  using assms unfolding recover_failed_dispatch_def
  by (auto split: if_splits prod.split_asm sum.split_asm option.split_asm
      dest: lookup_closed mark_call_closed release_call_closed)

lemma billed_pair_candidate:
  assumes "billed_pair pv sn = Some (p, m)"
  shows "(p, m) \<in> set (pv_candidates pv)" and "validated_pricing_pair m p = Inr (p, m)"
  using assms
  by (auto simp: billed_pair_def split: option.splits list.splits sum.splits if_splits prod.splits
      dest: validated_pricing_pair_idem)

lemma settle_answer_billed:
  assumes "settle_answer pv en cid db = (db', Inr sn)"
  obtains p m c a where "(p, m) \<in> set (pv_candidates pv)" "c \<in> set (charges db')"
    "charge_filters cid (pv_owner pv) (pv_project pv) (pv_run pv) c" "ch_state c = Reconciled"
    "ch_actual_nusd c = Some a" "a \<le> ch_reserved_nusd c"
    "price_model_usage_nusd m p (sn_input sn) (sn_output sn) (sn_cache_read sn) (sn_cache_write sn) = Inr a"
proof -
  obtain p m c where b: "billed_pair pv sn = Some (p, m)" and
    r: "repository_call (en_call en AtReconcile)
       (\<lambda>now. reconcile now cid (pv_owner pv) (pv_project pv) (pv_run pv) None (sn_input sn) (sn_output sn)
          (sn_cache_read sn) (sn_cache_write sn) (Some p) (Some m)) db = (db', Inr c)"
    using assms unfolding settle_answer_def
    by (auto split: if_splits prod.split_asm sum.split_asm option.split_asm delegate_answer.split_asm
        call_failure.split_asm budget_error.split_asm)
  from reconcile_bills [OF repository_call_Inr [OF r] billed_pair_candidate(2) [OF b]]
    billed_pair_candidate(1) [OF b] that show thesis by blast
qed

lemma finish_call_closed:
  assumes "finish_call pv en cid db = (db', res)" and "res \<noteq> Inl DurableModelChargeStateError"
  shows "closed cid db'"
proof (cases res)
  case (Inr sn)
  with assms(1) have "settle_answer pv en cid db = (db', Inr sn)"
    by (auto simp: finish_call_def split: prod.split_asm sum.split_asm)
  then show ?thesis
    by (rule settle_answer_billed) (auto simp: closed_def list_ex_iff charge_filters_def)
next
  case (Inl e)
  with assms show ?thesis
    by (auto simp: finish_call_def split: prod.split_asm sum.split_asm dest: mark_if_active_closed)
qed

lemma dispatch_call_closed:
  assumes "dispatch_call pv en cid db = (db', called, res)" and "res \<noteq> Inl DurableModelChargeStateError"
  shows "closed cid db'"
  using assms unfolding dispatch_call_def
  by (auto split: if_splits prod.split_asm sum.split_asm dest: recover_failed_dispatch_closed finish_call_closed)

lemma reserve_refused:
  assumes "reserve_call now cid owner project run ordinal quote p m db = (db', res)"
    and "\<And>x. res = Inr x \<Longrightarrow> \<not> res_should_dispatch x"
  shows "db' = db"
proof (cases rule: reserve_call_cases [of now cid owner project run ordinal quote p m db])
  case same
  with assms show ?thesis by simp
next
  case (reserved f m')
  from reserved(8) assms show ?thesis by auto
qed

lemma reserve_and_dispatch_closed:
  assumes "reserve_and_dispatch pv en cid ordinal quote c db = (db', called, res)"
    and "res \<noteq> Inl DurableModelChargeStateError" and "ce_fault (en_call en AtReserve) \<noteq> FaultAfter"
  shows "db' = ce_before (en_call en AtReserve) db \<or> closed cid db'"
proof -
  obtain db1 r where r: "repository_call (en_call en AtReserve)
       (\<lambda>now. reserve_call now cid (pv_owner pv) (pv_project pv) (pv_run pv) ordinal quote (fst c) (snd c)) db = (db1, r)"
    by fastforce
  note same = repository_call_refused [OF r assms(3), of res_should_dispatch, OF reserve_refused]
  show ?thesis
  proof (cases "\<exists>x. r = Inr x \<and> res_should_dispatch x")
    case False
    with assms(1) same show ?thesis by (auto simp: reserve_and_dispatch_def r split: sum.splits if_splits)
  next
    case True
    with assms(1,2) show ?thesis
      by (auto simp: reserve_and_dispatch_def r split: prod.split_asm sum.split_asm if_splits
          dest: release_call_closed dispatch_call_closed)
  qed
qed

subsection \<open>Properties\<close>

lemma complete_reserve_stage:
  assumes "cr_charge_id (complete sha256 pv en hc hf est mt st db) = Some cid"
  obtains st1 db1 ordinal quote c called out where
    "ensure_open pv en st db = (st1, db1, Inr ())" "cid = charge_id sha256 (pv_run pv) ordinal"
    "reserve_and_dispatch pv en cid ordinal quote c db1 = (cr_db (complete sha256 pv en hc hf est mt st db), called, out)"
    "called = cr_delegate_at (complete sha256 pv en hc hf est mt st db)"
    "out = cr_outcome (complete sha256 pv en hc hf est mt st db)"
  using assms by (auto simp: complete_def Let_def split: if_splits prod.split_asm sum.split_asm)

lemma dispatch_call_called:
  assumes "dispatch_call pv en cid db = (db', Some d, res)"
  shows "\<exists>c\<in>set (charges d). charge_filters cid (pv_owner pv) (pv_project pv) (pv_run pv) c \<and> ch_state c = Dispatched"
    and "foreign_ok en \<Longrightarrow> budget_step\<^sup>*\<^sup>* db d"
    and "finish_call pv en cid d = (db', res)"
proof -
  obtain x where x: "repository_call (en_call en AtDispatch)
       (\<lambda>now. mark_dispatched now now cid (pv_owner pv) (pv_project pv) (pv_run pv)) db = (d, x)"
    "\<not> isl x" and f: "finish_call pv en cid d = (db', res)"
    using assms unfolding dispatch_call_def by (auto split: if_splits prod.split_asm sum.split_asm)
  from x obtain r where r: "repository_call (en_call en AtDispatch)
       (\<lambda>now. mark_dispatched now now cid (pv_owner pv) (pv_project pv) (pv_run pv)) db = (d, Inr r)"
    by (cases x) auto
  from mark_dispatched_reaches [OF repository_call_Inr [OF r]] f
    repository_call_steps [OF _ transaction_steps(3) r]
  show "\<exists>c\<in>set (charges d). charge_filters cid (pv_owner pv) (pv_project pv) (pv_run pv) c \<and> ch_state c = Dispatched"
    and "foreign_ok en \<Longrightarrow> budget_step\<^sup>*\<^sup>* db d" and "finish_call pv en cid d = (db', res)" by auto
qed

lemma reserve_and_dispatch_called:
  assumes "reserve_and_dispatch pv en cid ordinal quote c db = (db', Some d, res)"
  obtains db1 where "dispatch_call pv en cid db1 = (db', Some d, res)" "foreign_ok en \<Longrightarrow> budget_step\<^sup>*\<^sup>* db db1"
  using assms repository_call_steps [OF _ transaction_steps(2)]
  by (auto simp: reserve_and_dispatch_def split: if_splits prod.split_asm sum.split_asm)

lemma outcome_needs_delegate:
  assumes "reserve_and_dispatch pv en cid ordinal quote c db = (db', called, Inr sn)"
  shows "\<exists>d. called = Some d"
  using assms by (auto simp: reserve_and_dispatch_def dispatch_call_def split: if_splits prod.split_asm sum.split_asm)

lemma complete_Inr_charge:
  "cr_outcome (complete sha256 pv en hc hf est mt st db) = Inr sn \<Longrightarrow>
    \<exists>cid. cr_charge_id (complete sha256 pv en hc hf est mt st db) = Some cid"
  by (auto simp: complete_def Let_def split: if_splits prod.splits sum.splits)

lemma complete_called_charge:
  "cr_delegate_at (complete sha256 pv en hc hf est mt st db) = Some d \<Longrightarrow>
    \<exists>cid. cr_charge_id (complete sha256 pv en hc hf est mt st db) = Some cid"
  by (auto simp: complete_def Let_def split: if_splits prod.splits sum.splits)

subsection \<open>A concrete call\<close>

definition demo_config :: provider_config where
  "demo_config = \<lparr>pv_owner = ''u'', pv_project = ''p'', pv_run = ''r'', pv_run_limit = 100000,
     pv_project_limit = 200000, pv_max_input = 1000, pv_headroom = 0,
     pv_candidates = [(''openai'', ''gpt-4o-mini'')]\<rparr>"

definition demo_env :: "wake list \<Rightarrow> provider_env" where
  "demo_env ws = \<lparr>en_call = (\<lambda>_. \<lparr>ce_before = id, ce_fault = NoFault, ce_now = 9\<rparr>),
     en_wakes = (\<lambda>site. if site = AtDispatch then ws else [ChildFinished]),
     en_answer = Answer \<lparr>ro_content = PyStr ''hello'', ro_tool_calls = CallTuple [],
       ro_usage = Some \<lparr>uo_input = PyInt 90, uo_output = PyInt 10, uo_cache_read = PyNone, uo_cache_write = PyNone\<rparr>,
       ro_stop_reason = PyNone, ro_structured_copies = True,
       ro_actual_provider = PyNone, ro_actual_model = PyNone\<rparr>\<rparr>"

definition demo_call :: "wake list \<Rightarrow> call_result" where
  "demo_call ws = complete (\<lambda>_. ''d'') demo_config (demo_env ws) False False 100 10
     \<lparr>pv_opened = True, pv_next_ordinal = 0\<rparr> (demo_accounts 0 0 1 [])"

lemmas provider_eval = demo_call_def complete_def quoted_candidate_def ensure_open_def allocate_ordinal_def
  reserve_and_dispatch_def dispatch_call_def finish_call_def settle_answer_def billed_pair_def
  snapshot_response_def repository_call_def cancelled_at_def charge_id_def demo_config_def demo_env_def
  recover_failed_dispatch_def lookup_charge_def release_call_def mark_call_def get_charge_def
  mark_indeterminate_def release_def release_for_def give_back_def

lemma demo_prices:
  "validated_pricing_pair ''gpt-4o-mini'' ''openai'' = Inr (''openai'', ''gpt-4o-mini'')"
  "quote_model_call_nusd [(''openai'', ''gpt-4o-mini'')] 100 10 = Inr 21000"
  "price_model_usage_nusd ''gpt-4o-mini'' ''openai'' 90 10 None None = Inr 19500"
  by (simp_all add: pricing_eval)

lemma demo_call_returns:
  "cr_charge_id (demo_call [ChildFinished]) = Some ''model_v1_d''
   \<and> cr_delegate_at (demo_call [ChildFinished]) \<noteq> None
   \<and> map_sum id sn_output (cr_outcome (demo_call [ChildFinished])) = Inr 10"
  by (simp add: provider_eval budget_eval demo_prices Let_def MAX_BIGINT_def optional_count_def
      ascii_alnum_def ascii_lower_def ascii_upper_def ascii_digit_def)

lemma demo_call_interrupted:
  "cr_charge_id (demo_call [CallerCancelled, ChildFinished]) = Some ''model_v1_d''
   \<and> cr_outcome (demo_call [CallerCancelled, ChildFinished]) = Inl CallCancelled
   \<and> map ch_charge_id (charges (cr_db (demo_call [CallerCancelled, ChildFinished]))) = [''model_v1_d'']"
  by (simp add: provider_eval budget_eval demo_prices Let_def MAX_BIGINT_def optional_count_def
      ascii_alnum_def ascii_lower_def ascii_upper_def ascii_digit_def)

lemma demo_foreign: "foreign_ok (demo_env ws)"
  by (simp add: foreign_ok_def demo_env_def)

text \<open>
  The delegate is only ever called while the ledger durably records the call: at that
  moment a charge of this call's identity is stored as dispatched, and the stored state is one
  that the ledger's transactions (this wrapper's and other processes') produce from the state
  before the call.
\<close>

theorem delegate_called_when_dispatched:
  assumes "foreign_ok en" and "cr_delegate_at (complete sha256 pv en hc hf est mt st db) = Some d"
  shows "\<exists>cid c. cr_charge_id (complete sha256 pv en hc hf est mt st db) = Some cid \<and> c \<in> set (charges d)
     \<and> charge_filters cid (pv_owner pv) (pv_project pv) (pv_run pv) c \<and> ch_state c = Dispatched
     \<and> budget_step\<^sup>*\<^sup>* db d"
proof -
  from complete_called_charge [OF assms(2)] obtain cid where
    cid: "cr_charge_id (complete sha256 pv en hc hf est mt st db) = Some cid" by blast
  then obtain st1 db1 ordinal quote cand out where o: "ensure_open pv en st db = (st1, db1, Inr ())"
    and r: "reserve_and_dispatch pv en cid ordinal quote cand db1 =
      (cr_db (complete sha256 pv en hc hf est mt st db), Some d, out)"
    by (rule complete_reserve_stage) (use assms(2) in simp)
  from r obtain db2 where d: "dispatch_call pv en cid db2 =
      (cr_db (complete sha256 pv en hc hf est mt st db), Some d, out)" "budget_step\<^sup>*\<^sup>* db1 db2"
    by (rule reserve_and_dispatch_called) (use assms(1) in simp)
  from ensure_open_steps [OF assms(1) o] d(2) dispatch_call_called(2) [OF d(1) assms(1)]
  have "budget_step\<^sup>*\<^sup>* db d" by (meson rtranclp_trans)
  with cid dispatch_call_called(1) [OF d(1)] show ?thesis by blast
qed

theorem delegate_called_when_dispatched_witness:
  "\<exists>d c. cr_delegate_at (demo_call [ChildFinished]) = Some d \<and> c \<in> set (charges d)
     \<and> ch_charge_id c = ''model_v1_d'' \<and> ch_state c = Dispatched"
proof -
  from demo_call_returns obtain d where d: "cr_delegate_at (demo_call [ChildFinished]) = Some d" by blast
  from delegate_called_when_dispatched [OF demo_foreign d [unfolded demo_call_def]] demo_call_returns d
  show ?thesis by (auto simp: demo_call_def charge_filters_def)
qed

text \<open>
  C18: A response is only returned once it is paid for. If the call returns a response, then its
  charge is reconciled in the ledger at exactly the price of the reported usage for one of the
  configured candidates, and the price is within the amount that was reserved.
\<close>

theorem returned_response_is_billed:
  assumes "cr_outcome (complete sha256 pv en hc hf est mt st db) = Inr sn"
  shows "\<exists>cid c p m a. cr_charge_id (complete sha256 pv en hc hf est mt st db) = Some cid
     \<and> c \<in> set (charges (cr_db (complete sha256 pv en hc hf est mt st db)))
     \<and> charge_filters cid (pv_owner pv) (pv_project pv) (pv_run pv) c \<and> ch_state c = Reconciled
     \<and> (p, m) \<in> set (pv_candidates pv)
     \<and> price_model_usage_nusd m p (sn_input sn) (sn_output sn) (sn_cache_read sn) (sn_cache_write sn) = Inr a
     \<and> ch_actual_nusd c = Some a \<and> a \<le> ch_reserved_nusd c"
proof -
  let ?r = "complete sha256 pv en hc hf est mt st db"
  from complete_Inr_charge [OF assms] obtain cid where cid: "cr_charge_id ?r = Some cid" by blast
  then obtain db1 ordinal quote cand called where
    r: "reserve_and_dispatch pv en cid ordinal quote cand db1 = (cr_db ?r, called, Inr sn)"
    by (rule complete_reserve_stage) (use assms in simp)
  from outcome_needs_delegate [OF r] obtain d where "called = Some d" ..
  with r obtain db2 where "dispatch_call pv en cid db2 = (cr_db ?r, Some d, Inr sn)"
    by (auto elim: reserve_and_dispatch_called)
  from dispatch_call_called(3) [OF this] have "settle_answer pv en cid d = (cr_db ?r, Inr sn)"
    by (auto simp: finish_call_def split: prod.split_asm sum.split_asm)
  then show ?thesis by (rule settle_answer_billed) (use cid in blast)
qed

theorem returned_response_is_billed_witness:
  "\<exists>c \<in> set (charges (cr_db (demo_call [ChildFinished]))). ch_state c = Reconciled
     \<and> ch_charge_id c = ''model_v1_d''"
proof -
  from demo_call_returns obtain sn where "cr_outcome (demo_call [ChildFinished]) = Inr sn"
    by (cases "cr_outcome (demo_call [ChildFinished])") auto
  from returned_response_is_billed [OF this [unfolded demo_call_def]] demo_call_returns
  show ?thesis by (auto simp: demo_call_def charge_filters_def)
qed

text \<open>
  C6: No charge is left open. Unless the call reports \<open>DurableModelChargeStateError\<close>, or the
  acknowledgement of the reservation itself was lost, a call whose charge id was unused ends with
  its charge reconciled, released or indeterminate, or with no charge at all, whatever failed or
  was cancelled on the way and whatever other processes did.
\<close>

theorem no_open_charge_left:
  assumes "budget_reachable db" and "foreign_ok en"
    and "cr_charge_id (complete sha256 pv en hc hf est mt st db) = Some cid"
    and "unused cid db" and "\<forall>site db'. unused cid db' \<longrightarrow> unused cid (ce_before (en_call en site) db')"
    and "ce_fault (en_call en AtReserve) \<noteq> FaultAfter"
    and "cr_outcome (complete sha256 pv en hc hf est mt st db) \<noteq> Inl DurableModelChargeStateError"
    and "c \<in> set (charges (cr_db (complete sha256 pv en hc hf est mt st db)))" and "ch_charge_id c = cid"
  shows "ch_state c \<in> {Reconciled, Released, Indeterminate}"
proof -
  let ?r = "complete sha256 pv en hc hf est mt st db"
  obtain st1 db1 ordinal quote cand called where o: "ensure_open pv en st db = (st1, db1, Inr ())"
    and r: "reserve_and_dispatch pv en cid ordinal quote cand db1 = (cr_db ?r, called, cr_outcome ?r)"
    using assms(3) by (rule complete_reserve_stage) simp
  have "unused cid db1"
    using o assms(4,5)
    by (auto simp: ensure_open_def unused_def split: if_splits prod.split_asm sum.split_asm
        dest!: repository_call_Inr) (metis fst_conv open_run_charges)
  with assms(5) have un: "unused cid (ce_before (en_call en AtReserve) db1)" by blast
  have inv: "budget_inv (cr_db ?r)"
    by (rule budget_steps_inv [OF complete_steps [OF assms(2)] budget_reachable_inv [OF assms(1)]])
  from reserve_and_dispatch_closed [OF r assms(7,6)] un assms(8,9) have "closed cid (cr_db ?r)"
    by (auto simp: unused_def list_all_iff)
  from closed_settled [OF this inv assms(8,9)] show ?thesis unfolding inactive_final .
qed

theorem no_open_charge_left_witness:
  "\<exists>c. charges (cr_db (demo_call [CallerCancelled, ChildFinished])) = [c]
     \<and> ch_state c \<in> {Reconciled, Released, Indeterminate}"
proof -
  let ?r = "demo_call [CallerCancelled, ChildFinished]"
  from demo_call_interrupted obtain c where c: "charges (cr_db ?r) = [c]" "ch_charge_id c = ''model_v1_d''"
    by (cases "charges (cr_db ?r)") auto
  have "ch_state c \<in> {Reconciled, Released, Indeterminate}"
    using no_open_charge_left [OF demo_reachable_open demo_foreign, of "\<lambda>_. ''d''" demo_config
        "[CallerCancelled, ChildFinished]" False False 100 10 "\<lparr>pv_opened = True, pv_next_ordinal = 0\<rparr>"
        "''model_v1_d''" c] demo_call_interrupted c
    by (simp add: demo_call_def demo_env_def unused_def demo_accounts_def)
  with c show ?thesis by blast
qed

end
