(* ===== verification/Effect_Ledger.thy ===== *)
theory Effect_Ledger
  imports Durable_Calls "HOL-Library.List_Lexorder" "HOL-Library.Char_ord" "HOL-Library.Product_Lexorder"
begin

text \<open>
  The durable repository of effect tombstones (\<open>services/effect_ledger.py\<close>, with the row of
  \<open>services/db_store.py\<close>): first writer wins on \<open>reserve\<close>, one conditional transition out
  of the reserved state, recovery of stale reservations and one review of an indeterminate effect.
  \<open>reserve\<close> commits its insert before it reads the state of an existing row, so what other
  processes did in between is an argument of it.
\<close>

subsection \<open>Rows\<close>

datatype effect_state = EffReserved | EffCommitted | EffFailed | EffIndeterminate

datatype effect_error =
    EffectValueError
  | EffectStateConflict
  | EffectReviewConflict
  | EffectReservationUnavailable

record effect_row =
  ef_effect_id :: string
  ef_identity_version :: int
  ef_owner_id :: string
  ef_project_id :: string
  ef_run_id :: string
  ef_tool_name :: string
  ef_schema_hash :: string
  ef_state :: effect_state
  ef_output_hash :: "string option"
  ef_output_size :: "int option"
  ef_failure_code :: "string option"
  ef_review_disposition :: "string option"
  ef_reviewed_by :: "string option"
  ef_reserved_at :: timestamp
  ef_completed_at :: "timestamp option"
  ef_reviewed_at :: "timestamp option"

record effect_binding =
  eb_effect_id :: string
  eb_identity_version :: int
  eb_owner_id :: string
  eb_project_id :: string
  eb_run_id :: string
  eb_tool_name :: string
  eb_schema_hash :: string

record effect_reservation =
  er_effect_id :: string
  er_state :: effect_state
  er_should_execute :: bool

type_synonym effect_db = "effect_row list"

subsection \<open>Validation\<close>

definition effect_id_ok :: "string \<Rightarrow> bool" where
  "effect_id_ok s = (startswith s ''eff_v1_'' \<and> HASH (drop 7 s))"

definition reviewer_ok :: "string \<Rightarrow> bool" where
  "reviewer_ok s = (1 \<le> length s \<and> length s \<le> 255 \<and> list_all (\<lambda>c. of_char c \<ge> (32::nat)) s)"

definition REVIEW_DISPOSITIONS :: "string list" where
  "REVIEW_DISPOSITIONS = [''confirmed_committed'', ''confirmed_failed'', ''requires_compensation'']"

definition effect_scope :: "string \<Rightarrow> string \<Rightarrow> string \<Rightarrow> string \<Rightarrow> effect_row \<Rightarrow> bool" where
  "effect_scope effect_id owner project run r =
     (ef_effect_id r = effect_id \<and> ef_owner_id r = owner \<and> ef_project_id r = project \<and> ef_run_id r = run)"

subsection \<open>Operations\<close>

definition new_effect :: "timestamp \<Rightarrow> effect_binding \<Rightarrow> effect_row" where
  "new_effect now b =
     \<lparr>ef_effect_id = eb_effect_id b, ef_identity_version = eb_identity_version b,
      ef_owner_id = eb_owner_id b, ef_project_id = eb_project_id b, ef_run_id = eb_run_id b,
      ef_tool_name = eb_tool_name b, ef_schema_hash = eb_schema_hash b, ef_state = EffReserved,
      ef_output_hash = None, ef_output_size = None, ef_failure_code = None,
      ef_review_disposition = None, ef_reviewed_by = None, ef_reserved_at = now,
      ef_completed_at = None, ef_reviewed_at = None\<rparr>"

definition same_effect :: "effect_row \<Rightarrow> effect_row \<Rightarrow> bool" where
  "same_effect a b = (ef_effect_id a = ef_effect_id b)"

definition reserve_insert :: "timestamp \<Rightarrow> effect_binding \<Rightarrow> effect_db \<Rightarrow> effect_db \<times> bool" where
  "reserve_insert now b db = insert_or_ignore same_effect (new_effect now b) db"

definition reserve_effect ::
  "timestamp \<Rightarrow> effect_binding \<Rightarrow> (effect_db \<Rightarrow> effect_db) \<Rightarrow> effect_db
     \<Rightarrow> effect_db \<times> (effect_error + effect_reservation)" where
  "reserve_effect now b between db =
     (if \<not> effect_id_ok (eb_effect_id b) \<or> \<not> HASH (eb_schema_hash b) then (db, Inl EffectValueError)
      else
        (case reserve_insert now b db of
           (db', True) \<Rightarrow>
             (db', Inr \<lparr>er_effect_id = eb_effect_id b, er_state = EffReserved, er_should_execute = True\<rparr>)
         | (db', False) \<Rightarrow>
             let db'' = between db' in
             (case scalar (select_where (\<lambda>r. ef_effect_id r = eb_effect_id b) db'') of
                None \<Rightarrow> (db'', Inl EffectReservationUnavailable)
              | Some r \<Rightarrow> (db'', Inr \<lparr>er_effect_id = eb_effect_id b, er_state = ef_state r,
                                     er_should_execute = False\<rparr>))))"

definition effect_transition ::
  "timestamp \<Rightarrow> string \<Rightarrow> effect_state \<Rightarrow> string option \<Rightarrow> int option \<Rightarrow> string option \<Rightarrow> effect_db
     \<Rightarrow> effect_db \<times> (effect_error + unit)" where
  "effect_transition now effect_id state output_hash output_size failure_code db =
     (if \<not> effect_id_ok effect_id then (db, Inl EffectValueError)
      else
        let P = (\<lambda>r. ef_effect_id r = effect_id \<and> ef_state r = EffReserved) in
        if rowcount P db \<noteq> 1 then (db, Inl EffectStateConflict)
        else (updated P (\<lambda>r. r\<lparr>ef_state := state, ef_output_hash := output_hash,
                ef_output_size := output_size, ef_failure_code := failure_code,
                ef_completed_at := Some now\<rparr>) db, Inr ()))"

definition commit_effect ::
  "timestamp \<Rightarrow> string \<Rightarrow> string \<Rightarrow> int \<Rightarrow> effect_db \<Rightarrow> effect_db \<times> (effect_error + unit)" where
  "commit_effect now effect_id output_hash output_size db =
     (if \<not> HASH output_hash \<or> \<not> bigint_range output_size then (db, Inl EffectValueError)
      else effect_transition now effect_id EffCommitted (Some output_hash) (Some output_size) None db)"

definition fail_effect ::
  "timestamp \<Rightarrow> string \<Rightarrow> string \<Rightarrow> effect_db \<Rightarrow> effect_db \<times> (effect_error + unit)" where
  "fail_effect now effect_id safe_code db =
     (if \<not> SAFE_CODE safe_code then (db, Inl EffectValueError)
      else effect_transition now effect_id EffFailed None None (Some safe_code) db)"

definition mark_effect_indeterminate ::
  "timestamp \<Rightarrow> string \<Rightarrow> string \<Rightarrow> effect_db \<Rightarrow> effect_db \<times> (effect_error + unit)" where
  "mark_effect_indeterminate now effect_id safe_code db =
     (if \<not> SAFE_CODE safe_code then (db, Inl EffectValueError)
      else effect_transition now effect_id EffIndeterminate None None (Some safe_code) db)"

definition recover_stale_reservations :: "timestamp \<Rightarrow> timestamp \<Rightarrow> effect_db \<Rightarrow> effect_db \<times> nat" where
  "recover_stale_reservations cutoff now db =
     (let P = (\<lambda>r. ef_state r = EffReserved \<and> ef_reserved_at r < cutoff) in
      (updated P (\<lambda>r. r\<lparr>ef_state := EffIndeterminate, ef_failure_code := Some ''stale_reservation'',
          ef_completed_at := Some now\<rparr>) db, rowcount P db))"

definition get_effect ::
  "string \<Rightarrow> string \<Rightarrow> string \<Rightarrow> string \<Rightarrow> effect_db \<Rightarrow> effect_error + effect_row option" where
  "get_effect effect_id owner project run db =
     (if \<not> effect_id_ok effect_id then Inl EffectValueError
      else Inr (scalar (select_where (effect_scope effect_id owner project run) db)))"

definition list_effects ::
  "string \<Rightarrow> string \<Rightarrow> string \<Rightarrow> int \<Rightarrow> int \<Rightarrow> effect_db \<Rightarrow> effect_error + effect_row list" where
  "list_effects owner project run limit offset db =
     (if \<not> (1 \<le> limit \<and> limit \<le> 200) \<or> offset < 0 then Inl EffectValueError
      else Inr (take (nat limit) (drop (nat offset)
             (sort_key (\<lambda>r. (ef_reserved_at r, ef_effect_id r))
                (select_where (\<lambda>r. ef_owner_id r = owner \<and> ef_project_id r = project \<and> ef_run_id r = run) db)))))"

definition review_indeterminate ::
  "timestamp \<Rightarrow> string \<Rightarrow> string \<Rightarrow> string \<Rightarrow> string \<Rightarrow> string \<Rightarrow> string \<Rightarrow> effect_db
     \<Rightarrow> effect_db \<times> (effect_error + effect_row)" where
  "review_indeterminate now effect_id owner project run disposition reviewed_by db =
     (if \<not> effect_id_ok effect_id \<or> disposition \<notin> set REVIEW_DISPOSITIONS \<or> \<not> reviewer_ok reviewed_by
      then (db, Inl EffectValueError)
      else
        let P = (\<lambda>r. effect_scope effect_id owner project run r \<and> ef_state r = EffIndeterminate
                     \<and> ef_review_disposition r = None);
            db' = updated P (\<lambda>r. r\<lparr>ef_review_disposition := Some disposition,
                    ef_reviewed_by := Some reviewed_by, ef_reviewed_at := Some now\<rparr>) db in
        if rowcount P db \<noteq> 1 then (db, Inl EffectReviewConflict)
        else (case get_effect effect_id owner project run db' of
                Inl e \<Rightarrow> (db', Inl e)
              | Inr None \<Rightarrow> (db', Inl EffectReviewConflict)
              | Inr (Some r) \<Rightarrow> (db', Inr r)))"

subsection \<open>The life cycle of an effect\<close>

definition effect_rank :: "effect_row \<Rightarrow> nat" where
  "effect_rank r =
     (if ef_state r = EffReserved then 0
      else if ef_state r = EffIndeterminate \<and> ef_review_disposition r = None then 1 else 2)"

definition effect_moves :: "effect_row \<Rightarrow> effect_row \<Rightarrow> bool" where
  "effect_moves r r' =
     (r' = r \<or> ef_effect_id r' = ef_effect_id r \<and> ef_owner_id r' = ef_owner_id r
        \<and> ef_project_id r' = ef_project_id r \<and> ef_run_id r' = ef_run_id r
        \<and> ef_tool_name r' = ef_tool_name r \<and> ef_reserved_at r' = ef_reserved_at r
        \<and> effect_rank r < effect_rank r' \<and> (ef_state r \<noteq> EffReserved \<longrightarrow> ef_state r' = ef_state r))"

inductive effect_step :: "effect_db \<Rightarrow> effect_db \<Rightarrow> bool" where
  effect_reserved: "effect_step db (fst (reserve_insert now b db))"
| effect_committed: "effect_step db (fst (commit_effect now i h n db))"
| effect_failed: "effect_step db (fst (fail_effect now i c db))"
| effect_marked: "effect_step db (fst (mark_effect_indeterminate now i c db))"
| effect_recovered: "effect_step db (fst (recover_stale_reservations cutoff now db))"
| effect_reviewed: "effect_step db (fst (review_indeterminate now i owner project run d by db))"

lemma effect_moves_refl: "reflp effect_moves"
  by (simp add: reflp_def effect_moves_def)

lemma effect_moves_trans: "transp effect_moves"
  by (auto simp: transp_def effect_moves_def effect_rank_def split: if_splits)

lemmas effect_follows_updated = ledger_follows_updated [OF effect_moves_refl]
lemmas effect_follows_refl = ledger_follows_refl [OF effect_moves_refl]
lemmas effect_follows_append = ledger_follows_append [OF effect_moves_refl]

lemma effect_moves_intros:
  "ef_state r = EffReserved \<Longrightarrow> state \<noteq> EffReserved \<Longrightarrow>
     effect_moves r (r\<lparr>ef_state := state, ef_output_hash := h, ef_output_size := n, ef_failure_code := c,
       ef_completed_at := t\<rparr>)"
  "ef_state r = EffReserved \<Longrightarrow>
     effect_moves r (r\<lparr>ef_state := EffIndeterminate, ef_failure_code := c, ef_completed_at := t\<rparr>)"
  "ef_state r = EffIndeterminate \<Longrightarrow> ef_review_disposition r = None \<Longrightarrow>
     effect_moves r (r\<lparr>ef_review_disposition := Some d, ef_reviewed_by := b, ef_reviewed_at := t\<rparr>)"
  by (auto simp: effect_moves_def effect_rank_def)

lemma effect_transition_follows:
  "state \<noteq> EffReserved \<Longrightarrow> ledger_follows effect_moves db (fst (effect_transition now i state h n c db))"
  by (auto simp: effect_transition_def Let_def effect_follows_refl intro!: effect_follows_updated effect_moves_intros)

lemma effect_step_follows: "effect_step db db' \<Longrightarrow> ledger_follows effect_moves db db'"
proof (induction rule: effect_step.induct)
  case (effect_reserved db now b)
  then show ?case
    by (simp add: reserve_insert_def insert_or_ignore_def effect_follows_refl effect_follows_append)
next
  case (effect_recovered db cutoff now)
  then show ?case
    by (auto simp: recover_stale_reservations_def Let_def intro!: effect_follows_updated effect_moves_intros)
next
  case (effect_reviewed db now i owner project run d by_whom)
  then show ?case
    by (auto simp: review_indeterminate_def Let_def effect_follows_refl
        intro!: effect_follows_updated effect_moves_intros split: sum.split option.split)
qed (simp_all add: commit_effect_def fail_effect_def mark_effect_indeterminate_def effect_follows_refl
    effect_transition_follows)

interpretation effect_ledger: durable_ledger "\<lambda>db. db" ef_effect_id effect_moves effect_step
  by unfold_locales (auto simp: effect_moves_refl effect_moves_trans effect_moves_def effect_step_follows)

subsection \<open>One reservation per effect\<close>

definition effect_reachable :: "effect_db \<Rightarrow> bool" where
  "effect_reachable db = effect_step\<^sup>*\<^sup>* [] db"

lemma effect_follows_keys:
  assumes "ledger_follows effect_moves db db'" and "length db' = length db"
  shows "map ef_effect_id db' = map ef_effect_id db"
  using assms by (auto simp: ledger_follows_def effect_moves_def intro!: nth_equalityI)

lemma reserve_insert_distinct:
  "distinct (map ef_effect_id db) \<Longrightarrow> distinct (map ef_effect_id (fst (reserve_insert now b db)))"
  by (auto simp: reserve_insert_def insert_or_ignore_def same_effect_def new_effect_def list_ex_iff)

lemma effect_step_distinct:
  assumes "effect_step db db'" and "distinct (map ef_effect_id db)"
  shows "distinct (map ef_effect_id db')"
proof -
  from assms(1) have "(\<exists>now b. db' = fst (reserve_insert now b db)) \<or> length db' = length db"
    by (cases rule: effect_step.cases)
      (auto simp: commit_effect_def fail_effect_def mark_effect_indeterminate_def effect_transition_def
        recover_stale_reservations_def review_indeterminate_def Let_def split: sum.split option.split)
  with assms(2) effect_follows_keys [OF effect_step_follows [OF assms(1)]] reserve_insert_distinct
  show ?thesis by metis
qed

lemma effect_steps_distinct:
  "effect_step\<^sup>*\<^sup>* db db' \<Longrightarrow> distinct (map ef_effect_id db) \<Longrightarrow> distinct (map ef_effect_id db')"
  by (induction rule: rtranclp_induct) (auto dest: effect_step_distinct)

lemma reserve_granted_effect:
  assumes "reserve_effect now b between db = (db', Inr res)" and "er_should_execute res"
  shows "db' = db @ [new_effect now b]" and "\<forall>r\<in>set db. ef_effect_id r \<noteq> eb_effect_id b"
  using assms
  by (auto simp: reserve_effect_def reserve_insert_def insert_or_ignore_def same_effect_def new_effect_def
      Let_def list_ex_iff split: if_splits option.splits)

text \<open>
  An effect is granted for execution at most once in the lifetime of the ledger: after one
  reservation was granted, every later reservation under the same effect id is refused, whatever
  transactions ran in between, and it reports a state the first reservation reached.
\<close>

theorem effect_granted_once:
  assumes "reserve_effect now b between db = (db1, Inr res)" and "er_should_execute res"
    and "effect_step\<^sup>*\<^sup>* db1 db2" and "eb_effect_id b' = eb_effect_id b"
    and "reserve_effect now' b' between' db2 = (db3, Inr res')"
  shows "\<not> er_should_execute res'"
proof
  assume "er_should_execute res'"
  with assms(5) have none: "\<forall>r\<in>set db2. ef_effect_id r \<noteq> eb_effect_id b'"
    by (rule reserve_granted_effect(2))
  from reserve_granted_effect(1) [OF assms(1,2)] have "new_effect now b \<in> set db1" by simp
  from effect_ledger.row_moves [OF assms(3) this] obtain r where "r \<in> set db2" "ef_effect_id r = eb_effect_id b"
    by (auto simp: effect_moves_def new_effect_def)
  with none assms(4) show False by simp
qed

definition demo_binding :: effect_binding where
  "demo_binding = \<lparr>eb_effect_id = ''eff_v1_'' @ replicate 64 CHR ''a'', eb_identity_version = 1,
     eb_owner_id = ''u'', eb_project_id = ''p'', eb_run_id = ''r'', eb_tool_name = ''send_mail'',
     eb_schema_hash = replicate 64 CHR ''b''\<rparr>"

lemmas effect_eval = demo_binding_def effect_id_ok_def HASH_def hex_lower_def ascii_digit_def list_all_iff
  startswith_append

lemma demo_effect_reserve:
  "reserve_effect 5 demo_binding id [] =
     ([new_effect 5 demo_binding],
      Inr \<lparr>er_effect_id = eb_effect_id demo_binding, er_state = EffReserved, er_should_execute = True\<rparr>)"
  by (simp add: reserve_effect_def reserve_insert_def insert_or_ignore_def effect_eval)

lemma demo_effect_failed:
  "fail_effect 6 (eb_effect_id demo_binding) ''boom'' [new_effect 5 demo_binding] =
     ([(new_effect 5 demo_binding)\<lparr>ef_state := EffFailed, ef_output_hash := None, ef_output_size := None,
        ef_failure_code := Some ''boom'', ef_completed_at := Some 6\<rparr>], Inr ())"
  by (simp add: fail_effect_def effect_transition_def SAFE_CODE_def ascii_lower_def ascii_digit_def Let_def
      rowcount_def updated_def new_effect_def effect_eval)

theorem effect_granted_once_witness:
  "\<exists>res. snd (reserve_effect 8 demo_binding id [new_effect 5 demo_binding]) = Inr res \<and> \<not> er_should_execute res"
proof -
  have again: "reserve_effect 8 demo_binding id [new_effect 5 demo_binding] =
     ([new_effect 5 demo_binding], Inr \<lparr>er_effect_id = eb_effect_id demo_binding, er_state = EffReserved,
        er_should_execute = False\<rparr>)"
    by (simp add: reserve_effect_def reserve_insert_def insert_or_ignore_def same_effect_def new_effect_def
        Let_def scalar_def select_where_def effect_eval)
  from effect_granted_once [OF demo_effect_reserve _ rtranclp.rtrancl_refl refl again] again show ?thesis by simp
qed

text \<open>
  An effect that left the reserved state keeps that state for ever: a committed or failed
  effect, or a reviewed indeterminate one, is never rewritten at all, and an indeterminate one
  can only gain its review.
\<close>

theorem effect_outcome_is_final:
  assumes "effect_reachable db" and "effect_step\<^sup>*\<^sup>* db db'"
    and "r \<in> set db" and "ef_state r \<noteq> EffReserved"
    and "r' \<in> set db'" and "ef_effect_id r' = ef_effect_id r"
  shows "ef_state r' = ef_state r
     \<and> (ef_state r \<noteq> EffIndeterminate \<or> ef_review_disposition r \<noteq> None \<longrightarrow> r' = r)"
proof -
  have "distinct (map ef_effect_id db')"
    using effect_steps_distinct [OF assms(2)] effect_steps_distinct [of "[]" db] assms(1)
    by (simp add: effect_reachable_def)
  from effect_ledger.key_moves [OF assms(2) this assms(3,5,6)] assms(4) show ?thesis
    by (auto simp: effect_moves_def effect_rank_def split: if_splits)
qed

theorem effect_outcome_is_final_witness:
  "map ef_state (fst (recover_stale_reservations 99 100
       (fst (fail_effect 6 (eb_effect_id demo_binding) ''boom'' [new_effect 5 demo_binding])))) = [EffFailed]"
proof -
  let ?db = "fst (fail_effect 6 (eb_effect_id demo_binding) ''boom'' [new_effect 5 demo_binding])"
  have "effect_step [] [new_effect 5 demo_binding]"
    using effect_reserved [of "[]" 5 demo_binding] by (simp add: reserve_insert_def insert_or_ignore_def)
  moreover have "effect_step [new_effect 5 demo_binding] ?db" by (rule effect_failed)
  ultimately have r: "effect_reachable ?db" by (auto simp: effect_reachable_def)
  have s: "effect_step\<^sup>*\<^sup>* ?db (fst (recover_stale_reservations 99 100 ?db))"
    by (rule r_into_rtranclp) (rule effect_recovered)
  show ?thesis
    using effect_outcome_is_final [OF r s, of "hd ?db" "hd (fst (recover_stale_reservations 99 100 ?db))"]
    by (simp add: demo_effect_failed recover_stale_reservations_def Let_def updated_def)
qed

end
