(* ===== verification/Json.thy ===== *)
theory Json
  imports Prelude "HOL-Library.List_Lexorder" "HOL-Library.Char_ord" "HOL-Library.Product_Lexorder"
begin

text \<open>
  JSON values and \<open>json.dumps(value, ensure_ascii=False, sort_keys=True, separators=(",", ":"))\<close>,
  the canonical encoding that the program hashes and measures. A float is represented by its
  \<open>repr\<close>. Text is encoded to UTF-8 afterwards (\<open>utf8\<close>), here for code points below 256.
  The lemmas show that a quoted string can be read back from the front of a document, which is
  what makes the canonical documents unambiguous.
\<close>

datatype json =
    JNull
  | JBool bool
  | JInt int
  | JFloat string
  | JStr string
  | JList "json list"
  | JObj "(string \<times> json) list"

definition hex_digit :: "nat \<Rightarrow> char" where
  "hex_digit n = (if n < 10 then char_of (48 + n) else char_of (87 + n))"

text \<open>The escapes of the encoder without ASCII conversion.\<close>

definition escape_char :: "char \<Rightarrow> string" where
  "escape_char c =
     (if c = CHR 0x22 then [CHR 0x5C, CHR 0x22]
      else if c = CHR 0x5C then [CHR 0x5C, CHR 0x5C]
      else if c = CHR 0x0A then [CHR 0x5C, CHR ''n'']
      else if c = CHR 0x0D then [CHR 0x5C, CHR ''r'']
      else if c = CHR 0x09 then [CHR 0x5C, CHR ''t'']
      else if c = CHR 0x0C then [CHR 0x5C, CHR ''f'']
      else if c = CHR 0x08 then [CHR 0x5C, CHR ''b'']
      else if of_char c < (32::nat)
      then [CHR 0x5C, CHR ''u'', CHR ''0'', CHR ''0'',
            hex_digit (of_char c div 16), hex_digit (of_char c mod 16)]
      else [c])"

definition json_quote :: "string \<Rightarrow> string" where
  "json_quote s = CHR 0x22 # concat (map escape_char s) @ [CHR 0x22]"

fun join :: "string \<Rightarrow> string list \<Rightarrow> string" where
  "join sep [] = []"
| "join sep [x] = x"
| "join sep (x # y # xs) = x @ sep @ join sep (y # xs)"

fun dumps :: "json \<Rightarrow> string" where
  "dumps JNull = ''null''"
| "dumps (JBool b) = (if b then ''true'' else ''false'')"
| "dumps (JInt n) = show_int n"
| "dumps (JFloat r) = r"
| "dumps (JStr s) = json_quote s"
| "dumps (JList vs) = ''['' @ join '','' (map dumps vs) @ '']''"
| "dumps (JObj kvs) =
     ''{'' @ join '','' (map (\<lambda>(k, v). json_quote k @ '':'' @ v)
                      (sort_key fst (map (\<lambda>(k, v). (k, dumps v)) kvs))) @ ''}''"

text \<open>\<open>json.dumps\<close> with ASCII conversion: what the encoder without it leaves above \<open>~\<close> is escaped.\<close>

definition ascii_only :: "string \<Rightarrow> string" where
  "ascii_only s = concat (map (\<lambda>c. if of_char c \<ge> (127::nat)
     then [CHR 0x5C, CHR ''u'', CHR ''0'', CHR ''0'', hex_digit (of_char c div 16), hex_digit (of_char c mod 16)]
     else [c]) s)"

definition dumps_ascii :: "json \<Rightarrow> string" where
  "dumps_ascii v = ascii_only (dumps v)"

definition utf8 :: "string \<Rightarrow> string" where
  "utf8 s = concat (map (\<lambda>c. let n = of_char c :: nat in
     if n < 128 then [c] else [char_of (192 + n div 64), char_of (128 + n mod 64)]) s)"

subsection \<open>Evaluation by the bits of a character\<close>

definition below_space :: "char \<Rightarrow> bool" where
  "below_space c = (of_char c < (32::nat))"

definition seven_bit :: "char \<Rightarrow> bool" where
  "seven_bit c = (of_char c < (128::nat))"

definition beyond_tilde :: "char \<Rightarrow> bool" where
  "beyond_tilde c = (of_char c \<ge> (127::nat))"

lemma char_range_code [code]:
  "below_space (Char b0 b1 b2 b3 b4 b5 b6 b7) = (\<not> b5 \<and> \<not> b6 \<and> \<not> b7)"
  "seven_bit (Char b0 b1 b2 b3 b4 b5 b6 b7) = (\<not> b7)"
  "beyond_tilde (Char b0 b1 b2 b3 b4 b5 b6 b7) = (b7 \<or> b0 \<and> b1 \<and> b2 \<and> b3 \<and> b4 \<and> b5 \<and> b6)"
  unfolding below_space_def seven_bit_def beyond_tilde_def
  by (cases b0; cases b1; cases b2; cases b3; cases b4; cases b5; cases b6; cases b7; simp)+

lemma escape_char_code [code]:
  "escape_char c =
     (if c = CHR 0x22 then [CHR 0x5C, CHR 0x22]
      else if c = CHR 0x5C then [CHR 0x5C, CHR 0x5C]
      else if \<not> below_space c then [c]
      else if c = CHR 0x0A then [CHR 0x5C, CHR ''n'']
      else if c = CHR 0x0D then [CHR 0x5C, CHR ''r'']
      else if c = CHR 0x09 then [CHR 0x5C, CHR ''t'']
      else if c = CHR 0x0C then [CHR 0x5C, CHR ''f'']
      else if c = CHR 0x08 then [CHR 0x5C, CHR ''b'']
      else [CHR 0x5C, CHR ''u'', CHR ''0'', CHR ''0'', hex_digit (of_char c div 16), hex_digit (of_char c mod 16)])"
  by (auto simp: escape_char_def below_space_def)

lemma ascii_only_code [code]:
  "ascii_only s = concat (map (\<lambda>c. if beyond_tilde c
     then [CHR 0x5C, CHR ''u'', CHR ''0'', CHR ''0'', hex_digit (of_char c div 16), hex_digit (of_char c mod 16)]
     else [c]) s)"
  by (simp add: ascii_only_def beyond_tilde_def)

lemma utf8_code [code]:
  "utf8 s = concat (map (\<lambda>c. if seven_bit c then [c]
     else let n = of_char c :: nat in [char_of (192 + n div 64), char_of (128 + n mod 64)]) s)"
  unfolding utf8_def seven_bit_def by (rule arg_cong [of _ _ concat], rule map_cong) (simp_all add: Let_def)

subsection \<open>Reading a quoted string back\<close>

lemma hex_digit_inject: "m < 16 \<Longrightarrow> n < 16 \<Longrightarrow> hex_digit m = hex_digit n \<Longrightarrow> m = n"
proof -
  assume mn: "m < 16" "n < 16" and eq: "hex_digit m = hex_digit n"
  have v: "(of_char (hex_digit k) :: nat) = (if k < 10 then 48 + k else 87 + k)" if "k < 16" for k
    using that by (simp add: hex_digit_def of_char_of take_bit_nat_eq_self)
  from eq have "(of_char (hex_digit m) :: nat) = of_char (hex_digit n)" by simp
  with v mn show "m = n" by (simp split: if_splits)
qed

lemma escape_char_nonempty: "escape_char c \<noteq> []"
  by (simp add: escape_char_def)

lemma escape_char_head: "escape_char c = x # xs \<Longrightarrow> x \<noteq> CHR 0x22"
  by (auto simp: escape_char_def split: if_splits)

lemma char_split: "(of_char c :: nat) div 16 = of_char d div 16 \<Longrightarrow> (of_char c :: nat) mod 16 = of_char d mod 16 \<Longrightarrow> c = d"
  by (metis div_mult_mod_eq of_char_eq_iff)

lemma hex_pair_inject:
  assumes "(of_char c :: nat) < 32" "(of_char d :: nat) < 32"
    and "hex_digit (of_char c div 16) = hex_digit (of_char d div 16)"
    and "hex_digit (of_char c mod 16) = hex_digit (of_char d mod 16)"
  shows "c = d"
proof (rule char_split)
  show "(of_char c :: nat) div 16 = of_char d div 16"
    by (rule hex_digit_inject [OF _ _ assms(3)]) (use assms(1,2) in auto)
  show "(of_char c :: nat) mod 16 = of_char d mod 16"
    by (rule hex_digit_inject [OF _ _ assms(4)]) auto
qed

lemma escape_char_cancel: "escape_char c @ r = escape_char d @ r' \<Longrightarrow> c = d \<and> r = r'"
  by (auto simp: escape_char_def split: if_splits dest: hex_pair_inject)

lemma json_quote_cancel: "json_quote s @ r = json_quote t @ r' \<Longrightarrow> s = t \<and> r = r'"
proof -
  have "concat (map escape_char s) @ CHR 0x22 # r = concat (map escape_char t) @ CHR 0x22 # r' \<Longrightarrow> s = t \<and> r = r'"
  proof (induction s arbitrary: t)
    case Nil
    then show ?case
      by (cases t; cases "escape_char (hd t)") (auto dest: escape_char_head simp: escape_char_nonempty)
  next
    case (Cons c s)
    show ?case
    proof (cases t)
      case Nil
      with Cons.prems show ?thesis
        by (cases "escape_char c") (auto dest: escape_char_head simp: escape_char_nonempty)
    next
      case (Cons d t')
      with Cons.prems escape_char_cancel [of c _ d] Cons.IH [of t'] show ?thesis by auto
    qed
  qed
  moreover assume "json_quote s @ r = json_quote t @ r'"
  ultimately show ?thesis by (simp add: json_quote_def)
qed

end
