(* ===== verification/Effect_Executor.thy ===== *)
theory Effect_Executor
  imports Effect_Ledger Json
begin

text \<open>
  At-most-once execution of effectful tools (\<open>runtime/effect_executor.py\<close>): the bounded
  traversal of a tool's output, and the protocol around the call of the tool (reserve, run,
  commit, and the clean-up of every failure).

  A tool's output is a Python object graph: a heap from addresses to objects, in which objects
  may be shared or cyclic. What the tool registry answers (whether the tool is effectful, whether
  compliance lets it run, the identity binding of the call, what the tool did) and what happens to
  each repository call are arguments. The result names the state of the ledger at the moment the
  tool was run.
\<close>

subsection \<open>Output evidence\<close>

datatype py_object =
    ONone
  | OBool bool
  | OInt int
  | OFloat bool string
  | OStr string
  | ODict "(nat \<times> nat) list"
  | OList "nat list"
  | OOther

type_synonym py_heap = "nat \<Rightarrow> py_object"

fun is_str :: "py_object \<Rightarrow> bool" where
  "is_str (OStr s) = True"
| "is_str _ = False"

text \<open>
  The loop over the stack, whose top is the head of the list. \<open>seen\<close> is the set
  \<open>ancestors\<close> of the source. False is \<open>IndeterminateToolEffectError\<close>.
\<close>

function evidence_scan :: "py_heap \<Rightarrow> (nat \<times> nat) list \<Rightarrow> nat list \<Rightarrow> nat \<Rightarrow> nat \<Rightarrow> bool" where
  "evidence_scan h [] seen nodes bytes = True"
| "evidence_scan h ((a, depth) # stack) seen nodes bytes =
     (if depth > 32 \<or> nodes + 1 > 4096 then False
      else
        (case h a of
           ONone \<Rightarrow> evidence_scan h stack seen (nodes + 1) bytes
         | OBool b \<Rightarrow> evidence_scan h stack seen (nodes + 1) bytes
         | OInt n \<Rightarrow> length (show_int \<bar>n\<bar>) \<le> 1000 \<and> evidence_scan h stack seen (nodes + 1) bytes
         | OFloat fin r \<Rightarrow> fin \<and> evidence_scan h stack seen (nodes + 1) bytes
         | OStr s \<Rightarrow>
             let size = length (utf8 s) in
             size \<le> 16384 \<and> bytes + size \<le> 1048576
             \<and> evidence_scan h stack seen (nodes + 1) (bytes + size)
         | ODict kvs \<Rightarrow>
             a \<notin> set seen \<and> list_all (\<lambda>(k, v). is_str (h k)) kvs
             \<and> evidence_scan h (rev (concat (map (\<lambda>(k, v). [(k, depth + 1), (v, depth + 1)]) kvs)) @ stack)
                 (a # seen) (nodes + 1) bytes
         | OList vs \<Rightarrow>
             a \<notin> set seen
             \<and> evidence_scan h (rev (map (\<lambda>v. (v, depth + 1)) vs) @ stack) (a # seen) (nodes + 1) bytes
         | OOther \<Rightarrow> False))"
  by pat_completeness auto
termination
  by (relation "measure (\<lambda>(h, stack, seen, nodes, bytes). 2 * (4097 - nodes) + (if stack = [] then 0 else 1))")
    auto

text \<open>\<open>copy.deepcopy\<close> and the value that is encoded; the fuel is the nesting depth.\<close>

fun to_json :: "nat \<Rightarrow> py_heap \<Rightarrow> nat \<Rightarrow> json option" where
  "to_json 0 h a = None"
| "to_json (Suc n) h a =
     (case h a of
        ONone \<Rightarrow> Some JNull
      | OBool b \<Rightarrow> Some (JBool b)
      | OInt k \<Rightarrow> Some (JInt k)
      | OFloat fin r \<Rightarrow> if fin then Some (JFloat r) else None
      | OStr s \<Rightarrow> Some (JStr s)
      | ODict kvs \<Rightarrow>
          map_option JObj (those (map (\<lambda>(k, v).
            case h k of OStr s \<Rightarrow> map_option (Pair s) (to_json n h v) | _ \<Rightarrow> None) kvs))
      | OList vs \<Rightarrow> map_option JList (those (map (to_json n h) vs))
      | OOther \<Rightarrow> None)"

definition output_evidence :: "(string \<Rightarrow> string) \<Rightarrow> py_heap \<Rightarrow> nat \<Rightarrow> (json \<times> string \<times> nat) option" where
  "output_evidence sha256 h a =
     (if \<not> evidence_scan h [(a, 0)] [] 0 0 then None
      else
        (case to_json 33 h a of
           None \<Rightarrow> None
         | Some snapshot \<Rightarrow>
             let encoded = utf8 (dumps snapshot) in
             if length encoded > 1048576 then None
             else Some (snapshot, sha256 encoded, length encoded)))"

lemma those_Some: "(\<forall>x\<in>set xs. x \<noteq> None) \<Longrightarrow> those xs \<noteq> None"
  by (induction xs) (auto split: option.splits)

text \<open>One iteration: what it checked of the popped object, and the state it goes on with.\<close>

lemma evidence_scan_step:
  assumes "evidence_scan h ((b, depth) # stack) seen nodes bytes"
  obtains stack' seen' bytes' where "evidence_scan h stack' seen' (Suc nodes) bytes'"
    "set stack \<subseteq> set stack'" "depth \<le> 32" "nodes < 4096"
    "case h b of ODict kvs \<Rightarrow> (\<forall>(k, v) \<in> set kvs. is_str (h k) \<and> (v, Suc depth) \<in> set stack')
       | OList vs \<Rightarrow> (\<forall>v \<in> set vs. (v, Suc depth) \<in> set stack') | OFloat fin r \<Rightarrow> fin | OOther \<Rightarrow> False | _ \<Rightarrow> True"
proof -
  have d: "depth \<le> 32" "nodes < 4096" using assms by (auto split: if_splits)
  show thesis
  proof (cases "h b")
    case (ODict kvs)
    with assms d show thesis
      by (intro that [of "rev (concat (map (\<lambda>(k, v). [(k, Suc depth), (v, Suc depth)]) kvs)) @ stack" "b # seen" bytes])
        (auto simp: list_all_iff)
  next
    case (OList vs)
    with assms d show thesis
      by (intro that [of "rev (map (\<lambda>v. (v, Suc depth)) vs) @ stack" "b # seen" bytes]) auto
  next
    case (OStr x)
    with assms d show thesis by (intro that [of stack seen "bytes + length (utf8 x)"]) (auto simp: Let_def)
  qed (use assms d in \<open>auto intro!: that [of stack seen bytes]\<close>)
qed

text \<open>The nesting depth the traversal admits is enough fuel for the copy.\<close>

lemma evidence_scan_copies:
  assumes "evidence_scan h stack seen nodes bytes" and "(a, d) \<in> set stack"
  shows "d \<le> 32 \<and> to_json (33 - d) h a \<noteq> None"
  using assms
proof (induction "4096 - nodes" arbitrary: stack seen nodes bytes a d rule: less_induct)
  case less
  obtain b depth rest where st: "stack = (b, depth) # rest" using less.prems(2) by (cases stack) auto
  from less.prems(1) [unfolded st] obtain stack' seen' bytes' where
    next_: "evidence_scan h stack' seen' (Suc nodes) bytes'" "set rest \<subseteq> set stack'" and d: "depth \<le> 32" "nodes < 4096"
    and obj: "case h b of ODict kvs \<Rightarrow> (\<forall>(k, v) \<in> set kvs. is_str (h k) \<and> (v, Suc depth) \<in> set stack')
       | OList vs \<Rightarrow> (\<forall>v \<in> set vs. (v, Suc depth) \<in> set stack') | OFloat fin r \<Rightarrow> fin | OOther \<Rightarrow> False | _ \<Rightarrow> True"
    by (rule evidence_scan_step)
  have IH: "y \<le> 32 \<and> to_json (33 - y) h x \<noteq> None" if "(x, y) \<in> set stack'" for x y
    by (rule less.hyps [OF _ next_(1) that]) (use d(2) in simp)
  have child: "to_json (32 - depth) h v \<noteq> None" if "(v, Suc depth) \<in> set stack'" for v
    using IH [OF that] by simp
  have "to_json (Suc (32 - depth)) h b \<noteq> None"
  proof (cases "h b")
    case (ODict kvs)
    with obj child have kv: "is_str (h k) \<and> to_json (32 - depth) h v \<noteq> None" if "(k, v) \<in> set kvs" for k v
      using that by auto
    have "those (map (\<lambda>(k, v). case h k of OStr s \<Rightarrow> map_option (Pair s) (to_json (32 - depth) h v)
        | _ \<Rightarrow> None) kvs) \<noteq> None"
    proof (rule those_Some, rule ballI)
      fix x assume "x \<in> set (map (\<lambda>(k, v). case h k of OStr s \<Rightarrow> map_option (Pair s) (to_json (32 - depth) h v)
        | _ \<Rightarrow> None) kvs)"
      then obtain k v where "(k, v) \<in> set kvs"
        "x = (case h k of OStr s \<Rightarrow> map_option (Pair s) (to_json (32 - depth) h v) | _ \<Rightarrow> None)" by auto
      with kv [of k v] show "x \<noteq> None" by (cases "h k") auto
    qed
    with ODict show ?thesis by auto
  next
    case (OList vs)
    with obj child have "those (map (to_json (32 - depth) h) vs) \<noteq> None" by (intro those_Some) auto
    with OList show ?thesis by auto
  qed (use obj in auto)
  with d(1) have top: "to_json (33 - depth) h b \<noteq> None" by (simp add: Suc_diff_le [symmetric])
  show ?case
  proof (cases "(a, d) = (b, depth)")
    case True
    with top d(1) show ?thesis by simp
  next
    case False
    with less.prems(2) st next_(2) IH show ?thesis by auto
  qed
qed

lemma output_evidence_copies: "evidence_scan h [(a, 0)] [] 0 0 \<Longrightarrow> \<exists>j. to_json 33 h a = Some j"
  using evidence_scan_copies [of h "[(a, 0)]" "[]" 0 0 a 0] by auto

text \<open>An accepted traversal never meets the same container twice, on any path.\<close>

fun is_container :: "py_object \<Rightarrow> bool" where
  "is_container (ODict kvs) = True"
| "is_container (OList vs) = True"
| "is_container _ = False"

lemma containers_tail:
  assumes "distinct (filter C (map f (xs @ ys))) \<and> (\<forall>x\<in>set (map f (xs @ ys)). C x \<longrightarrow> x \<notin> set (a # seen))"
    and "a \<notin> set seen"
  shows "distinct (filter C (a # map f ys)) \<and> (\<forall>x\<in>set (a # map f ys). C x \<longrightarrow> x \<notin> set seen)"
  using assms by auto

lemma evidence_scan_containers:
  "evidence_scan h stack seen nodes bytes \<Longrightarrow>
     distinct (filter (\<lambda>a. is_container (h a)) (map fst stack))
     \<and> (\<forall>a \<in> set (map fst stack). is_container (h a) \<longrightarrow> a \<notin> set seen)"
proof (induction h stack seen nodes bytes rule: evidence_scan.induct)
  case (1 h seen nodes bytes)
  then show ?case by simp
next
  case (2 h a depth stack seen nodes bytes)
  then have d: "\<not> (depth > 32 \<or> nodes + 1 > 4096)" by (auto split: if_splits)
  show ?case
  proof (cases "h a")
    case (ODict kvs)
    with "2.prems" d have "a \<notin> set seen"
      and sc: "evidence_scan h (rev (concat (map (\<lambda>(k, v). [(k, depth + 1), (v, depth + 1)]) kvs)) @ stack) (a # seen)
        (nodes + 1) bytes" by auto
    from containers_tail [OF "2.IH"(6) [OF d ODict sc] this(1)] show ?thesis by simp
  next
    case (OList vs)
    with "2.prems" d have "a \<notin> set seen"
      and sc: "evidence_scan h (rev (map (\<lambda>v. (v, depth + 1)) vs) @ stack) (a # seen) (nodes + 1) bytes" by auto
    from containers_tail [OF "2.IH"(7) [OF d OList sc] this(1)] show ?thesis by simp
  next
    case ONone
    with "2.prems" d "2.IH"(1) [OF d ONone] show ?thesis by auto
  next
    case (OBool x)
    with "2.prems" d "2.IH"(2) [OF d OBool] show ?thesis by auto
  next
    case (OInt x)
    with "2.prems" d "2.IH"(3) [OF d OInt] show ?thesis by auto
  next
    case (OFloat x y)
    with "2.prems" d "2.IH"(4) [OF d OFloat] show ?thesis by auto
  next
    case (OStr x)
    with "2.prems" d "2.IH"(5) [OF d OStr refl] show ?thesis by (auto simp: Let_def)
  next
    case OOther
    with "2.prems" d show ?thesis by auto
  qed
qed

subsection \<open>The protocol\<close>

datatype tool_answer =
    ToolOutput nat
  | ToolPermissionError
  | ToolCancelled
  | ToolException
  | ToolBaseException

datatype exec_error =
    EffectDispatchRejected
  | IndeterminateToolEffect
  | ExecCancelled
  | ExecBaseException
  | ExecComplianceError
  | ExecIdentityError
  | ExecToolError tool_answer
  | ExecLedgerFailure "effect_error call_failure"

datatype exec_value =
    PlainOutput nat
  | DuplicateEffectBlocked effect_state
  | EffectOutput json

datatype exec_site =
    OnReserve | OnCancelRelease | OnCommit | OnCommitInspect | OnCommitMark | OnDeny | OnInspect | OnMark

record effect_context =
  ec_owner_id :: string
  ec_project_id :: string
  ec_run_id :: string

record exec_env =
  xe_call :: "exec_site \<Rightarrow> effect_db call_env"
  xe_between :: "effect_db \<Rightarrow> effect_db"
  xe_wakes :: "exec_site \<Rightarrow> wake list"
  xe_effectful :: bool
  xe_compliant :: bool
  xe_heap :: py_heap
  xe_answer :: tool_answer

definition exec_cancelled :: "exec_env \<Rightarrow> exec_site \<Rightarrow> bool" where
  "exec_cancelled en site = cancelled_while (xe_wakes en site) False"

text \<open>\<open>_mark_indeterminate\<close>: the row is read in the run's scope and marked when still reserved.\<close>

definition mark_if_reserved ::
  "effect_context \<Rightarrow> exec_env \<Rightarrow> exec_site \<Rightarrow> exec_site \<Rightarrow> string \<Rightarrow> string \<Rightarrow> effect_db
     \<Rightarrow> effect_db \<times> (effect_error call_failure + unit)" where
  "mark_if_reserved cx en inspect mark effect_id code db =
     (case repository_call (xe_call en inspect)
             (\<lambda>_ db. (db, get_effect effect_id (ec_owner_id cx) (ec_project_id cx) (ec_run_id cx) db)) db of
        (db1, Inl e) \<Rightarrow> (db1, Inl e)
      | (db1, Inr None) \<Rightarrow> (db1, Inr ())
      | (db1, Inr (Some r)) \<Rightarrow>
          if ef_state r = EffReserved
          then repository_call (xe_call en mark) (\<lambda>now. mark_effect_indeterminate now effect_id code) db1
          else (db1, Inr ()))"

text \<open>The exception that leaves the \<open>try\<close> block.\<close>

datatype try_error = TryPermission | TryCancelled | TryException | TryBase

definition run_and_commit ::
  "(string \<Rightarrow> string) \<Rightarrow> effect_context \<Rightarrow> exec_env \<Rightarrow> string \<Rightarrow> effect_db \<Rightarrow> effect_db \<times> (try_error + exec_value)" where
  "run_and_commit sha256 cx en effect_id db =
     (case xe_answer en of
        ToolPermissionError \<Rightarrow> (db, Inl TryPermission)
      | ToolCancelled \<Rightarrow> (db, Inl TryCancelled)
      | ToolException \<Rightarrow> (db, Inl TryException)
      | ToolBaseException \<Rightarrow> (db, Inl TryBase)
      | ToolOutput a \<Rightarrow>
          (case output_evidence sha256 (xe_heap en) a of
             None \<Rightarrow> (db, Inl TryException)
           | Some (snapshot, output_hash, output_size) \<Rightarrow>
               (case repository_call (xe_call en OnCommit)
                       (\<lambda>now. commit_effect now effect_id output_hash (int output_size)) db of
                  (db1, Inl e) \<Rightarrow>
                    (fst (mark_if_reserved cx en OnCommitInspect OnCommitMark effect_id ''commit_failed'' db1),
                     Inl TryException)
                | (db1, Inr _) \<Rightarrow>
                    if exec_cancelled en OnCommit then (db1, Inl TryCancelled)
                    else (db1, Inr (EffectOutput snapshot)))))"

definition run_effect ::
  "(string \<Rightarrow> string) \<Rightarrow> effect_context \<Rightarrow> exec_env \<Rightarrow> string \<Rightarrow> effect_db \<Rightarrow> effect_db \<times> (exec_error + exec_value)" where
  "run_effect sha256 cx en effect_id db =
     (case run_and_commit sha256 cx en effect_id db of
        (db1, Inr v) \<Rightarrow> (db1, Inr v)
      | (db1, Inl TryPermission) \<Rightarrow>
          (case repository_call (xe_call en OnDeny) (\<lambda>now. fail_effect now effect_id ''permission_denied'') db1 of
             (db2, Inl _) \<Rightarrow> (db2, Inl IndeterminateToolEffect)
           | (db2, Inr _) \<Rightarrow> (db2, Inl EffectDispatchRejected))
      | (db1, Inl error) \<Rightarrow>
          (case mark_if_reserved cx en OnInspect OnMark effect_id ''dispatch_interrupted'' db1 of
             (db2, Inl _) \<Rightarrow> (db2, Inl IndeterminateToolEffect)
           | (db2, Inr _) \<Rightarrow>
               (db2, Inl (if error = TryCancelled \<or> exec_cancelled en OnInspect then ExecCancelled
                          else if error = TryException then IndeterminateToolEffect
                          else ExecBaseException))))"

record exec_result =
  xr_db :: effect_db
  xr_executed_at :: "effect_db option"
  xr_outcome :: "exec_error + exec_value"

text \<open>
  \<open>execute\<close>. The binding is what \<open>bind_effect_identity\<close> returned for the call, None when
  it raised.
\<close>

definition execute_effect ::
  "(string \<Rightarrow> string) \<Rightarrow> effect_context \<Rightarrow> exec_env \<Rightarrow> effect_binding option \<Rightarrow> effect_db \<Rightarrow> exec_result" where
  "execute_effect sha256 cx en binding db =
     (let result = (\<lambda>db at out. \<lparr>xr_db = db, xr_executed_at = at, xr_outcome = out\<rparr>) in
      if \<not> xe_effectful en then
        result db None (case xe_answer en of ToolOutput a \<Rightarrow> Inr (PlainOutput a) | e \<Rightarrow> Inl (ExecToolError e))
      else if \<not> xe_compliant en then result db None (Inl ExecComplianceError)
      else
        (case binding of
           None \<Rightarrow> result db None (Inl ExecIdentityError)
         | Some b \<Rightarrow>
             (case repository_call (xe_call en OnReserve) (\<lambda>now. reserve_effect now b (xe_between en)) db of
                (db1, Inl e) \<Rightarrow>
                  result db1 None (Inl (if exec_cancelled en OnReserve then ExecCancelled else ExecLedgerFailure e))
              | (db1, Inr granted) \<Rightarrow>
                  if exec_cancelled en OnReserve then
                    (if er_should_execute granted then
                       (case repository_call (xe_call en OnCancelRelease)
                               (\<lambda>now. fail_effect now (eb_effect_id b) ''dispatch_cancelled'') db1 of
                          (db2, Inl _) \<Rightarrow> result db2 None (Inl IndeterminateToolEffect)
                        | (db2, Inr _) \<Rightarrow> result db2 None (Inl ExecCancelled))
                     else result db1 None (Inl ExecCancelled))
                  else if \<not> er_should_execute granted
                  then result db1 None (Inr (DuplicateEffectBlocked (er_state granted)))
                  else
                    (case run_effect sha256 cx en (eb_effect_id b) db1 of
                       (db2, out) \<Rightarrow> result db2 (Some db1) out))))"

subsection \<open>Every call is a history of ledger transactions\<close>

definition exec_foreign_ok :: "exec_env \<Rightarrow> bool" where
  "exec_foreign_ok en \<longleftrightarrow>
     (\<forall>site db. effect_step\<^sup>*\<^sup>* db (ce_before (xe_call en site) db)) \<and> (\<forall>db. effect_step\<^sup>*\<^sup>* db (xe_between en db))"

lemma exec_call_steps:
  assumes "exec_foreign_ok en" and "\<And>now db. effect_step\<^sup>*\<^sup>* db (fst (op now db))"
    and "repository_call (xe_call en site) op db = (db', res)"
  shows "effect_step\<^sup>*\<^sup>* db db'"
  by (rule effect_ledger.call_steps [OF _ assms(2,3)]) (use assms(1) in \<open>simp add: exec_foreign_ok_def\<close>)

lemma effect_transaction_steps:
  "effect_step\<^sup>*\<^sup>* db (fst (commit_effect now i h n db))"
  "effect_step\<^sup>*\<^sup>* db (fst (fail_effect now i c db))"
  "effect_step\<^sup>*\<^sup>* db (fst (mark_effect_indeterminate now i c db))"
  by (rule r_into_rtranclp [of effect_step], rule effect_step.intros)+

lemma reserve_effect_steps:
  assumes "\<And>db. effect_step\<^sup>*\<^sup>* db (between db)"
  shows "effect_step\<^sup>*\<^sup>* db (fst (reserve_effect now b between db))"
proof -
  have "effect_step\<^sup>*\<^sup>* db (fst (reserve_insert now b db))"
    by (rule r_into_rtranclp [of effect_step]) (rule effect_reserved)
  then show ?thesis using assms
    by (auto simp: reserve_effect_def Let_def split: prod.split bool.split option.split intro: rtranclp_trans)
qed

lemma mark_if_reserved_steps:
  assumes f: "exec_foreign_ok en"
  shows "effect_step\<^sup>*\<^sup>* db (fst (mark_if_reserved cx en inspect mark i code db))"
proof -
  obtain db1 x where x: "repository_call (xe_call en inspect)
      (\<lambda>_ db. (db, get_effect i (ec_owner_id cx) (ec_project_id cx) (ec_run_id cx) db)) db = (db1, x)"
    by fastforce
  have 1: "effect_step\<^sup>*\<^sup>* db db1" by (rule exec_call_steps [OF f _ x]) simp
  have 2: "effect_step\<^sup>*\<^sup>* db1 (fst (repository_call (xe_call en mark) (\<lambda>now. mark_effect_indeterminate now i code) db1))"
    by (rule exec_call_steps [OF f effect_transaction_steps(3) prod.collapse [symmetric]])
  show ?thesis unfolding mark_if_reserved_def x
    using 1 rtranclp_trans [OF 1 2] by (auto split: sum.split option.split)
qed

lemma run_and_commit_steps:
  assumes f: "exec_foreign_ok en" and r: "run_and_commit sha256 cx en i db = (db', res)"
  shows "effect_step\<^sup>*\<^sup>* db db'"
proof -
  note C = exec_call_steps [OF f effect_transaction_steps(1)]
  note M = mark_if_reserved_steps [OF f]
  from r show ?thesis unfolding run_and_commit_def
    by (auto split: tool_answer.split_asm option.split_asm prod.split_asm sum.split_asm if_split_asm
        dest!: C intro: rtranclp_trans M)
qed

lemma run_effect_steps:
  assumes f: "exec_foreign_ok en" and r: "run_effect sha256 cx en i db = (db', res)"
  shows "effect_step\<^sup>*\<^sup>* db db'"
proof -
  obtain db1 x where x: "run_and_commit sha256 cx en i db = (db1, x)" by fastforce
  note 1 = run_and_commit_steps [OF f x]
  have 2: "effect_step\<^sup>*\<^sup>* db1 (fst (repository_call (xe_call en OnDeny) (\<lambda>now. fail_effect now i ''permission_denied'') db1))"
    by (rule exec_call_steps [OF f effect_transaction_steps(2) prod.collapse [symmetric]])
  have "db' = db1 \<or> db' = fst (repository_call (xe_call en OnDeny) (\<lambda>now. fail_effect now i ''permission_denied'') db1)
     \<or> db' = fst (mark_if_reserved cx en OnInspect OnMark i ''dispatch_interrupted'' db1)"
  proof (cases x)
    case (Inl t)
    then show ?thesis using r unfolding run_effect_def x
      by (cases t) (simp_all split: prod.split_asm sum.split_asm)
  next
    case (Inr v)
    then show ?thesis using r unfolding run_effect_def x by simp
  qed
  then show ?thesis
    by (elim disjE) (use 1 rtranclp_trans [OF 1 2] rtranclp_trans [OF 1 mark_if_reserved_steps [OF f]] in simp_all)
qed

lemma executed_granted:
  assumes "xr_executed_at (execute_effect sha256 cx en binding db) = Some d"
  obtains b where "binding = Some b"
    "d = ce_before (xe_call en OnReserve) db @ [new_effect (ce_now (xe_call en OnReserve)) b]"
    "\<forall>r\<in>set (ce_before (xe_call en OnReserve) db). ef_effect_id r \<noteq> eb_effect_id b"
    "run_effect sha256 cx en (eb_effect_id b) d =
       (xr_db (execute_effect sha256 cx en binding db), xr_outcome (execute_effect sha256 cx en binding db))"
proof -
  from assms obtain b g where b: "binding = Some b" and g: "er_should_execute g"
    and call: "repository_call (xe_call en OnReserve) (\<lambda>now. reserve_effect now b (xe_between en)) db = (d, Inr g)"
    and run: "run_effect sha256 cx en (eb_effect_id b) d =
       (xr_db (execute_effect sha256 cx en binding db), xr_outcome (execute_effect sha256 cx en binding db))"
    unfolding execute_effect_def Let_def
    by (auto split: if_split_asm option.split_asm prod.split_asm sum.split_asm)
  from reserve_granted_effect [OF repository_call_Inr [OF call] g] b run that show thesis by blast
qed

lemma commit_effect_Inr:
  assumes "commit_effect now i hash sz db = (db', Inr u)"
  shows "\<exists>r\<in>set db'. ef_effect_id r = i \<and> ef_state r = EffCommitted
     \<and> ef_output_hash r = Some hash \<and> ef_output_size r = Some sz"
proof -
  let ?P = "\<lambda>r. ef_effect_id r = i \<and> ef_state r = EffReserved"
  let ?f = "\<lambda>r. r\<lparr>ef_state := EffCommitted, ef_output_hash := Some hash, ef_output_size := Some sz,
     ef_failure_code := None, ef_completed_at := Some now\<rparr>"
  from assms have n: "rowcount ?P db = Suc 0" and db': "db' = updated ?P ?f db"
    by (auto simp: commit_effect_def effect_transition_def Let_def split: if_split_asm)
  from n obtain r where r: "r \<in> set db" "?P r" by (rule rowcount_oneE)
  from updatedI [OF r(1), of ?P ?f] r(2) have "?f r \<in> set db'" unfolding db' by simp
  with r(2) show ?thesis by (intro bexI) simp_all
qed

text \<open>A transition out of the reserved state leaves no reserved row of that effect, also when it
  found none.\<close>

lemma effect_transition_leaves:
  assumes "effect_id_ok i" "state \<noteq> EffReserved" "distinct (map ef_effect_id db)"
  shows "\<forall>r\<in>set (fst (effect_transition now i state h n c db)). ef_effect_id r = i \<longrightarrow> ef_state r \<noteq> EffReserved"
proof -
  let ?P = "\<lambda>r. ef_effect_id r = i \<and> ef_state r = EffReserved"
  from rowcount_key_le [OF assms(3), of i "\<lambda>r. ef_state r = EffReserved"]
  consider (none) "rowcount ?P db = 0" | (one) "rowcount ?P db = Suc 0" by linarith
  then show ?thesis
  proof cases
    case none
    then have "\<forall>r\<in>set db. \<not> ?P r" by (simp only: rowcount_zero)
    with none show ?thesis by (simp add: effect_transition_def Let_def)
  next
    case one
    show ?thesis
    proof (intro ballI impI)
      fix r assume "r \<in> set (fst (effect_transition now i state h n c db))" "ef_effect_id r = i"
      with one assms(1) have "r \<in> set (updated ?P (\<lambda>r. r\<lparr>ef_state := state, ef_output_hash := h,
          ef_output_size := n, ef_failure_code := c, ef_completed_at := Some now\<rparr>) db)" "ef_effect_id r = i"
        by (simp_all add: effect_transition_def Let_def)
      from this(1) obtain r0 where "r = (if ?P r0 then r0\<lparr>ef_state := state, ef_output_hash := h,
          ef_output_size := n, ef_failure_code := c, ef_completed_at := Some now\<rparr> else r0)" by (rule in_updatedE)
      with \<open>ef_effect_id r = i\<close> assms(2) show "ef_state r \<noteq> EffReserved" by (cases "?P r0") simp_all
    qed
  qed
qed

definition released :: "string \<Rightarrow> effect_db \<Rightarrow> bool" where
  "released i db = list_all (\<lambda>r. ef_effect_id r = i \<longrightarrow> ef_state r \<noteq> EffReserved) db"

lemma repository_call_NoFault:
  "ce_fault e = NoFault \<Longrightarrow> fst (repository_call e op db) = fst (op (ce_now e) (ce_before e db))"
  by (auto simp: repository_call_def Let_def split: prod.split sum.split)

lemma fail_effect_released:
  "effect_id_ok i \<Longrightarrow> SAFE_CODE c \<Longrightarrow> distinct (map ef_effect_id db) \<Longrightarrow> released i (fst (fail_effect now i c db))"
  unfolding fail_effect_def released_def list_all_iff by (simp, rule effect_transition_leaves) simp_all

lemma mark_effect_released:
  "effect_id_ok i \<Longrightarrow> SAFE_CODE c \<Longrightarrow> distinct (map ef_effect_id db) \<Longrightarrow>
     released i (fst (mark_effect_indeterminate now i c db))"
  unfolding mark_effect_indeterminate_def released_def list_all_iff by (simp, rule effect_transition_leaves) simp_all

lemma released_by:
  assumes "distinct (map ef_effect_id db)" "x \<in> set db" "ef_effect_id x = i" "ef_state x \<noteq> EffReserved"
  shows "released i db"
proof -
  have "r = x" if "r \<in> set db" "ef_effect_id r = i" for r
    using assms(1-3) that by (simp add: distinct_map inj_on_def)
  with assms(4) show ?thesis by (auto simp: released_def list_all_iff)
qed

lemma codes_ok: "SAFE_CODE ''dispatch_cancelled''" "SAFE_CODE ''permission_denied''" "SAFE_CODE ''dispatch_interrupted''"
  by code_simp+

lemma mark_if_reserved_released:
  assumes f: "exec_foreign_ok en" and nf: "ce_fault (xe_call en inspect) = NoFault" "ce_fault (xe_call en mark) = NoFault"
    and i: "effect_id_ok i" "SAFE_CODE code" and d: "distinct (map ef_effect_id db)"
    and row: "r \<in> set db" "effect_scope i (ec_owner_id cx) (ec_project_id cx) (ec_run_id cx) r"
  shows "released i (fst (mark_if_reserved cx en inspect mark i code db))"
proof -
  let ?S = "effect_scope i (ec_owner_id cx) (ec_project_id cx) (ec_run_id cx)"
  define db1 where "db1 = ce_before (xe_call en inspect) db"
  have s1: "effect_step\<^sup>*\<^sup>* db db1" using f by (simp add: exec_foreign_ok_def db1_def)
  note d1 = effect_steps_distinct [OF s1 d]
  from effect_ledger.row_moves [OF s1 row(1)] row(2) obtain r1 where r1: "r1 \<in> set db1" "?S r1"
    by (auto simp: effect_moves_def effect_scope_def)
  then obtain x where x: "scalar (select_where ?S db1) = Some x" and xm: "x \<in> set db1" "?S x"
    by (metis not_None_eq scalar_select_None scalar_select_Some)
  have look: "repository_call (xe_call en inspect) (\<lambda>_ db. (db, get_effect i (ec_owner_id cx) (ec_project_id cx) (ec_run_id cx) db)) db
      = (db1, Inr (Some x))"
    using nf(1) i(1) x by (simp add: repository_call_def get_effect_def db1_def)
  show ?thesis
  proof (cases "ef_state x = EffReserved")
    case True
    have "effect_step\<^sup>*\<^sup>* db1 (ce_before (xe_call en mark) db1)" using f by (simp add: exec_foreign_ok_def)
    from mark_effect_released [OF i effect_steps_distinct [OF this d1]] True show ?thesis
      by (simp add: mark_if_reserved_def look repository_call_NoFault [OF nf(2)])
  next
    case False
    have "released i db1"
      by (rule released_by [OF d1 xm(1)]) (use False xm(2) in \<open>simp_all add: effect_scope_def\<close>)
    with False show ?thesis by (simp add: mark_if_reserved_def look)
  qed
qed

subsection \<open>Properties\<close>

lemma output_evidence_scan: "output_evidence sha256 h a = Some e \<Longrightarrow> evidence_scan h [(a, 0)] [] 0 0"
  by (simp add: output_evidence_def split: if_split_asm)

lemma distinct_filter_nth:
  assumes "distinct (filter C xs)" "i < j" "j < length xs" "xs ! i = xs ! j" "C (xs ! i)"
  shows False
proof -
  have "xs ! i \<in> set (take j xs)"
    using assms(2,3) by (auto simp: in_set_conv_nth intro!: exI [of _ i])
  moreover have "xs ! j \<in> set (drop j xs)"
    using assms(3) by (auto simp: in_set_conv_nth intro!: exI [of _ 0])
  moreover have "distinct (filter C (take j xs) @ filter C (drop j xs))"
    using assms(1) by (simp flip: filter_append)
  ultimately show False using assms(4,5) by auto
qed

text \<open>A concrete effectful call.\<close>

definition demo_exec :: "tool_answer \<Rightarrow> exec_env" where
  "demo_exec ans = \<lparr>xe_call = (\<lambda>_. \<lparr>ce_before = id, ce_fault = NoFault, ce_now = 9\<rparr>), xe_between = id,
     xe_wakes = (\<lambda>_. [ChildFinished]), xe_effectful = True, xe_compliant = True,
     xe_heap = (\<lambda>_. ONone)(0 := ODict [(1, 2)], 1 := OStr ''ok'', 2 := OBool True), xe_answer = ans\<rparr>"

definition demo_context :: effect_context where
  "demo_context = \<lparr>ec_owner_id = ''u'', ec_project_id = ''p'', ec_run_id = ''r''\<rparr>"

lemma demo_exec_foreign: "exec_foreign_ok (demo_exec ans)"
  by (simp add: exec_foreign_ok_def demo_exec_def)

lemma demo_to_json: "to_json (Suc (Suc n)) (xe_heap (demo_exec ans)) 0 = Some (JObj [(''ok'', JBool True)])"
  by (simp add: demo_exec_def)

lemma demo_evidence:
  "output_evidence (\<lambda>_. replicate 64 CHR ''c'') (xe_heap (demo_exec ans)) 0 =
     Some (JObj [(''ok'', JBool True)], replicate 64 CHR ''c'', 11)"
proof -
  have "to_json 33 (xe_heap (demo_exec ans)) 0 = Some (JObj [(''ok'', JBool True)])"
    using demo_to_json [of 31 ans] by simp
  moreover have "evidence_scan (xe_heap (demo_exec ans)) [(0, 0)] [] 0 0"
    by (simp add: demo_exec_def utf8_def Let_def)
  ultimately show ?thesis
    by (simp add: output_evidence_def utf8_def json_quote_def escape_char_def Let_def)
qed

lemma demo_exec_commits:
  "xr_executed_at (execute_effect (\<lambda>_. replicate 64 CHR ''c'') demo_context (demo_exec (ToolOutput 0)) (Some demo_binding) []) =
     Some [new_effect 9 demo_binding]"
  "xr_outcome (execute_effect (\<lambda>_. replicate 64 CHR ''c'') demo_context (demo_exec (ToolOutput 0)) (Some demo_binding) []) =
     Inr (EffectOutput (JObj [(''ok'', JBool True)]))"
proof -
  let ?en = "demo_exec (ToolOutput 0)"
  have res: "repository_call (xe_call ?en OnReserve) (\<lambda>now. reserve_effect now demo_binding (xe_between ?en)) [] =
      ([new_effect 9 demo_binding], Inr \<lparr>er_effect_id = eb_effect_id demo_binding, er_state = EffReserved, er_should_execute = True\<rparr>)"
    by (simp add: repository_call_def demo_exec_def reserve_effect_def reserve_insert_def insert_or_ignore_def effect_eval)
  have com: "\<exists>db. repository_call (xe_call ?en OnCommit)
      (\<lambda>now. commit_effect now (eb_effect_id demo_binding) (replicate 64 CHR ''c'') 11) [new_effect 9 demo_binding] = (db, Inr ())"
    by (simp add: repository_call_def demo_exec_def commit_effect_def effect_transition_def rowcount_def new_effect_def
        Let_def bigint_range_def MAX_BIGINT_def effect_eval)
  then obtain db where com: "repository_call (xe_call ?en OnCommit)
      (\<lambda>now. commit_effect now (eb_effect_id demo_binding) (replicate 64 CHR ''c'') 11) [new_effect 9 demo_binding] = (db, Inr ())" ..
  have run: "run_effect (\<lambda>_. replicate 64 CHR ''c'') demo_context ?en (eb_effect_id demo_binding) [new_effect 9 demo_binding] =
      (db, Inr (EffectOutput (JObj [(''ok'', JBool True)])))"
    using com demo_evidence by (simp add: run_effect_def run_and_commit_def demo_exec_def exec_cancelled_def)
  show "xr_executed_at (execute_effect (\<lambda>_. replicate 64 CHR ''c'') demo_context ?en (Some demo_binding) []) =
      Some [new_effect 9 demo_binding]"
    "xr_outcome (execute_effect (\<lambda>_. replicate 64 CHR ''c'') demo_context ?en (Some demo_binding) []) =
      Inr (EffectOutput (JObj [(''ok'', JBool True)]))"
    using res run by (simp_all add: execute_effect_def Let_def exec_cancelled_def)
      (simp_all add: demo_exec_def)
qed

text \<open>
  C7: At most once. If a tool call was executed under an effect id, then no later call that
  derives the same effect id executes its tool again, whichever process, run or retry makes it and
  whatever faults, cancellations and ledger transactions lie between the two.
\<close>

theorem effect_executed_at_most_once:
  assumes "exec_foreign_ok en" and "exec_foreign_ok en'"
    and "xr_executed_at (execute_effect sha256 cx en (Some b) db) = Some d"
    and "effect_step\<^sup>*\<^sup>* (xr_db (execute_effect sha256 cx en (Some b) db)) db2"
    and "eb_effect_id b' = eb_effect_id b"
  shows "xr_executed_at (execute_effect sha256' cx' en' (Some b') db2) = None"
proof (rule ccontr)
  assume "xr_executed_at (execute_effect sha256' cx' en' (Some b') db2) \<noteq> None"
  then obtain d' where "xr_executed_at (execute_effect sha256' cx' en' (Some b') db2) = Some d'" by blast
  then have fresh: "\<forall>r\<in>set (ce_before (xe_call en' OnReserve) db2). ef_effect_id r \<noteq> eb_effect_id b'"
    by (rule executed_granted) simp
  from assms(3) obtain n where d: "new_effect n b \<in> set d"
    and run: "run_effect sha256 cx en (eb_effect_id b) d =
      (xr_db (execute_effect sha256 cx en (Some b) db), xr_outcome (execute_effect sha256 cx en (Some b) db))"
    by (rule executed_granted) auto
  have "effect_step\<^sup>*\<^sup>* d (ce_before (xe_call en' OnReserve) db2)"
    using run_effect_steps [OF assms(1) run] assms(4) assms(2) [unfolded exec_foreign_ok_def]
    by (meson rtranclp_trans)
  from effect_ledger.row_moves [OF this d] fresh assms(5) show False
    by (auto simp: effect_moves_def new_effect_def)
qed

theorem effect_executed_at_most_once_witness:
  "xr_executed_at (execute_effect (\<lambda>_. []) demo_context (demo_exec ToolException) (Some demo_binding)
     (xr_db (execute_effect (\<lambda>_. replicate 64 CHR ''c'') demo_context (demo_exec (ToolOutput 0)) (Some demo_binding) []))) = None"
  by (rule effect_executed_at_most_once [OF demo_exec_foreign demo_exec_foreign demo_exec_commits(1)]) simp_all

text \<open>
  A tool's output is only returned once its evidence is durable: the ledger then holds the
  effect as committed, with the digest and the size of the canonical encoding of exactly the value
  that is returned.
\<close>

theorem returned_effect_is_committed:
  assumes "xr_outcome (execute_effect sha256 cx en (Some b) db) = Inr (EffectOutput j)"
  shows "\<exists>r \<in> set (xr_db (execute_effect sha256 cx en (Some b) db)).
     ef_effect_id r = eb_effect_id b \<and> ef_state r = EffCommitted
     \<and> ef_output_hash r = Some (sha256 (utf8 (dumps j)))
     \<and> ef_output_size r = Some (int (length (utf8 (dumps j))))"
proof -
  let ?x = "execute_effect sha256 cx en (Some b) db"
  from assms obtain d where run: "run_effect sha256 cx en (eb_effect_id b) d = (xr_db ?x, Inr (EffectOutput j))"
    unfolding execute_effect_def Let_def
    by (auto split: if_split_asm option.split_asm prod.split_asm sum.split_asm tool_answer.split_asm)
  then have rc: "run_and_commit sha256 cx en (eb_effect_id b) d = (xr_db ?x, Inr (EffectOutput j))"
    unfolding run_effect_def by (auto split: prod.split_asm sum.split_asm try_error.split_asm)
  from rc obtain a hash size where ev: "output_evidence sha256 (xe_heap en) a = Some (j, hash, size)"
    and call: "repository_call (xe_call en OnCommit) (\<lambda>now. commit_effect now (eb_effect_id b) hash (int size)) d =
      (xr_db ?x, Inr ())"
    unfolding run_and_commit_def
    by (auto split: tool_answer.split_asm option.split_asm prod.split_asm sum.split_asm if_split_asm)
  from commit_effect_Inr [OF repository_call_Inr [OF call]]
  have "\<exists>r \<in> set (xr_db ?x). ef_effect_id r = eb_effect_id b \<and> ef_state r = EffCommitted
     \<and> ef_output_hash r = Some hash \<and> ef_output_size r = Some (int size)" .
  moreover from ev have "hash = sha256 (utf8 (dumps j))" "size = length (utf8 (dumps j))"
    by (auto simp: output_evidence_def Let_def split: if_split_asm option.split_asm)
  ultimately show ?thesis by simp
qed

theorem returned_effect_is_committed_witness:
  "\<exists>r \<in> set (xr_db (execute_effect (\<lambda>_. replicate 64 CHR ''c'') demo_context (demo_exec (ToolOutput 0)) (Some demo_binding) [])).
     ef_state r = EffCommitted \<and> ef_output_hash r = Some (replicate 64 CHR ''c'')"
  using returned_effect_is_committed [OF demo_exec_commits(2)] by blast

lemma run_effect_released:
  assumes f: "exec_foreign_ok en" and nf: "\<forall>site \<in> {OnDeny, OnInspect, OnMark}. ce_fault (xe_call en site) = NoFault"
    and i: "effect_id_ok i" and d: "distinct (map ef_effect_id db)"
    and row: "r \<in> set db" "effect_scope i (ec_owner_id cx) (ec_project_id cx) (ec_run_id cx) r"
    and run: "run_effect sha256 cx en i db = (db', out)"
  shows "released i db'"
proof -
  obtain db1 x where x: "run_and_commit sha256 cx en i db = (db1, x)" by fastforce
  note s1 = run_and_commit_steps [OF f x]
  note d1 = effect_steps_distinct [OF s1 d]
  from effect_ledger.row_moves [OF s1 row(1)] row(2) obtain r1 where
    r1: "r1 \<in> set db1" "effect_scope i (ec_owner_id cx) (ec_project_id cx) (ec_run_id cx) r1"
    by (auto simp: effect_moves_def effect_scope_def)
  note marked = mark_if_reserved_released [OF f _ _ i codes_ok(3) d1 r1, of OnInspect OnMark]
  have denied: "released i (fst (repository_call (xe_call en OnDeny) (\<lambda>now. fail_effect now i ''permission_denied'') db1))"
  proof -
    have "effect_step\<^sup>*\<^sup>* db1 (ce_before (xe_call en OnDeny) db1)" using f by (simp add: exec_foreign_ok_def)
    from fail_effect_released [OF i codes_ok(2) effect_steps_distinct [OF this d1]] nf show ?thesis
      by (simp add: repository_call_NoFault)
  qed
  show ?thesis
  proof (cases x)
    case (Inr v)
    with x obtain hash size j where v: "v = EffectOutput j" "repository_call (xe_call en OnCommit)
        (\<lambda>now. commit_effect now i hash (int size)) db = (db1, Inr ())"
      unfolding run_and_commit_def
      by (auto split: tool_answer.split_asm option.split_asm prod.split_asm sum.split_asm if_split_asm)
    from commit_effect_Inr [OF repository_call_Inr [OF v(2)]] obtain c where
      c: "c \<in> set db1" "ef_effect_id c = i" "ef_state c = EffCommitted" by blast
    have "released i db1" by (rule released_by [OF d1 c(1,2)]) (simp add: c(3))
    with run x Inr show ?thesis by (simp add: run_effect_def)
  next
    case (Inl t)
    obtain dA oA where A: "repository_call (xe_call en OnDeny) (\<lambda>now. fail_effect now i ''permission_denied'') db1 = (dA, oA)"
      by fastforce
    obtain dB oB where B: "mark_if_reserved cx en OnInspect OnMark i ''dispatch_interrupted'' db1 = (dB, oB)"
      by fastforce
    have "released i dA" "released i dB" using denied marked nf by (simp_all add: A B)
    with run Inl show ?thesis unfolding run_effect_def x
      by (cases t) (simp_all add: A B split: sum.split_asm)
  qed
qed



text \<open>
  C31: Evidence is only taken of tree-shaped output. If a tool's output dictionary reaches the same
  list or dictionary object through two of its entries, its evidence is refused, although the
  output has no cycle: the traversal records every container it met, not only the ancestors of the
  current one.
\<close>

theorem shared_output_refused:
  assumes "h a = ODict kvs" and "i < j" and "j < length kvs"
    and "snd (kvs ! i) = snd (kvs ! j)" and "is_container (h (snd (kvs ! i)))"
  shows "output_evidence sha256 h a = None"
proof (rule ccontr)
  assume "output_evidence sha256 h a \<noteq> None"
  then have sc: "evidence_scan h [(a, 0)] [] 0 0" using output_evidence_scan by blast
  let ?C = "\<lambda>a. is_container (h a)"
  let ?st = "rev (concat (map (\<lambda>(k, v). [(k, Suc 0), (v, Suc 0)]) kvs))"
  from sc assms(1) have keys: "list_all (\<lambda>(k, v). is_str (h k)) kvs" and st: "evidence_scan h ?st [a] (Suc 0) 0"
    by simp_all
  have "map fst ?st = rev (concat (map (\<lambda>(k, v). [k, v]) kvs))"
    by (simp add: rev_map [symmetric] map_concat comp_def case_prod_unfold)
  with evidence_scan_containers [OF st] have "distinct (filter ?C (concat (map (\<lambda>(k, v). [k, v]) kvs)))"
    by (simp add: rev_filter [symmetric])
  moreover have "filter ?C (concat (map (\<lambda>(k, v). [k, v]) kvs)) = filter ?C (map snd kvs)"
    using keys by (induction kvs) (auto split: py_object.splits elim: is_str.elims)
  ultimately have d: "distinct (filter ?C (map snd kvs))" by simp
  show False by (rule distinct_filter_nth [OF d assms(2)]) (use assms in simp_all)
qed

theorem shared_output_refused_witness:
  "output_evidence (\<lambda>_. []) ((\<lambda>_. ONone)(0 := ODict [(1, 3), (2, 3)], 1 := OStr ''a'', 2 := OStr ''b'', 3 := OList [])) 0 = None"
  by (rule shared_output_refused [of _ _ "[(1, 3), (2, 3)]" 0 1]) simp_all

end
