(* ===== verification/Policy.thy ===== *)
theory Policy
  imports Prelude "HOL-Library.Product_Lexorder"
begin

text \<open>
  The pure policy engine (\<open>security/policy.py\<close>) and the default rules
  (\<open>security/default_policy.py\<close>): canonical resources, rule matching, specificity and the
  choice between matching rules.

  Text is code points below 256, on which \<open>unicodedata.normalize("NFC", s)\<close> is the identity.
  IDNA encoding is the third-party package \<open>idna\<close>, a parameter of the host functions;
  \<open>posixpath.normpath\<close> and \<open>ipaddress.IPv4Address\<close> are written out. An exception of the
  source is \<open>None\<close>.
\<close>

subsection \<open>Data\<close>

datatype policy_action = ALLOW | ASK | DENY

datatype risk_class = READ | WRITE | EXECUTE | NETWORK | SECRET | EXTERNAL_SIDE_EFFECT

datatype resource_kind = TOOL | PATH | HOST

record resource_pattern =
  rp_kind :: resource_kind
  rp_pattern :: string

record policy_rule =
  pr_id :: string
  pr_action :: policy_action
  pr_resources :: "resource_pattern list"
  pr_risk_classes :: "risk_class set"
  pr_description :: string
  pr_enabled :: bool

record policy_request =
  rq_tool_name :: string
  rq_resources :: "resource_pattern list"
  rq_risk_classes :: "risk_class set"
  rq_legacy_requires_approval :: bool

record policy_decision =
  pd_action :: policy_action
  pd_risk_classes :: "risk_class set"
  pd_matched_rule_id :: "string option"
  pd_reason :: string
  pd_specificity :: "nat \<times> nat \<times> nat"

subsection \<open>Text\<close>

text \<open>Unicode categories Cc and Cf below 256.\<close>

definition is_control :: "char \<Rightarrow> bool" where
  "is_control c = (let n = of_char c :: nat in n < 32 \<or> (127 \<le> n \<and> n \<le> 159) \<or> n = 173)"

text \<open>\<open>str.isspace\<close> below 256.\<close>

definition is_space :: "char \<Rightarrow> bool" where
  "is_space c = (let n = of_char c :: nat in (9 \<le> n \<and> n \<le> 13) \<or> (28 \<le> n \<and> n \<le> 32) \<or> n = 133 \<or> n = 160)"

lemma text_class_code [code]:
  "is_control (Char b0 b1 b2 b3 b4 b5 b6 b7) =
     (\<not> b5 \<and> \<not> b6
      \<or> \<not> b7 \<and> b6 \<and> b5 \<and> b4 \<and> b3 \<and> b2 \<and> b1 \<and> b0
      \<or> b7 \<and> \<not> b6 \<and> b5 \<and> \<not> b4 \<and> b3 \<and> b2 \<and> \<not> b1 \<and> b0)"
  "is_space (Char b0 b1 b2 b3 b4 b5 b6 b7) =
     (\<not> b7 \<and> \<not> b6 \<and> \<not> b5 \<and> \<not> b4 \<and> b3 \<and> (b0 \<and> \<not> b1 \<and> \<not> b2 \<or> b1 \<and> \<not> b2 \<or> b2 \<and> \<not> b1)
      \<or> \<not> b7 \<and> \<not> b6 \<and> \<not> b5 \<and> b4 \<and> b3 \<and> b2
      \<or> \<not> b6 \<and> b5 \<and> \<not> b4 \<and> \<not> b3 \<and> \<not> b2 \<and> \<not> b1 \<and> \<not> b0
      \<or> b7 \<and> \<not> b6 \<and> \<not> b5 \<and> \<not> b4 \<and> \<not> b3 \<and> b2 \<and> \<not> b1 \<and> b0)"
  unfolding is_control_def is_space_def Let_def
  by (cases b0; cases b1; cases b2; cases b3; cases b4; cases b5; cases b6; cases b7; simp)+

definition strip :: "string \<Rightarrow> string" where
  "strip s = rev (dropWhile is_space (rev (dropWhile is_space s)))"

definition policy_text :: "bool \<Rightarrow> string \<Rightarrow> string option" where
  "policy_text stripped value =
     (if list_ex is_control value then None
      else let v = (if stripped then strip value else value) in if v = [] then None else Some v)"

definition canonical_tool :: "bool \<Rightarrow> string \<Rightarrow> string option" where
  "canonical_tool pattern value =
     (case map_option str_lower (policy_text True value) of
        None \<Rightarrow> None
      | Some v \<Rightarrow>
          if pattern \<and> v = ''*'' then Some v
          else if CHR ''*'' \<in> set v then None
          else Some v)"

subsection \<open>Paths\<close>

text \<open>\<open>s.split(sep)\<close> for a one-character separator.\<close>

fun split_on :: "char \<Rightarrow> string \<Rightarrow> string list" where
  "split_on sep [] = [[]]"
| "split_on sep (c # cs) =
     (if c = sep then [] # split_on sep cs
      else (case split_on sep cs of [] \<Rightarrow> [[c]] | w # ws \<Rightarrow> (c # w) # ws))"

fun join_with :: "char \<Rightarrow> string list \<Rightarrow> string" where
  "join_with sep [] = []"
| "join_with sep [w] = w"
| "join_with sep (w # v # ws) = w @ sep # join_with sep (v # ws)"

text \<open>
  The component loop of \<open>posixpath.normpath\<close> for a path that starts with one slash; the
  accumulator is the list of kept components, last one first.
\<close>

fun norm_components :: "string list \<Rightarrow> string list \<Rightarrow> string list" where
  "norm_components acc [] = rev acc"
| "norm_components acc (w # ws) =
     (if w = [] \<or> w = ''.'' then norm_components acc ws
      else if w \<noteq> ''..'' then norm_components (w # acc) ws
      else norm_components (tl acc) ws)"

definition normpath_absolute :: "string \<Rightarrow> string" where
  "normpath_absolute p = CHR ''/'' # join_with (CHR ''/'') (norm_components [] (split_on (CHR ''/'') p))"

definition slashes :: "string \<Rightarrow> string" where
  "slashes s = map (\<lambda>c. if c = CHR 0x5C then CHR ''/'' else c) s"

definition normalize_absolute_path :: "string \<Rightarrow> string option" where
  "normalize_absolute_path value =
     (let v = slashes value in
      if \<not> startswith v ''/'' then None
      else Some (normpath_absolute (CHR ''/'' # dropWhile (\<lambda>c. c = CHR ''/'') v)))"

definition canonical_path :: "bool \<Rightarrow> string \<Rightarrow> string option" where
  "canonical_path pattern value0 =
     (case policy_text False value0 of
        None \<Rightarrow> None
      | Some value \<Rightarrow>
          if \<not> pattern \<and> CHR ''*'' \<in> set value then None
          else if CHR ''*'' \<notin> set value then normalize_absolute_path value
          else
            let v = slashes value; n = length v - 3 in
            if v = ''/**'' then Some v
            else if \<not> endswith v ''/**'' \<or> CHR ''*'' \<in> set (take n v) then None
            else map_option (\<lambda>p. if p = ''/'' then ''/**'' else p @ ''/**'')
                   (normalize_absolute_path (take n v)))"

subsection \<open>Hosts\<close>

definition ascii_value :: "string \<Rightarrow> nat" where
  "ascii_value ds = foldl (\<lambda>n d. 10 * n + (of_char d - 48)) 0 ds"

text \<open>\<open>str(ipaddress.IPv4Address(s))\<close>: four decimal octets without leading zeros.\<close>

definition octet_ok :: "string \<Rightarrow> bool" where
  "octet_ok w = (w \<noteq> [] \<and> list_all ascii_digit w \<and> length w \<le> 3 \<and> (w = ''0'' \<or> hd w \<noteq> CHR ''0'')
                 \<and> ascii_value w \<le> 255)"

definition ipv4 :: "string \<Rightarrow> string option" where
  "ipv4 s = (let ws = split_on (CHR ''.'') s in
             if length ws = 4 \<and> list_all octet_ok ws then Some s else None)"

definition numeric_alias :: "string \<Rightarrow> bool" where
  "numeric_alias w = ((w \<noteq> [] \<and> list_all ascii_digit w)
     \<or> (startswith w ''0x'' \<and> length w > 2 \<and> list_all hex_lower (drop 2 w)))"

definition label_ok :: "string \<Rightarrow> bool" where
  "label_ok w = (w \<noteq> [] \<and> length w \<le> 63 \<and> \<not> startswith w ''-'' \<and> \<not> endswith w ''-''
     \<and> list_all (\<lambda>c. ascii_alnum c \<or> c = CHR ''-'') w)"

definition canonical_hostname :: "(string \<Rightarrow> string option) \<Rightarrow> string \<Rightarrow> string option" where
  "canonical_hostname idna value =
     (if list_ex (\<lambda>c. c \<in> set ''/@:'') value then None
      else
        let v = rev (dropWhile (\<lambda>c. c = CHR ''.'') (rev value)) in
        if v = [] \<or> startswith v ''.'' then None
        else
          (case map_option str_lower (idna v) of
             None \<Rightarrow> None
           | Some host \<Rightarrow>
               (case ipv4 host of
                  Some ip \<Rightarrow> Some ip
                | None \<Rightarrow>
                    if list_all numeric_alias (split_on (CHR ''.'') host) then None
                    else if length host > 253 then None
                    else if \<not> list_all label_ok (split_on (CHR ''.'') host) then None
                    else Some host)))"

definition canonical_host :: "(string \<Rightarrow> string option) \<Rightarrow> bool \<Rightarrow> string \<Rightarrow> string option" where
  "canonical_host idna pattern value0 =
     (case map_option str_lower (policy_text True value0) of
        None \<Rightarrow> None
      | Some value \<Rightarrow>
          if pattern \<and> value = ''*'' then Some value
          else if startswith value ''*.'' \<and> pattern
          then map_option (\<lambda>suffix. ''*.'' @ suffix) (canonical_hostname idna (drop 2 value))
          else if CHR ''*'' \<in> set value then None
          else canonical_hostname idna value)"

fun canonical_resource ::
  "(string \<Rightarrow> string option) \<Rightarrow> resource_kind \<Rightarrow> bool \<Rightarrow> string \<Rightarrow> string option" where
  "canonical_resource idna TOOL pattern value = canonical_tool pattern value"
| "canonical_resource idna PATH pattern value = canonical_path pattern value"
| "canonical_resource idna HOST pattern value = canonical_host idna pattern value"

definition make_resource ::
  "(string \<Rightarrow> string option) \<Rightarrow> resource_kind \<Rightarrow> string \<Rightarrow> resource_pattern option" where
  "make_resource idna kind pattern =
     map_option (\<lambda>p. \<lparr>rp_kind = kind, rp_pattern = p\<rparr>) (canonical_resource idna kind True pattern)"

definition is_wildcard :: "resource_pattern \<Rightarrow> bool" where
  "is_wildcard r = (CHR ''*'' \<in> set (rp_pattern r))"

subsection \<open>Rules and requests\<close>

definition make_rule ::
  "string \<Rightarrow> policy_action \<Rightarrow> resource_pattern list \<Rightarrow> risk_class set \<Rightarrow> string \<Rightarrow> bool \<Rightarrow> policy_rule option" where
  "make_rule i action resources risks description enabled =
     (case policy_text True i of
        None \<Rightarrow> None
      | Some rule_id \<Rightarrow>
          if \<not> distinct resources then None
          else if list_ex is_control description then None
          else if action \<in> {ALLOW, ASK} \<and> resources = [] \<and> risks = {} then None
          else Some \<lparr>pr_id = rule_id, pr_action = action, pr_resources = resources,
                     pr_risk_classes = risks, pr_description = description, pr_enabled = enabled\<rparr>)"

definition make_request ::
  "string \<Rightarrow> resource_pattern list \<Rightarrow> risk_class set \<Rightarrow> bool \<Rightarrow> policy_request option" where
  "make_request tool_name resources risks legacy =
     (case canonical_tool False tool_name of
        None \<Rightarrow> None
      | Some name \<Rightarrow>
          if list_ex (\<lambda>r. rp_kind r = TOOL) resources \<or> list_ex is_wildcard resources then None
          else Some \<lparr>rq_tool_name = name, rq_resources = resources, rq_risk_classes = risks,
                     rq_legacy_requires_approval = legacy\<rparr>)"

definition resource_matches :: "resource_pattern \<Rightarrow> resource_pattern \<Rightarrow> bool" where
  "resource_matches rule_resource request_resource =
     (let pattern = rp_pattern rule_resource; concrete = rp_pattern request_resource in
      if rp_kind rule_resource \<noteq> rp_kind request_resource then False
      else if \<not> is_wildcard rule_resource then pattern = concrete
      else
        (case rp_kind rule_resource of
           TOOL \<Rightarrow> True
         | PATH \<Rightarrow> if pattern = ''/**'' then True
                   else startswith concrete (take (length pattern - 3) pattern @ ''/'')
         | HOST \<Rightarrow> if pattern = ''*'' then True
                   else endswith concrete (''.'' @ drop 2 pattern) \<and> concrete \<noteq> drop 2 pattern))"

definition specificity :: "policy_rule \<Rightarrow> nat \<times> nat \<times> nat" where
  "specificity rule =
     (length (filter (\<lambda>r. \<not> is_wildcard r) (pr_resources rule)),
      sum_list (map (\<lambda>r. length (filter (\<lambda>c. c \<noteq> CHR ''*'') (rp_pattern r))) (pr_resources rule)),
      if pr_risk_classes rule = {} then 0 else 1)"

subsection \<open>Evaluation\<close>

record policy_engine =
  pe_rules :: "policy_rule list"
  pe_default_action :: policy_action

definition make_engine :: "policy_rule list \<Rightarrow> policy_action \<Rightarrow> policy_engine option" where
  "make_engine rules default_action =
     (if distinct (map pr_id rules) then Some \<lparr>pe_rules = rules, pe_default_action = default_action\<rparr> else None)"

definition concrete_resources :: "policy_request \<Rightarrow> resource_pattern list" where
  "concrete_resources request = \<lparr>rp_kind = TOOL, rp_pattern = rq_tool_name request\<rparr> # rq_resources request"

definition rule_matches :: "policy_request \<Rightarrow> policy_rule \<Rightarrow> bool" where
  "rule_matches request rule =
     (pr_enabled rule
      \<and> (pr_risk_classes rule = {}
         \<or> (if pr_action rule = DENY then pr_risk_classes rule \<inter> rq_risk_classes request \<noteq> {}
            else rq_risk_classes request \<subseteq> pr_risk_classes rule))
      \<and> list_all (\<lambda>rr. list_ex (resource_matches rr) (concrete_resources request)) (pr_resources rule))"

definition best_of :: "(nat \<times> nat \<times> nat) list \<Rightarrow> nat \<times> nat \<times> nat" where
  "best_of xs = foldl max (hd xs) (tl xs)"

definition winner :: "policy_rule list \<Rightarrow> policy_rule" where
  "winner matches =
     (let best = best_of (map specificity matches);
          tied = filter (\<lambda>r. specificity r = best) matches;
          denies = filter (\<lambda>r. pr_action r = DENY) tied in
      last (if denies \<noteq> [] then denies else tied))"

definition action_value :: "policy_action \<Rightarrow> string" where
  "action_value a = (case a of ALLOW \<Rightarrow> ''allow'' | ASK \<Rightarrow> ''ask'' | DENY \<Rightarrow> ''deny'')"

definition unclassified_reason :: string where
  "unclassified_reason = ''unclassified request denied by safety fallback''"

definition legacy_reason :: string where
  "legacy_reason = ''legacy approval requirement requested human approval''"

definition side_effect_reason :: string where
  "side_effect_reason = ''unclassified or unmatched side-effecting request denied by safety fallback''"

definition default_reason :: "policy_action \<Rightarrow> string" where
  "default_reason a =
     ''no policy rule matched; using default action '' @ [CHR 0x27] @ action_value a @ [CHR 0x27]"

definition matched_reason :: "policy_rule \<Rightarrow> string" where
  "matched_reason w =
     ''matched policy rule '' @ [CHR 0x27] @ pr_id w @ [CHR 0x27]
     @ (if pr_description w \<noteq> [] then '': '' @ pr_description w else [])"

definition evaluate_policy :: "policy_engine \<Rightarrow> policy_request \<Rightarrow> policy_decision" where
  "evaluate_policy engine request =
     (let risks = rq_risk_classes request;
          decide = (\<lambda>a i reason sp. \<lparr>pd_action = a, pd_risk_classes = risks, pd_matched_rule_id = i,
                                     pd_reason = reason, pd_specificity = sp\<rparr>);
          matches = filter (rule_matches request) (pe_rules engine) in
      if risks = {} then decide DENY None unclassified_reason (0, 0, 0)
      else if matches \<noteq> [] then
        let w = winner matches in
        decide (pr_action w) (Some (pr_id w)) (matched_reason w) (best_of (map specificity matches))
      else if rq_legacy_requires_approval request then decide ASK None legacy_reason (0, 0, 0)
      else if risks - {READ} \<noteq> {} then decide DENY None side_effect_reason (0, 0, 0)
      else decide (pe_default_action engine) None (default_reason (pe_default_action engine)) (0, 0, 0))"

subsection \<open>The default rules\<close>

definition all_risks :: "risk_class set" where
  "all_risks = {READ, WRITE, EXECUTE, NETWORK, SECRET, EXTERNAL_SIDE_EFFECT}"

definition side_effects_rule :: policy_rule where
  "side_effects_rule =
     \<lparr>pr_id = ''side_effects_require_approval'', pr_action = ASK, pr_resources = [],
      pr_risk_classes = all_risks,
      pr_description = ''non-read and combined-risk operations require approval'', pr_enabled = True\<rparr>"

definition reads_rule :: policy_rule where
  "reads_rule =
     \<lparr>pr_id = ''reads_allowed'', pr_action = ALLOW, pr_resources = [], pr_risk_classes = {READ},
      pr_description = ''pure read operations are allowed'', pr_enabled = True\<rparr>"

definition web_search_rule :: policy_rule where
  "web_search_rule =
     \<lparr>pr_id = ''web_search_network_allowed'', pr_action = ALLOW,
      pr_resources = [\<lparr>rp_kind = TOOL, rp_pattern = ''web_search''\<rparr>], pr_risk_classes = {NETWORK},
      pr_description = ''the exact web_search tool may access the network'', pr_enabled = True\<rparr>"

definition default_policy_rules :: "policy_rule list" where
  "default_policy_rules = [side_effects_rule, reads_rule, web_search_rule]"

definition default_policy_engine :: policy_engine where
  "default_policy_engine = \<lparr>pe_rules = default_policy_rules, pe_default_action = DENY\<rparr>"

subsection \<open>Components of a path\<close>

definition component_ok :: "string \<Rightarrow> bool" where
  "component_ok w = (w \<noteq> [] \<and> w \<noteq> ''.'' \<and> w \<noteq> ''..'' \<and> CHR ''/'' \<notin> set w)"

lemma split_on_nonempty [simp]: "split_on sep s \<noteq> []"
  by (induction s) (auto split: list.splits)

lemma split_on_no_sep: "w \<in> set (split_on sep s) \<Longrightarrow> sep \<notin> set w"
proof (induction s arbitrary: w)
  case (Cons c cs)
  then show ?case by (cases "split_on sep cs") (auto split: if_splits)
qed simp

lemma split_on_chars: "w \<in> set (split_on sep s) \<Longrightarrow> set w \<subseteq> set s"
proof (induction s arbitrary: w)
  case (Cons c cs)
  then show ?case by (cases "split_on sep cs") (fastforce split: if_splits)+
qed simp

lemma split_on_append: "split_on sep (a @ sep # b) = split_on sep a @ split_on sep b"
proof (induction a)
  case (Cons c a)
  then show ?case by (cases "split_on sep a") auto
qed simp

lemma split_on_free: "sep \<notin> set w \<Longrightarrow> split_on sep w = [w]"
  by (induction w) auto

lemma split_on_join:
  "ws \<noteq> [] \<Longrightarrow> (\<And>w. w \<in> set ws \<Longrightarrow> sep \<notin> set w) \<Longrightarrow> split_on sep (join_with sep ws) = ws"
proof (induction sep ws rule: join_with.induct)
  case (2 sep w)
  then show ?case by (simp add: split_on_free)
next
  case (3 sep w v ws)
  then show ?case by (simp add: split_on_append split_on_free)
qed simp

lemma join_with_split: "join_with sep (split_on sep s) = s"
proof (induction s)
  case (Cons c s)
  obtain w ws where w: "split_on sep s = w # ws" by (cases "split_on sep s") auto
  with Cons show ?case by (cases ws) auto
qed simp

lemma join_with_append:
  "a \<noteq> [] \<Longrightarrow> b \<noteq> [] \<Longrightarrow> join_with sep (a @ b) = join_with sep a @ sep # join_with sep b"
proof (induction sep a rule: join_with.induct)
  case (2 sep w)
  then show ?case by (cases b) auto
qed auto

lemma norm_components_ok:
  assumes "list_all component_ok acc" and "\<And>w. w \<in> set ws \<Longrightarrow> CHR ''/'' \<notin> set w"
  shows "list_all component_ok (norm_components acc ws)"
  using assms
proof (induction acc ws rule: norm_components.induct)
  case (2 acc w ws)
  then show ?case by (cases acc) (auto simp: component_ok_def)
qed (simp add: list_all_iff)

lemma norm_components_keep:
  "list_all component_ok ws \<Longrightarrow> norm_components acc ws = rev acc @ ws"
  by (induction ws arbitrary: acc) (auto simp: component_ok_def)

lemma norm_components_subset: "set (norm_components acc ws) \<subseteq> set acc \<union> set ws"
proof (induction acc ws rule: norm_components.induct)
  case (2 acc w ws)
  then show ?case by (cases acc) (auto split: if_splits)
qed simp

definition path_components :: "string \<Rightarrow> string list" where
  "path_components p = norm_components [] (split_on (CHR ''/'') p)"

definition of_components :: "string list \<Rightarrow> string" where
  "of_components ws = CHR ''/'' # join_with (CHR ''/'') ws"

lemma path_components_ok: "list_all component_ok (path_components p)"
  unfolding path_components_def by (rule norm_components_ok) (auto dest: split_on_no_sep)

lemma path_components_of:
  assumes "list_all component_ok ws"
  shows "path_components (of_components ws) = ws"
proof (cases "ws = []")
  case True
  then show ?thesis by (simp add: path_components_def of_components_def)
next
  case False
  have "split_on (CHR ''/'') (of_components ws) = [] # ws"
    using split_on_join [OF False, of "CHR ''/''"] assms by (auto simp: of_components_def list_all_iff component_ok_def)
  then show ?thesis using assms by (simp add: path_components_def norm_components_keep)
qed

lemma normpath_absolute_components: "normpath_absolute p = of_components (path_components p)"
  by (simp add: normpath_absolute_def of_components_def path_components_def)

lemma of_components_one_slash:
  assumes "list_all component_ok ws"
  shows "CHR ''/'' # dropWhile (\<lambda>c. c = CHR ''/'') (of_components ws) = of_components ws"
proof (cases ws)
  case (Cons w vs)
  with assms obtain c w' where "w = c # w'" "c \<noteq> CHR ''/''" by (cases w) (auto simp: component_ok_def)
  then show ?thesis by (cases vs) (auto simp: of_components_def Cons)
qed (simp add: of_components_def)

lemma normalize_Some:
  assumes "normalize_absolute_path v = Some p"
  obtains ws where "list_all component_ok ws" "p = of_components ws" "path_components p = ws"
  using assms path_components_ok path_components_of
  by (auto simp: normalize_absolute_path_def normpath_absolute_components Let_def split: if_splits)

lemma of_components_chars: "set (of_components ws) \<subseteq> insert (CHR ''/'') (\<Union>w\<in>set ws. set w)"
proof -
  have "set (join_with (CHR ''/'') ws) \<subseteq> insert (CHR ''/'') (\<Union>w\<in>set ws. set w)"
    by (induction "CHR ''/''" ws rule: join_with.induct) auto
  then show ?thesis by (auto simp: of_components_def)
qed

lemma path_components_chars: "w \<in> set (path_components p) \<Longrightarrow> set w \<subseteq> set p"
  using norm_components_subset [of "[]" "split_on (CHR ''/'') p"] split_on_chars
  by (fastforce simp: path_components_def)

lemma normalize_chars:
  assumes "normalize_absolute_path v = Some p"
  shows "set p \<subseteq> insert (CHR ''/'') (set (slashes v))"
proof -
  let ?q = "CHR ''/'' # dropWhile (\<lambda>c. c = CHR ''/'') (slashes v)"
  from assms have "p = of_components (path_components ?q)"
    by (auto simp: normalize_absolute_path_def normpath_absolute_components Let_def split: if_splits)
  then have "set p \<subseteq> insert (CHR ''/'') (\<Union>w\<in>set (path_components ?q). set w)"
    using of_components_chars by simp
  also have "\<dots> \<subseteq> insert (CHR ''/'') (set ?q)" using path_components_chars by blast
  also have "\<dots> \<subseteq> insert (CHR ''/'') (set (slashes v))" by (auto dest: set_dropWhileD)
  finally show ?thesis .
qed

lemma slashes_id: "CHR 0x5C \<notin> set p \<Longrightarrow> slashes p = p"
  by (auto simp: slashes_def intro: map_idI)

lemma of_components_startswith:
  assumes "list_all component_ok pre" "list_all component_ok ws" "pre \<noteq> []"
  shows "startswith (of_components ws) (of_components pre @ ''/'') \<longleftrightarrow> (\<exists>d. d \<noteq> [] \<and> ws = pre @ d)"
proof
  assume "startswith (of_components ws) (of_components pre @ ''/'')"
  then obtain r where r: "of_components ws = of_components pre @ CHR ''/'' # r" by (auto simp: startswith_iff)
  have ne: "ws \<noteq> []"
  proof
    assume "ws = []"
    with r show False by (simp add: of_components_def)
  qed
  have no: "\<And>w. w \<in> set ws \<Longrightarrow> CHR ''/'' \<notin> set w" "\<And>w. w \<in> set pre \<Longrightarrow> CHR ''/'' \<notin> set w"
    using assms(1,2) by (auto simp: list_all_iff component_ok_def)
  from r have "join_with (CHR ''/'') ws = join_with (CHR ''/'') pre @ CHR ''/'' # r" by (simp add: of_components_def)
  from arg_cong [OF this, of "split_on (CHR ''/'')"] split_on_join [OF ne no(1)] split_on_join [OF assms(3) no(2)]
  have "ws = pre @ split_on (CHR ''/'') r" by (simp add: split_on_append)
  then show "\<exists>d. d \<noteq> [] \<and> ws = pre @ d" by (intro exI [of _ "split_on (CHR ''/'') r"]) simp
next
  assume "\<exists>d. d \<noteq> [] \<and> ws = pre @ d"
  then obtain d where "d \<noteq> []" "ws = pre @ d" by blast
  then show "startswith (of_components ws) (of_components pre @ ''/'')"
    using assms(3) by (auto simp: of_components_def join_with_append startswith_iff)
qed

lemma canonical_path_concrete:
  assumes "canonical_path False v = Some p"
  obtains ws where "list_all component_ok ws" "p = of_components ws" "CHR ''*'' \<notin> set p"
proof -
  from assms have star: "CHR ''*'' \<notin> set v" and n: "normalize_absolute_path v = Some p"
    by (auto simp: canonical_path_def policy_text_def Let_def split: option.splits if_splits)
  have "CHR ''*'' \<notin> set (slashes v)" using star by (auto simp: slashes_def)
  with normalize_chars [OF n] have "CHR ''*'' \<notin> set p" by auto
  with n that show thesis by (blast elim: normalize_Some)
qed

lemma canonical_path_wildcard:
  assumes "canonical_path True v = Some p" and "CHR ''*'' \<in> set p"
  obtains "p = ''/**''" | pre where "list_all component_ok pre" "pre \<noteq> []" "p = of_components pre @ ''/**''"
proof (cases "CHR ''*'' \<in> set v")
  case False
  with assms(1) have n: "normalize_absolute_path v = Some p"
    by (auto simp: canonical_path_def policy_text_def Let_def split: option.splits if_splits)
  have "CHR ''*'' \<notin> set (slashes v)" using False by (auto simp: slashes_def)
  with normalize_chars [OF n] assms(2) have False by auto
  then show thesis ..
next
  case True
  with assms(1) consider "p = ''/**''" | q where "normalize_absolute_path (take (length (slashes v) - 3) (slashes v)) = Some q"
    "q \<noteq> ''/''" "p = q @ ''/**''"
    by (auto simp: canonical_path_def policy_text_def Let_def split: option.splits if_splits)
  then show thesis
  proof cases
    case 1
    then show thesis by (rule that)
  next
    case 2
    from 2(1) obtain pre where "list_all component_ok pre" "q = of_components pre" by (rule normalize_Some)
    with 2 show thesis by (intro that(2) [of pre]) (auto simp: of_components_def)
  qed
qed

subsection \<open>Choosing between rules\<close>

lemma best_of_Max: "xs \<noteq> [] \<Longrightarrow> best_of xs = Max (set xs)"
proof -
  have "foldl max a xs = Max (insert a (set xs))" for a :: "nat \<times> nat \<times> nat" and xs
  proof (induction xs arbitrary: a)
    case (Cons x xs)
    have "Max (insert a (insert x (set xs))) = Max (insert (max a x) (set xs))"
      by (cases "xs = []") (simp_all add: max.assoc)
    with Cons show ?case by simp
  qed simp
  then show "xs \<noteq> [] \<Longrightarrow> best_of xs = Max (set xs)"
    by (cases xs) (simp_all add: best_of_def)
qed

lemma winner_props:
  assumes "ms \<noteq> []"
  shows "winner ms \<in> set ms" and "\<And>r. r \<in> set ms \<Longrightarrow> specificity r \<le> specificity (winner ms)"
    and "\<And>r. r \<in> set ms \<Longrightarrow> pr_action r = DENY \<Longrightarrow> pr_action (winner ms) \<noteq> DENY \<Longrightarrow>
      specificity r < specificity (winner ms)"
proof -
  let ?b = "best_of (map specificity ms)"
  let ?tied = "filter (\<lambda>r. specificity r = ?b) ms"
  let ?denies = "filter (\<lambda>r. pr_action r = DENY) ?tied"
  have b: "?b = Max (specificity ` set ms)" using assms by (simp add: best_of_Max)
  then have "?b \<in> specificity ` set ms" using assms by simp
  then have tied: "?tied \<noteq> []" by (auto simp: filter_empty_conv)
  have w: "winner ms = last (if ?denies \<noteq> [] then ?denies else ?tied)" by (simp only: winner_def Let_def)
  have in_tied: "winner ms \<in> set ?tied"
    using last_in_set [of ?denies] last_in_set [OF tied] unfolding w by (cases "?denies = []") auto
  have deny: "pr_action (winner ms) = DENY" if "?denies \<noteq> []"
    using last_in_set [OF that] that unfolding w by simp
  from in_tied show "winner ms \<in> set ms" by simp
  have le: "specificity r \<le> specificity (winner ms)" if "r \<in> set ms" for r
    using in_tied b that by simp
  then show "\<And>r. r \<in> set ms \<Longrightarrow> specificity r \<le> specificity (winner ms)" .
  show "specificity r < specificity (winner ms)"
    if "r \<in> set ms" "pr_action r = DENY" "pr_action (winner ms) \<noteq> DENY" for r
  proof -
    have "?denies = []" using deny that(3) by blast
    then have "specificity r \<noteq> specificity (winner ms)"
      using in_tied that(1,2) by (auto simp: filter_empty_conv)
    with le [OF that(1)] show ?thesis by simp
  qed
qed

lemma evaluate_matched:
  assumes "rq_risk_classes request \<noteq> {}" and "filter (rule_matches request) (pe_rules engine) \<noteq> []"
  shows "pd_action (evaluate_policy engine request) = pr_action (winner (filter (rule_matches request) (pe_rules engine)))"
    and "pd_matched_rule_id (evaluate_policy engine request) =
      Some (pr_id (winner (filter (rule_matches request) (pe_rules engine))))"
  using assms unfolding evaluate_policy_def Let_def by (simp_all only: if_not_P if_P policy_decision.simps not_False_eq_True if_True if_False)

lemma evaluate_unmatched:
  assumes "rq_risk_classes request \<noteq> {}" and "filter (rule_matches request) (pe_rules engine) = []"
  shows "pd_action (evaluate_policy engine request) =
    (if rq_legacy_requires_approval request then ASK else if rq_risk_classes request - {READ} \<noteq> {} then DENY
     else pe_default_action engine)"
  using assms by (simp add: evaluate_policy_def)

lemma evaluate_unclassified: "rq_risk_classes request = {} \<Longrightarrow> pd_action (evaluate_policy engine request) = DENY"
  by (simp add: evaluate_policy_def)

lemma default_rule_facts:
  "pr_action side_effects_rule = ASK" "pr_enabled side_effects_rule" "pr_resources side_effects_rule = []"
  "pr_risk_classes side_effects_rule = all_risks" "specificity side_effects_rule = (0, 0, 1)"
  "pr_action reads_rule = ALLOW" "pr_enabled reads_rule" "pr_resources reads_rule = []"
  "pr_risk_classes reads_rule = {READ}" "specificity reads_rule = (0, 0, 1)"
  "pr_action web_search_rule = ALLOW" "pr_enabled web_search_rule"
  "pr_resources web_search_rule = [\<lparr>rp_kind = TOOL, rp_pattern = ''web_search''\<rparr>]"
  "pr_risk_classes web_search_rule = {NETWORK}" "specificity web_search_rule = (1, 10, 1)"
  by (simp_all add: side_effects_rule_def reads_rule_def web_search_rule_def specificity_def is_wildcard_def all_risks_def)

subsection \<open>Properties\<close>

text \<open>
  C17: An allowed request was allowed for a reason: either some enabled ALLOW rule matches it (all
  of the request's risks are within the rule's, and every resource the rule names is one of the
  request's), no matching rule is more specific, and every matching DENY rule is strictly less
  specific; or no rule matches at all, the request is a pure read that needs no legacy approval,
  and the engine's default is to allow.
\<close>

theorem allow_has_authority:
  assumes "pd_action (evaluate_policy engine request) = ALLOW"
  shows "rq_risk_classes request \<noteq> {}
    \<and> ((\<exists>rule \<in> set (pe_rules engine). pr_enabled rule \<and> pr_action rule = ALLOW
          \<and> pd_matched_rule_id (evaluate_policy engine request) = Some (pr_id rule)
          \<and> (pr_risk_classes rule = {} \<or> rq_risk_classes request \<subseteq> pr_risk_classes rule)
          \<and> (\<forall>rr \<in> set (pr_resources rule). \<exists>c \<in> set (concrete_resources request). resource_matches rr c)
          \<and> (\<forall>other \<in> set (pe_rules engine). rule_matches request other \<longrightarrow>
               specificity other \<le> specificity rule
               \<and> (pr_action other = DENY \<longrightarrow> specificity other < specificity rule)))
       \<or> ((\<forall>rule \<in> set (pe_rules engine). \<not> rule_matches request rule)
          \<and> rq_risk_classes request = {READ} \<and> \<not> rq_legacy_requires_approval request
          \<and> pe_default_action engine = ALLOW))"
proof -
  let ?ms = "filter (rule_matches request) (pe_rules engine)"
  have risks: "rq_risk_classes request \<noteq> {}" using assms evaluate_unclassified by force
  show ?thesis
  proof (cases "?ms = []")
    case True
    with assms evaluate_unmatched [OF risks True]
    have "\<not> rq_legacy_requires_approval request" "rq_risk_classes request - {READ} = {}" "pe_default_action engine = ALLOW"
      by (auto split: if_splits)
    with True risks show ?thesis by (auto simp: filter_empty_conv)
  next
    case False
    define w where "w = winner ?ms"
    note ev = evaluate_matched [OF risks False, folded w_def] and props = winner_props [OF False, folded w_def]
    have allow: "pr_action w = ALLOW" using ev(1) assms by simp
    have m: "w \<in> set (pe_rules engine)" "rule_matches request w" using props(1) by auto
    have others: "\<forall>other \<in> set (pe_rules engine). rule_matches request other \<longrightarrow> specificity other \<le> specificity w
        \<and> (pr_action other = DENY \<longrightarrow> specificity other < specificity w)"
      using props(2,3) allow by simp
    have rule: "pr_enabled w" "pr_risk_classes w = {} \<or> rq_risk_classes request \<subseteq> pr_risk_classes w"
      "\<forall>rr \<in> set (pr_resources w). \<exists>c \<in> set (concrete_resources request). resource_matches rr c"
      using m(2) allow by (auto simp: rule_matches_def list_all_iff list_ex_iff)
    show ?thesis
      by (rule conjI [OF risks], rule disjI1, rule bexI [OF _ m(1)], intro conjI)
        (rule rule allow ev(2) others)+
  qed
qed

theorem allow_has_authority_witness:
  "\<exists>rule \<in> set (pe_rules default_policy_engine). pr_action rule = ALLOW \<and> {READ} \<subseteq> pr_risk_classes rule"
proof -
  let ?q = "\<lparr>rq_tool_name = ''list_files'', rq_resources = [], rq_risk_classes = {READ}, rq_legacy_requires_approval = False\<rparr>"
  have "pd_action (evaluate_policy default_policy_engine ?q) = ALLOW"
    by (simp add: evaluate_policy_def default_policy_engine_def default_policy_rules_def rule_matches_def default_rule_facts
        all_risks_def winner_def best_of_def concrete_resources_def resource_matches_def is_wildcard_def Let_def)
  from allow_has_authority [OF this] show ?thesis
    by (auto simp: default_policy_engine_def default_policy_rules_def default_rule_facts)
qed

text \<open>
  The safety fallbacks. A request without risk classes is denied whatever the rules say, and
  a request with a side effect that no rule matches is denied, or asked about when its tool has
  the legacy approval flag, but never allowed, whatever the engine's default action is.
\<close>

theorem safety_fallbacks:
  "(rq_risk_classes request = {} \<longrightarrow> pd_action (evaluate_policy engine request) = DENY)
   \<and> (rq_risk_classes request - {READ} \<noteq> {} \<and> (\<forall>rule \<in> set (pe_rules engine). \<not> rule_matches request rule) \<longrightarrow>
        pd_action (evaluate_policy engine request) = (if rq_legacy_requires_approval request then ASK else DENY))"
proof (intro conjI impI)
  show "pd_action (evaluate_policy engine request) = DENY" if "rq_risk_classes request = {}"
    using that by (rule evaluate_unclassified)
  assume "rq_risk_classes request - {READ} \<noteq> {} \<and> (\<forall>rule \<in> set (pe_rules engine). \<not> rule_matches request rule)"
  then have *: "rq_risk_classes request - {READ} \<noteq> {}" "\<forall>rule \<in> set (pe_rules engine). \<not> rule_matches request rule"
    by simp_all
  then have "rq_risk_classes request \<noteq> {}" "filter (rule_matches request) (pe_rules engine) = []"
    by (auto simp: filter_empty_conv)
  from evaluate_unmatched [OF this] *(1)
  show "pd_action (evaluate_policy engine request) = (if rq_legacy_requires_approval request then ASK else DENY)"
    by simp
qed

theorem safety_fallbacks_witness:
  "pd_action (evaluate_policy \<lparr>pe_rules = [], pe_default_action = ALLOW\<rparr>
     \<lparr>rq_tool_name = ''rm'', rq_resources = [], rq_risk_classes = {WRITE}, rq_legacy_requires_approval = False\<rparr>) = DENY"
  using safety_fallbacks [of "\<lparr>rq_tool_name = ''rm'', rq_resources = [], rq_risk_classes = {WRITE},
      rq_legacy_requires_approval = False\<rparr>" "\<lparr>pe_rules = [], pe_default_action = ALLOW\<rparr>"]
  by simp

text \<open>
  The default policy, completely: for every request that \<open>PolicyRequest\<close> accepts, a pure
  read is allowed, the tool \<open>web_search\<close> may use the network and nothing else with it, an
  unclassified request is denied, and everything else, with any combination of risks, resources
  and flags, needs approval.
\<close>

theorem default_policy_decides:
  assumes "make_request tool resources risks legacy = Some request"
  shows "pd_action (evaluate_policy default_policy_engine request) =
     (if risks = {} then DENY
      else if risks = {READ} then ALLOW
      else if canonical_tool False tool = Some ''web_search'' \<and> risks = {NETWORK} then ALLOW
      else ASK)"
proof -
  from assms obtain name where req: "canonical_tool False tool = Some name" "rq_tool_name request = name"
    "rq_risk_classes request = risks" and tools: "\<forall>r \<in> set resources. rp_kind r \<noteq> TOOL" "rq_resources request = resources"
    by (auto simp: make_request_def list_ex_iff split: option.splits if_splits)
  have "x \<in> all_risks" for x by (cases x) (simp_all add: all_risks_def)
  then have all: "risks \<subseteq> all_risks" by blast
  let ?ws = "\<lparr>rp_kind = TOOL, rp_pattern = ''web_search''\<rparr>"
  have tool: "list_ex (resource_matches ?ws) (concrete_resources request) \<longleftrightarrow> name = ''web_search''"
    using tools by (auto simp: concrete_resources_def resource_matches_def is_wildcard_def req(2) list_ex_iff)
  note facts = default_rule_facts
  have m1: "rule_matches request side_effects_rule" using all by (simp add: rule_matches_def facts req(3))
  have m2: "rule_matches request reads_rule \<longleftrightarrow> risks \<subseteq> {READ}" by (simp add: rule_matches_def facts req(3))
  have m3: "rule_matches request web_search_rule \<longleftrightarrow> risks \<subseteq> {NETWORK} \<and> name = ''web_search''"
    by (simp add: rule_matches_def facts req(3) tool)
  show ?thesis
  proof (cases "risks = {}")
    case True
    then show ?thesis using evaluate_unclassified req(3) by simp
  next
    case False
    let ?ms = "side_effects_rule # (if risks = {READ} then [reads_rule] else [])
        @ (if risks = {NETWORK} \<and> name = ''web_search'' then [web_search_rule] else [])"
    have ms: "filter (rule_matches request) (pe_rules default_policy_engine) = ?ms"
      using False by (auto simp: default_policy_engine_def default_policy_rules_def m1 m2 m3)
    from evaluate_matched(1) [of request default_policy_engine, unfolded ms] False req(3)
    have "pd_action (evaluate_policy default_policy_engine request) = pr_action (winner ?ms)" by simp
    also have "\<dots> = (if risks = {READ} then ALLOW else if name = ''web_search'' \<and> risks = {NETWORK} then ALLOW else ASK)"
      by (simp add: winner_def Let_def best_of_def max_def facts)
    finally show ?thesis using False req(1) by simp
  qed
qed

theorem default_policy_decides_witness:
  "\<exists>request. make_request ''shell'' [] {EXECUTE} False = Some request
     \<and> pd_action (evaluate_policy default_policy_engine request) = ASK"
proof -
  have m: "make_request ''shell'' [] {EXECUTE} False =
      Some \<lparr>rq_tool_name = ''shell'', rq_resources = [], rq_risk_classes = {EXECUTE}, rq_legacy_requires_approval = False\<rparr>"
    by (simp add: make_request_def canonical_tool_def policy_text_def strip_def is_control_def is_space_def str_lower_def
        lower_char_def Let_def)
  from default_policy_decides [OF m] m show ?thesis by auto
qed



text \<open>
  Canonical paths are fixed points: whatever text is given, the canonical path of a concrete
  resource is a slash-separated sequence of ordinary components, and canonicalising it again
  returns it unchanged.
\<close>

theorem canonical_path_idempotent:
  assumes "canonical_path False raw = Some path"
  shows "canonical_path False path = Some path \<and> path = of_components (path_components path)
     \<and> list_all component_ok (path_components path)"
proof -
  from assms obtain ws where ws: "list_all component_ok ws" "path = of_components ws" "CHR ''*'' \<notin> set path"
    by (rule canonical_path_concrete)
  from assms have raw: "\<not> list_ex is_control raw" and n: "normalize_absolute_path raw = Some path"
    by (auto simp: canonical_path_def policy_text_def Let_def split: option.splits if_splits)
  have chars: "set path \<subseteq> insert (CHR ''/'') (set (slashes raw))" by (rule normalize_chars [OF n])
  have bs: "slashes path = path"
    by (rule slashes_id) (use chars in \<open>auto simp: slashes_def split: if_splits\<close>)
  have ctl: "\<not> list_ex is_control path"
    using chars raw by (force simp: list_ex_iff slashes_def is_control_def split: if_splits)
  have "CHR ''/'' # dropWhile (\<lambda>c. c = CHR ''/'') path = path"
    unfolding ws(2) by (rule of_components_one_slash [OF ws(1)])
  then have "normpath_absolute (CHR ''/'' # dropWhile (\<lambda>c. c = CHR ''/'') path) = path"
    using ws by (simp add: normpath_absolute_components path_components_of)
  moreover have "startswith path ''/''" using ws(2) by (simp add: of_components_def)
  ultimately have "normalize_absolute_path path = Some path"
    by (simp add: normalize_absolute_path_def bs Let_def)
  moreover have "path \<noteq> []" unfolding ws(2) by (simp add: of_components_def)
  moreover have "path_components path = ws" unfolding ws(2) by (rule path_components_of [OF ws(1)])
  ultimately show ?thesis using ws ctl by (simp add: canonical_path_def policy_text_def)
qed

theorem canonical_path_idempotent_witness:
  "canonical_path False ''//srv/./a/../b'' = Some ''/srv/b'' \<and> canonical_path False ''/srv/b'' = Some ''/srv/b''"
proof -
  have c: "canonical_path False ''//srv/./a/../b'' = Some ''/srv/b''" by code_simp
  from canonical_path_idempotent [OF c] c show ?thesis by simp
qed

text \<open>
  Host wildcards respect label boundaries. A rule host \<open>*.suffix\<close> matches exactly the hosts
  whose labels are one or more labels followed by the labels of the suffix: not the suffix itself
  and no host that merely ends in the same letters.
\<close>

theorem host_pattern_matches_subdomains:
  assumes "suffix \<noteq> []"
  shows "resource_matches \<lparr>rp_kind = HOST, rp_pattern = ''*.'' @ suffix\<rparr> \<lparr>rp_kind = HOST, rp_pattern = host\<rparr> \<longleftrightarrow>
    (\<exists>labels. labels \<noteq> [] \<and> split_on (CHR ''.'') host = labels @ split_on (CHR ''.'') suffix)"
proof -
  have "resource_matches \<lparr>rp_kind = HOST, rp_pattern = ''*.'' @ suffix\<rparr> \<lparr>rp_kind = HOST, rp_pattern = host\<rparr> \<longleftrightarrow>
      endswith host (''.'' @ suffix) \<and> host \<noteq> suffix"
    using assms by (simp add: resource_matches_def is_wildcard_def)
  also have "\<dots> \<longleftrightarrow> (\<exists>a. host = a @ CHR ''.'' # suffix)" by (auto simp: endswith_iff)
  also have "\<dots> \<longleftrightarrow> (\<exists>labels. labels \<noteq> [] \<and> split_on (CHR ''.'') host = labels @ split_on (CHR ''.'') suffix)"
  proof
    assume "\<exists>a. host = a @ CHR ''.'' # suffix"
    then obtain a where "host = a @ CHR ''.'' # suffix" ..
    then show "\<exists>labels. labels \<noteq> [] \<and> split_on (CHR ''.'') host = labels @ split_on (CHR ''.'') suffix"
      by (intro exI [of _ "split_on (CHR ''.'') a"]) (simp add: split_on_append)
  next
    assume "\<exists>labels. labels \<noteq> [] \<and> split_on (CHR ''.'') host = labels @ split_on (CHR ''.'') suffix"
    then obtain labels where l: "labels \<noteq> []" "split_on (CHR ''.'') host = labels @ split_on (CHR ''.'') suffix" by blast
    from arg_cong [OF l(2), of "join_with (CHR ''.'')"] l(1)
    have "host = join_with (CHR ''.'') labels @ CHR ''.'' # suffix"
      by (simp add: join_with_append join_with_split)
    then show "\<exists>a. host = a @ CHR ''.'' # suffix" ..
  qed
  finally show ?thesis .
qed

theorem host_pattern_matches_subdomains_witness:
  "\<not> resource_matches \<lparr>rp_kind = HOST, rp_pattern = ''*.'' @ ''example.com''\<rparr> \<lparr>rp_kind = HOST, rp_pattern = ''evilexample.com''\<rparr>"
  using host_pattern_matches_subdomains [of "''example.com''" "''evilexample.com''"] by (auto simp: append_eq_Cons_conv)

end
