(* ===== verification/Circuit_Breaker.thy ===== *)
theory Circuit_Breaker
  imports Prelude
begin

text \<open>
  The circuit breaker around a model provider (\<open>security/circuit_breaker.py\<close>). A call takes the
  breaker's lock twice, at its admission and at its completion, so each is a step of its own and
  any number of calls may be in between: the world is the breaker with the tickets of the calls
  that are running. Clock values are integers (microseconds); a probe token is the identity of a
  fresh object, a number that was not used before.
\<close>

subsection \<open>The breaker\<close>

datatype circuit_state = Closed | Open | HalfOpen

record breaker =
  cb_failure_threshold :: int
  cb_recovery_timeout :: int
  cb_state :: circuit_state
  cb_failure_count :: int
  cb_last_failure_time :: timestamp
  cb_success_count :: int
  cb_total_calls :: int
  cb_probe_in_flight :: bool
  cb_epoch :: nat
  cb_generation :: nat
  cb_probe_token :: "nat option"
  cb_fresh :: nat

record ticket =
  tk_is_probe :: bool
  tk_probe_token :: "nat option"
  tk_epoch :: nat
  tk_generation :: nat

datatype call_end = Succeeded | RaisedException | Abandoned

definition make_breaker :: "int \<Rightarrow> int \<Rightarrow> breaker option" where
  "make_breaker failure_threshold recovery_timeout =
     (if failure_threshold < 1 \<or> recovery_timeout \<le> 0 then None
      else Some \<lparr>cb_failure_threshold = failure_threshold, cb_recovery_timeout = recovery_timeout,
        cb_state = Closed, cb_failure_count = 0, cb_last_failure_time = 0, cb_success_count = 0,
        cb_total_calls = 0, cb_probe_in_flight = False, cb_epoch = 0, cb_generation = 0,
        cb_probe_token = None, cb_fresh = 0\<rparr>)"

text \<open>The property \<open>state\<close>.\<close>

definition current_state :: "timestamp \<Rightarrow> breaker \<Rightarrow> circuit_state" where
  "current_state now cb =
     (if cb_state cb = Open \<and> now - cb_last_failure_time cb \<ge> cb_recovery_timeout cb then HalfOpen
      else cb_state cb)"

text \<open>The first critical section of \<open>call\<close>; \<open>Inl\<close> is \<open>CircuitBreakerOpenError\<close> with its recovery time.\<close>

definition admit :: "timestamp \<Rightarrow> breaker \<Rightarrow> breaker \<times> (int + ticket)" where
  "admit now cb =
     (let current = current_state now cb in
      if current = Open \<or> (current = HalfOpen \<and> cb_probe_in_flight cb)
      then (cb, Inl (max 0 (cb_recovery_timeout cb - (now - cb_last_failure_time cb))))
      else
        let probe = (current = HalfOpen);
            token = (if probe then Some (cb_fresh cb) else None);
            cb1 = (if probe then cb\<lparr>cb_state := HalfOpen, cb_probe_in_flight := True,
                     cb_epoch := cb_epoch cb + 1, cb_probe_token := token, cb_fresh := cb_fresh cb + 1\<rparr>
                   else cb) in
        (cb1\<lparr>cb_total_calls := cb_total_calls cb1 + 1\<rparr>,
         Inr \<lparr>tk_is_probe = probe, tk_probe_token = token, tk_epoch = cb_epoch cb1,
              tk_generation = cb_generation cb1\<rparr>))"

definition abandon_probe :: "timestamp \<Rightarrow> nat option \<Rightarrow> breaker \<Rightarrow> breaker" where
  "abandon_probe now token cb =
     (if cb_probe_token cb = token
      then cb\<lparr>cb_probe_in_flight := False, cb_probe_token := None, cb_state := Open,
             cb_last_failure_time := now, cb_epoch := cb_epoch cb + 1,
             cb_generation := cb_generation cb + 1\<rparr>
      else cb)"

definition record_failure :: "timestamp \<Rightarrow> ticket \<Rightarrow> breaker \<Rightarrow> breaker" where
  "record_failure now tk cb =
     (if tk_is_probe tk \<and> cb_probe_token cb = tk_probe_token tk
      then cb\<lparr>cb_failure_count := cb_failure_count cb + 1, cb_last_failure_time := now,
             cb_probe_in_flight := False, cb_probe_token := None, cb_state := Open,
             cb_epoch := cb_epoch cb + 1, cb_generation := cb_generation cb + 1\<rparr>
      else if \<not> tk_is_probe tk \<and> cb_epoch cb = tk_epoch tk
      then let cb1 = cb\<lparr>cb_failure_count := cb_failure_count cb + 1, cb_last_failure_time := now,
                        cb_generation := cb_generation cb + 1\<rparr> in
           if cb_failure_count cb1 \<ge> cb_failure_threshold cb1
           then cb1\<lparr>cb_state := Open, cb_epoch := cb_epoch cb1 + 1\<rparr> else cb1
      else cb)"

definition record_success :: "ticket \<Rightarrow> breaker \<Rightarrow> breaker" where
  "record_success tk cb =
     (if tk_is_probe tk \<and> cb_probe_token cb = tk_probe_token tk
      then cb\<lparr>cb_state := Closed, cb_probe_in_flight := False, cb_probe_token := None,
             cb_failure_count := 0, cb_success_count := cb_success_count cb + 1,
             cb_epoch := cb_epoch cb + 1, cb_generation := cb_generation cb + 1\<rparr>
      else if \<not> tk_is_probe tk \<and> cb_state cb = Closed \<and> cb_epoch cb = tk_epoch tk
              \<and> cb_generation cb = tk_generation tk
      then cb\<lparr>cb_failure_count := 0, cb_success_count := cb_success_count cb + 1\<rparr>
      else cb)"

text \<open>The end of \<open>call\<close>; \<open>Abandoned\<close> is a cancellation, an unsupported capability or a
  base exception.\<close>

definition complete_call :: "timestamp \<Rightarrow> ticket \<Rightarrow> call_end \<Rightarrow> breaker \<Rightarrow> breaker" where
  "complete_call now tk how cb =
     (case how of
        Succeeded \<Rightarrow> record_success tk cb
      | RaisedException \<Rightarrow> record_failure now tk cb
      | Abandoned \<Rightarrow> if tk_is_probe tk then abandon_probe now (tk_probe_token tk) cb else cb)"

definition reset_breaker :: "breaker \<Rightarrow> breaker" where
  "reset_breaker cb =
     cb\<lparr>cb_state := Closed, cb_failure_count := 0, cb_success_count := 0, cb_probe_in_flight := False,
       cb_probe_token := None, cb_epoch := cb_epoch cb + 1, cb_generation := cb_generation cb + 1\<rparr>"

subsection \<open>The provider around the breaker\<close>

text \<open>How the delegate's call ends, and \<open>CircuitBreakingProvider.complete\<close>: the arguments say whether
  a response contract and a response format were given, when the call is admitted and when it ends.
  Of an exception only its class is visible to the caller.\<close>

datatype 'r delegate_end = DelegateReturned 'r | DelegateUnsupported | DelegateRaised | DelegateCancelled

datatype breaking_error = MutuallyExclusive | ProviderUnavailable | UnsupportedCapability | BaseInterrupt

definition end_of :: "'r delegate_end \<Rightarrow> call_end" where
  "end_of d = (case d of DelegateReturned r \<Rightarrow> Succeeded | DelegateRaised \<Rightarrow> RaisedException | _ \<Rightarrow> Abandoned)"

definition breaking_complete ::
  "bool \<Rightarrow> bool \<Rightarrow> timestamp \<Rightarrow> timestamp \<Rightarrow> 'r delegate_end \<Rightarrow> breaker \<Rightarrow> breaker \<times> (breaking_error + 'r)" where
  "breaking_complete contract format start finish d cb =
     (if contract \<and> format then (cb, Inl MutuallyExclusive)
      else case admit start cb of
        (cb1, Inl r) \<Rightarrow> (cb1, Inl ProviderUnavailable)
      | (cb1, Inr tk) \<Rightarrow>
          (complete_call finish tk (end_of d) cb1,
           case d of DelegateReturned r \<Rightarrow> Inr r | DelegateUnsupported \<Rightarrow> Inl UnsupportedCapability
             | DelegateRaised \<Rightarrow> Inl ProviderUnavailable | DelegateCancelled \<Rightarrow> Inl BaseInterrupt))"

text \<open>Calls one after the other, each raising an exception.\<close>

primrec failing_calls :: "timestamp list \<Rightarrow> breaker \<Rightarrow> breaker" where
  "failing_calls [] cb = cb"
| "failing_calls (t # ts) cb =
     failing_calls ts (fst (breaking_complete False False t t (DelegateRaised :: unit delegate_end) cb))"

subsection \<open>Concurrent calls\<close>

record breaker_world =
  bw_breaker :: breaker
  bw_running :: "ticket list"

inductive breaker_step :: "breaker_world \<Rightarrow> breaker_world \<Rightarrow> bool" where
  call_admitted: "admit now (bw_breaker w) = (cb, Inr tk) \<Longrightarrow>
     breaker_step w \<lparr>bw_breaker = cb, bw_running = tk # bw_running w\<rparr>"
| call_rejected: "admit now (bw_breaker w) = (cb, Inl r) \<Longrightarrow> breaker_step w (w\<lparr>bw_breaker := cb\<rparr>)"
| call_ended: "bw_running w = before @ tk # after \<Longrightarrow>
     breaker_step w \<lparr>bw_breaker = complete_call now tk how (bw_breaker w), bw_running = before @ after\<rparr>"
| breaker_reset: "breaker_step w (w\<lparr>bw_breaker := reset_breaker (bw_breaker w)\<rparr>)"

definition breaker_reachable :: "breaker_world \<Rightarrow> bool" where
  "breaker_reachable w \<longleftrightarrow>
     (\<exists>t r cb. make_breaker t r = Some cb \<and> breaker_step\<^sup>*\<^sup>* \<lparr>bw_breaker = cb, bw_running = []\<rparr> w)"

definition is_live_probe :: "breaker \<Rightarrow> ticket \<Rightarrow> bool" where
  "is_live_probe cb tk = (tk_is_probe tk \<and> cb_probe_token cb \<noteq> None \<and> tk_probe_token tk = cb_probe_token cb)"

definition ticket_ok :: "breaker \<Rightarrow> ticket \<Rightarrow> bool" where
  "ticket_ok cb tk =
     (tk_epoch tk \<le> cb_epoch cb
      \<and> (if tk_is_probe tk then (case tk_probe_token tk of None \<Rightarrow> False | Some k \<Rightarrow> k < cb_fresh cb)
         else tk_probe_token tk = None \<and> (tk_epoch tk = cb_epoch cb \<longrightarrow> cb_state cb = Closed)))"

definition breaker_ok :: "breaker \<Rightarrow> bool" where
  "breaker_ok cb =
     (1 \<le> cb_failure_threshold cb \<and> 0 < cb_recovery_timeout cb
      \<and> (cb_probe_in_flight cb \<longleftrightarrow> cb_probe_token cb \<noteq> None)
      \<and> (cb_state cb = HalfOpen \<longleftrightarrow> cb_probe_token cb \<noteq> None)
      \<and> (cb_state cb = Closed \<longrightarrow> cb_failure_count cb < cb_failure_threshold cb)
      \<and> (case cb_probe_token cb of None \<Rightarrow> True | Some k \<Rightarrow> k < cb_fresh cb))"

definition probe_tokens :: "ticket list \<Rightarrow> nat option list" where
  "probe_tokens tks = map tk_probe_token (filter tk_is_probe tks)"

definition world_inv :: "breaker_world \<Rightarrow> bool" where
  "world_inv w =
     (breaker_ok (bw_breaker w) \<and> list_all (ticket_ok (bw_breaker w)) (bw_running w)
      \<and> distinct (probe_tokens (bw_running w))
      \<and> (cb_probe_token (bw_breaker w) \<noteq> None \<longrightarrow> list_ex (is_live_probe (bw_breaker w)) (bw_running w)))"

subsection \<open>The invariant\<close>

lemma current_state_simps:
  "current_state now cb = Closed \<longleftrightarrow> cb_state cb = Closed"
  "current_state now cb = HalfOpen \<longleftrightarrow> cb_state cb = HalfOpen
     \<or> (cb_state cb = Open \<and> now - cb_last_failure_time cb \<ge> cb_recovery_timeout cb)"
  by (auto simp: current_state_def)

lemma admit_cases:
  assumes "breaker_ok cb"
  obtains (rejected) r where "admit now cb = (cb, Inl r)"
      "current_state now cb = Open \<or> cb_probe_in_flight cb"
  | (closed) "cb_state cb = Closed" "admit now cb = (cb\<lparr>cb_total_calls := cb_total_calls cb + 1\<rparr>,
      Inr \<lparr>tk_is_probe = False, tk_probe_token = None, tk_epoch = cb_epoch cb, tk_generation = cb_generation cb\<rparr>)"
  | (probe) "cb_state cb = Open" "cb_probe_token cb = None" "now - cb_last_failure_time cb \<ge> cb_recovery_timeout cb"
      "admit now cb = (cb\<lparr>cb_state := HalfOpen, cb_probe_in_flight := True, cb_epoch := cb_epoch cb + 1,
         cb_probe_token := Some (cb_fresh cb), cb_fresh := cb_fresh cb + 1, cb_total_calls := cb_total_calls cb + 1\<rparr>,
       Inr \<lparr>tk_is_probe = True, tk_probe_token = Some (cb_fresh cb), tk_epoch = cb_epoch cb + 1,
         tk_generation = cb_generation cb\<rparr>)"
proof (cases "current_state now cb")
  case Closed
  then have "cb_state cb = Closed" by (simp add: current_state_simps)
  with Closed show thesis by (intro closed) (simp_all add: admit_def Let_def)
next
  case Open
  then show thesis using rejected by (simp add: admit_def Let_def)
next
  case HalfOpen
  show thesis
  proof (cases "cb_probe_in_flight cb")
    case True
    with HalfOpen show thesis using rejected by (simp add: admit_def Let_def)
  next
    case False
    with assms HalfOpen have "cb_state cb = Open" "cb_probe_token cb = None"
      "now - cb_last_failure_time cb \<ge> cb_recovery_timeout cb"
      by (auto simp: breaker_ok_def current_state_simps)
    with HalfOpen False show thesis using probe by (simp add: admit_def Let_def)
  qed
qed

lemma world_invD:
  assumes "world_inv w"
  shows "breaker_ok (bw_breaker w)" and "tk \<in> set (bw_running w) \<Longrightarrow> ticket_ok (bw_breaker w) tk"
    and "distinct (probe_tokens (bw_running w))"
  using assms by (auto simp: world_inv_def list_all_iff)

lemma admitted_inv:
  assumes inv: "world_inv w" and a: "admit now (bw_breaker w) = (cb, Inr tk)"
  shows "world_inv \<lparr>bw_breaker = cb, bw_running = tk # bw_running w\<rparr>"
  using world_invD(1) [OF inv]
proof (cases rule: admit_cases [of _ now])
  case (rejected r)
  with a show ?thesis by simp
next
  case closed
  with a have "cb = (bw_breaker w)\<lparr>cb_total_calls := cb_total_calls (bw_breaker w) + 1\<rparr>"
    "tk = \<lparr>tk_is_probe = False, tk_probe_token = None, tk_epoch = cb_epoch (bw_breaker w), tk_generation = cb_generation (bw_breaker w)\<rparr>"
    by auto
  with inv closed(1) show ?thesis
    by (auto simp: world_inv_def breaker_ok_def ticket_ok_def list_all_iff probe_tokens_def list_ex_iff is_live_probe_def
        split: option.splits)
next
  case probe
  have fresh: "Some (cb_fresh (bw_breaker w)) \<notin> set (probe_tokens (bw_running w))"
    using world_invD(2) [OF inv] by (force simp: probe_tokens_def ticket_ok_def split: option.splits)
  have old: "ticket_ok cb t" if "t \<in> set (bw_running w)" for t
    using world_invD(2) [OF inv that] probe(4) a by (auto simp: ticket_ok_def split: option.splits)
  have "breaker_ok cb" using world_invD(1) [OF inv] probe(4) a by (auto simp: breaker_ok_def)
  moreover have "ticket_ok cb tk" "is_live_probe cb tk" using probe(4) a by (auto simp: ticket_ok_def is_live_probe_def)
  moreover have "distinct (probe_tokens (tk # bw_running w))"
    using world_invD(3) [OF inv] fresh probe(4) a by (auto simp: probe_tokens_def)
  ultimately show ?thesis using old by (simp add: world_inv_def list_all_iff)
qed

lemma probe_tokens_remove: "distinct (probe_tokens (a @ tk # b)) \<Longrightarrow> distinct (probe_tokens (a @ b))"
  by (auto simp: probe_tokens_def split: if_splits)

lemma same_breaker_ended_inv:
  assumes inv: "world_inv w" and r: "bw_running w = before @ tk # after" and nl: "\<not> is_live_probe (bw_breaker w) tk"
  shows "world_inv \<lparr>bw_breaker = bw_breaker w, bw_running = before @ after\<rparr>"
  using inv nl probe_tokens_remove [of before tk after] by (auto simp: world_inv_def r)

text \<open>A completion that moves the breaker to a new epoch invalidates every other ticket.\<close>

lemma new_epoch_inv:
  assumes inv: "world_inv w" and r: "set tks \<subseteq> set (bw_running w)" "distinct (probe_tokens tks)"
    and cb: "breaker_ok cb" "cb_epoch (bw_breaker w) < cb_epoch cb" "cb_fresh cb = cb_fresh (bw_breaker w)"
      "cb_probe_token cb = None"
  shows "world_inv \<lparr>bw_breaker = cb, bw_running = tks\<rparr>"
proof -
  have "ticket_ok cb t" if "t \<in> set tks" for t
  proof -
    have "ticket_ok (bw_breaker w) t" using world_invD(2) [OF inv, of t] r(1) that by blast
    with cb show ?thesis by (auto simp: ticket_ok_def split: if_splits option.splits)
  qed
  with cb r(2) show ?thesis by (simp add: world_inv_def list_all_iff)
qed

text \<open>The completion of an ordinary call.\<close>

lemma plain_completion:
  assumes "\<not> tk_is_probe tk" and "ticket_ok cb tk"
  obtains (same_breaker) "complete_call now tk how cb = cb"
  | (success) "cb_state cb = Closed" "how = Succeeded"
      "complete_call now tk how cb = cb\<lparr>cb_failure_count := 0, cb_success_count := cb_success_count cb + 1\<rparr>"
  | (failure) "cb_state cb = Closed" "how = RaisedException" "cb_failure_count cb + 1 < cb_failure_threshold cb"
      "complete_call now tk how cb = cb\<lparr>cb_failure_count := cb_failure_count cb + 1, cb_last_failure_time := now,
         cb_generation := cb_generation cb + 1\<rparr>"
  | (opened) "cb_state cb = Closed" "how = RaisedException" "cb_failure_threshold cb \<le> cb_failure_count cb + 1"
      "complete_call now tk how cb = cb\<lparr>cb_failure_count := cb_failure_count cb + 1, cb_last_failure_time := now,
         cb_generation := cb_generation cb + 1, cb_state := Open, cb_epoch := cb_epoch cb + 1\<rparr>"
proof (cases how)
  case Succeeded
  show thesis
  proof (cases "cb_state cb = Closed \<and> cb_epoch cb = tk_epoch tk \<and> cb_generation cb = tk_generation tk")
    case True
    with Succeeded assms(1) show thesis by (intro success) (simp_all add: complete_call_def record_success_def)
  next
    case False
    with Succeeded assms(1) show thesis by (intro same_breaker) (auto simp: complete_call_def record_success_def)
  qed
next
  case RaisedException
  show thesis
  proof (cases "cb_epoch cb = tk_epoch tk")
    case True
    with assms have "cb_state cb = Closed" by (simp add: ticket_ok_def)
    with True RaisedException assms(1) show thesis
      by (cases "cb_failure_threshold cb \<le> cb_failure_count cb + 1")
        (use failure opened in \<open>simp_all add: complete_call_def record_failure_def\<close>)
  next
    case False
    with RaisedException assms(1) show thesis by (intro same_breaker) (simp add: complete_call_def record_failure_def)
  qed
next
  case Abandoned
  with assms(1) show thesis by (intro same_breaker) (simp add: complete_call_def)
qed

lemma ended_inv:
  assumes inv: "world_inv w" and r: "bw_running w = before @ tk # after"
  shows "world_inv \<lparr>bw_breaker = complete_call now tk how (bw_breaker w), bw_running = before @ after\<rparr>"
proof -
  let ?cb = "bw_breaker w" and ?cb' = "complete_call now tk how (bw_breaker w)"
  have ok: "breaker_ok ?cb" "ticket_ok ?cb tk" using world_invD [OF inv] r by auto
  have d: "distinct (probe_tokens (before @ after))"
    using world_invD(3) [OF inv] by (auto simp: r dest: probe_tokens_remove)
  have sub: "set (before @ after) \<subseteq> set (bw_running w)" by (auto simp: r)
  note new = new_epoch_inv [OF inv sub d]
  show ?thesis
  proof (cases "tk_is_probe tk")
    case True
    then have live: "is_live_probe ?cb tk \<longleftrightarrow> cb_probe_token ?cb = tk_probe_token tk"
      using ok(2) by (auto simp: is_live_probe_def ticket_ok_def split: option.splits)
    show ?thesis
    proof (cases "is_live_probe ?cb tk")
      case True
      with live \<open>tk_is_probe tk\<close> ok(1) show ?thesis
        by (intro new; cases how)
          (auto simp: complete_call_def record_success_def record_failure_def abandon_probe_def breaker_ok_def)
    next
      case False
      with live \<open>tk_is_probe tk\<close> have "?cb' = ?cb"
        by (cases how) (auto simp: complete_call_def record_success_def record_failure_def abandon_probe_def)
      with same_breaker_ended_inv [OF inv r False] show ?thesis by simp
    qed
  next
    case False
    then have nl: "\<not> is_live_probe ?cb tk" by (simp add: is_live_probe_def)
    note same = same_breaker_ended_inv [OF inv r nl]
    from False ok(2) show ?thesis
    proof (cases rule: plain_completion [of tk ?cb now how])
      case same_breaker
      with same show ?thesis by simp
    next
      case success
      then have ok': "breaker_ok ?cb'" "ticket_ok ?cb' = ticket_ok ?cb" "cb_probe_token ?cb' = cb_probe_token ?cb"
        using ok(1) by (auto simp: breaker_ok_def ticket_ok_def fun_eq_iff split: option.splits)
      then have "is_live_probe ?cb' = is_live_probe ?cb" by (simp add: is_live_probe_def fun_eq_iff)
      with ok' same show ?thesis by (simp add: world_inv_def)
    next
      case failure
      then have ok': "breaker_ok ?cb'" "ticket_ok ?cb' = ticket_ok ?cb" "cb_probe_token ?cb' = cb_probe_token ?cb"
        using ok(1) by (auto simp: breaker_ok_def ticket_ok_def fun_eq_iff split: option.splits)
      then have "is_live_probe ?cb' = is_live_probe ?cb" by (simp add: is_live_probe_def fun_eq_iff)
      with ok' same show ?thesis by (simp add: world_inv_def)
    next
      case opened
      then show ?thesis using ok(1) by (intro new) (auto simp: breaker_ok_def)
    qed
  qed
qed

lemma reset_inv:
  assumes "world_inv w"
  shows "world_inv (w\<lparr>bw_breaker := reset_breaker (bw_breaker w)\<rparr>)"
proof -
  have "world_inv \<lparr>bw_breaker = reset_breaker (bw_breaker w), bw_running = bw_running w\<rparr>"
    by (rule new_epoch_inv [OF assms]) (use world_invD [OF assms] in \<open>auto simp: reset_breaker_def breaker_ok_def\<close>)
  then show ?thesis by (cases w) simp
qed

lemma breaker_step_inv: "breaker_step w w' \<Longrightarrow> world_inv w \<Longrightarrow> world_inv w'"
proof (induction rule: breaker_step.induct)
  case (call_rejected now w cb r)
  from world_invD(1) [OF call_rejected(2)] have "cb = bw_breaker w"
    using call_rejected(1) by (cases rule: admit_cases [of _ now]) auto
  with call_rejected(2) show ?case by simp
qed (auto intro: admitted_inv ended_inv reset_inv)

lemma breaker_reachable_inv:
  assumes "breaker_reachable w"
  shows "world_inv w"
proof -
  from assms obtain t r cb where m: "make_breaker t r = Some cb"
    and s: "breaker_step\<^sup>*\<^sup>* \<lparr>bw_breaker = cb, bw_running = []\<rparr> w" by (auto simp: breaker_reachable_def)
  have "world_inv \<lparr>bw_breaker = cb, bw_running = []\<rparr>"
    using m by (auto simp: make_breaker_def world_inv_def breaker_ok_def probe_tokens_def split: if_splits)
  with s show ?thesis by (induction rule: rtranclp_induct) (auto intro: breaker_step_inv)
qed

subsection \<open>What the breaker guarantees\<close>

lemma live_probe_unique:
  assumes "world_inv w"
  shows "length (filter (is_live_probe (bw_breaker w)) (bw_running w)) \<le> 1"
proof (cases "cb_probe_token (bw_breaker w)")
  case None
  then show ?thesis by (simp add: is_live_probe_def)
next
  case (Some k)
  let ?live = "filter (\<lambda>t. t = Some k) (probe_tokens (bw_running w))"
  from Some have "length (filter (is_live_probe (bw_breaker w)) (bw_running w)) = length ?live"
    by (auto simp: probe_tokens_def filter_map o_def is_live_probe_def conj_ac intro!: arg_cong [of _ _ length] filter_cong)
  also have "\<dots> = card (set ?live)" 
    by (rule distinct_card [symmetric]) (rule distinct_filter [OF world_invD(3) [OF assms]])
  also have "\<dots> \<le> card {Some k}" by (rule card_mono) auto
  finally show ?thesis by simp
qed

lemma half_open_refuses:
  assumes "breaker_ok cb" and "cb_state cb = HalfOpen"
  shows "admit now cb = (cb, Inl (max 0 (cb_recovery_timeout cb - (now - cb_last_failure_time cb))))"
  using assms by (simp add: admit_def current_state_def breaker_ok_def)

text \<open>C21: In every state that concurrent calls and resets can reach, at most one running call is the
  recovery probe the breaker listens to, and while the breaker is half open there is exactly one and
  every further call is refused without changing the breaker.\<close>

theorem breaker_single_probe:
  assumes "breaker_reachable w"
  shows "length (filter (is_live_probe (bw_breaker w)) (bw_running w)) \<le> 1
    \<and> (cb_state (bw_breaker w) = HalfOpen \<longrightarrow>
        length (filter (is_live_probe (bw_breaker w)) (bw_running w)) = 1
        \<and> (\<forall>now. \<exists>r. admit now (bw_breaker w) = (bw_breaker w, Inl r)))"
proof (intro conjI impI)
  note inv = breaker_reachable_inv [OF assms]
  show "length (filter (is_live_probe (bw_breaker w)) (bw_running w)) \<le> 1" by (rule live_probe_unique [OF inv])
  assume ho: "cb_state (bw_breaker w) = HalfOpen"
  with inv have "filter (is_live_probe (bw_breaker w)) (bw_running w) \<noteq> []"
    by (auto simp: world_inv_def breaker_ok_def list_ex_iff filter_empty_conv)
  with live_probe_unique [OF inv] show "length (filter (is_live_probe (bw_breaker w)) (bw_running w)) = 1"
    by (simp add: Suc_le_eq le_antisym)
  show "\<forall>now. \<exists>r. admit now (bw_breaker w) = (bw_breaker w, Inl r)"
    using half_open_refuses [OF world_invD(1) [OF inv] ho] by blast
qed

text \<open>A history in which the first call fails, which opens a breaker of threshold one, and a probe is
  admitted when the recovery timeout has passed.\<close>

definition demo_breaker :: breaker where "demo_breaker = the (make_breaker 1 30)"

definition demo_open :: breaker where
  "demo_open = fst (breaking_complete False False 5 5 (DelegateRaised :: unit delegate_end) demo_breaker)"

definition demo_half_open :: breaker_world where
  "demo_half_open = (case admit 35 demo_open of (cb, r) \<Rightarrow> \<lparr>bw_breaker = cb, bw_running = [projr r]\<rparr>)"

lemmas demo_breaker_defs = demo_breaker_def demo_open_def demo_half_open_def make_breaker_def breaking_complete_def
  admit_def current_state_def complete_call_def record_failure_def end_of_def

lemma breaker_reachable_start: "make_breaker t r = Some cb \<Longrightarrow> breaker_reachable \<lparr>bw_breaker = cb, bw_running = []\<rparr>"
  by (auto simp: breaker_reachable_def)

lemma breaker_reachable_step: "breaker_reachable w \<Longrightarrow> breaker_step w w' \<Longrightarrow> breaker_reachable w'"
  by (auto simp: breaker_reachable_def intro: rtranclp.rtrancl_into_rtrancl)

text \<open>A call that nothing interrupts is an admission followed by its completion.\<close>

lemma sequential_call_reachable:
  assumes "breaker_reachable \<lparr>bw_breaker = cb, bw_running = tks\<rparr>"
  shows "breaker_reachable \<lparr>bw_breaker = fst (breaking_complete c f t t' d cb), bw_running = tks\<rparr>"
proof (cases "c \<and> f")
  case True
  with assms show ?thesis by (simp add: breaking_complete_def)
next
  case False
  obtain cb1 r where a: "admit t cb = (cb1, r)" by (cases "admit t cb")
  show ?thesis
  proof (cases r)
    case (Inl x)
    with breaker_step.call_rejected [of t "\<lparr>bw_breaker = cb, bw_running = tks\<rparr>" cb1 x] a False assms show ?thesis
      by (auto simp: breaking_complete_def intro: breaker_reachable_step)
  next
    case (Inr tk)
    have "breaker_reachable \<lparr>bw_breaker = cb1, bw_running = tk # tks\<rparr>"
      using breaker_step.call_admitted [of t "\<lparr>bw_breaker = cb, bw_running = tks\<rparr>" cb1 tk] a Inr assms
      by (auto intro: breaker_reachable_step)
    from breaker_reachable_step [OF this breaker_step.call_ended [where before = "[]" and tk = tk]] a Inr False
    show ?thesis by (auto simp: breaking_complete_def)
  qed
qed

lemma demo_open_reachable: "breaker_reachable \<lparr>bw_breaker = demo_open, bw_running = []\<rparr>"
proof -
  have "make_breaker 1 30 = Some demo_breaker" by (simp add: demo_breaker_def make_breaker_def)
  then show ?thesis unfolding demo_open_def by (rule sequential_call_reachable [OF breaker_reachable_start])
qed

lemma demo_half_open_reachable: "breaker_reachable demo_half_open"
proof (rule breaker_reachable_step [OF demo_open_reachable])
  have "admit 35 demo_open = (bw_breaker demo_half_open, Inr (hd (bw_running demo_half_open)))"
    by (simp add: demo_breaker_defs Let_def)
  moreover have "demo_half_open = \<lparr>bw_breaker = bw_breaker demo_half_open, bw_running = [hd (bw_running demo_half_open)]\<rparr>"
    by (simp add: demo_half_open_def split: prod.splits)
  ultimately show "breaker_step \<lparr>bw_breaker = demo_open, bw_running = []\<rparr> demo_half_open"
    using breaker_step.call_admitted [of 35 "\<lparr>bw_breaker = demo_open, bw_running = []\<rparr>"] by (metis breaker_world.select_convs)
qed

lemma demo_half_open_state: "cb_state (bw_breaker demo_half_open) = HalfOpen"
  by (simp add: demo_breaker_defs Let_def)

theorem breaker_single_probe_witness:
  "length (filter (is_live_probe (bw_breaker demo_half_open)) (bw_running demo_half_open)) = 1
    \<and> (\<exists>r. admit 100 (bw_breaker demo_half_open) = (bw_breaker demo_half_open, Inl r))"
  using breaker_single_probe [OF demo_half_open_reachable] demo_half_open_state by blast

text \<open>The breaker never wedges: in every reachable state, when the recovery timeout has passed since
  the last recorded failure and no call is running, the next call is admitted, and if it succeeds
  the breaker is closed again with its failure count cleared.\<close>

theorem breaker_recovers:
  assumes "breaker_reachable w" and "bw_running w = []"
    and "now - cb_last_failure_time (bw_breaker w) \<ge> cb_recovery_timeout (bw_breaker w)"
  shows "\<exists>cb. breaking_complete False False now finish (DelegateReturned r) (bw_breaker w) = (cb, Inr r)
    \<and> cb_state cb = Closed \<and> cb_failure_count cb = 0"
proof -
  note inv = breaker_reachable_inv [OF assms(1)]
  from inv assms(2) have idle: "cb_probe_token (bw_breaker w) = None" by (simp add: world_inv_def)
  from world_invD(1) [OF inv] show ?thesis
  proof (cases rule: admit_cases [of _ now])
    case (rejected x)
    with idle assms(3) world_invD(1) [OF inv] show ?thesis by (auto simp: current_state_def breaker_ok_def split: if_splits)
  next
    case closed
    then show ?thesis by (simp add: breaking_complete_def end_of_def complete_call_def record_success_def)
  next
    case probe
    then show ?thesis by (simp add: breaking_complete_def end_of_def complete_call_def record_success_def)
  qed
qed

theorem breaker_recovers_witness:
  "\<exists>cb. breaking_complete False False 40 41 (DelegateReturned ''ok'') demo_open = (cb, Inr ''ok'')
    \<and> cb_state cb = Closed \<and> cb_failure_count cb = 0"
  using breaker_recovers [OF demo_open_reachable, of 40 41 "''ok''"] by (simp add: demo_breaker_defs Let_def)

lemma failing_call_closed:
  assumes "cb_state cb = Closed"
  shows "fst (breaking_complete False False t t (DelegateRaised :: unit delegate_end) cb) =
    (let cb1 = cb\<lparr>cb_total_calls := cb_total_calls cb + 1, cb_failure_count := cb_failure_count cb + 1,
                  cb_last_failure_time := t, cb_generation := cb_generation cb + 1\<rparr> in
     if cb_failure_count cb + 1 \<ge> cb_failure_threshold cb
     then cb1\<lparr>cb_state := Open, cb_epoch := cb_epoch cb + 1\<rparr> else cb1)"
  using assms by (simp add: breaking_complete_def admit_def current_state_def complete_call_def record_failure_def end_of_def Let_def)

lemma failing_calls_closed:
  assumes "cb_state cb = Closed" and "cb_failure_count cb + int (length ts) < cb_failure_threshold cb"
  shows "cb_state (failing_calls ts cb) = Closed
    \<and> cb_failure_count (failing_calls ts cb) = cb_failure_count cb + int (length ts)
    \<and> cb_failure_threshold (failing_calls ts cb) = cb_failure_threshold cb
    \<and> cb_recovery_timeout (failing_calls ts cb) = cb_recovery_timeout cb"
  using assms by (induction ts arbitrary: cb) (simp_all add: failing_call_closed Let_def)

lemma failing_calls_append: "failing_calls (ts @ us) cb = failing_calls us (failing_calls ts cb)"
  by (induction ts arbitrary: cb) simp_all

text \<open>From a closed breaker with no recorded failure, fewer than \<open>failure_threshold\<close> failing calls
  keep it closed; the last of \<open>failure_threshold\<close> failing calls, at time \<open>t\<close>, opens it, and from then
  until the recovery timeout every call is refused without reaching the delegate.\<close>

theorem breaker_opens_at_threshold:
  assumes "cb_state cb = Closed" and "cb_failure_count cb = 0"
    and "int (length ts) + 1 = cb_failure_threshold cb"
    and "t \<le> now" and "now < t + cb_recovery_timeout cb"
  shows "cb_state (failing_calls ts cb) = Closed
    \<and> cb_state (failing_calls (ts @ [t]) cb) = Open
    \<and> breaking_complete False False now finish d (failing_calls (ts @ [t]) cb)
        = (failing_calls (ts @ [t]) cb, Inl ProviderUnavailable)"
proof -
  have before: "cb_state (failing_calls ts cb) = Closed" "cb_failure_count (failing_calls ts cb) = int (length ts)"
    "cb_failure_threshold (failing_calls ts cb) = cb_failure_threshold cb"
    "cb_recovery_timeout (failing_calls ts cb) = cb_recovery_timeout cb"
    using failing_calls_closed [OF assms(1), of ts] assms(2,3) by simp_all
  have after: "cb_state (failing_calls (ts @ [t]) cb) = Open" "cb_last_failure_time (failing_calls (ts @ [t]) cb) = t"
    "cb_recovery_timeout (failing_calls (ts @ [t]) cb) = cb_recovery_timeout cb"
    using before assms(3) by (simp_all add: failing_calls_append failing_call_closed Let_def)
  with before(1) assms(5) show ?thesis by (simp add: breaking_complete_def admit_def current_state_def)
qed

theorem breaker_opens_at_threshold_witness:
  "cb_state (failing_calls [1, 2] (the (make_breaker 3 30))) = Closed
    \<and> cb_state (failing_calls ([1, 2] @ [5]) (the (make_breaker 3 30))) = Open
    \<and> breaking_complete False False 20 21 (DelegateReturned ''ok'') (failing_calls ([1, 2] @ [5]) (the (make_breaker 3 30)))
        = (failing_calls ([1, 2] @ [5]) (the (make_breaker 3 30)), Inl ProviderUnavailable)"
  by (rule breaker_opens_at_threshold) (simp_all add: make_breaker_def)

end
