(* ===== verification/Task_Queue.thy ===== *)
theory Task_Queue
  imports Sql_Table Json
begin

text \<open>
  The durable job queue (\<open>services/task_queue.py\<close>, class \<open>DurableJobQueue\<close>, with the row and
  constraints of \<open>services/db_store.py\<close>). Every operation is one conditional statement, so an
  operation is a function of the table; \<open>create\<close> and \<open>claim\<close> read before they write, and what other
  processes committed in between is an argument of them. The disclosure scanner is an argument
  (\<open>scan\<close>: the redacted value and the number of redactions, or its refusal), and so are the fresh
  job id and the order in which the database returns rows of equal sort keys. Documents are kept
  as their encoded text. Times are integers (microseconds).
\<close>

subsection \<open>Rows\<close>

datatype job_status = Pending | Running | Succeeded_Job | Failed_Job | DeadLetter | Cancelled_Job

record job_row =
  jb_job_id :: string
  jb_owner_id :: string
  jb_project_id :: string
  jb_kind :: string
  jb_payload_json :: string
  jb_status :: job_status
  jb_attempts :: int
  jb_max_attempts :: int
  jb_lease_generation :: int
  jb_idempotency_key :: "string option"
  jb_worker_id :: "string option"
  jb_lease_expires_at :: "timestamp option"
  jb_available_at :: timestamp
  jb_created_at :: timestamp
  jb_updated_at :: timestamp
  jb_completed_at :: "timestamp option"
  jb_result_json :: "string option"
  jb_error_code :: "string option"

record claimed_job =
  cj_job_id :: string
  cj_owner_id :: string
  cj_project_id :: string
  cj_kind :: string
  cj_payload_json :: string
  cj_attempts :: int
  cj_max_attempts :: int
  cj_lease_generation :: int
  cj_worker_id :: string

record job_view =
  jv_job_id :: string
  jv_owner_id :: string
  jv_project_id :: string
  jv_kind :: string
  jv_status :: job_status
  jv_attempts :: int
  jv_max_attempts :: int
  jv_idempotency_key :: "string option"
  jv_created_at :: timestamp
  jv_updated_at :: timestamp
  jv_completed_at :: "timestamp option"
  jv_result_json :: "string option"
  jv_error_code :: "string option"

type_synonym job_db = "job_row list"

datatype job_error = InvalidJob

definition ALLOWED_JOB_KINDS :: "string list" where
  "ALLOWED_JOB_KINDS = [''echo'', ''run_export'']"

definition MAX_PAYLOAD_BYTES :: nat where "MAX_PAYLOAD_BYTES = 64 * 1024"

definition MAX_RESULT_BYTES :: nat where "MAX_RESULT_BYTES = 64 * 1024"

text \<open>The pattern \<open>_SAFE_ID\<close> of this module bounds the length.\<close>

definition JOB_SAFE_ID :: "string \<Rightarrow> bool" where
  "JOB_SAFE_ID s = (SAFE_ID s \<and> length s \<le> 255)"

text \<open>The CHECK constraints of the table; a status outside the enumeration is not representable.\<close>

definition job_checks :: "job_row \<Rightarrow> bool" where
  "job_checks r =
     (jb_kind r \<in> set ALLOWED_JOB_KINDS
      \<and> 0 \<le> jb_attempts r \<and> 1 \<le> jb_max_attempts r \<and> jb_max_attempts r \<le> 10 \<and> jb_attempts r \<le> jb_max_attempts r
      \<and> 0 \<le> jb_lease_generation r
      \<and> (if jb_status r = Running then jb_worker_id r \<noteq> None \<and> jb_lease_expires_at r \<noteq> None
         else jb_worker_id r = None \<and> jb_lease_expires_at r = None)
      \<and> (if jb_status r \<in> {Pending, Running} then jb_completed_at r = None else jb_completed_at r \<noteq> None))"

text \<open>The primary key and \<open>uq_job_idempotency\<close>, where a NULL key never clashes.\<close>

definition job_clash :: "job_row \<Rightarrow> job_row \<Rightarrow> bool" where
  "job_clash a b =
     (jb_job_id a = jb_job_id b
      \<or> jb_idempotency_key a \<noteq> None \<and> jb_owner_id a = jb_owner_id b \<and> jb_project_id a = jb_project_id b
          \<and> jb_idempotency_key a = jb_idempotency_key b)"

definition view_job :: "job_row \<Rightarrow> job_view" where
  "view_job r =
     \<lparr>jv_job_id = jb_job_id r, jv_owner_id = jb_owner_id r, jv_project_id = jb_project_id r, jv_kind = jb_kind r,
      jv_status = jb_status r, jv_attempts = jb_attempts r, jv_max_attempts = jb_max_attempts r,
      jv_idempotency_key = jb_idempotency_key r, jv_created_at = jb_created_at r, jv_updated_at = jb_updated_at r,
      jv_completed_at = jb_completed_at r, jv_result_json = jb_result_json r, jv_error_code = jb_error_code r\<rparr>"

subsection \<open>Encoding a document\<close>

text \<open>The local function \<open>inspect\<close>: the number of nodes visited so far, or the refusal.\<close>

fun inspect :: "nat \<Rightarrow> json \<Rightarrow> nat \<Rightarrow> nat option"
  and inspect_items :: "nat \<Rightarrow> json list \<Rightarrow> nat \<Rightarrow> nat option"
  and inspect_fields :: "nat \<Rightarrow> (string \<times> json) list \<Rightarrow> nat \<Rightarrow> nat option" where
  "inspect depth item nodes =
     (if depth > 12 \<or> nodes + 1 > 100000 then None
      else case item of
        JList vs \<Rightarrow> inspect_items (depth + 1) vs (nodes + 1)
      | JObj kvs \<Rightarrow> inspect_fields (depth + 1) kvs (nodes + 1)
      | _ \<Rightarrow> Some (nodes + 1))"
| "inspect_items depth [] nodes = Some nodes"
| "inspect_items depth (v # vs) nodes =
     (case inspect depth v nodes of None \<Rightarrow> None | Some n \<Rightarrow> inspect_items depth vs n)"
| "inspect_fields depth [] nodes = Some nodes"
| "inspect_fields depth ((k, v) # kvs) nodes =
     (case inspect depth v nodes of None \<Rightarrow> None | Some n \<Rightarrow> inspect_fields depth kvs n)"

definition safe_json :: "(json \<Rightarrow> (json \<times> nat) option) \<Rightarrow> nat \<Rightarrow> bool \<Rightarrow> json \<Rightarrow> string option" where
  "safe_json scan maximum redact v =
     (case scan v of
        None \<Rightarrow> None
      | Some (v', redactions) \<Rightarrow>
          if redactions \<noteq> 0 \<and> \<not> redact then None
          else if inspect 0 v' 0 = None then None
          else if length (dumps_ascii v') > maximum then None
          else Some (dumps_ascii v'))"

subsection \<open>Operations\<close>

definition run_export_payload_ok :: "(string \<times> json) list \<Rightarrow> bool" where
  "run_export_payload_ok payload =
     (set (map fst payload) = {''run_id''}
      \<and> (case map_of payload ''run_id'' of Some (JStr s) \<Rightarrow> JOB_SAFE_ID s | _ \<Rightarrow> False))"

definition new_job ::
  "timestamp \<Rightarrow> string \<Rightarrow> string \<Rightarrow> string \<Rightarrow> string \<Rightarrow> string \<Rightarrow> string option \<Rightarrow> int \<Rightarrow> job_row" where
  "new_job now job_id owner project kind payload_json key max_attempts =
     \<lparr>jb_job_id = job_id, jb_owner_id = owner, jb_project_id = project, jb_kind = kind,
      jb_payload_json = payload_json, jb_status = Pending, jb_attempts = 0, jb_max_attempts = max_attempts,
      jb_lease_generation = 0, jb_idempotency_key = key, jb_worker_id = None, jb_lease_expires_at = None,
      jb_available_at = now, jb_created_at = now, jb_updated_at = now, jb_completed_at = None,
      jb_result_json = None, jb_error_code = None\<rparr>"

definition existing_job :: "string \<Rightarrow> string \<Rightarrow> string option \<Rightarrow> job_db \<Rightarrow> job_row option" where
  "existing_job owner project key db =
     (if key = None then None
      else scalar (select_where (\<lambda>r. jb_owner_id r = owner \<and> jb_project_id r = project
             \<and> jb_idempotency_key r = key) db))"

definition existing_view :: "string \<Rightarrow> string \<Rightarrow> int \<Rightarrow> job_row \<Rightarrow> job_error + job_view" where
  "existing_view kind payload_json max_attempts r =
     (if jb_kind r \<noteq> kind \<or> jb_payload_json r \<noteq> payload_json \<or> jb_max_attempts r \<noteq> max_attempts
      then Inl InvalidJob else Inr (view_job r))"

text \<open>What \<open>create\<close> checks before it opens a session.\<close>

definition create_args_ok :: "string \<Rightarrow> string \<Rightarrow> string \<Rightarrow> (string \<times> json) list \<Rightarrow> string option \<Rightarrow> int \<Rightarrow> bool" where
  "create_args_ok owner project kind payload key max_attempts =
     (JOB_SAFE_ID owner \<and> JOB_SAFE_ID project \<and> kind \<in> set ALLOWED_JOB_KINDS
      \<and> (kind = ''run_export'' \<longrightarrow> run_export_payload_ok payload)
      \<and> 1 \<le> max_attempts \<and> max_attempts \<le> 10
      \<and> (case key of None \<Rightarrow> True | Some k \<Rightarrow> JOB_SAFE_ID k))"

text \<open>
  The transaction of \<open>create\<close>: the lookup reads \<open>db\<close>, the insert meets what was committed since
  then (\<open>between\<close>), and after an integrity error the second lookup meets what was committed by then
  (\<open>later\<close>).
\<close>

definition create_row :: "(job_db \<Rightarrow> job_db) \<Rightarrow> (job_db \<Rightarrow> job_db) \<Rightarrow> job_row \<Rightarrow> job_db \<Rightarrow> job_db \<times> (job_error + job_view)" where
  "create_row between later r db =
     (let lookup = existing_job (jb_owner_id r) (jb_project_id r) (jb_idempotency_key r);
          view = existing_view (jb_kind r) (jb_payload_json r) (jb_max_attempts r) in
      case lookup db of
        Some e \<Rightarrow> (db, view e)
      | None \<Rightarrow>
          let db1 = between db in
          (case insert_unique job_clash r db1 of
             Some db2 \<Rightarrow> (db2, Inr (view_job r))
           | None \<Rightarrow>
               let db2 = later db1 in
               (case lookup db2 of None \<Rightarrow> (db2, Inl InvalidJob) | Some e \<Rightarrow> (db2, view e))))"

definition create_job ::
  "(json \<Rightarrow> (json \<times> nat) option) \<Rightarrow> timestamp \<Rightarrow> string \<Rightarrow> (job_db \<Rightarrow> job_db) \<Rightarrow> (job_db \<Rightarrow> job_db)
     \<Rightarrow> string \<Rightarrow> string \<Rightarrow> string \<Rightarrow> (string \<times> json) list \<Rightarrow> string option \<Rightarrow> int \<Rightarrow> job_db
     \<Rightarrow> job_db \<times> (job_error + job_view)" where
  "create_job scan now job_id between later owner project kind payload key max_attempts db =
     (if \<not> create_args_ok owner project kind payload key max_attempts then (db, Inl InvalidJob)
      else
        (case safe_json scan MAX_PAYLOAD_BYTES False (JObj payload) of
           None \<Rightarrow> (db, Inl InvalidJob)
         | Some payload_json \<Rightarrow>
             create_row between later (new_job now job_id owner project kind payload_json key max_attempts) db))"

definition in_job_scope :: "string \<Rightarrow> string \<Rightarrow> string \<Rightarrow> job_row \<Rightarrow> bool" where
  "in_job_scope owner project job_id r = (jb_job_id r = job_id \<and> jb_owner_id r = owner \<and> jb_project_id r = project)"

definition get_job :: "string \<Rightarrow> string \<Rightarrow> string \<Rightarrow> job_db \<Rightarrow> job_view option" where
  "get_job owner project job_id db = map_option view_job (scalar (select_where (in_job_scope owner project job_id) db))"

definition list_jobs :: "(job_row \<Rightarrow> nat) \<Rightarrow> string \<Rightarrow> string option \<Rightarrow> nat \<Rightarrow> nat \<Rightarrow> job_db \<Rightarrow> job_view list" where
  "list_jobs tie owner project limit offset db =
     map view_job (take limit (drop offset (sort_key (\<lambda>r. (- jb_created_at r, tie r))
       (select_where (\<lambda>r. jb_owner_id r = owner \<and> (case project of None \<Rightarrow> True | Some p \<Rightarrow> jb_project_id r = p)) db))))"

definition claim_candidate :: "(job_row \<Rightarrow> nat) \<Rightarrow> timestamp \<Rightarrow> job_db \<Rightarrow> string option" where
  "claim_candidate tie now db =
     map_option jb_job_id (scalar (sort_key (\<lambda>r. (jb_available_at r, jb_created_at r, tie r))
       (select_where (\<lambda>r. jb_status r = Pending \<and> jb_available_at r \<le> now \<and> jb_attempts r < jb_max_attempts r) db)))"

definition claim_values :: "timestamp \<Rightarrow> timestamp \<Rightarrow> string \<Rightarrow> job_row \<Rightarrow> job_row" where
  "claim_values now lease worker r =
     r\<lparr>jb_status := Running, jb_worker_id := Some worker, jb_attempts := jb_attempts r + 1,
       jb_lease_generation := jb_lease_generation r + 1, jb_lease_expires_at := Some lease, jb_updated_at := now\<rparr>"

definition claimed :: "string \<Rightarrow> job_row \<Rightarrow> claimed_job" where
  "claimed worker r =
     \<lparr>cj_job_id = jb_job_id r, cj_owner_id = jb_owner_id r, cj_project_id = jb_project_id r, cj_kind = jb_kind r,
      cj_payload_json = jb_payload_json r, cj_attempts = jb_attempts r, cj_max_attempts = jb_max_attempts r,
      cj_lease_generation = jb_lease_generation r, cj_worker_id = worker\<rparr>"

text \<open>The conditional update of \<open>claim\<close> with its returned row.\<close>

definition claim_update ::
  "timestamp \<Rightarrow> timestamp \<Rightarrow> string \<Rightarrow> string \<Rightarrow> job_db \<Rightarrow> job_db \<times> claimed_job option" where
  "claim_update now lease worker job_id db =
     (let P = (\<lambda>r. jb_job_id r = job_id \<and> jb_status r = Pending) in
      (updated P (claim_values now lease worker) db,
       map_option (claimed worker \<circ> claim_values now lease worker) (scalar (select_where P db))))"

definition claim_job ::
  "(job_row \<Rightarrow> nat) \<Rightarrow> int \<Rightarrow> timestamp \<Rightarrow> (job_db \<Rightarrow> job_db) \<Rightarrow> string \<Rightarrow> job_db
     \<Rightarrow> job_db \<times> (job_error + claimed_job option)" where
  "claim_job tie lease_seconds now between worker db =
     (if \<not> JOB_SAFE_ID worker then (db, Inl InvalidJob)
      else
        let lease = now + lease_seconds in
        case claim_candidate tie now db of
          None \<Rightarrow> (between db, Inr None)
        | Some job_id \<Rightarrow> (case claim_update now lease worker job_id (between db) of (db', c) \<Rightarrow> (db', Inr c)))"

text \<open>The condition that \<open>heartbeat\<close>, \<open>succeed\<close> and \<open>fail\<close> share: the caller still holds the lease.\<close>

definition holds_lease :: "claimed_job \<Rightarrow> timestamp \<Rightarrow> job_row \<Rightarrow> bool" where
  "holds_lease j now r =
     (jb_job_id r = cj_job_id j \<and> jb_worker_id r = Some (cj_worker_id j) \<and> jb_attempts r = cj_attempts j
      \<and> jb_lease_generation r = cj_lease_generation j \<and> jb_status r = Running
      \<and> (case jb_lease_expires_at r of None \<Rightarrow> False | Some t \<Rightarrow> now < t))"

definition heartbeat :: "int \<Rightarrow> timestamp \<Rightarrow> claimed_job \<Rightarrow> job_db \<Rightarrow> job_db \<times> bool" where
  "heartbeat lease_seconds now j db =
     (updated (holds_lease j now) (\<lambda>r. r\<lparr>jb_lease_expires_at := Some (now + lease_seconds), jb_updated_at := now\<rparr>) db,
      rowcount (holds_lease j now) db \<noteq> 0)"

definition lease_expired :: "timestamp \<Rightarrow> job_row \<Rightarrow> bool" where
  "lease_expired now r =
     (jb_status r = Running \<and> (case jb_lease_expires_at r of None \<Rightarrow> False | Some t \<Rightarrow> t < now))"

definition recover_expired :: "timestamp \<Rightarrow> job_db \<Rightarrow> job_db \<times> nat" where
  "recover_expired now db =
     (let P = (\<lambda>r. lease_expired now r \<and> jb_attempts r < jb_max_attempts r);
          Q = (\<lambda>r. lease_expired now r \<and> jb_attempts r \<ge> jb_max_attempts r);
          db1 = updated P (\<lambda>r. r\<lparr>jb_status := Pending, jb_worker_id := None, jb_lease_expires_at := None,
                  jb_available_at := now, jb_updated_at := now, jb_error_code := Some ''lease_expired''\<rparr>) db in
      (updated Q (\<lambda>r. r\<lparr>jb_status := DeadLetter, jb_worker_id := None, jb_lease_expires_at := None,
          jb_completed_at := Some now, jb_updated_at := now, jb_error_code := Some ''lease_expired''\<rparr>) db1,
       rowcount P db + rowcount Q db1))"

definition succeed_values :: "timestamp \<Rightarrow> string \<Rightarrow> job_row \<Rightarrow> job_row" where
  "succeed_values now encoded r =
     r\<lparr>jb_status := Succeeded_Job, jb_result_json := Some encoded, jb_error_code := None, jb_worker_id := None,
       jb_lease_expires_at := None, jb_completed_at := Some now, jb_updated_at := now\<rparr>"

definition succeed_job ::
  "(json \<Rightarrow> (json \<times> nat) option) \<Rightarrow> timestamp \<Rightarrow> claimed_job \<Rightarrow> json \<Rightarrow> job_db \<Rightarrow> job_db \<times> (job_error + bool)" where
  "succeed_job scan now j result db =
     (case safe_json scan MAX_RESULT_BYTES True result of
        None \<Rightarrow> (db, Inl InvalidJob)
      | Some encoded \<Rightarrow>
          (updated (holds_lease j now) (succeed_values now encoded) db, Inr (rowcount (holds_lease j now) db \<noteq> 0)))"

text \<open>The status, the next availability and the completion that \<open>fail\<close> writes.\<close>

definition fail_outcome ::
  "int \<Rightarrow> timestamp \<Rightarrow> bool \<Rightarrow> claimed_job \<Rightarrow> job_status \<times> timestamp \<times> timestamp option" where
  "fail_outcome backoff now retryable j =
     (if \<not> retryable then (Failed_Job, now, Some now)
      else if cj_attempts j < cj_max_attempts j
      then (Pending, now + backoff * 2 ^ nat (cj_attempts j - 1), None)
      else (DeadLetter, now, Some now))"

definition fail_values ::
  "timestamp \<Rightarrow> string \<Rightarrow> job_status \<times> timestamp \<times> timestamp option \<Rightarrow> job_row \<Rightarrow> job_row" where
  "fail_values now error_code outcome r =
     (case outcome of (status, available, completed) \<Rightarrow>
        r\<lparr>jb_status := status, jb_available_at := available, jb_completed_at := completed,
          jb_error_code := Some error_code, jb_worker_id := None, jb_lease_expires_at := None, jb_updated_at := now\<rparr>)"

definition fail_job ::
  "int \<Rightarrow> timestamp \<Rightarrow> claimed_job \<Rightarrow> string \<Rightarrow> bool \<Rightarrow> job_db \<Rightarrow> job_db \<times> (job_error + bool)" where
  "fail_job backoff now j error_code retryable db =
     (if length error_code > 64 \<or> \<not> JOB_SAFE_ID error_code then (db, Inl InvalidJob)
      else (updated (holds_lease j now) (fail_values now error_code (fail_outcome backoff now retryable j)) db,
            Inr (rowcount (holds_lease j now) db \<noteq> 0)))"

definition cancel_job :: "timestamp \<Rightarrow> string \<Rightarrow> string \<Rightarrow> string \<Rightarrow> job_db \<Rightarrow> job_db \<times> bool" where
  "cancel_job now owner project job_id db =
     (let P = (\<lambda>r. in_job_scope owner project job_id r \<and> jb_status r \<in> {Pending, Running}) in
      (updated P (\<lambda>r. r\<lparr>jb_status := Cancelled_Job, jb_worker_id := None, jb_lease_expires_at := None,
          jb_completed_at := Some now, jb_updated_at := now, jb_error_code := None\<rparr>) db,
       rowcount P db \<noteq> 0))"

definition retry_job :: "timestamp \<Rightarrow> string \<Rightarrow> string \<Rightarrow> string \<Rightarrow> job_db \<Rightarrow> job_db \<times> bool" where
  "retry_job now owner project job_id db =
     (let P = (\<lambda>r. in_job_scope owner project job_id r \<and> jb_status r \<in> {DeadLetter, Failed_Job}) in
      (updated P (\<lambda>r. r\<lparr>jb_status := Pending, jb_attempts := 0, jb_available_at := now, jb_completed_at := None,
          jb_error_code := None, jb_updated_at := now\<rparr>) db,
       rowcount P db \<noteq> 0))"

subsection \<open>Histories\<close>

text \<open>
  The table with the claims that were handed to workers and the ids of the jobs that were retried,
  newest first. A worker completes only jobs that it was handed.
\<close>

record job_world =
  jw_jobs :: job_db
  jw_claims :: "claimed_job list"
  jw_retries :: "string list"

definition hand_out :: "claimed_job option \<Rightarrow> claimed_job list \<Rightarrow> claimed_job list" where
  "hand_out c claims = (case c of None \<Rightarrow> claims | Some j \<Rightarrow> j # claims)"

inductive job_step :: "job_world \<Rightarrow> job_world \<Rightarrow> bool" where
  job_inserted: "create_args_ok owner project kind payload key m \<Longrightarrow>
     insert_unique job_clash (new_job now i owner project kind payload_json key m) (jw_jobs w) = Some db \<Longrightarrow>
     job_step w (w\<lparr>jw_jobs := db\<rparr>)"
| job_claimed: "claim_update now lease worker i (jw_jobs w) = (db, c) \<Longrightarrow>
     job_step w (w\<lparr>jw_jobs := db, jw_claims := hand_out c (jw_claims w)\<rparr>)"
| job_extended: "j \<in> set (jw_claims w) \<Longrightarrow> job_step w (w\<lparr>jw_jobs := fst (heartbeat s now j (jw_jobs w))\<rparr>)"
| job_recovered: "job_step w (w\<lparr>jw_jobs := fst (recover_expired now (jw_jobs w))\<rparr>)"
| job_succeeded: "j \<in> set (jw_claims w) \<Longrightarrow> job_step w (w\<lparr>jw_jobs := fst (succeed_job scan now j v (jw_jobs w))\<rparr>)"
| job_failed: "j \<in> set (jw_claims w) \<Longrightarrow> job_step w (w\<lparr>jw_jobs := fst (fail_job b now j e rt (jw_jobs w))\<rparr>)"
| job_cancelled: "job_step w (w\<lparr>jw_jobs := fst (cancel_job now owner project i (jw_jobs w))\<rparr>)"
| job_retried: "job_step w (w\<lparr>jw_jobs := fst (retry_job now owner project i (jw_jobs w)), jw_retries := i # jw_retries w\<rparr>)"

definition job_start :: job_world where
  "job_start = \<lparr>jw_jobs = [], jw_claims = [], jw_retries = []\<rparr>"

definition job_reachable :: "job_world \<Rightarrow> bool" where
  "job_reachable w = job_step\<^sup>*\<^sup>* job_start w"

text \<open>
  How a row may change: its identity is kept, its lease generation never falls, a succeeded or
  cancelled row is final, and a row is running under a generation only if it was handed out under it.
\<close>

definition job_identity :: "job_row \<Rightarrow> string \<times> string \<times> string \<times> string \<times> string \<times> int \<times> string option" where
  "job_identity r = (jb_job_id r, jb_owner_id r, jb_project_id r, jb_kind r, jb_payload_json r, jb_max_attempts r,
     jb_idempotency_key r)"

definition job_moves :: "job_row \<Rightarrow> job_row \<Rightarrow> bool" where
  "job_moves r r' =
     (job_identity r' = job_identity r
      \<and> jb_lease_generation r \<le> jb_lease_generation r'
      \<and> (jb_status r \<in> {Succeeded_Job, Cancelled_Job} \<longrightarrow> r' = r)
      \<and> (jb_lease_generation r' = jb_lease_generation r \<and> jb_status r' = Running \<longrightarrow>
           jb_status r = Running \<and> jb_attempts r' = jb_attempts r \<and> jb_worker_id r' = jb_worker_id r))"

definition job_ok :: "job_row \<Rightarrow> bool" where
  "job_ok r =
     (job_checks r \<and> (jb_status r = Pending \<longrightarrow> jb_attempts r < jb_max_attempts r)
      \<and> (jb_result_json r \<noteq> None \<longleftrightarrow> jb_status r = Succeeded_Job))"

text \<open>What a claim says of the row it was made from.\<close>

definition claim_of :: "claimed_job \<Rightarrow> job_row \<Rightarrow> bool" where
  "claim_of j r =
     (jb_job_id r = cj_job_id j \<and> jb_max_attempts r = cj_max_attempts j \<and> cj_lease_generation j \<le> jb_lease_generation r
      \<and> (cj_lease_generation j = jb_lease_generation r \<and> jb_status r = Running \<longrightarrow>
           jb_attempts r = cj_attempts j \<and> jb_worker_id r = Some (cj_worker_id j)))"

definition claims_of :: "string \<Rightarrow> claimed_job list \<Rightarrow> claimed_job list" where
  "claims_of i claims = filter (\<lambda>j. cj_job_id j = i) claims"

text \<open>One row under a statement other than \<open>claim\<close>; \<open>ret\<close> says that the row is retried.\<close>

definition job_edit :: "bool \<Rightarrow> job_row \<Rightarrow> job_row \<Rightarrow> bool" where
  "job_edit ret r r' =
     (job_moves r r' \<and> (job_ok r \<longrightarrow> job_ok r') \<and> jb_lease_generation r' = jb_lease_generation r
      \<and> (\<not> ret \<longrightarrow> jb_attempts r' = jb_attempts r))"

definition job_inv :: "job_world \<Rightarrow> bool" where
  "job_inv w =
     (list_all job_ok (jw_jobs w)
      \<and> sorted_wrt (\<lambda>a b. \<not> job_clash b a) (jw_jobs w)
      \<and> list_all (\<lambda>j. list_ex (claim_of j) (jw_jobs w)) (jw_claims w)
      \<and> distinct (map (\<lambda>j. (cj_job_id j, cj_lease_generation j)) (jw_claims w))
      \<and> list_all (\<lambda>r. int (length (claims_of (jb_job_id r) (jw_claims w))) = jb_lease_generation r
           \<and> jb_lease_generation r \<le> jb_attempts r + jb_max_attempts r * int (count_list (jw_retries w) (jb_job_id r)))
         (jw_jobs w))"

subsection \<open>Rows under the statements\<close>

lemma job_moves_refl: "reflp job_moves"
  by (simp add: reflp_def job_moves_def)

lemma job_movesD:
  assumes "job_moves r r'"
  shows "job_identity r' = job_identity r" "jb_lease_generation r \<le> jb_lease_generation r'"
    "jb_status r \<in> {Succeeded_Job, Cancelled_Job} \<Longrightarrow> r' = r"
    "jb_lease_generation r' = jb_lease_generation r \<Longrightarrow> jb_status r' = Running \<Longrightarrow>
       jb_status r = Running \<and> jb_attempts r' = jb_attempts r \<and> jb_worker_id r' = jb_worker_id r"
  using assms unfolding job_moves_def by blast+

lemma job_moves_trans: "transp job_moves"
proof (rule transpI)
  fix a b c assume ab: "job_moves a b" and bc: "job_moves b c"
  have id: "job_identity c = job_identity a" by (rule trans [OF job_movesD(1) [OF bc] job_movesD(1) [OF ab]])
  have gen: "jb_lease_generation a \<le> jb_lease_generation c"
    by (rule order_trans [OF job_movesD(2) [OF ab] job_movesD(2) [OF bc]])
  have final: "jb_status a \<in> {Succeeded_Job, Cancelled_Job} \<longrightarrow> c = a"
    using job_movesD(3) [OF ab] job_movesD(3) [OF bc] by metis
  have run: "jb_status a = Running \<and> jb_attempts c = jb_attempts a \<and> jb_worker_id c = jb_worker_id a"
    if "jb_lease_generation c = jb_lease_generation a" "jb_status c = Running"
  proof -
    have "jb_lease_generation b = jb_lease_generation a" "jb_lease_generation c = jb_lease_generation b"
      using job_movesD(2) [OF ab] job_movesD(2) [OF bc] that(1) by linarith+
    with job_movesD(4) [OF ab] job_movesD(4) [OF bc] that(2) show ?thesis by metis
  qed
  show "job_moves a c" unfolding job_moves_def using id gen final run by blast
qed

lemma job_edit_refl [simp]: "job_edit ret r r"
  by (simp add: job_edit_def job_moves_def)

lemma list_all2_updated:
  assumes "\<And>r. r \<in> set t \<Longrightarrow> P r \<Longrightarrow> R r (f r)" and "\<And>r. R r r"
  shows "list_all2 R t (updated P f t)"
  using assms by (auto simp: updated_def list_all2_conv_all_nth)

lemmas job_row_defs = job_edit_def job_moves_def job_identity_def job_ok_def job_checks_def

lemma heartbeat_edit: "list_all2 (job_edit False) db (fst (heartbeat s now j db))"
  unfolding heartbeat_def fst_conv
  by (rule list_all2_updated) (auto simp: job_row_defs holds_lease_def)

lemma succeed_edit: "list_all2 (job_edit False) db (fst (succeed_job scan now j v db))"
  unfolding succeed_job_def
  by (auto split: option.splits intro!: list_all2_updated list.rel_refl simp: job_row_defs holds_lease_def succeed_values_def)

lemma fail_edit:
  assumes "\<And>r. r \<in> set db \<Longrightarrow> jb_job_id r = cj_job_id j \<Longrightarrow> jb_max_attempts r = cj_max_attempts j"
  shows "list_all2 (job_edit False) db (fst (fail_job b now j e rt db))"
  unfolding fail_job_def
  by (auto intro!: list_all2_updated list.rel_refl
      simp: job_row_defs holds_lease_def fail_values_def fail_outcome_def dest: assms)

lemma cancel_edit: "list_all2 (job_edit False) db (fst (cancel_job now owner project i db))"
  unfolding cancel_job_def Let_def fst_conv
  by (rule list_all2_updated) (auto simp: job_row_defs)

lemma retry_edit: "list_all2 (\<lambda>r. job_edit (jb_job_id r = i) r) db (fst (retry_job now owner project i db))"
  unfolding retry_job_def Let_def fst_conv
  by (rule list_all2_updated) (auto simp: job_row_defs in_job_scope_def)

lemma job_edit_trans: "job_edit False a b \<Longrightarrow> job_edit False b c \<Longrightarrow> job_edit False a c"
  unfolding job_edit_def using job_moves_trans by (auto dest: transpD)

lemma recover_edit: "list_all2 (job_edit False) db (fst (recover_expired now db))"
proof -
  let ?P = "\<lambda>r. lease_expired now r \<and> jb_attempts r < jb_max_attempts r"
  let ?db1 = "updated ?P (\<lambda>r. r\<lparr>jb_status := Pending, jb_worker_id := None, jb_lease_expires_at := None,
                  jb_available_at := now, jb_updated_at := now, jb_error_code := Some ''lease_expired''\<rparr>) db"
  have "list_all2 (job_edit False) db ?db1"
    by (rule list_all2_updated) (auto simp: job_row_defs lease_expired_def)
  moreover have "list_all2 (job_edit False) ?db1 (fst (recover_expired now db))"
    unfolding recover_expired_def Let_def fst_conv
    by (rule list_all2_updated) (auto simp: job_row_defs lease_expired_def)
  ultimately show ?thesis by (rule list_all2_trans [rotated 1]) (rule job_edit_trans)
qed

subsection \<open>The invariant of the queue\<close>

lemma list_all2_in2: "list_all2 R xs ys \<Longrightarrow> y \<in> set ys \<Longrightarrow> \<exists>x\<in>set xs. R x y"
  by (induction rule: list_all2_induct) auto

lemma list_all2_in1: "list_all2 R xs ys \<Longrightarrow> x \<in> set xs \<Longrightarrow> \<exists>y\<in>set ys. R x y"
  by (induction rule: list_all2_induct) auto

lemma job_clash_identity:
  "job_identity a = job_identity a' \<Longrightarrow> job_identity b = job_identity b' \<Longrightarrow> job_clash a b = job_clash a' b'"
  by (simp add: job_identity_def job_clash_def)

lemma job_unclashed_moves:
  assumes "list_all2 job_moves db db'" and "sorted_wrt (\<lambda>a b. \<not> job_clash b a) db"
  shows "sorted_wrt (\<lambda>a b. \<not> job_clash b a) db'"
proof -
  have len: "length db' = length db" using assms(1) by (simp add: list_all2_lengthD)
  have id: "job_identity (db' ! k) = job_identity (db ! k)" if "k < length db" for k
    using job_movesD(1) [OF list_all2_nthD [OF assms(1) that]] .
  show ?thesis unfolding sorted_wrt_iff_nth_less
  proof (intro allI impI)
    fix i j assume ij: "i < j" "j < length db'"
    then have "\<not> job_clash (db ! j) (db ! i)" using assms(2) len by (simp add: sorted_wrt_iff_nth_less)
    moreover have "job_clash (db' ! j) (db' ! i) = job_clash (db ! j) (db ! i)"
      by (rule job_clash_identity) (rule id; use ij len in simp)+
    ultimately show "\<not> job_clash (db' ! j) (db' ! i)" by simp
  qed
qed

lemma claim_of_moves: "claim_of j r \<Longrightarrow> job_moves r r' \<Longrightarrow> claim_of j r'"
proof -
  assume c: "claim_of j r" and m: "job_moves r r'"
  have "jb_job_id r' = cj_job_id j \<and> jb_max_attempts r' = cj_max_attempts j"
    using c job_movesD(1) [OF m] by (simp add: claim_of_def job_identity_def)
  moreover have "cj_lease_generation j \<le> jb_lease_generation r'"
    using c job_movesD(2) [OF m] by (simp add: claim_of_def)
  moreover have "jb_attempts r' = cj_attempts j \<and> jb_worker_id r' = Some (cj_worker_id j)"
    if "cj_lease_generation j = jb_lease_generation r'" "jb_status r' = Running"
  proof -
    have eq: "jb_lease_generation r' = jb_lease_generation r" "cj_lease_generation j = jb_lease_generation r"
      using c job_movesD(2) [OF m] that(1) by (auto simp: claim_of_def)
    with c job_movesD(4) [OF m eq(1) that(2)] show ?thesis by (simp add: claim_of_def)
  qed
  ultimately show "claim_of j r'" unfolding claim_of_def by blast
qed

lemma claims_kept:
  assumes "list_all2 job_moves db db'" and "list_all (\<lambda>j. list_ex (claim_of j) db) claims"
  shows "list_all (\<lambda>j. list_ex (claim_of j) db') claims"
  unfolding list_all_iff list_ex_iff
proof
  fix j assume "j \<in> set claims"
  with assms(2) obtain r where r: "r \<in> set db" "claim_of j r" by (auto simp: list_all_iff list_ex_iff)
  with list_all2_in1 [OF assms(1)] claim_of_moves show "Bex (set db') (claim_of j)" by blast
qed

lemma job_invD:
  assumes "job_inv w"
  shows "r \<in> set (jw_jobs w) \<Longrightarrow> job_ok r"
    and "sorted_wrt (\<lambda>a b. \<not> job_clash b a) (jw_jobs w)"
    and "list_all (\<lambda>j. list_ex (claim_of j) (jw_jobs w)) (jw_claims w)"
    and "distinct (map (\<lambda>j. (cj_job_id j, cj_lease_generation j)) (jw_claims w))"
    and "r \<in> set (jw_jobs w) \<Longrightarrow> int (length (claims_of (jb_job_id r) (jw_claims w))) = jb_lease_generation r"
    and "r \<in> set (jw_jobs w) \<Longrightarrow>
      jb_lease_generation r \<le> jb_attempts r + jb_max_attempts r * int (count_list (jw_retries w) (jb_job_id r))"
  using assms by (simp_all add: job_inv_def list_all_iff)

lemma job_edit_moves: "list_all2 (\<lambda>r. job_edit (P r) r) db db' \<Longrightarrow> list_all2 job_moves db db'"
  by (erule list_all2_mono) (simp add: job_edit_def)

lemma job_edit_inv:
  assumes inv: "job_inv w" and e: "list_all2 (\<lambda>r. job_edit (jb_job_id r \<in> set ids) r) (jw_jobs w) db"
    and "ids = [] \<or> ids = [i]"
  shows "job_inv (w\<lparr>jw_jobs := db, jw_retries := ids @ jw_retries w\<rparr>)"
proof -
  note m = job_edit_moves [OF e]
  have row: "job_ok r' \<and> int (length (claims_of (jb_job_id r') (jw_claims w))) = jb_lease_generation r'
      \<and> jb_lease_generation r' \<le> jb_attempts r' + jb_max_attempts r' * int (count_list (ids @ jw_retries w) (jb_job_id r'))"
    if r': "r' \<in> set db" for r'
  proof -
    from list_all2_in2 [OF e r'] obtain r where r: "r \<in> set (jw_jobs w)" and ed: "job_edit (jb_job_id r \<in> set ids) r r'" by blast
    have mv: "job_moves r r'" and ok: "job_ok r'" and g: "jb_lease_generation r' = jb_lease_generation r"
      and at: "jb_job_id r \<notin> set ids \<Longrightarrow> jb_attempts r' = jb_attempts r"
      using ed job_invD(1) [OF inv r] by (simp_all add: job_edit_def)
    have id: "jb_job_id r' = jb_job_id r" "jb_max_attempts r' = jb_max_attempts r"
      using job_movesD(1) [OF mv] by (simp_all add: job_identity_def)
    have "jb_lease_generation r \<le> jb_attempts r' + jb_max_attempts r * int (count_list (ids @ jw_retries w) (jb_job_id r))"
    proof (cases "jb_job_id r \<in> set ids")
      case False
      with at job_invD(6) [OF inv r] show ?thesis using assms(3) by auto
    next
      case True
      have "jb_attempts r \<le> jb_max_attempts r" "0 \<le> jb_attempts r'"
        using job_invD(1) [OF inv r] ok by (simp_all add: job_ok_def job_checks_def)
      moreover have "count_list (ids @ jw_retries w) (jb_job_id r) = Suc (count_list (jw_retries w) (jb_job_id r))"
        using True assms(3) by auto
      ultimately show ?thesis using job_invD(6) [OF inv r] by (simp add: algebra_simps)
    qed
    with ok g id job_invD(5) [OF inv r] show ?thesis by simp
  qed
  then show ?thesis
    using job_unclashed_moves [OF m job_invD(2) [OF inv]] claims_kept [OF m job_invD(3) [OF inv]] job_invD(4) [OF inv]
    by (simp add: job_inv_def list_all_iff)
qed

lemma job_edit_inv':
  assumes "job_inv w" and "list_all2 (job_edit False) (jw_jobs w) db"
  shows "job_inv (w\<lparr>jw_jobs := db\<rparr>)"
  using job_edit_inv [of w "[]" db] assms by simp

lemma job_ids_distinct: "sorted_wrt (\<lambda>a b. \<not> job_clash b a) db \<Longrightarrow> distinct (map jb_job_id db)"
  by (induction db) (auto simp: job_clash_def)

lemma same_job:
  assumes "job_inv w" "r \<in> set (jw_jobs w)" "x \<in> set (jw_jobs w)" "jb_job_id r = jb_job_id x"
  shows "r = x"
  using job_ids_distinct [OF job_invD(2) [OF assms(1)]] assms(2-4) by (auto simp: distinct_map dest: inj_onD)

lemma claim_row:
  assumes "job_inv w" "j \<in> set (jw_claims w)" "r \<in> set (jw_jobs w)" "jb_job_id r = cj_job_id j"
  shows "claim_of j r"
proof -
  from job_invD(3) [OF assms(1)] assms(2) obtain x where x: "x \<in> set (jw_jobs w)" "claim_of j x"
    by (auto simp: list_all_iff list_ex_iff)
  with assms(4) have "jb_job_id r = jb_job_id x" by (simp add: claim_of_def)
  with same_job [OF assms(1,3) x(1)] x(2) show ?thesis by simp
qed

lemma inserted_inv:
  assumes inv: "job_inv w" and ok: "create_args_ok owner project kind payload key m"
    and ins: "insert_unique job_clash (new_job now i owner project kind pj key m) (jw_jobs w) = Some db"
  shows "job_inv (w\<lparr>jw_jobs := db\<rparr>)"
proof -
  let ?r = "new_job now i owner project kind pj key m"
  from insert_unique_Some [OF ins] have db: "db = jw_jobs w @ [?r]" and new: "\<forall>x\<in>set (jw_jobs w). \<not> job_clash ?r x" by simp_all
  have "job_ok ?r" using ok by (auto simp: job_ok_def job_checks_def new_job_def create_args_ok_def)
  moreover have "claims_of (jb_job_id ?r) (jw_claims w) = []"
  proof -
    have "cj_job_id j \<noteq> jb_job_id ?r" if "j \<in> set (jw_claims w)" for j
    proof -
      from job_invD(3) [OF inv] that obtain x where "x \<in> set (jw_jobs w)" "claim_of j x" by (auto simp: list_all_iff list_ex_iff)
      with new show ?thesis by (auto simp: claim_of_def job_clash_def)
    qed
    then show ?thesis by (auto simp: claims_of_def filter_empty_conv)
  qed
  moreover have "sorted_wrt (\<lambda>a b. \<not> job_clash b a) db"
    using job_invD(2) [OF inv] new by (simp add: db sorted_wrt_append)
  moreover have "jb_lease_generation ?r = 0" "jb_attempts ?r = 0" "0 \<le> jb_max_attempts ?r"
    using ok by (simp_all add: new_job_def create_args_ok_def)
  ultimately show ?thesis using job_invD [OF inv] by (auto simp: job_inv_def list_all_iff list_ex_iff db)
qed

lemma claim_values_moves:
  assumes "jb_status r = Pending"
  shows "job_moves r (claim_values now lease worker r)"
  using assms by (simp add: job_moves_def job_identity_def claim_values_def)

lemma claim_values_ok:
  assumes "job_ok r" "jb_status r = Pending"
  shows "job_ok (claim_values now lease worker r)"
  using assms by (simp add: job_ok_def job_checks_def claim_values_def)

lemma updated_one:
  assumes "distinct (map key t)" "r \<in> set t" "G r"
  shows "updated (\<lambda>x. key x = key r \<and> G x) f t = map (\<lambda>x. if x = r then f r else x) t"
proof -
  have "x = r" if "x \<in> set t" "key x = key r" for x
    using assms(1,2) that by (auto simp: distinct_map dest: inj_onD)
  with assms(3) show ?thesis by (auto simp: updated_def)
qed

lemma claimed_inv:
  assumes inv: "job_inv w" and c: "claim_update now lease worker i (jw_jobs w) = (db, c)"
  shows "job_inv (w\<lparr>jw_jobs := db, jw_claims := hand_out c (jw_claims w)\<rparr>)"
proof (cases "\<exists>r\<in>set (jw_jobs w). jb_job_id r = i \<and> jb_status r = Pending")
  case False
  then have "select_where (\<lambda>r. jb_job_id r = i \<and> jb_status r = Pending) (jw_jobs w) = []"
    by (auto simp: select_where_def filter_empty_conv)
  with False c have "c = None" "db = jw_jobs w" by (auto simp: claim_update_def scalar_def)
  with inv show ?thesis by (simp add: hand_out_def)
next
  case True
  then obtain r where r: "r \<in> set (jw_jobs w)" "jb_job_id r = i" "jb_status r = Pending" by blast
  let ?r = "claim_values now lease worker r" and ?j = "claimed worker (claim_values now lease worker r)"
  note distinct = job_ids_distinct [OF job_invD(2) [OF inv]]
  have "filter (\<lambda>x. jb_job_id x = i \<and> jb_status x = Pending) (jw_jobs w) = filter (\<lambda>x. jb_status x = Pending) [r]"
    using distinct_filter_key [OF distinct r(1)] r(2) by (metis (no_types, lifting) filter_cong filter_filter)
  then have sel: "select_where (\<lambda>x. jb_job_id x = i \<and> jb_status x = Pending) (jw_jobs w) = [r]"
    by (simp add: select_where_def r(3))
  have db: "db = map (\<lambda>x. if x = r then ?r else x) (jw_jobs w)" and cj: "c = Some ?j"
    using c sel updated_one [OF distinct r(1), of "\<lambda>x. jb_status x = Pending"] r(2,3)
    by (auto simp: claim_update_def scalar_def)
  have mv: "list_all2 job_moves (jw_jobs w) db"
    using claim_values_moves [OF r(3)] reflpD [OF job_moves_refl] by (simp add: db list_all2_conv_all_nth)
  have rid: "jb_job_id ?r = i" "jb_lease_generation ?r = jb_lease_generation r + 1" "jb_attempts ?r = jb_attempts r + 1"
    "jb_max_attempts ?r = jb_max_attempts r"
    by (simp_all add: claim_values_def r(2))
  have rdb: "?r \<in> set db" using r(1) by (force simp: db)
  have jn: "cj_job_id ?j = i" "cj_lease_generation ?j = jb_lease_generation r + 1" "claim_of ?j ?r"
    by (simp_all add: claimed_def rid claim_of_def) (simp add: claim_values_def)
  have old: "cj_lease_generation j \<le> jb_lease_generation r" if "j \<in> set (jw_claims w)" "cj_job_id j = i" for j
    using claim_row [OF inv that(1) r(1)] that(2) r(2) by (simp add: claim_of_def)
  have claims: "list_all (\<lambda>j. list_ex (claim_of j) db) (?j # jw_claims w)"
    using claims_kept [OF mv job_invD(3) [OF inv]] jn(3) rdb by (auto simp: list_ex_iff)
  have dist: "distinct (map (\<lambda>j. (cj_job_id j, cj_lease_generation j)) (?j # jw_claims w))"
    using job_invD(4) [OF inv] old jn by fastforce
  have row: "job_ok x' \<and> int (length (claims_of (jb_job_id x') (?j # jw_claims w))) = jb_lease_generation x'
      \<and> jb_lease_generation x' \<le> jb_attempts x' + jb_max_attempts x' * int (count_list (jw_retries w) (jb_job_id x'))"
    if "x' \<in> set db" for x'
  proof (cases "x' = ?r")
    case True
    then show ?thesis
      using claim_values_ok [OF job_invD(1) [OF inv r(1)] r(3)] job_invD(5,6) [OF inv r(1)]
      by (simp add: rid jn claims_of_def r(2))
  next
    case False
    with that have x': "x' \<in> set (jw_jobs w)" "x' \<noteq> r" by (auto simp: db split: if_splits)
    then have "jb_job_id x' \<noteq> i" using same_job [OF inv x'(1) r(1)] r(2) by auto
    with job_invD(1,5,6) [OF inv x'(1)] show ?thesis by (simp add: claims_of_def jn)
  qed
  show ?thesis
    using job_unclashed_moves [OF mv job_invD(2) [OF inv]] claims dist row
    by (simp add: job_inv_def list_all_iff cj hand_out_def)
qed

lemma job_step_inv: "job_step w w' \<Longrightarrow> job_inv w \<Longrightarrow> job_inv w'"
proof (induction rule: job_step.induct)
  case (job_failed j w b now e rt)
  have "jb_max_attempts r = cj_max_attempts j" if "r \<in> set (jw_jobs w)" "jb_job_id r = cj_job_id j" for r
    using claim_row [OF job_failed(2,1) that] by (simp add: claim_of_def)
  then show ?case by (rule job_edit_inv' [OF job_failed(2) fail_edit])
next
  case (job_retried w i now owner project)
  have "list_all2 (\<lambda>r. job_edit (jb_job_id r \<in> set [i]) r) (jw_jobs w) (fst (retry_job now owner project i (jw_jobs w)))"
    using retry_edit [of i "jw_jobs w" now owner project] by simp
  from job_edit_inv [OF job_retried this] show ?case by simp
qed (auto intro: inserted_inv claimed_inv job_edit_inv' heartbeat_edit recover_edit succeed_edit cancel_edit)

lemma job_steps_inv: "job_step\<^sup>*\<^sup>* w w' \<Longrightarrow> job_inv w \<Longrightarrow> job_inv w'"
  by (induction rule: rtranclp_induct) (auto intro: job_step_inv)

lemma job_reachable_inv: "job_reachable w \<Longrightarrow> job_inv w"
  unfolding job_reachable_def by (erule job_steps_inv) (simp add: job_start_def job_inv_def)

subsection \<open>The queue as a durable ledger\<close>

lemma follows_list_all2: "list_all2 moves t t' \<Longrightarrow> ledger_follows moves t t'"
  by (simp add: ledger_follows_def list_all2_conv_all_nth)

lemmas job_follows_updated = ledger_follows_updated [OF job_moves_refl]
lemmas job_edit_follows = follows_list_all2 [OF job_edit_moves [where P = "\<lambda>r. False"]]

lemma job_step_follows: "job_step w w' \<Longrightarrow> ledger_follows job_moves (jw_jobs w) (jw_jobs w')"
proof (induction rule: job_step.induct)
  case (job_inserted owner project kind payload key m now i payload_json w db)
  then show ?case using insert_unique_Some by (fastforce intro: ledger_follows_append [OF job_moves_refl])
next
  case (job_claimed now lease worker i w db c)
  then have "db = updated (\<lambda>r. jb_job_id r = i \<and> jb_status r = Pending) (claim_values now lease worker) (jw_jobs w)"
    by (simp add: claim_update_def Let_def)
  then show ?case by (auto intro!: job_follows_updated claim_values_moves)
next
  case (job_failed j w b now e rt)
  then show ?case
    by (auto simp: fail_job_def ledger_follows_refl [OF job_moves_refl] intro!: job_follows_updated)
      (auto simp: job_moves_def job_identity_def holds_lease_def fail_values_def fail_outcome_def)
next
  case (job_retried w i now owner project)
  then show ?case using follows_list_all2 [OF job_edit_moves [OF retry_edit]] by simp
qed (simp_all add: job_edit_follows heartbeat_edit recover_edit succeed_edit cancel_edit)

interpretation job_ledger: durable_ledger jw_jobs jb_job_id job_moves job_step
proof unfold_locales
  show "jb_job_id r' = jb_job_id r" if "job_moves r r'" for r r'
    using job_movesD(1) [OF that] by (simp add: job_identity_def)
qed (rule job_moves_refl job_moves_trans job_step_follows; assumption?)+

lemma superseded_claim:
  assumes "job_inv w" and "j \<in> set (jw_claims w)" "j' \<in> set (jw_claims w)"
    and "cj_job_id j' = cj_job_id j" "cj_lease_generation j < cj_lease_generation j'" and "r \<in> set (jw_jobs w)"
  shows "\<not> holds_lease j now r"
proof
  assume h: "holds_lease j now r"
  with claim_row [OF assms(1,3,6)] assms(4,5) show False by (simp add: holds_lease_def claim_of_def)
qed

text \<open>
  C14: A worker whose job was handed out again is fenced off: once a later claim of the same job
  exists, the heartbeat, the success and the failure of the earlier claim change nothing and
  report that the lease is lost, in every state the queue can reach.
\<close>

theorem stale_worker_fenced:
  assumes "job_reachable w" and "j \<in> set (jw_claims w)" "j' \<in> set (jw_claims w)"
    and "cj_job_id j' = cj_job_id j" and "cj_lease_generation j < cj_lease_generation j'"
  shows "heartbeat s now j (jw_jobs w) = (jw_jobs w, False)
    \<and> succeed_job scan now j v (jw_jobs w) \<in> {(jw_jobs w, Inl InvalidJob), (jw_jobs w, Inr False)}
    \<and> fail_job b now j e retryable (jw_jobs w) \<in> {(jw_jobs w, Inl InvalidJob), (jw_jobs w, Inr False)}"
proof -
  have no: "\<not> holds_lease j now r" if "r \<in> set (jw_jobs w)" for r
    by (rule superseded_claim [OF job_reachable_inv [OF assms(1)] assms(2-5) that])
  then have "rowcount (holds_lease j now) (jw_jobs w) = 0" by (simp add: rowcount_zero)
  with no show ?thesis
    by (simp add: heartbeat_def succeed_job_def fail_job_def split: option.split)
qed

text \<open>A job whose first worker stalls: the lease expires, and the job is handed to a second one.\<close>

definition demo_job :: job_row where
  "demo_job = new_job 100 ''j1'' ''u'' ''p'' ''echo'' ''{}'' (Some ''k'') 3"

definition demo_claim :: claimed_job where
  "demo_claim = claimed ''w1'' (claim_values 100 130 ''w1'' demo_job)"

definition demo_recovered :: job_db where
  "demo_recovered = fst (recover_expired 200 [claim_values 100 130 ''w1'' demo_job])"

definition demo_reclaim :: claimed_job where
  "demo_reclaim = claimed ''w2'' (claim_values 200 230 ''w2'' (hd demo_recovered))"

definition demo_jobs :: job_world where
  "demo_jobs = \<lparr>jw_jobs = [claim_values 200 230 ''w2'' (hd demo_recovered)], jw_claims = [demo_reclaim, demo_claim], jw_retries = []\<rparr>"

lemmas demo_job_defs = demo_job_def demo_claim_def demo_recovered_def demo_reclaim_def new_job_def claimed_def
  claim_values_def recover_expired_def lease_expired_def Let_def updated_def

lemma demo_args_ok: "create_args_ok ''u'' ''p'' ''echo'' [] (Some ''k'') 3"
  by (simp add: create_args_ok_def JOB_SAFE_ID_def SAFE_ID_def ascii_alnum_def ascii_lower_def ALLOWED_JOB_KINDS_def)

lemma demo_jobs_reachable:
  "job_reachable \<lparr>jw_jobs = [demo_job], jw_claims = [], jw_retries = []\<rparr>"
  "job_reachable \<lparr>jw_jobs = [claim_values 100 130 ''w1'' demo_job], jw_claims = [demo_claim], jw_retries = []\<rparr>"
  "job_reachable demo_jobs"
proof -
  have "job_step job_start \<lparr>jw_jobs = [demo_job], jw_claims = [], jw_retries = []\<rparr>"
    using job_step.job_inserted [OF demo_args_ok, of 100 "''j1''" "''{}''" job_start "[demo_job]"]
    by (simp add: job_start_def insert_unique_def demo_job_def)
  then show 1: "job_reachable \<lparr>jw_jobs = [demo_job], jw_claims = [], jw_retries = []\<rparr>" by (simp add: job_reachable_def)
  have "job_step \<lparr>jw_jobs = [demo_job], jw_claims = [], jw_retries = []\<rparr>
      \<lparr>jw_jobs = [claim_values 100 130 ''w1'' demo_job], jw_claims = [demo_claim], jw_retries = []\<rparr>"
    using job_step.job_claimed [of 100 130 "''w1''" "''j1''" "\<lparr>jw_jobs = [demo_job], jw_claims = [], jw_retries = []\<rparr>"]
    by (simp add: claim_update_def demo_claim_def demo_job_def new_job_def updated_def select_where_def scalar_def hand_out_def)
  with 1 show 2: "job_reachable \<lparr>jw_jobs = [claim_values 100 130 ''w1'' demo_job], jw_claims = [demo_claim], jw_retries = []\<rparr>"
    by (auto simp: job_reachable_def intro: rtranclp.rtrancl_into_rtrancl)
  have "job_step \<lparr>jw_jobs = [claim_values 100 130 ''w1'' demo_job], jw_claims = [demo_claim], jw_retries = []\<rparr>
      \<lparr>jw_jobs = demo_recovered, jw_claims = [demo_claim], jw_retries = []\<rparr>" (is "job_step ?a ?b")
    using job_step.job_recovered [of ?a 200] by (simp add: demo_recovered_def)
  with 2 have 3: "job_reachable ?b" by (auto simp: job_reachable_def intro: rtranclp.rtrancl_into_rtrancl)
  have "job_step ?b demo_jobs"
    using job_step.job_claimed [of 200 230 "''w2''" "''j1''" ?b]
    by (simp add: claim_update_def demo_jobs_def select_where_def scalar_def hand_out_def demo_job_defs)
  with 3 show "job_reachable demo_jobs" by (auto simp: job_reachable_def intro: rtranclp.rtrancl_into_rtrancl)
qed

theorem stale_worker_fenced_witness:
  "heartbeat 30 210 demo_claim (jw_jobs demo_jobs) = (jw_jobs demo_jobs, False)"
  by (rule stale_worker_fenced [THEN conjunct1, OF demo_jobs_reachable(3), of _ demo_reclaim])
    (simp_all add: demo_jobs_def demo_job_defs)

text \<open>
  C33: Every row of the queue meets the CHECK constraints of its table in every reachable state; a
  pending row has attempts left, and a row carries a result exactly when its job succeeded.
\<close>

theorem job_rows_well_formed:
  assumes "job_reachable w" and "r \<in> set (jw_jobs w)"
  shows "job_checks r \<and> (jb_status r = Pending \<longrightarrow> jb_attempts r < jb_max_attempts r)
    \<and> (jb_result_json r \<noteq> None \<longleftrightarrow> jb_status r = Succeeded_Job)"
  using job_invD(1) [OF job_reachable_inv [OF assms(1)] assms(2)] by (simp add: job_ok_def)

theorem job_rows_well_formed_witness: "job_checks (claim_values 200 230 ''w2'' (hd demo_recovered))"
  by (rule job_rows_well_formed [THEN conjunct1, OF demo_jobs_reachable(3)]) (simp add: demo_jobs_def)

text \<open>
  The number of times a job is handed to a worker is at most its \<open>max_attempts\<close>, once for its
  creation and once more for every time its owner retries it; every claim is a new lease generation.
\<close>

theorem job_executions_bounded:
  assumes "job_reachable w" and "r \<in> set (jw_jobs w)"
  shows "int (length (claims_of (jb_job_id r) (jw_claims w)))
      \<le> jb_max_attempts r * (1 + int (count_list (jw_retries w) (jb_job_id r)))
    \<and> distinct (map cj_lease_generation (claims_of (jb_job_id r) (jw_claims w)))"
proof
  note inv = job_reachable_inv [OF assms(1)]
  have "jb_attempts r \<le> jb_max_attempts r" using job_invD(1) [OF inv assms(2)] by (simp add: job_ok_def job_checks_def)
  with job_invD(5,6) [OF inv assms(2)]
  show "int (length (claims_of (jb_job_id r) (jw_claims w)))
      \<le> jb_max_attempts r * (1 + int (count_list (jw_retries w) (jb_job_id r)))" by (simp add: algebra_simps)
  show "distinct (map cj_lease_generation (claims_of (jb_job_id r) (jw_claims w)))"
    using job_invD(4) [OF inv] by (auto simp: claims_of_def distinct_map inj_on_def)
qed

theorem job_executions_bounded_witness:
  "int (length (claims_of ''j1'' (jw_claims demo_jobs))) \<le> 3 \<and> length (claims_of ''j1'' (jw_claims demo_jobs)) = 2"
  using job_executions_bounded [OF demo_jobs_reachable(3), of "claim_values 200 230 ''w2'' (hd demo_recovered)"]
  by (simp add: demo_jobs_def demo_job_defs claims_of_def)

text \<open>
  A succeeded or cancelled job is final: whatever the workers, their owners and recovery do
  afterwards, its row stays in the table exactly as it is.
\<close>

theorem job_outcome_is_final:
  assumes "job_step\<^sup>*\<^sup>* w w'" and "r \<in> set (jw_jobs w)" and "jb_status r \<in> {Succeeded_Job, Cancelled_Job}"
  shows "r \<in> set (jw_jobs w')"
  using job_ledger.row_moves [OF assms(1,2)] job_movesD(3) assms(3) by metis

definition demo_cancelled :: job_world where
  "demo_cancelled = demo_jobs\<lparr>jw_jobs := fst (cancel_job 205 ''u'' ''p'' ''j1'' (jw_jobs demo_jobs))\<rparr>"

theorem job_outcome_is_final_witness:
  "hd (jw_jobs demo_cancelled) \<in> set (fst (retry_job 210 ''u'' ''p'' ''j1'' (jw_jobs demo_cancelled)))"
proof -
  have "job_step\<^sup>*\<^sup>* demo_cancelled (demo_cancelled\<lparr>jw_jobs := fst (retry_job 210 ''u'' ''p'' ''j1'' (jw_jobs demo_cancelled)),
      jw_retries := ''j1'' # jw_retries demo_cancelled\<rparr>)"
    by (rule r_into_rtranclp) (rule job_step.job_retried)
  from job_outcome_is_final [OF this, of "hd (jw_jobs demo_cancelled)"] show ?thesis
    by (simp add: demo_cancelled_def demo_jobs_def cancel_job_def in_job_scope_def demo_job_defs)
qed

subsection \<open>Creating and recovering jobs\<close>

definition carries_key :: "job_row \<Rightarrow> job_row \<Rightarrow> bool" where
  "carries_key r e =
     (jb_owner_id e = jb_owner_id r \<and> jb_project_id e = jb_project_id r \<and> jb_idempotency_key e = jb_idempotency_key r
      \<and> jb_kind e = jb_kind r \<and> jb_payload_json e = jb_payload_json r \<and> jb_max_attempts e = jb_max_attempts r)"

lemma existing_job_Some:
  "existing_job owner project key db = Some e \<Longrightarrow>
     e \<in> set db \<and> jb_owner_id e = owner \<and> jb_project_id e = project \<and> jb_idempotency_key e = key \<and> key \<noteq> None"
  by (auto simp: existing_job_def split: if_splits dest!: scalar_select_Some)

lemma existing_view_Inr:
  "existing_view kind pj m e = Inr v \<Longrightarrow> v = view_job e \<and> jb_kind e = kind \<and> jb_payload_json e = pj \<and> jb_max_attempts e = m"
  by (auto simp: existing_view_def split: if_splits)

text \<open>A successful creation leaves a row with the caller's key and arguments, and returns its view.\<close>

lemma created_row:
  assumes "create_row between later r db = (db', Inr v)"
  shows "\<exists>e\<in>set db'. carries_key r e \<and> v = view_job e"
proof (cases "existing_job (jb_owner_id r) (jb_project_id r) (jb_idempotency_key r) db")
  case (Some e)
  with assms existing_job_Some [OF Some] show ?thesis
    by (auto simp: create_row_def carries_key_def dest!: existing_view_Inr)
next
  case None
  show ?thesis
  proof (cases "insert_unique job_clash r (between db)")
    case (Some db2)
    with None assms insert_unique_Some [OF Some] show ?thesis by (auto simp: create_row_def Let_def carries_key_def)
  next
    case ins: None
    with None assms show ?thesis
      by (auto simp: create_row_def Let_def carries_key_def split: option.splits dest!: existing_view_Inr existing_job_Some)
  qed
qed

lemma key_unique:
  assumes "sorted_wrt (\<lambda>a b. \<not> job_clash b a) db" "a \<in> set db" "b \<in> set db"
    and "jb_owner_id a = jb_owner_id b" "jb_project_id a = jb_project_id b" "jb_idempotency_key a = jb_idempotency_key b"
    and "jb_idempotency_key a \<noteq> None"
  shows "a = b"
  using assms by (induction db) (auto simp: job_clash_def)

lemma view_job_id [simp]: "jv_job_id (view_job e) = jb_job_id e"
  by (simp add: view_job_def)

text \<open>
  An idempotency key names one job: after a creation under a key succeeded, every later
  creation with the same scope, key and arguments returns the same job and writes nothing,
  whatever happened to the job in between and whatever else runs concurrently.
\<close>

theorem create_is_idempotent:
  assumes "create_job scan now i between later owner project kind payload (Some k) m db = (jw_jobs w1, Inr v)"
    and "job_reachable w1" and "job_step\<^sup>*\<^sup>* w1 w2"
  shows "\<exists>v'. create_job scan now' i' between' later' owner project kind payload (Some k) m (jw_jobs w2) = (jw_jobs w2, Inr v')
    \<and> jv_job_id v' = jv_job_id v"
proof -
  from assms(1) obtain pj where args: "create_args_ok owner project kind payload (Some k) m"
    and pj: "safe_json scan MAX_PAYLOAD_BYTES False (JObj payload) = Some pj"
    and row: "create_row between later (new_job now i owner project kind pj (Some k) m) db = (jw_jobs w1, Inr v)"
    by (auto simp: create_job_def split: if_splits option.splits)
  let ?r = "new_job now i owner project kind pj (Some k) m"
  from created_row [OF row] obtain e where e: "e \<in> set (jw_jobs w1)" "carries_key ?r e" "v = view_job e" by blast
  from job_ledger.row_moves [OF assms(3) e(1)] obtain e' where e': "e' \<in> set (jw_jobs w2)" "job_moves e e'" by blast
  have id: "job_identity e' = job_identity e" by (rule job_movesD(1) [OF e'(2)])
  with e(2) have ck: "carries_key ?r e'" by (simp add: carries_key_def job_identity_def)
  have sorted: "sorted_wrt (\<lambda>a b. \<not> job_clash b a) (jw_jobs w2)"
    by (rule job_invD(2) [OF job_steps_inv [OF assms(3) job_reachable_inv [OF assms(2)]]])
  obtain x where x: "existing_job owner project (Some k) (jw_jobs w2) = Some x"
    using e'(1) ck by (cases "existing_job owner project (Some k) (jw_jobs w2)")
      (auto simp: existing_job_def carries_key_def new_job_def select_where_def filter_empty_conv)
  have "x = e'"
    by (rule key_unique [OF sorted]) (use existing_job_Some [OF x] e'(1) ck in \<open>simp_all add: carries_key_def new_job_def\<close>)
  with x ck have "create_row between' later' (new_job now' i' owner project kind pj (Some k) m) (jw_jobs w2)
      = (jw_jobs w2, Inr (view_job e'))"
    by (simp add: create_row_def existing_view_def carries_key_def new_job_def)
  with args pj e(3) id show ?thesis by (simp add: create_job_def job_identity_def)
qed

lemma demo_create:
  "create_job (\<lambda>v. Some (v, 0)) 100 ''j1'' id id ''u'' ''p'' ''echo'' [] (Some ''k'') 3 [] = ([demo_job], Inr (view_job demo_job))"
proof -
  have "dumps_ascii (JObj []) = ''{}''" by (simp add: dumps_ascii_def ascii_only_def)
  then show ?thesis using demo_args_ok
    by (simp add: create_job_def safe_json_def MAX_PAYLOAD_BYTES_def create_row_def existing_job_def select_where_def
        scalar_def insert_unique_def demo_job_def new_job_def)
qed

theorem create_is_idempotent_witness:
  "\<exists>v'. create_job (\<lambda>v. Some (v, 0)) 300 ''j9'' id id ''u'' ''p'' ''echo'' [] (Some ''k'') 3 [demo_job] = ([demo_job], Inr v')
    \<and> jv_job_id v' = ''j1''"
  using create_is_idempotent [OF _ demo_jobs_reachable(1) rtranclp.rtrancl_refl, of _ 100 "''j1''" id id "''u''" "''p''" "''echo''"
      "[]" "''k''" 3 "[]" "view_job demo_job" 300 "''j9''" id id] demo_create
  by (simp add: demo_job_def new_job_def)

lemma recovered_rows:
  "fst (recover_expired now db) = map (\<lambda>r. if \<not> lease_expired now r then r
     else if jb_attempts r < jb_max_attempts r
     then r\<lparr>jb_status := Pending, jb_worker_id := None, jb_lease_expires_at := None, jb_available_at := now,
            jb_updated_at := now, jb_error_code := Some ''lease_expired''\<rparr>
     else r\<lparr>jb_status := DeadLetter, jb_worker_id := None, jb_lease_expires_at := None, jb_completed_at := Some now,
            jb_updated_at := now, jb_error_code := Some ''lease_expired''\<rparr>) db"
  by (auto simp: recover_expired_def Let_def updated_def lease_expired_def)

lemma claim_candidate_Some:
  assumes "r \<in> set db" "jb_status r = Pending" "jb_available_at r \<le> now" "jb_attempts r < jb_max_attempts r"
  obtains x where "x \<in> set db" "jb_status x = Pending" "claim_candidate tie now db = Some (jb_job_id x)"
    "(jb_available_at x, jb_created_at x, tie x) \<le> (jb_available_at r, jb_created_at r, tie r)"
proof -
  let ?P = "\<lambda>r. jb_status r = Pending \<and> jb_available_at r \<le> now \<and> jb_attempts r < jb_max_attempts r"
  let ?k = "\<lambda>r. (jb_available_at r, jb_created_at r, tie r)"
  obtain x xs where s: "sort_key ?k (filter ?P db) = x # xs"
    using assms by (cases "sort_key ?k (filter ?P db)") (auto simp: filter_empty_conv dest!: arg_cong [of _ _ set])
  have "x \<in> set (sort_key ?k (filter ?P db))" by (simp add: s)
  then have x: "x \<in> set db" "?P x" by simp_all
  have "r \<in> set (x # xs)" using assms by (simp add: s [symmetric])
  moreover have "sorted (map ?k (x # xs))" unfolding s [symmetric] by (rule sorted_sort_key)
  ultimately have "?k x \<le> ?k r" by auto
  with x s that show thesis by (simp add: claim_candidate_def select_where_def scalar_def)
qed



end
