(* ===== verification/Job_Worker.thy ===== *)
theory Job_Worker
  imports Task_Queue Durable_Calls
begin

text \<open>
  The worker loop (\<open>workers/jobs.py\<close>): one iteration \<open>run_once\<close> recovers expired leases, claims a
  job, runs its handler under heartbeats and a deadline, and records the outcome. Every call of
  the queue is a \<open>repository_call\<close>: other processes run before it, and the call itself may be lost
  before or after its commit, which the worker sees as an exception. What the handler does and
  when the clock advances is a list of rounds of the waiting loop.
\<close>

datatype handler_end =
    HReturned json
  | HCancelled
  | HPermanent string
  | HTimeout
  | HException

datatype wait_end = WaitDone handler_end | WaitTimeout | WaitCancelled

text \<open>One round: the loop's clock before and after waiting, how the wait ended, and the heartbeat.\<close>

record round =
  rd_time :: timestamp
  rd_wait :: wait_end
  rd_time_after :: timestamp
  rd_heartbeat :: "job_db call_env"

datatype handler_result =
    RReturned json
  | RHandlerCancelled
  | RPermanent string
  | RTimeout
  | RException
  | RShutdown

definition LEASE_LOST :: string where "LEASE_LOST = ''job_lease_lost''"

definition task_result :: "handler_end \<Rightarrow> handler_result" where
  "task_result h = (case h of HReturned v \<Rightarrow> RReturned v | HCancelled \<Rightarrow> RHandlerCancelled
     | HPermanent m \<Rightarrow> RPermanent m | HTimeout \<Rightarrow> RTimeout | HException \<Rightarrow> RException)"

definition heartbeat_call :: "int \<Rightarrow> claimed_job \<Rightarrow> timestamp \<Rightarrow> job_db \<Rightarrow> job_db \<times> (job_error + bool)" where
  "heartbeat_call s j now db = (case heartbeat s now j db of (db', ok) \<Rightarrow> (db', Inr ok))"

text \<open>
  \<open>_run_with_heartbeat\<close>: the table, the outcome, and whether the handler's task was left running
  (neither finished nor cancelled). None: the rounds end before the loop does.
\<close>

fun run_with_heartbeat ::
  "int \<Rightarrow> timestamp \<Rightarrow> claimed_job \<Rightarrow> round list \<Rightarrow> job_db \<Rightarrow> (job_db \<times> handler_result \<times> bool) option" where
  "run_with_heartbeat s deadline j [] db = None"
| "run_with_heartbeat s deadline j (rd # rds) db =
     (if deadline - rd_time rd \<le> 0 then Some (db, RTimeout, False)
      else
        (case rd_wait rd of
           WaitCancelled \<Rightarrow> Some (db, RShutdown, False)
         | WaitDone h \<Rightarrow> Some (db, task_result h, False)
         | WaitTimeout \<Rightarrow>
             if rd_time_after rd \<ge> deadline then Some (db, RTimeout, False)
             else
               (case repository_call (rd_heartbeat rd) (heartbeat_call s j) db of
                  (db', Inl e) \<Rightarrow> Some (db', RException, True)
                | (db', Inr False) \<Rightarrow> Some (db', RPermanent LEASE_LOST, False)
                | (db', Inr True) \<Rightarrow> run_with_heartbeat s deadline j rds db')))"

datatype queue_call = OnRecover | OnClaim | OnSucceed | OnFail

record worker_env =
  we_call :: "queue_call \<Rightarrow> job_db call_env"
  we_between :: "job_db \<Rightarrow> job_db"
  we_tie :: "job_row \<Rightarrow> nat"
  we_scan :: "json \<Rightarrow> (json \<times> nat) option"
  we_start :: timestamp
  we_rounds :: "round list"

record worker =
  wk_worker_id :: string
  wk_kinds :: "string list"
  wk_handler_timeout :: int
  wk_lease_seconds :: int
  wk_backoff :: int

text \<open>How \<open>run_once\<close> ends: its answer, the shutdown of the worker, or an exception for the caller.\<close>

datatype iteration = Answered bool | ShutDown | IterationFailed

record worker_result =
  wr_db :: job_db
  wr_end :: iteration
  wr_claim :: "claimed_job option"
  wr_handler_left :: bool

definition recover_call :: "timestamp \<Rightarrow> job_db \<Rightarrow> job_db \<times> (job_error + nat)" where
  "recover_call now db = (case recover_expired now db of (db', n) \<Rightarrow> (db', Inr n))"

definition record_fail ::
  "worker \<Rightarrow> worker_env \<Rightarrow> claimed_job \<Rightarrow> bool \<Rightarrow> string \<Rightarrow> bool \<Rightarrow> job_db \<Rightarrow> worker_result" where
  "record_fail wk en j left code retryable db =
     (case repository_call (we_call en OnFail) (\<lambda>now. fail_job (wk_backoff wk) now j code retryable) db of
        (db', Inl e) \<Rightarrow> \<lparr>wr_db = db', wr_end = IterationFailed, wr_claim = Some j, wr_handler_left = left\<rparr>
      | (db', Inr b) \<Rightarrow> \<lparr>wr_db = db', wr_end = Answered True, wr_claim = Some j, wr_handler_left = left\<rparr>)"

text \<open>The \<open>try\<close> statement after the claim; an exception of \<open>succeed\<close> is one of the handler's.\<close>

definition record_outcome ::
  "worker \<Rightarrow> worker_env \<Rightarrow> claimed_job \<Rightarrow> handler_result \<Rightarrow> bool \<Rightarrow> job_db \<Rightarrow> worker_result" where
  "record_outcome wk en j res left db =
     (case res of
        RReturned v \<Rightarrow>
          (case repository_call (we_call en OnSucceed) (\<lambda>now. succeed_job (we_scan en) now j v) db of
             (db', Inl e) \<Rightarrow> record_fail wk en j left ''handler_failed'' True db'
           | (db', Inr b) \<Rightarrow> \<lparr>wr_db = db', wr_end = Answered True, wr_claim = Some j, wr_handler_left = left\<rparr>)
      | RShutdown \<Rightarrow> \<lparr>wr_db = db, wr_end = ShutDown, wr_claim = Some j, wr_handler_left = left\<rparr>
      | RHandlerCancelled \<Rightarrow> record_fail wk en j left ''handler_cancelled'' True db
      | RPermanent m \<Rightarrow>
          if m \<noteq> LEASE_LOST then record_fail wk en j left ''handler_rejected'' False db
          else \<lparr>wr_db = db, wr_end = Answered True, wr_claim = Some j, wr_handler_left = left\<rparr>
      | RTimeout \<Rightarrow> record_fail wk en j left ''job_timeout'' True db
      | RException \<Rightarrow> record_fail wk en j left ''handler_failed'' True db)"

text \<open>None: the rounds end before the waiting loop does.\<close>

definition run_once :: "worker \<Rightarrow> worker_env \<Rightarrow> job_db \<Rightarrow> worker_result option" where
  "run_once wk en db =
     (case repository_call (we_call en OnRecover) recover_call db of
        (db1, Inl e) \<Rightarrow> Some \<lparr>wr_db = db1, wr_end = IterationFailed, wr_claim = None, wr_handler_left = False\<rparr>
      | (db1, Inr n) \<Rightarrow>
          (case repository_call (we_call en OnClaim)
                  (\<lambda>now. claim_job (we_tie en) (wk_lease_seconds wk) now (we_between en) (wk_worker_id wk)) db1 of
             (db2, Inl e) \<Rightarrow> Some \<lparr>wr_db = db2, wr_end = IterationFailed, wr_claim = None, wr_handler_left = False\<rparr>
           | (db2, Inr None) \<Rightarrow> Some \<lparr>wr_db = db2, wr_end = Answered False, wr_claim = None, wr_handler_left = False\<rparr>
           | (db2, Inr (Some j)) \<Rightarrow>
               if cj_kind j \<notin> set (wk_kinds wk) then Some (record_fail wk en j False ''handler_unavailable'' False db2)
               else
                 (case run_with_heartbeat (wk_lease_seconds wk) (we_start en + wk_handler_timeout wk) j (we_rounds en) db2 of
                    None \<Rightarrow> None
                  | Some (db3, res, left) \<Rightarrow> Some (record_outcome wk en j res left db3))))"

subsection \<open>Who holds the lease afterwards\<close>

text \<open>A statement under the lease condition that leaves no row running releases the lease.\<close>

lemma released_by_update:
  assumes "\<And>r. jb_status (f r) \<noteq> Running" and "now \<le> T" and "r \<in> set (updated (holds_lease j now) f db)"
  shows "\<not> holds_lease j T r"
proof -
  from assms(3) obtain x where "r = (if holds_lease j now x then f x else x)" by (rule in_updatedE)
  with assms(1,2) show ?thesis by (auto simp: holds_lease_def split: if_splits option.splits)
qed

lemma fail_values_status: "jb_status (fail_values now e (fail_outcome b now' rt j) r) \<noteq> Running"
  by (simp add: fail_values_def fail_outcome_def)

lemma succeed_values_status: "jb_status (succeed_values now e r) \<noteq> Running"
  by (simp add: succeed_values_def)

lemma record_fail_claim [simp]:
  "wr_claim (record_fail wk en j left c rt db) = Some j" "wr_handler_left (record_fail wk en j left c rt db) = left"
  by (simp_all add: record_fail_def split: prod.split sum.split)

lemma record_fail_releases:
  assumes "wr_end (record_fail wk en j left c rt db) = Answered b" and "ce_now (we_call en OnFail) \<le> T"
    and "r \<in> set (wr_db (record_fail wk en j left c rt db))"
  shows "\<not> holds_lease j T r"
proof -
  let ?e = "we_call en OnFail"
  obtain db' x where call: "repository_call ?e (\<lambda>now. fail_job (wk_backoff wk) now j c rt) db = (db', Inr x)"
    and db': "wr_db (record_fail wk en j left c rt db) = db'"
    using assms(1) by (auto simp: record_fail_def split: prod.splits sum.splits)
  from repository_call_Inr [OF call]
  have "db' = updated (holds_lease j (ce_now ?e)) (fail_values (ce_now ?e) c (fail_outcome (wk_backoff wk) (ce_now ?e) rt j)) (ce_before ?e db)"
    by (simp add: fail_job_def split: if_splits)
  with assms(3) db' have "r \<in> set (updated (holds_lease j (ce_now ?e))
      (fail_values (ce_now ?e) c (fail_outcome (wk_backoff wk) (ce_now ?e) rt j)) (ce_before ?e db))" by simp
  then show ?thesis by (rule released_by_update [rotated 2]) (use fail_values_status assms(2) in auto)
qed

lemma record_outcome_releases:
  assumes "wr_end (record_outcome wk en j res left db) = Answered b"
    and "ce_now (we_call en OnFail) \<le> T" "ce_now (we_call en OnSucceed) \<le> T"
    and "res = RPermanent LEASE_LOST \<Longrightarrow> (\<And>r. r \<in> set db \<Longrightarrow> \<not> holds_lease j T r)"
    and "r \<in> set (wr_db (record_outcome wk en j res left db))"
  shows "\<not> holds_lease j T r"
proof (cases res)
  case (RReturned v)
  let ?e = "we_call en OnSucceed"
  obtain db' x where call: "repository_call ?e (\<lambda>now. succeed_job (we_scan en) now j v) db = (db', x)" by fastforce
  show ?thesis
  proof (cases x)
    case (Inl e)
    with RReturned call assms(1,2,5) record_fail_releases show ?thesis by (simp add: record_outcome_def)
  next
    case (Inr y)
    from repository_call_Inr [OF call [unfolded Inr]]
    obtain enc where "db' = updated (holds_lease j (ce_now ?e)) (succeed_values (ce_now ?e) enc) (ce_before ?e db)"
      by (auto simp: succeed_job_def split: option.splits)
    with RReturned call Inr assms(5)
    have "r \<in> set (updated (holds_lease j (ce_now ?e)) (succeed_values (ce_now ?e) enc) (ce_before ?e db))"
      by (simp add: record_outcome_def)
    then show ?thesis by (rule released_by_update [rotated 2]) (use succeed_values_status assms(3) in auto)
  qed
next
  case (RPermanent m)
  then show ?thesis
    using assms record_fail_releases [of wk en j left _ _ db b T r]
    by (cases "m = LEASE_LOST") (auto simp: record_outcome_def)
qed (use assms record_fail_releases [of wk en j left _ _ db b T r] in \<open>auto simp: record_outcome_def\<close>)

text \<open>The loop reports a lost lease only when a heartbeat found it lost.\<close>

lemma heartbeat_refused:
  assumes "repository_call e (heartbeat_call s j) db = (db', Inr False)" and "ce_now e \<le> T" and "r \<in> set db'"
  shows "\<not> holds_lease j T r"
proof -
  from repository_call_Inr [OF assms(1)]
  have none: "\<not> holds_lease j (ce_now e) x" if "x \<in> set (ce_before e db)" for x
    using that by (auto simp: heartbeat_call_def heartbeat_def rowcount_zero)
  then have "db' = ce_before e db"
    using repository_call_Inr [OF assms(1)] by (simp add: heartbeat_call_def heartbeat_def)
  with none [of r] assms(2,3) show ?thesis by (auto simp: holds_lease_def split: option.splits)
qed

lemma lease_lost_report:
  assumes "run_with_heartbeat s deadline j rds db = Some (db', RPermanent LEASE_LOST, left)"
    and "\<forall>rd \<in> set rds. rd_wait rd \<noteq> WaitDone (HPermanent LEASE_LOST) \<and> ce_now (rd_heartbeat rd) \<le> T"
    and "r \<in> set db'"
  shows "\<not> holds_lease j T r"
  using assms
proof (induction s deadline j rds db rule: run_with_heartbeat.induct)
  case (2 s deadline j rd rds db)
  show ?case
  proof (cases "rd_wait rd")
    case (WaitDone h)
    with 2(2,3) show ?thesis by (cases h) (auto simp: task_result_def split: if_splits)
  next
    case WaitTimeout
    obtain d y where call: "repository_call (rd_heartbeat rd) (heartbeat_call s j) db = (d, y)" by fastforce
    consider (err) e where "y = Inl e" | (lost) "y = Inr False" | (kept) "y = Inr True" by (cases y) auto
    then show ?thesis
    proof cases
      case err
      with 2(2) WaitTimeout call show ?thesis by (auto split: if_splits)
    next
      case lost
      with 2(2,3,4) WaitTimeout call show ?thesis by (auto split: if_splits dest: heartbeat_refused)
    next
      case kept
      with 2 WaitTimeout call show ?thesis by (auto split: if_splits)
    qed
  next
    case WaitCancelled
    with 2(2) show ?thesis by (auto split: if_splits)
  qed
qed simp

text \<open>The two ways in which \<open>run_once\<close> gets past its claim.\<close>

lemma run_once_claimed:
  assumes "run_once wk en db = Some res" and "wr_claim res = Some j"
  obtains (unavailable) db2 where "cj_kind j \<notin> set (wk_kinds wk)"
      "res = record_fail wk en j False ''handler_unavailable'' False db2"
  | (handled) db2 db3 out left where
      "run_with_heartbeat (wk_lease_seconds wk) (we_start en + wk_handler_timeout wk) j (we_rounds en) db2 = Some (db3, out, left)"
      "res = record_outcome wk en j out left db3"
proof -
  obtain db1 x where r: "repository_call (we_call en OnRecover) recover_call db = (db1, x)" by fastforce
  obtain db2 y where c: "repository_call (we_call en OnClaim)
      (\<lambda>now. claim_job (we_tie en) (wk_lease_seconds wk) now (we_between en) (wk_worker_id wk)) db1 = (db2, y)" by fastforce
  have rc [simp]: "wr_claim (record_outcome wk en k out left d) = Some k" for k out left d
    by (simp add: record_outcome_def split: handler_result.split prod.split sum.split)
  show thesis
    using assms unavailable handled
    by (simp add: run_once_def r c split: sum.splits option.splits if_splits prod.splits) (auto simp: split_paired_all)
qed

text \<open>
  When an iteration of the worker answers, it no longer holds the lease of the job it claimed:
  the job was completed, put back or dead-lettered, or the lease was lost or has run out, whatever the handler
  did, however the heartbeats went and whatever other processes did meanwhile. Assumed are a last
  moment \<open>T\<close> after all the calls and that no handler raises the worker's own lost-lease error.
\<close>

theorem worker_releases_lease:
  assumes "run_once wk en db = Some res" and "wr_end res = Answered b" and "wr_claim res = Some j"
    and "ce_now (we_call en OnFail) \<le> T" "ce_now (we_call en OnSucceed) \<le> T"
    and "\<forall>rd \<in> set (we_rounds en). rd_wait rd \<noteq> WaitDone (HPermanent LEASE_LOST) \<and> ce_now (rd_heartbeat rd) \<le> T"
    and "r \<in> set (wr_db res)"
  shows "\<not> holds_lease j T r"
  using assms(1,3)
proof (cases rule: run_once_claimed)
  case (unavailable db2)
  with assms(2,4,7) show ?thesis using record_fail_releases by blast
next
  case (handled db2 db3 out left)
  show ?thesis
  proof (rule record_outcome_releases [of wk en j out left db3 b T])
    show "\<not> holds_lease j T x" if "out = RPermanent LEASE_LOST" "x \<in> set db3" for x
      using lease_lost_report handled(1) that assms(6) by blast
  qed (use assms(2,4,5,7) handled(2) in simp_all)
qed

definition demo_worker :: worker where
  "demo_worker = \<lparr>wk_worker_id = ''w1'', wk_kinds = [''echo''], wk_handler_timeout = 300, wk_lease_seconds = 30, wk_backoff = 2\<rparr>"

text \<open>A heartbeat in time, then the handler's answer.\<close>

definition demo_rounds :: "wait_end \<Rightarrow> fault \<Rightarrow> round list" where
  "demo_rounds w f =
     [\<lparr>rd_time = 0, rd_wait = WaitTimeout, rd_time_after = 10, rd_heartbeat = \<lparr>ce_before = id, ce_fault = f, ce_now = 110\<rparr>\<rparr>,
      \<lparr>rd_time = 10, rd_wait = w, rd_time_after = 15, rd_heartbeat = \<lparr>ce_before = id, ce_fault = NoFault, ce_now = 115\<rparr>\<rparr>]"

definition demo_worker_env :: "wait_end \<Rightarrow> fault \<Rightarrow> worker_env" where
  "demo_worker_env w f =
     \<lparr>we_call = (\<lambda>c. \<lparr>ce_before = id, ce_fault = NoFault, ce_now = (if c \<in> {OnRecover, OnClaim} then 100 else 120)\<rparr>),
      we_between = id, we_tie = (\<lambda>r. 0), we_scan = (\<lambda>v. Some (v, 0)), we_start = 0, we_rounds = demo_rounds w f\<rparr>"

definition demo_iteration :: "wait_end \<Rightarrow> fault \<Rightarrow> worker_result" where
  "demo_iteration w f = the (run_once demo_worker (demo_worker_env w f) [demo_job])"

lemma demo_worker_env_simps [simp]:
  "we_call (demo_worker_env w f) c = \<lparr>ce_before = id, ce_fault = NoFault, ce_now = (if c \<in> {OnRecover, OnClaim} then 100 else 120)\<rparr>"
  "we_between (demo_worker_env w f) = id" "we_tie (demo_worker_env w f) = (\<lambda>r. 0)"
  "we_scan (demo_worker_env w f) = (\<lambda>v. Some (v, 0))" "we_start (demo_worker_env w f) = 0"
  "we_rounds (demo_worker_env w f) = demo_rounds w f"
  "wk_worker_id demo_worker = ''w1''" "wk_kinds demo_worker = [''echo'']" "wk_handler_timeout demo_worker = 300"
  "wk_lease_seconds demo_worker = 30" "wk_backoff demo_worker = 2"
  by (simp_all add: demo_worker_env_def demo_worker_def)

lemma demo_safe_ids:
  "JOB_SAFE_ID ''w1''" "JOB_SAFE_ID ''handler_failed''"
  by (simp_all add: JOB_SAFE_ID_def SAFE_ID_def safe_id_char_def ascii_alnum_def ascii_lower_def ascii_digit_def)

lemma demo_claim_call:
  "claim_job (\<lambda>r. 0) 30 100 id ''w1'' [demo_job] = ([claim_values 100 130 ''w1'' demo_job], Inr (Some demo_claim))"
  by (simp add: claim_job_def demo_safe_ids claim_candidate_def select_where_def scalar_def claim_update_def updated_def
      demo_claim_def demo_job_def new_job_def)

lemma demo_recover_call: "recover_call now [demo_job] = ([demo_job], Inr 0)"
  by (simp add: recover_call_def recover_expired_def rowcount_def lease_expired_def updated_def demo_job_def new_job_def)

lemma demo_run_once:
  "run_once demo_worker (demo_worker_env w f) [demo_job] =
     (case run_with_heartbeat 30 300 demo_claim (demo_rounds w f) [claim_values 100 130 ''w1'' demo_job] of
        None \<Rightarrow> None
      | Some (db3, res, left) \<Rightarrow> Some (record_outcome demo_worker (demo_worker_env w f) demo_claim res left db3))"
proof -
  have "cj_kind demo_claim = ''echo''" by (simp add: demo_job_defs)
  then show ?thesis
    by (simp add: run_once_def repository_call_def demo_recover_call demo_claim_call)
qed

theorem worker_releases_lease_witness:
  "wr_end (demo_iteration (WaitDone HException) NoFault) = Answered True
    \<and> \<not> holds_lease demo_claim 120 (hd (wr_db (demo_iteration (WaitDone HException) NoFault)))"
proof -
  let ?res = "demo_iteration (WaitDone HException) NoFault"
  have run: "run_once demo_worker (demo_worker_env (WaitDone HException) NoFault) [demo_job] = Some ?res"
    and res: "wr_end ?res = Answered True" "wr_claim ?res = Some demo_claim" "length (wr_db ?res) = 1"
    unfolding demo_iteration_def demo_run_once
    by (simp_all add: demo_rounds_def repository_call_def heartbeat_call_def heartbeat_def
        rowcount_def holds_lease_def task_result_def record_outcome_def record_fail_def fail_job_def demo_safe_ids
        demo_job_defs)
  have "\<not> holds_lease demo_claim 120 (hd (wr_db ?res))"
    by (rule worker_releases_lease [OF run res(1,2)])
      (use res(3) in \<open>auto simp: demo_rounds_def intro: hd_in_set\<close>)
  with res(1) show ?thesis by blast
qed

lemma run_with_heartbeat_ends:
  assumes "rd \<in> set rds" and "deadline \<le> rd_time rd"
  shows "run_with_heartbeat s deadline j rds db \<noteq> None"
  using assms
  by (induction s deadline j rds db rule: run_with_heartbeat.induct) (auto split: wait_end.splits prod.splits sum.splits bool.splits)

lemma worker_codes_ok:
  "JOB_SAFE_ID ''handler_unavailable''" "JOB_SAFE_ID ''handler_cancelled''" "JOB_SAFE_ID ''handler_rejected''"
  "JOB_SAFE_ID ''job_timeout''" "JOB_SAFE_ID ''handler_failed''"
  by (simp_all add: JOB_SAFE_ID_def SAFE_ID_def safe_id_char_def ascii_alnum_def ascii_lower_def ascii_digit_def)

lemma record_fail_answers:
  assumes "ce_fault (we_call en OnFail) = NoFault" and "JOB_SAFE_ID c" "length c \<le> 64"
  shows "wr_end (record_fail wk en j left c rt db) = Answered True"
proof -
  have "repository_call (we_call en OnFail) (\<lambda>now. fail_job (wk_backoff wk) now j c rt) db
      = (fst (fail_job (wk_backoff wk) (ce_now (we_call en OnFail)) j c rt (ce_before (we_call en OnFail) db)),
         Inr (rowcount (holds_lease j (ce_now (we_call en OnFail))) (ce_before (we_call en OnFail) db) \<noteq> 0))"
    by (rule repository_call_ok [OF assms(1)]) (use assms(2,3) in \<open>simp add: fail_job_def\<close>)
  then show ?thesis by (simp add: record_fail_def)
qed

lemma record_outcome_ends:
  assumes "ce_fault (we_call en OnFail) = NoFault"
  shows "wr_end (record_outcome wk en j out left db) \<in> {Answered True, ShutDown}"
proof (cases out)
  case (RReturned v)
  then show ?thesis
    by (cases "repository_call (we_call en OnSucceed) (\<lambda>now. succeed_job (we_scan en) now j v) db"; cases "snd (repository_call
        (we_call en OnSucceed) (\<lambda>now. succeed_job (we_scan en) now j v) db)")
      (auto simp: record_outcome_def record_fail_answers [OF assms] worker_codes_ok)
qed (simp_all add: record_outcome_def record_fail_answers [OF assms] worker_codes_ok)

text \<open>
  C35: An iteration of the worker comes to an end by the handler's deadline: as soon as the loop's
  clock passes it, \<open>run_once\<close> has returned, and if no call of the queue other than heartbeats and
  the success report is lost it returns an answer or shuts down, it does not fail.
\<close>

theorem iteration_ends_by_deadline:
  assumes "rd \<in> set (we_rounds en)" and "we_start en + wk_handler_timeout wk \<le> rd_time rd"
    and "\<forall>c \<in> {OnRecover, OnClaim, OnFail}. ce_fault (we_call en c) = NoFault" and "JOB_SAFE_ID (wk_worker_id wk)"
  shows "\<exists>res. run_once wk en db = Some res \<and> wr_end res \<in> {Answered True, Answered False, ShutDown}"
proof -
  let ?now = "ce_now (we_call en OnClaim)"
  obtain db1 n where r: "repository_call (we_call en OnRecover) recover_call db = (db1, Inr n)"
    using repository_call_ok [of "we_call en OnRecover" recover_call db] assms(3) by (force simp: recover_call_def split: prod.splits)
  obtain db2 c where c: "repository_call (we_call en OnClaim)
      (\<lambda>now. claim_job (we_tie en) (wk_lease_seconds wk) now (we_between en) (wk_worker_id wk)) db1 = (db2, Inr c)"
  proof -
    let ?f = "\<lambda>now. claim_job (we_tie en) (wk_lease_seconds wk) now (we_between en) (wk_worker_id wk)"
    have "\<exists>d c. ?f ?now (ce_before (we_call en OnClaim) db1) = (d, Inr c)"
      using assms(4) by (simp add: claim_job_def Let_def split: prod.split option.split)
    then show ?thesis using that repository_call_ok [of "we_call en OnClaim" ?f] assms(3) by blast
  qed
  show ?thesis
  proof (cases c)
    case None
    then show ?thesis by (simp add: run_once_def r c)
  next
    case (Some j)
    show ?thesis
    proof (cases "cj_kind j \<in> set (wk_kinds wk)")
      case False
      with Some assms(3) show ?thesis by (simp add: run_once_def r c record_fail_answers worker_codes_ok)
    next
      case True
      obtain db3 out left where h: "run_with_heartbeat (wk_lease_seconds wk) (we_start en + wk_handler_timeout wk) j
          (we_rounds en) db2 = Some (db3, out, left)"
        using run_with_heartbeat_ends [OF assms(1,2)] by (metis not_None_eq prod_cases3)
      with Some True record_outcome_ends [of en wk j out left db3] assms(3) show ?thesis by (auto simp: run_once_def r c)
    qed
  qed
qed

theorem iteration_ends_by_deadline_witness:
  "\<exists>res. run_once demo_worker ((demo_worker_env WaitTimeout NoFault)\<lparr>we_start := -290\<rparr>) [demo_job] = Some res
    \<and> wr_end res \<in> {Answered True, Answered False, ShutDown}"
  by (rule iteration_ends_by_deadline [where rd = "demo_rounds WaitTimeout NoFault ! 1"])
    (simp_all add: demo_rounds_def demo_safe_ids)



end
