(* ===== verification/Rate_Limiter.thy ===== *)
theory Rate_Limiter
  imports Prelude "HOL-Library.Multiset" "HOL-Library.List_Lexorder" "HOL-Library.Char_ord" "HOL-Library.Product_Lexorder"
begin

text \<open>
  The sliding-window rate limiter (\<open>security/rate_limiter.py\<close>): the process-local limiter, the Lua
  script that Redis runs, and the WATCH/MULTI transaction that replaces the script on servers
  without scripting. A Redis bucket is a sorted set with an expiry; the server's clock and the
  caller's are taken to agree. Redis times are milliseconds, local times microseconds.

  The locale \<open>sliding_window\<close> is what the two limiters have in common, and the bound on the
  admitted calls is proved there once for both.
\<close>

record rate_limit_result =
  rl_allowed :: bool
  rl_current :: int
  rl_limit :: int
  rl_remaining :: int
  rl_retry_after :: "int option"

text \<open>\<open>math.ceil(n / d)\<close> for a positive \<open>d\<close>.\<close>

definition ceil_div :: "int \<Rightarrow> int \<Rightarrow> int" where
  "ceil_div n d = - ((- n) div d)"

subsection \<open>The local limiter\<close>

record limiter =
  lm_max_requests :: int
  lm_window_seconds :: int
  lm_key_prefix :: string

definition make_limiter :: "int \<Rightarrow> int \<Rightarrow> string \<Rightarrow> limiter option" where
  "make_limiter max_requests window_seconds key_prefix =
     (if max_requests < 1 \<or> window_seconds < 1 \<or> key_prefix = [] then None
      else Some \<lparr>lm_max_requests = max_requests, lm_window_seconds = window_seconds, lm_key_prefix = key_prefix\<rparr>)"

definition bucket_key :: "(string \<Rightarrow> string) \<Rightarrow> limiter \<Rightarrow> string \<Rightarrow> string" where
  "bucket_key sha256 lm identifier = lm_key_prefix lm @ '':'' @ sha256 identifier"

text \<open>One bucket of \<open>_check_local\<close> (microseconds).\<close>

definition check_entries :: "int \<Rightarrow> int \<Rightarrow> int \<Rightarrow> int list \<Rightarrow> int list \<times> rate_limit_result" where
  "check_entries window limit now stamps =
     (let active = filter (\<lambda>stamp. stamp > now - window) stamps;
          allowed = int (length active) < limit;
          entries = (if allowed then active @ [now] else active);
          retry = (if allowed then None else Some (max 1 (ceil_div (hd entries + window - now) 1000000))) in
      (entries, \<lparr>rl_allowed = allowed, rl_current = int (length entries), rl_limit = limit,
         rl_remaining = max 0 (limit - int (length entries)), rl_retry_after = retry\<rparr>))"

type_synonym local_store = "string \<Rightarrow> int list"

definition check_local ::
  "(string \<Rightarrow> string) \<Rightarrow> limiter \<Rightarrow> string \<Rightarrow> int \<Rightarrow> int \<Rightarrow> local_store \<Rightarrow> local_store \<times> rate_limit_result" where
  "check_local sha256 lm identifier limit now store =
     (let key = bucket_key sha256 lm identifier in
      case check_entries (lm_window_seconds lm * 1000000) limit now (store key) of
        (entries, res) \<Rightarrow> (store(key := entries), res))"

subsection \<open>Redis buckets\<close>

text \<open>The members of a sorted set in the server's order, by score and then by member, with its expiry.\<close>

type_synonym zset = "(int \<times> string) list"

record bucket =
  bk_members :: zset
  bk_expires_at :: int

definition live :: "int \<Rightarrow> bucket option \<Rightarrow> zset" where
  "live now b = (case b of None \<Rightarrow> [] | Some bk \<Rightarrow> if bk_expires_at bk \<le> now then [] else bk_members bk)"

definition zadd :: "int \<Rightarrow> string \<Rightarrow> zset \<Rightarrow> zset" where
  "zadd score member z = insort (score, member) (filter (\<lambda>(s, m). m \<noteq> member) z)"

definition zremrangebyscore :: "int \<Rightarrow> zset \<Rightarrow> zset" where
  "zremrangebyscore up_to z = filter (\<lambda>(s, m). \<not> s \<le> up_to) z"

definition zrangebyscore_above :: "int \<Rightarrow> zset \<Rightarrow> zset" where
  "zrangebyscore_above low z = filter (\<lambda>(s, m). low < s) z"

text \<open>\<open>PEXPIRE\<close> acts on an existing key; a sorted set with no members does not exist.\<close>

definition pexpire :: "int \<Rightarrow> int \<Rightarrow> zset \<Rightarrow> bucket option" where
  "pexpire now ttl z = (if z = [] then None else Some \<lparr>bk_members = z, bk_expires_at = now + ttl\<rparr>)"

text \<open>The script \<open>_LUA\<close> and the four numbers it returns.\<close>

definition lua_script ::
  "int \<Rightarrow> int \<Rightarrow> int \<Rightarrow> string \<Rightarrow> bucket option \<Rightarrow> bucket option \<times> (int \<times> int \<times> int \<times> int)" where
  "lua_script now window limit member b =
     (let z = zremrangebyscore (now - window) (live now b);
          count = int (length z) in
      if count < limit
      then (pexpire now window (zadd now member z), (1, count + 1, limit - count - 1, 0))
      else
        let retry = (case z of [] \<Rightarrow> window | (oldest, m) # _ \<Rightarrow> max 1 (oldest + window - now)) in
        (pexpire now window z, (0, count, 0, retry)))"

text \<open>
  \<open>_check_redis_transaction\<close>: what the other clients did to the bucket between the WATCH and the
  EXEC of each round. A round in which the bucket changed fails with \<open>WatchError\<close> and is repeated;
  None: the rounds end before one goes through.
\<close>

definition transaction_round ::
  "int \<Rightarrow> int \<Rightarrow> int \<Rightarrow> string \<Rightarrow> bucket option \<Rightarrow> bucket option \<times> (int \<times> int \<times> int \<times> int)" where
  "transaction_round now window limit member b =
     (let active = zrangebyscore_above (now - window) (live now b);
          count = int (length active);
          allowed = count < limit;
          retry = (if allowed then 0 else max 1 (fst (hd active) + window - now));
          z = zremrangebyscore (now - window) (live now b);
          current = count + (if allowed then 1 else 0) in
      (pexpire now window (if allowed then zadd now member z else z),
       (if allowed then 1 else 0, current, max 0 (limit - current), retry)))"

fun check_redis_transaction ::
  "int \<Rightarrow> int \<Rightarrow> int \<Rightarrow> string \<Rightarrow> (bucket option \<Rightarrow> bucket option) list \<Rightarrow> bucket option
     \<Rightarrow> (bucket option \<times> (int \<times> int \<times> int \<times> int)) option" where
  "check_redis_transaction now window limit member [] b = None"
| "check_redis_transaction now window limit member (others # rounds) b =
     (if others b \<noteq> b then check_redis_transaction now window limit member rounds (others b)
      else Some (transaction_round now window limit member b))"

definition redis_result :: "int \<times> int \<times> int \<times> int \<Rightarrow> int \<Rightarrow> rate_limit_result" where
  "redis_result values limit =
     (case values of (allowed, current, remaining, retry_ms) \<Rightarrow>
        \<lparr>rl_allowed = (allowed \<noteq> 0), rl_current = current, rl_limit = limit, rl_remaining = remaining,
         rl_retry_after = (if allowed \<noteq> 0 then None else Some (max 1 (ceil_div retry_ms 1000)))\<rparr>)"

text \<open>\<open>_check_redis\<close> on a server that runs scripts, and on one that does not.\<close>

definition check_redis ::
  "limiter \<Rightarrow> int \<Rightarrow> int \<Rightarrow> string \<Rightarrow> bucket option \<Rightarrow> bucket option \<times> rate_limit_result" where
  "check_redis lm limit now_ms member b =
     (case lua_script now_ms (lm_window_seconds lm * 1000) limit member b of
        (b', values) \<Rightarrow> (b', redis_result values limit))"

definition check_redis_fallback ::
  "limiter \<Rightarrow> int \<Rightarrow> int \<Rightarrow> string \<Rightarrow> (bucket option \<Rightarrow> bucket option) list \<Rightarrow> bucket option
     \<Rightarrow> (bucket option \<times> rate_limit_result) option" where
  "check_redis_fallback lm limit now_ms member rounds b =
     map_option (\<lambda>(b', values). (b', redis_result values limit))
       (check_redis_transaction now_ms (lm_window_seconds lm * 1000) limit member rounds b)"

text \<open>\<open>check\<close> in local mode; None is the refused limit.\<close>

definition effective_limit :: "limiter \<Rightarrow> int option \<Rightarrow> int option" where
  "effective_limit lm max_requests =
     (let limit = (case max_requests of None \<Rightarrow> lm_max_requests lm | Some n \<Rightarrow> n) in
      if limit < 1 then None else Some limit)"

definition check_rate ::
  "(string \<Rightarrow> string) \<Rightarrow> limiter \<Rightarrow> string \<Rightarrow> int option \<Rightarrow> int \<Rightarrow> local_store
     \<Rightarrow> (local_store \<times> rate_limit_result) option" where
  "check_rate sha256 lm identifier max_requests now store =
     map_option (\<lambda>limit. check_local sha256 lm identifier limit now store) (effective_limit lm max_requests)"

subsection \<open>The script and the transaction\<close>

lemma zrange_above_iff: "zrangebyscore_above low z = zremrangebyscore low z"
  by (simp add: zrangebyscore_above_def zremrangebyscore_def not_le)

lemma transaction_round_is_script:
  assumes "1 \<le> limit"
  shows "transaction_round now window limit member b = lua_script now window limit member b"
proof (cases "int (length (zremrangebyscore (now - window) (live now b))) < limit")
  case True
  then show ?thesis by (simp add: transaction_round_def lua_script_def Let_def zrange_above_iff)
next
  case False
  then obtain s m z where "zremrangebyscore (now - window) (live now b) = (s, m) # z"
    using assms by (cases "zremrangebyscore (now - window) (live now b)") auto
  with False show ?thesis by (simp add: transaction_round_def lua_script_def Let_def zrange_above_iff)
qed

text \<open>The rounds in which some other client changed the bucket.\<close>

primrec spoiled :: "(bucket option \<Rightarrow> bucket option) list \<Rightarrow> bucket option \<Rightarrow> bool" where
  "spoiled [] b = True"
| "spoiled (others # rounds) b = (others b \<noteq> b \<and> spoiled rounds (others b))"

lemma transaction_after_spoiled:
  "spoiled rounds b \<Longrightarrow> check_redis_transaction now window limit member (rounds @ rest) b =
     check_redis_transaction now window limit member rest (fold (\<lambda>f b. f b) rounds b)"
  by (induction rounds arbitrary: b) simp_all

text \<open>
  C20: The fallback for servers without scripting is equivalent to the script: after any number of
  rounds spoiled by other clients, the first round that nobody disturbs is its last, and it
  returns the result and leaves the bucket of the script run on the bucket of that round.
\<close>

theorem transaction_equals_script:
  assumes "1 \<le> limit" and "spoiled rounds b" and "last_others (fold (\<lambda>f b. f b) rounds b) = fold (\<lambda>f b. f b) rounds b"
  shows "check_redis_fallback lm limit now member (rounds @ last_others # rest) b =
    Some (check_redis lm limit now member (fold (\<lambda>f b. f b) rounds b))"
  using assms by (simp add: check_redis_fallback_def check_redis_def transaction_after_spoiled transaction_round_is_script
      split: prod.split)

definition demo_limiter :: limiter where
  "demo_limiter = \<lparr>lm_max_requests = 2, lm_window_seconds = 60, lm_key_prefix = ''rate_limit''\<rparr>"

theorem transaction_equals_script_witness:
  "check_redis_fallback demo_limiter 2 70000 ''m3'' [\<lambda>b. fst (check_redis demo_limiter 2 69000 ''m2'' b), id] None =
    Some (check_redis demo_limiter 2 70000 ''m3'' (fst (check_redis demo_limiter 2 69000 ''m2'' None)))"
proof -
  have "fst (check_redis demo_limiter 2 69000 ''m2'' None) \<noteq> None" by code_simp
  then show ?thesis
    using transaction_equals_script [of 2 "[\<lambda>b. fst (check_redis demo_limiter 2 69000 ''m2'' b)]" None id demo_limiter 70000 "''m3''" "[]"]
    by simp
qed

subsection \<open>The sliding window\<close>

text \<open>
  A limiter as its users see it: events carry a time, \<open>recent\<close> are the admitted times that still
  count at a moment, and \<open>ready\<close> says of the events to come that the laws apply to them.
\<close>

primrec run_checks :: "('e \<Rightarrow> 's \<Rightarrow> 's \<times> bool) \<Rightarrow> 'e list \<Rightarrow> 's \<Rightarrow> 'e list" where
  "run_checks check [] s = []"
| "run_checks check (e # es) s =
     (case check e s of (s', ok) \<Rightarrow> (if ok then [e] else []) @ run_checks check es s')"

definition in_window :: "int \<Rightarrow> int \<Rightarrow> int \<Rightarrow> bool" where
  "in_window window t x = (t - window < x \<and> x \<le> t)"

locale sliding_window =
  fixes window :: int and limit :: int
    and time :: "'e \<Rightarrow> int"
    and check :: "'e \<Rightarrow> 's \<Rightarrow> 's \<times> bool"
    and recent :: "int \<Rightarrow> 's \<Rightarrow> int multiset"
    and ready :: "'e list \<Rightarrow> 's \<Rightarrow> bool"
  assumes window_pos: "0 < window"
    and limit_pos: "1 \<le> limit"
    and ready_step: "ready (e # es) s \<Longrightarrow> ready es (fst (check e s)) \<and> (\<forall>e'\<in>set es. time e \<le> time e')"
    and admits: "ready (e # es) s \<Longrightarrow> snd (check e s) \<longleftrightarrow> int (size (recent (time e) s)) < limit"
    and counts: "ready (e # es) s \<Longrightarrow> time e \<le> now \<Longrightarrow>
      recent now (fst (check e s)) = filter_mset (\<lambda>x. now - window < x)
        (recent (time e) s + (if snd (check e s) then {#time e#} else {#}))"
begin

text \<open>The admitted times so far, as far as they still count from a moment on.\<close>

definition tracks :: "int \<Rightarrow> int multiset \<Rightarrow> 's \<Rightarrow> bool" where
  "tracks t0 H s \<longleftrightarrow> (\<forall>x\<in>#H. x \<le> t0) \<and> (\<forall>now\<ge>t0. recent now s = filter_mset (\<lambda>x. now - window < x) H)"

definition admitted :: "'e \<Rightarrow> 's \<Rightarrow> int multiset \<Rightarrow> int multiset" where
  "admitted e s H = (if snd (check e s) then add_mset (time e) H else H)"

lemma tracks_step:
  assumes "ready (e # es) s" and "tracks t0 H s" and "t0 \<le> time e"
  shows "tracks (time e) (admitted e s H) (fst (check e s))"
  unfolding tracks_def
proof (intro conjI ballI allI impI)
  fix x assume "x \<in># admitted e s H"
  with assms(2,3) show "x \<le> time e" by (force simp: admitted_def tracks_def split: if_splits)
next
  fix now assume now: "time e \<le> now"
  have "recent (time e) s = filter_mset (\<lambda>x. time e - window < x) H" using assms(2,3) by (simp add: tracks_def)
  moreover have "filter_mset (\<lambda>x. now - window < x) (filter_mset (\<lambda>x. time e - window < x) H) = filter_mset (\<lambda>x. now - window < x) H"
    using now by (auto simp: filter_filter_mset intro!: filter_mset_cong)
  ultimately show "recent now (fst (check e s)) = filter_mset (\<lambda>x. now - window < x) (admitted e s H)"
    using counts [OF assms(1) now] by (simp add: admitted_def)
qed

lemma admitted_bound:
  assumes "ready (e # es) s" and "tracks t0 H s" and "t0 \<le> time e"
    and "\<And>t. int (size (filter_mset (in_window window t) H)) \<le> limit"
  shows "int (size (filter_mset (in_window window t) (admitted e s H))) \<le> limit"
proof (cases "snd (check e s) \<and> in_window window t (time e)")
  case False
  with assms(4) show ?thesis by (auto simp: admitted_def)
next
  case True
  have "filter_mset (in_window window t) H \<subseteq># filter_mset (\<lambda>x. time e - window < x) H"
    using True by (auto simp: in_window_def intro!: filter_mset_mono_strong)
  also have "\<dots> = recent (time e) s" using assms(2,3) by (simp add: tracks_def)
  finally have "size (filter_mset (in_window window t) H) \<le> size (recent (time e) s)" by (rule size_mset_mono)
  moreover have "int (size (recent (time e) s)) < limit" using admits [OF assms(1)] True by simp
  ultimately show ?thesis using True by (simp add: admitted_def)
qed

lemma history_bound:
  assumes "ready es s" and "tracks t0 H s" and "\<forall>e\<in>set es. t0 \<le> time e"
    and "\<And>t. int (size (filter_mset (in_window window t) H)) \<le> limit"
  shows "int (size (filter_mset (in_window window t) (H + mset (map time (run_checks check es s))))) \<le> limit"
  using assms
proof (induction es arbitrary: s H t0)
  case Nil
  then show ?case by simp
next
  case (Cons e es)
  obtain s' ok where c: "check e s = (s', ok)" by fastforce
  have step: "tracks (time e) (admitted e s H) s'" using tracks_step [OF Cons.prems(1,2)] Cons.prems(3) c by simp
  have next_: "ready es s'" "\<forall>e'\<in>set es. time e \<le> time e'" using ready_step [OF Cons.prems(1)] c by simp_all
  have bound: "int (size (filter_mset (in_window window t) (admitted e s H))) \<le> limit" for t
    by (rule admitted_bound [OF Cons.prems(1,2)]) (use Cons.prems(3,4) in auto)
  from Cons.IH [OF next_(1) step next_(2) bound] show ?case by (simp add: c admitted_def split: if_splits)
qed

lemma window_bound:
  assumes "ready es s" and "\<And>now. recent now s = {#}"
  shows "int (length (filter (\<lambda>e. in_window window t (time e)) (run_checks check es s))) \<le> limit"
proof -
  define t0 where "t0 = Min (insert 0 (time ` set es))"
  have "tracks t0 {#} s" using assms(2) by (simp add: tracks_def)
  moreover have "\<forall>e\<in>set es. t0 \<le> time e" by (simp add: t0_def)
  ultimately have "int (size (filter_mset (in_window window t) (mset (map time (run_checks check es s))))) \<le> limit"
    using history_bound [OF assms(1), of t0 "{#}" t] limit_pos by simp
  then show ?thesis by (simp add: mset_filter [symmetric] filter_map o_def del: mset_filter mset_map)
qed

end

subsection \<open>The limiters as sliding windows\<close>

definition local_check :: "int \<Rightarrow> int \<Rightarrow> int \<Rightarrow> int list \<Rightarrow> int list \<times> bool" where
  "local_check window limit now stamps = map_prod id rl_allowed (check_entries window limit now stamps)"

interpretation local_window: sliding_window "max 1 window" "max 1 limit" "\<lambda>now. now" "local_check (max 1 window) (max 1 limit)"
  "\<lambda>now stamps. filter_mset (\<lambda>x. now - max 1 window < x) (mset stamps)" "\<lambda>es stamps. sorted es"
  for window limit
proof unfold_locales
  fix e es s
  show "snd (local_check (max 1 window) (max 1 limit) e s)
      \<longleftrightarrow> int (size (filter_mset (\<lambda>x. e - max 1 window < x) (mset s))) < max 1 limit"
    by (simp add: local_check_def check_entries_def Let_def mset_filter [symmetric] del: mset_filter)
next
  fix e now :: int and es s
  assume "e \<le> now"
  then show "filter_mset (\<lambda>x. now - max 1 window < x) (mset (fst (local_check (max 1 window) (max 1 limit) e s))) =
      filter_mset (\<lambda>x. now - max 1 window < x) (filter_mset (\<lambda>x. e - max 1 window < x) (mset s)
        + (if snd (local_check (max 1 window) (max 1 limit) e s) then {#e#} else {#}))"
    by (simp add: local_check_def check_entries_def Let_def)
qed auto

definition redis_check :: "int \<Rightarrow> int \<Rightarrow> int \<times> string \<Rightarrow> bucket option \<Rightarrow> bucket option \<times> bool" where
  "redis_check window limit e b =
     (case lua_script (fst e) window limit (snd e) b of (b', values) \<Rightarrow> (b', rl_allowed (redis_result values limit)))"

definition members :: "bucket option \<Rightarrow> zset" where
  "members b = (case b of None \<Rightarrow> [] | Some bk \<Rightarrow> bk_members bk)"

text \<open>A bucket outlives its members' time in the window.\<close>

definition bucket_ok :: "int \<Rightarrow> bucket option \<Rightarrow> bool" where
  "bucket_ok window b =
     (case b of None \<Rightarrow> True | Some bk \<Rightarrow> list_all (\<lambda>(s, m). s + window \<le> bk_expires_at bk) (bk_members bk))"

text \<open>The events to come are in order of time, later than the members, with fresh member names.\<close>

definition redis_ready :: "int \<Rightarrow> (int \<times> string) list \<Rightarrow> bucket option \<Rightarrow> bool" where
  "redis_ready window es b =
     (sorted (map fst es) \<and> distinct (map snd es) \<and> bucket_ok window b
      \<and> list_all (\<lambda>p. list_all (\<lambda>q. fst p \<le> fst q \<and> snd p \<noteq> snd q) es) (members b))"

definition redis_recent :: "int \<Rightarrow> int \<Rightarrow> bucket option \<Rightarrow> int multiset" where
  "redis_recent window now b = filter_mset (\<lambda>x. now - window < x) (image_mset fst (mset (members b)))"

lemma live_in_window:
  assumes "bucket_ok window b"
  shows "zremrangebyscore (now - window) (live now b) = filter (\<lambda>p. now - window < fst p) (members b)"
proof -
  have z: "zremrangebyscore low z = filter (\<lambda>p. low < fst p) z" for low z
    by (simp add: zremrangebyscore_def case_prod_unfold not_le)
  show ?thesis
  proof (cases b)
    case None
    then show ?thesis by (simp add: z live_def members_def)
  next
    case (Some bk)
    have "filter (\<lambda>p. now - window < fst p) (bk_members bk) = []" if "bk_expires_at bk \<le> now"
      using assms that Some by (force simp: bucket_ok_def list_all_iff filter_empty_conv)
    with Some show ?thesis by (simp add: z live_def members_def)
  qed
qed

lemma size_recent: "size (redis_recent window now b) = length (filter (\<lambda>p. now - window < fst p) (members b))"
  by (simp add: redis_recent_def filter_mset_image_mset mset_filter [symmetric] del: mset_filter)

lemma mset_zadd: "(\<forall>(s, m)\<in>set z. m \<noteq> member) \<Longrightarrow> mset (zadd t member z) = add_mset (t, member) (mset z)"
  by (auto simp: zadd_def filter_id_conv case_prod_beta)

lemma members_pexpire [simp]: "members (pexpire now ttl z) = z"
  by (simp add: pexpire_def members_def)

lemma redis_step:
  assumes "redis_ready window (e # es) b" and "0 < window"
  shows "snd (redis_check window limit e b) \<longleftrightarrow> int (size (redis_recent window (fst e) b)) < limit"
    and "mset (members (fst (redis_check window limit e b))) =
      mset (filter (\<lambda>p. fst e - window < fst p) (members b)) + (if snd (redis_check window limit e b) then {#e#} else {#})"
    and "bucket_ok window (fst (redis_check window limit e b))"
proof -
  let ?z = "filter (\<lambda>p. fst e - window < fst p) (members b)"
  have z: "zremrangebyscore (fst e - window) (live (fst e) b) = ?z"
    by (rule live_in_window) (use assms in \<open>simp add: redis_ready_def\<close>)
  have new: "\<forall>(s, m)\<in>set ?z. m \<noteq> snd e" and past: "\<forall>(s, m)\<in>set ?z. s \<le> fst e"
    using assms(1) by (auto simp: redis_ready_def list_all_iff)
  have ok: "bucket_ok window (pexpire (fst e) window z')" if "\<forall>(s, m)\<in>set z'. s \<le> fst e" for z'
    using that by (auto simp: bucket_ok_def pexpire_def list_all_iff)
  show "snd (redis_check window limit e b) \<longleftrightarrow> int (size (redis_recent window (fst e) b)) < limit"
    by (simp add: redis_check_def lua_script_def z size_recent redis_result_def Let_def)
  show "mset (members (fst (redis_check window limit e b))) = mset ?z + (if snd (redis_check window limit e b) then {#e#} else {#})"
    using mset_zadd [OF new, of "fst e"] by (simp add: redis_check_def lua_script_def z redis_result_def Let_def)
  have "\<forall>(s, m)\<in>set (zadd (fst e) (snd e) ?z). s \<le> fst e" using past by (auto simp: zadd_def set_insort_key)
  with past ok show "bucket_ok window (fst (redis_check window limit e b))"
    by (simp add: redis_check_def lua_script_def z Let_def)
qed

lemma redis_ready_step:
  assumes "redis_ready window (e # es) b" and "0 < window"
  shows "redis_ready window es (fst (redis_check window limit e b))"
proof -
  let ?b = "fst (redis_check window limit e b)"
  have "set_mset (mset (members ?b)) \<subseteq> insert e (set (members b))" unfolding redis_step(2) [OF assms] by auto
  then have sub: "p = e \<or> p \<in> set (members b)" if "p \<in> set (members ?b)" for p using that by auto
  have "fst p \<le> fst q \<and> snd p \<noteq> snd q" if "p \<in> set (members ?b)" "q \<in> set es" for p q
    using sub [OF that(1)] that(2) assms(1) by (force simp: redis_ready_def list_all_iff)
  then show ?thesis using assms(1) redis_step(3) [OF assms, of limit] by (simp add: redis_ready_def list_all_iff)
qed

interpretation redis_window: sliding_window "max 1 window" "max 1 limit" fst "redis_check (max 1 window) (max 1 limit)"
  "redis_recent (max 1 window)" "redis_ready (max 1 window)" for window limit
proof unfold_locales
  fix e :: "int \<times> string" and es b
  assume r: "redis_ready (max 1 window) (e # es) b"
  have pos: "0 < max 1 window" by simp
  show "redis_ready (max 1 window) es (fst (redis_check (max 1 window) (max 1 limit) e b)) \<and> (\<forall>e'\<in>set es. fst e \<le> fst e')"
    using redis_ready_step [OF r pos] r by (auto simp: redis_ready_def)
  show "snd (redis_check (max 1 window) (max 1 limit) e b)
      \<longleftrightarrow> int (size (redis_recent (max 1 window) (fst e) b)) < max 1 limit"
    by (rule redis_step(1) [OF r pos])
  fix now assume now: "fst e \<le> now"
  have "redis_recent (max 1 window) now (fst (redis_check (max 1 window) (max 1 limit) e b)) =
      filter_mset (\<lambda>x. now - max 1 window < x) (image_mset fst
        (mset (filter (\<lambda>p. fst e - max 1 window < fst p) (members b))
          + (if snd (redis_check (max 1 window) (max 1 limit) e b) then {#e#} else {#})))"
    unfolding redis_recent_def redis_step(2) [OF r pos] ..
  moreover have "image_mset fst (mset (filter (\<lambda>p. fst e - max 1 window < fst p) (members b))) = redis_recent (max 1 window) (fst e) b"
    by (simp add: redis_recent_def filter_mset_image_mset)
  ultimately show "redis_recent (max 1 window) now (fst (redis_check (max 1 window) (max 1 limit) e b)) =
      filter_mset (\<lambda>x. now - max 1 window < x) (redis_recent (max 1 window) (fst e) b
        + (if snd (redis_check (max 1 window) (max 1 limit) e b) then {#fst e#} else {#}))"
    by simp
qed simp_all



text \<open>
  The process-local limiter obeys the same bound: of the calls of one identifier at
  non-decreasing times, at most \<open>limit\<close> admitted ones fall into any interval of the window's length.
\<close>

theorem local_window_bound:
  assumes "0 < window" and "1 \<le> limit" and "sorted es"
  shows "int (length (filter (in_window window t) (run_checks (local_check window limit) es []))) \<le> limit"
proof -
  have "max 1 window = window" "max 1 limit = limit" using assms(1,2) by simp_all
  then show ?thesis using local_window.window_bound [where window = window and limit = limit and es = es and s = "[]" and t = t] assms(3) by simp
qed

theorem local_window_bound_witness:
  "int (length (filter (in_window 60000000 61000000)
     (run_checks (local_check 60000000 2) [1000000, 2000000, 3000000, 61000000] []))) \<le> 2"
  by (rule local_window_bound) simp_all

lemma ceil_div_bounds: "0 < d \<Longrightarrow> n \<le> d * ceil_div n d \<and> d * ceil_div n d < n + d"
proof -
  assume d: "0 < d"
  have "d * ((- n) div d) = - n - (- n) mod d" by (simp add: minus_mod_eq_mult_div [symmetric])
  moreover have "0 \<le> (- n) mod d" "(- n) mod d < d" using d by simp_all
  ultimately show ?thesis by (simp add: ceil_div_def)
qed

text \<open>
  The announced waiting time is enough and never longer than the window: when Redis refuses a
  call of a bucket in which at most \<open>limit\<close> calls count, the answer's \<open>retry_after\<close> lies between one
  second and the window, and the next call after that many seconds is admitted, if nobody else used
  the bucket meanwhile.
\<close>

theorem retry_after_suffices:
  assumes "check_redis lm limit now member b = (b', res)" and "\<not> rl_allowed res"
    and "1 \<le> limit" and "1 \<le> lm_window_seconds lm" and "bucket_ok (lm_window_seconds lm * 1000) b"
    and "\<forall>p\<in>set (members b). fst p \<le> now"
    and "int (size (redis_recent (lm_window_seconds lm * 1000) now b)) \<le> limit"
  shows "\<exists>r. rl_retry_after res = Some r \<and> 1 \<le> r \<and> r \<le> lm_window_seconds lm
    \<and> (\<forall>now' member'. now + 1000 * r \<le> now' \<longrightarrow> rl_allowed (snd (check_redis lm limit now' member' b')))"
proof -
  let ?w = "lm_window_seconds lm * 1000"
  let ?z = "filter (\<lambda>p. now - ?w < fst p) (members b)"
  have z: "zremrangebyscore (now - ?w) (live now b) = ?z" by (rule live_in_window [OF assms(5)])
  have full: "int (length ?z) = limit"
    using assms(1,2,7) by (auto simp: check_redis_def lua_script_def z redis_result_def size_recent Let_def split: if_splits)
  then obtain p rest where p: "?z = p # rest" using assms(3) by (cases ?z) auto
  have b': "b' = Some \<lparr>bk_members = p # rest, bk_expires_at = now + ?w\<rparr>"
    and res: "rl_retry_after res = Some (max 1 (ceil_div (max 1 (fst p + ?w - now)) 1000))"
    using assms(1) full by (auto simp: check_redis_def lua_script_def z redis_result_def p pexpire_def case_prod_unfold Let_def)
  define r where "r = max 1 (ceil_div (max 1 (fst p + ?w - now)) 1000)"
  have in_z: "p \<in> set ?z" by (simp add: p)
  then have past: "fst p \<le> now" using assms(6) by auto
  note c = ceil_div_bounds [of 1000 "max 1 (fst p + ?w - now)"]
  have "ceil_div (max 1 (fst p + ?w - now)) 1000 \<le> lm_window_seconds lm"
  proof (rule ccontr)
    assume "\<not> ?thesis"
    then have "lm_window_seconds lm + 1 \<le> ceil_div (max 1 (fst p + ?w - now)) 1000" by simp
    with c past assms(4) show False by linarith
  qed
  then have upper: "r \<le> lm_window_seconds lm" using assms(4) by (simp add: r_def)
  have enough: "fst p + ?w \<le> now + 1000 * r" using c unfolding r_def by linarith
  have "rl_allowed (snd (check_redis lm limit now' member' b'))" if "now + 1000 * r \<le> now'" for now' member'
  proof -
    have ok: "bucket_ok ?w b'" using assms(6) p [symmetric] by (auto simp: b' bucket_ok_def list_all_iff dest!: arg_cong [of _ _ set])
    have "length (filter (\<lambda>q. now' - ?w < fst q) (p # rest)) \<le> length rest" using enough that by (simp add: length_filter_le)
    moreover have "int (length rest) < limit" using full p by simp
    ultimately show ?thesis
      by (simp add: check_redis_def lua_script_def live_in_window [OF ok] redis_result_def Let_def) (simp add: b' members_def)
  qed
  with upper res show ?thesis by (intro exI [of _ r]) (simp add: r_def)
qed

theorem retry_after_suffices_witness:
  "\<exists>r. rl_retry_after (snd (check_redis demo_limiter 2 30500 ''c''
       (Some \<lparr>bk_members = [(1000, ''a''), (2000, ''b'')], bk_expires_at = 62000\<rparr>))) = Some r \<and> 1 \<le> r \<and> r \<le> 60
    \<and> rl_allowed (snd (check_redis demo_limiter 2 (30500 + 1000 * r) ''d''
         (fst (check_redis demo_limiter 2 30500 ''c'' (Some \<lparr>bk_members = [(1000, ''a''), (2000, ''b'')], bk_expires_at = 62000\<rparr>)))))"
proof -
  let ?b = "Some \<lparr>bk_members = [(1000, ''a''), (2000, ''b'')], bk_expires_at = 62000\<rparr>"
  have "\<not> rl_allowed (snd (check_redis demo_limiter 2 30500 ''c'' ?b))" by code_simp
  with retry_after_suffices [of demo_limiter 2 30500 "''c''" ?b, OF prod.collapse [symmetric]] show ?thesis
    by (fastforce simp: demo_limiter_def bucket_ok_def members_def redis_recent_def)
qed

end
