(* ===== verification/Approval_Repository.thy ===== *)
theory Approval_Repository
  imports Durable_Calls Policy
begin

text \<open>
  Durable approval requests (\<open>security/approval_repository.py\<close>, with the row of
  \<open>services/db_store.py\<close>) and the values the runtime exchanges about them
  (\<open>security/approvals.py\<close>). A method of the repository is one transaction on the table of
  requests. The column \<open>risk_classes\<close> holds the set it encodes. Times are integers; exceptions of
  a method are the errors \<open>ApprovalValueError\<close> and \<open>DuplicateApproval\<close>, both \<open>ValueError\<close> in the
  source.
\<close>

subsection \<open>Records\<close>

datatype approval_status = ApPending | ApApproved | ApDenied | ApExpired | ApCancelled

datatype approval_error = ApprovalValueError | DuplicateApproval

record approval_row =
  ap_id :: string
  ap_user_id :: string
  ap_conversation_id :: string
  ap_run_id :: string
  ap_tool_call_id :: string
  ap_tool_name :: string
  ap_arguments_hash :: string
  ap_risk_classes :: "risk_class set"
  ap_matched_rule_id :: "string option"
  ap_status :: approval_status
  ap_decision_reason :: "string option"
  ap_created_at :: timestamp
  ap_expires_at :: timestamp
  ap_decided_at :: "timestamp option"

type_synonym approval_db = "approval_row list"

definition identifier_ok :: "string \<Rightarrow> bool" where
  "identifier_ok s = (strip s = s \<and> s \<noteq> [] \<and> length s \<le> 255 \<and> \<not> list_ex is_control s)"

text \<open>The canonical form that \<open>str(uuid.UUID(s))\<close> writes.\<close>

definition uuid_ok :: "string \<Rightarrow> bool" where
  "uuid_ok s =
     (identifier_ok s \<and> length s = 36
      \<and> list_all (\<lambda>(i, c). if i \<in> {8, 13, 18, 23} then c = CHR ''-'' else hex_lower c) (zip [0..<36] s))"

text \<open>The validation of \<open>ApprovalRecord.__post_init__\<close>; a well-formed record is kept as it is.\<close>

definition approval_record_ok :: "approval_row \<Rightarrow> bool" where
  "approval_record_ok r =
     (uuid_ok (ap_id r) \<and> identifier_ok (ap_user_id r) \<and> identifier_ok (ap_conversation_id r)
      \<and> identifier_ok (ap_run_id r) \<and> identifier_ok (ap_tool_call_id r)
      \<and> canonical_tool False (ap_tool_name r) = Some (ap_tool_name r) \<and> identifier_ok (ap_tool_name r)
      \<and> HASH (ap_arguments_hash r) \<and> ap_risk_classes r \<noteq> {}
      \<and> (case ap_matched_rule_id r of None \<Rightarrow> True | Some i \<Rightarrow> identifier_ok i)
      \<and> (case ap_decision_reason r of None \<Rightarrow> True | Some c \<Rightarrow> SAFE_CODE c)
      \<and> ap_created_at r < ap_expires_at r
      \<and> (ap_status r = ApPending \<longrightarrow> ap_decision_reason r = None \<and> ap_decided_at r = None)
      \<and> (ap_status r \<noteq> ApPending \<longrightarrow> ap_decided_at r \<noteq> None))"

text \<open>\<open>_record\<close>: a row that is not a well-formed record is an error.\<close>

definition read_record :: "approval_row \<Rightarrow> approval_error + approval_row" where
  "read_record r = (if approval_record_ok r then Inr r else Inl ApprovalValueError)"

text \<open>The primary key and \<open>uq_approval_requests_owner_run_call\<close>.\<close>

definition approval_clash :: "approval_row \<Rightarrow> approval_row \<Rightarrow> bool" where
  "approval_clash a b =
     (ap_id a = ap_id b
      \<or> ap_user_id a = ap_user_id b \<and> ap_run_id a = ap_run_id b \<and> ap_tool_call_id a = ap_tool_call_id b)"

record auth_request =
  aq_tool_call_id :: string
  aq_tool_name :: string
  aq_arguments_hash :: string
  aq_risk_classes :: "risk_class set"
  aq_matched_rule_id :: "string option"

record auth_outcome =
  ao_approved :: bool
  ao_tool_call_id :: string
  ao_tool_name :: string
  ao_arguments_hash :: string
  ao_reason_code :: string

definition binding_ok :: "string \<Rightarrow> string \<Rightarrow> string \<Rightarrow> bool" where
  "binding_ok tool_call_id tool_name arguments_hash =
     (tool_call_id \<noteq> [] \<and> HASH arguments_hash \<and> canonical_tool False tool_name = Some tool_name)"

definition auth_request_ok :: "auth_request \<Rightarrow> bool" where
  "auth_request_ok q =
     (binding_ok (aq_tool_call_id q) (aq_tool_name q) (aq_arguments_hash q) \<and> aq_matched_rule_id q \<noteq> Some [])"

definition make_outcome :: "bool \<Rightarrow> string \<Rightarrow> string \<Rightarrow> string \<Rightarrow> string \<Rightarrow> auth_outcome option" where
  "make_outcome approved tool_call_id tool_name arguments_hash reason_code =
     (if binding_ok tool_call_id tool_name arguments_hash \<and> SAFE_CODE reason_code
      then Some \<lparr>ao_approved = approved, ao_tool_call_id = tool_call_id, ao_tool_name = tool_name,
                 ao_arguments_hash = arguments_hash, ao_reason_code = reason_code\<rparr>
      else None)"

definition binds :: "auth_outcome \<Rightarrow> auth_request \<Rightarrow> bool" where
  "binds ao q =
     (ao_tool_call_id ao = aq_tool_call_id q \<and> ao_tool_name ao = aq_tool_name q
      \<and> ao_arguments_hash ao = aq_arguments_hash q)"

subsection \<open>Operations\<close>

definition new_request ::
  "timestamp \<Rightarrow> int \<Rightarrow> string \<Rightarrow> string \<Rightarrow> string \<Rightarrow> string \<Rightarrow> auth_request \<Rightarrow> approval_row" where
  "new_request now ttl fresh_id user conversation run q =
     \<lparr>ap_id = fresh_id, ap_user_id = user, ap_conversation_id = conversation, ap_run_id = run,
      ap_tool_call_id = aq_tool_call_id q, ap_tool_name = aq_tool_name q,
      ap_arguments_hash = aq_arguments_hash q, ap_risk_classes = aq_risk_classes q,
      ap_matched_rule_id = aq_matched_rule_id q, ap_status = ApPending, ap_decision_reason = None,
      ap_created_at = now, ap_expires_at = now + ttl, ap_decided_at = None\<rparr>"

definition reserve_approval ::
  "timestamp \<Rightarrow> int \<Rightarrow> string \<Rightarrow> string \<Rightarrow> string \<Rightarrow> string \<Rightarrow> auth_request \<Rightarrow> approval_db
     \<Rightarrow> approval_db \<times> (approval_error + approval_row)" where
  "reserve_approval now ttl fresh_id user conversation run q db =
     (let r = new_request now ttl fresh_id user conversation run q in
      if ttl \<le> 0 \<or> \<not> approval_record_ok r then (db, Inl ApprovalValueError)
      else (case insert_unique approval_clash r db of
              None \<Rightarrow> (db, Inl DuplicateApproval)
            | Some db' \<Rightarrow> (db', Inr r)))"

text \<open>The assignment that closes a request, and the update that expires the due requests among \<open>P\<close>.\<close>

definition closed :: "approval_status \<Rightarrow> string \<Rightarrow> timestamp \<Rightarrow> approval_row \<Rightarrow> approval_row" where
  "closed status reason now r = r\<lparr>ap_status := status, ap_decision_reason := Some reason, ap_decided_at := Some now\<rparr>"

definition due :: "(approval_row \<Rightarrow> bool) \<Rightarrow> timestamp \<Rightarrow> approval_row \<Rightarrow> bool" where
  "due P now r = (P r \<and> ap_status r = ApPending \<and> ap_expires_at r \<le> now)"

definition open_request :: "(approval_row \<Rightarrow> bool) \<Rightarrow> timestamp \<Rightarrow> approval_row \<Rightarrow> bool" where
  "open_request P now r = (P r \<and> ap_status r = ApPending \<and> now < ap_expires_at r)"

definition expire :: "(approval_row \<Rightarrow> bool) \<Rightarrow> timestamp \<Rightarrow> approval_db \<Rightarrow> approval_db" where
  "expire P now db = updated (due P now) (closed ApExpired ''approval_expired'' now) db"

definition owned_id :: "string \<Rightarrow> string \<Rightarrow> approval_row \<Rightarrow> bool" where
  "owned_id i user r = (ap_id r = i \<and> ap_user_id r = user)"

definition owner_call :: "string \<Rightarrow> string \<Rightarrow> approval_row \<Rightarrow> bool" where
  "owner_call user call r = (ap_user_id r = user \<and> ap_tool_call_id r = call)"

definition owner_run_call :: "string \<Rightarrow> string \<Rightarrow> string \<Rightarrow> approval_row \<Rightarrow> bool" where
  "owner_run_call user run call r = (ap_user_id r = user \<and> ap_run_id r = run \<and> ap_tool_call_id r = call)"

definition exact_binding :: "string \<Rightarrow> string \<Rightarrow> string \<Rightarrow> auth_request \<Rightarrow> approval_row \<Rightarrow> bool" where
  "exact_binding user conversation run q r =
     (ap_user_id r = user \<and> ap_conversation_id r = conversation \<and> ap_run_id r = run
      \<and> ap_tool_call_id r = aq_tool_call_id q \<and> ap_tool_name r = aq_tool_name q
      \<and> ap_arguments_hash r = aq_arguments_hash q)"

definition binding_ids_ok :: "string \<Rightarrow> string \<Rightarrow> string \<Rightarrow> auth_request \<Rightarrow> bool" where
  "binding_ids_ok user conversation run q =
     (identifier_ok user \<and> identifier_ok conversation \<and> identifier_ok run
      \<and> identifier_ok (aq_tool_call_id q) \<and> identifier_ok (aq_tool_name q))"

text \<open>\<open>scalar_one_or_none\<close> of the selected row, read as a record.\<close>

definition read_one :: "approval_row list \<Rightarrow> approval_error + approval_row option" where
  "read_one rows = (case scalar rows of None \<Rightarrow> Inr None | Some r \<Rightarrow> map_sum id Some (read_record r))"

definition get_owner ::
  "timestamp \<Rightarrow> string \<Rightarrow> string \<Rightarrow> approval_db \<Rightarrow> approval_db \<times> (approval_error + approval_row option)" where
  "get_owner now i user db =
     (if \<not> uuid_ok i \<or> \<not> identifier_ok user then (db, Inl ApprovalValueError)
      else let db' = expire (owned_id i user) now db in (db', read_one (select_where (owned_id i user) db')))"

definition find_pending_by_tool_call ::
  "timestamp \<Rightarrow> string \<Rightarrow> string \<Rightarrow> approval_db \<Rightarrow> approval_db \<times> (approval_error + approval_row option)" where
  "find_pending_by_tool_call now user call db =
     (if \<not> identifier_ok user \<or> \<not> identifier_ok call then (db, Inl ApprovalValueError)
      else
        let db' = expire (owner_call user call) now db;
            rows = take 2 (select_where (open_request (owner_call user call) now) db') in
        (db', if length rows = 1 then map_sum id Some (read_record (hd rows)) else Inr None))"

definition get_exact_binding ::
  "timestamp \<Rightarrow> string \<Rightarrow> string \<Rightarrow> string \<Rightarrow> auth_request \<Rightarrow> approval_db
     \<Rightarrow> approval_db \<times> (approval_error + approval_row option)" where
  "get_exact_binding now user conversation run q db =
     (if \<not> binding_ids_ok user conversation run q then (db, Inl ApprovalValueError)
      else
        let P = exact_binding user conversation run q; db' = expire P now db in
        (db', read_one (select_where P db')))"

text \<open>The decisions an owner may take.\<close>

definition decision_ok :: "approval_status \<Rightarrow> string \<Rightarrow> bool" where
  "decision_ok status reason = (status \<in> {ApApproved, ApDenied} \<and> SAFE_CODE reason)"

definition decide_open ::
  "(approval_row \<Rightarrow> bool) \<Rightarrow> timestamp \<Rightarrow> approval_status \<Rightarrow> string \<Rightarrow> approval_db \<Rightarrow> approval_db \<times> bool" where
  "decide_open P now status reason db =
     (updated (open_request P now) (closed status reason now) db, rowcount (open_request P now) db = 1)"

definition decide_exact_for_owner ::
  "timestamp \<Rightarrow> string \<Rightarrow> string \<Rightarrow> string \<Rightarrow> approval_status \<Rightarrow> string \<Rightarrow> approval_db
     \<Rightarrow> approval_db \<times> (approval_error + bool)" where
  "decide_exact_for_owner now user run call status reason db =
     (if \<not> identifier_ok user \<or> \<not> identifier_ok run \<or> \<not> identifier_ok call \<or> \<not> decision_ok status reason
      then (db, Inl ApprovalValueError)
      else map_prod id Inr (decide_open (owner_run_call user run call) now status reason
             (expire (owner_run_call user run call) now db)))"

definition decide_unique_for_owner ::
  "timestamp \<Rightarrow> string \<Rightarrow> string \<Rightarrow> approval_status \<Rightarrow> string \<Rightarrow> approval_db
     \<Rightarrow> approval_db \<times> (approval_error + bool)" where
  "decide_unique_for_owner now user call status reason db =
     (if \<not> identifier_ok user \<or> \<not> identifier_ok call \<or> \<not> decision_ok status reason
      then (db, Inl ApprovalValueError)
      else
        let db' = expire (owner_call user call) now db;
            ids = map ap_id (take 2 (select_where (open_request (owner_call user call) now) db')) in
        if length ids \<noteq> 1 then (db', Inr False)
        else map_prod id Inr (decide_open (\<lambda>r. ap_id r = hd ids) now status reason db'))"

definition decide_for_owner ::
  "timestamp \<Rightarrow> string \<Rightarrow> string \<Rightarrow> approval_status \<Rightarrow> string \<Rightarrow> approval_db
     \<Rightarrow> approval_db \<times> (approval_error + bool)" where
  "decide_for_owner now i user status reason db =
     (if \<not> uuid_ok i \<or> \<not> identifier_ok user \<or> \<not> decision_ok status reason then (db, Inl ApprovalValueError)
      else map_prod id Inr (decide_open (owned_id i user) now status reason db))"

definition cancel_where :: "(approval_row \<Rightarrow> bool) \<Rightarrow> string \<Rightarrow> timestamp \<Rightarrow> approval_db \<Rightarrow> approval_db \<times> nat" where
  "cancel_where P reason now db =
     (let Q = (\<lambda>r. P r \<and> ap_status r = ApPending) in (updated Q (closed ApCancelled reason now) db, rowcount Q db))"

definition cancel_one ::
  "timestamp \<Rightarrow> string \<Rightarrow> string \<Rightarrow> string \<Rightarrow> auth_request \<Rightarrow> approval_db \<Rightarrow> approval_db \<times> (approval_error + bool)" where
  "cancel_one now user conversation run q db =
     (if \<not> binding_ids_ok user conversation run q then (db, Inl ApprovalValueError)
      else map_prod id (\<lambda>n. Inr (n = 1)) (cancel_where (exact_binding user conversation run q) ''approval_cancelled'' now db))"

definition cancel_run ::
  "timestamp \<Rightarrow> string \<Rightarrow> string \<Rightarrow> approval_db \<Rightarrow> approval_db \<times> (approval_error + nat)" where
  "cancel_run now user run db =
     (if \<not> identifier_ok user \<or> \<not> identifier_ok run then (db, Inl ApprovalValueError)
      else map_prod id Inr (cancel_where (\<lambda>r. ap_user_id r = user \<and> ap_run_id r = run) ''run_cancelled'' now db))"

definition expire_due :: "timestamp \<Rightarrow> approval_db \<Rightarrow> approval_db \<times> nat" where
  "expire_due now db = (expire (\<lambda>r. True) now db, rowcount (due (\<lambda>r. True) now) db)"

definition approval_pending_count :: "timestamp \<Rightarrow> approval_db \<Rightarrow> approval_db \<times> nat" where
  "approval_pending_count now db =
     (let db' = fst (expire_due now db) in (db', rowcount (\<lambda>r. ap_status r = ApPending) db'))"

definition get_status ::
  "timestamp \<Rightarrow> string \<Rightarrow> string \<Rightarrow> approval_db \<Rightarrow> approval_db \<times> (approval_error + approval_status option)" where
  "get_status now i user db =
     (case get_owner now i user db of (db', res) \<Rightarrow> (db', map_sum id (map_option ap_status) res))"

subsection \<open>Histories\<close>

inductive approval_step :: "approval_db \<Rightarrow> approval_db \<Rightarrow> bool" where
  approval_reserved: "approval_step db (fst (reserve_approval now ttl i user conversation run q db))"
| approval_read: "approval_step db (fst (get_owner now i user db))"
| approval_found: "approval_step db (fst (find_pending_by_tool_call now user call db))"
| approval_bound: "approval_step db (fst (get_exact_binding now user conversation run q db))"
| approval_decided_exact: "approval_step db (fst (decide_exact_for_owner now user run call status reason db))"
| approval_decided_unique: "approval_step db (fst (decide_unique_for_owner now user call status reason db))"
| approval_decided: "approval_step db (fst (decide_for_owner now i user status reason db))"
| approval_cancelled: "approval_step db (fst (cancel_one now user conversation run q db))"
| approval_run_cancelled: "approval_step db (fst (cancel_run now user run db))"
| approval_expired: "approval_step db (fst (expire_due now db))"

definition approval_reachable :: "approval_db \<Rightarrow> bool" where
  "approval_reachable db = approval_step\<^sup>*\<^sup>* [] db"

subsection \<open>A request is closed once\<close>

definition approval_moves :: "approval_row \<Rightarrow> approval_row \<Rightarrow> bool" where
  "approval_moves r r' =
     (r' = r \<or> ap_status r = ApPending \<and> (\<exists>status reason now. r' = closed status reason now r \<and> status \<noteq> ApPending
        \<and> SAFE_CODE reason \<and> (status \<in> {ApApproved, ApDenied} \<longrightarrow> now < ap_expires_at r)))"

lemma closed_simps [simp]:
  "ap_status (closed s c t r) = s" "ap_decided_at (closed s c t r) = Some t" "ap_decision_reason (closed s c t r) = Some c"
  "ap_id (closed s c t r) = ap_id r" "ap_user_id (closed s c t r) = ap_user_id r" "ap_run_id (closed s c t r) = ap_run_id r"
  "ap_tool_call_id (closed s c t r) = ap_tool_call_id r" "ap_conversation_id (closed s c t r) = ap_conversation_id r"
  "ap_tool_name (closed s c t r) = ap_tool_name r" "ap_arguments_hash (closed s c t r) = ap_arguments_hash r"
  "ap_risk_classes (closed s c t r) = ap_risk_classes r" "ap_matched_rule_id (closed s c t r) = ap_matched_rule_id r"
  "ap_created_at (closed s c t r) = ap_created_at r" "ap_expires_at (closed s c t r) = ap_expires_at r"
  by (simp_all add: closed_def)

lemma approval_moves_refl: "reflp approval_moves"
  by (simp add: reflp_def approval_moves_def)

lemma approval_moves_trans: "transp approval_moves"
proof (rule transpI)
  fix a b c assume ab: "approval_moves a b" and bc: "approval_moves b c"
  show "approval_moves a c"
  proof (cases "b = a")
    case True
    with bc show ?thesis by simp
  next
    case False
    with ab have "ap_status b \<noteq> ApPending" by (auto simp: approval_moves_def)
    with bc have "c = b" by (simp add: approval_moves_def)
    with ab show ?thesis by simp
  qed
qed

lemma approval_moves_keeps:
  assumes "approval_moves r r'"
  shows "ap_id r' = ap_id r" "ap_user_id r' = ap_user_id r" "ap_run_id r' = ap_run_id r" "ap_tool_call_id r' = ap_tool_call_id r"
    "ap_conversation_id r' = ap_conversation_id r" "ap_tool_name r' = ap_tool_name r"
    "ap_arguments_hash r' = ap_arguments_hash r" "ap_expires_at r' = ap_expires_at r"
  using assms by (auto simp: approval_moves_def)

lemma approval_moves_final: "approval_moves r r' \<Longrightarrow> ap_status r \<noteq> ApPending \<Longrightarrow> r' = r"
  by (simp add: approval_moves_def)

lemmas approval_follows_refl = ledger_follows_refl [OF approval_moves_refl]
lemmas approval_follows_trans = ledger_follows_trans [OF approval_moves_trans]
lemmas approval_follows_updated = ledger_follows_updated [OF approval_moves_refl]

lemma reason_codes_ok: "SAFE_CODE ''approval_expired''" "SAFE_CODE ''approval_cancelled''" "SAFE_CODE ''run_cancelled''"
  by (simp_all add: SAFE_CODE_def ascii_lower_def ascii_digit_def)

lemma expire_follows: "ledger_follows approval_moves db (expire P now db)"
  unfolding expire_def
  by (rule approval_follows_updated) (use reason_codes_ok in \<open>auto simp: due_def approval_moves_def\<close>)

lemma decide_follows:
  "decision_ok status reason \<Longrightarrow> ledger_follows approval_moves db (fst (decide_open P now status reason db))"
  unfolding decide_open_def fst_conv
  by (rule approval_follows_updated) (auto simp: open_request_def approval_moves_def decision_ok_def)

lemma cancel_follows: "SAFE_CODE reason \<Longrightarrow> ledger_follows approval_moves db (fst (cancel_where P reason now db))"
  unfolding cancel_where_def Let_def fst_conv
  by (rule approval_follows_updated) (auto simp: approval_moves_def)

text \<open>A transaction that only closes requests.\<close>

definition closes :: "approval_db \<Rightarrow> approval_db \<Rightarrow> bool" where
  "closes db db' = (length db' = length db \<and> ledger_follows approval_moves db db')"

lemma closes_refl: "closes db db"
  by (simp add: closes_def approval_follows_refl)

lemma closes_trans: "closes a b \<Longrightarrow> closes b c \<Longrightarrow> closes a c"
  unfolding closes_def using approval_follows_trans by metis

lemma closes_expire: "closes db (expire P now db)"
  unfolding closes_def using expire_follows by (simp add: expire_def)

lemma closes_decide: "decision_ok status reason \<Longrightarrow> closes db (fst (decide_open P now status reason db))"
  unfolding closes_def using decide_follows by (simp add: decide_open_def)

lemma closes_cancel: "SAFE_CODE reason \<Longrightarrow> closes db (fst (cancel_where P reason now db))"
  unfolding closes_def using cancel_follows by (simp add: cancel_where_def Let_def)

lemmas closes_intros = closes_refl closes_expire closes_decide closes_cancel reason_codes_ok
  closes_trans [OF closes_expire closes_decide]

lemma closes_ops:
  "closes db (fst (get_owner now i user db))"
  "closes db (fst (find_pending_by_tool_call now user call db))"
  "closes db (fst (get_exact_binding now user conversation run q db))"
  "closes db (fst (decide_exact_for_owner now user run call status reason db))"
  "closes db (fst (decide_for_owner now i user status reason db))"
  "closes db (fst (cancel_one now user conversation run q db))"
  "closes db (fst (cancel_run now user run db))"
  "closes db (fst (expire_due now db))"
  by (simp_all add: get_owner_def find_pending_by_tool_call_def get_exact_binding_def decide_exact_for_owner_def
      decide_for_owner_def cancel_one_def cancel_run_def expire_due_def Let_def closes_intros)

lemma closes_decide_unique: "closes db (fst (decide_unique_for_owner now user call status reason db))"
proof (cases "\<not> identifier_ok user \<or> \<not> identifier_ok call \<or> \<not> decision_ok status reason")
  case True
  then show ?thesis by (simp add: decide_unique_for_owner_def closes_refl)
next
  case False
  then show ?thesis
    by (cases "length (take 2 (select_where (open_request (owner_call user call) now) (expire (owner_call user call) now db))) = 1")
      (auto simp: decide_unique_for_owner_def Let_def intro: closes_intros)
qed

text \<open>Every transaction adds one well-formed pending request or closes some pending ones.\<close>

lemma approval_step_cases:
  assumes "approval_step db db'"
  obtains (new) r where "db' = db @ [r]" "approval_record_ok r" "ap_status r = ApPending" "\<forall>x\<in>set db. \<not> approval_clash r x"
  | (closing) "closes db db'"
  using assms
proof (cases rule: approval_step.cases)
  case (approval_reserved now ttl i user conversation run q)
  let ?r = "new_request now ttl i user conversation run q"
  show thesis
  proof (cases "ttl \<le> 0 \<or> \<not> approval_record_ok ?r \<or> insert_unique approval_clash ?r db = None")
    case True
    with approval_reserved have "db' = db" by (auto simp: reserve_approval_def Let_def)
    then show thesis using closing closes_refl by simp
  next
    case False
    then obtain d where d: "insert_unique approval_clash ?r db = Some d" by auto
    with False approval_reserved have "db' = d" by (simp add: reserve_approval_def)
    with False d insert_unique_Some [OF d] show thesis by (intro new [of ?r]) (simp_all add: new_request_def)
  qed
qed (use closing closes_ops closes_decide_unique in auto)

lemma approval_step_follows: "approval_step db db' \<Longrightarrow> ledger_follows approval_moves db db'"
  by (erule approval_step_cases) (auto simp: closes_def intro: ledger_follows_append [OF approval_moves_refl])

interpretation approval_ledger: durable_ledger "\<lambda>db. db" ap_id approval_moves approval_step
  by unfold_locales (simp_all add: approval_moves_refl approval_moves_trans approval_moves_keeps approval_step_follows)

definition approval_ok :: "approval_row \<Rightarrow> bool" where
  "approval_ok r =
     (approval_record_ok r
      \<and> (ap_status r \<in> {ApApproved, ApDenied} \<longrightarrow> (case ap_decided_at r of None \<Rightarrow> False | Some t \<Rightarrow> t < ap_expires_at r)))"

definition approval_inv :: "approval_db \<Rightarrow> bool" where
  "approval_inv db = (list_all approval_ok db \<and> sorted_wrt (\<lambda>a b. \<not> approval_clash b a) db)"

lemma approval_ok_moves:
  assumes ok: "approval_ok r" and mv: "approval_moves r r'"
  shows "approval_ok r'"
proof (cases "r' = r")
  case False
  with mv obtain status reason now where c: "r' = closed status reason now r" "status \<noteq> ApPending" "SAFE_CODE reason"
    "status \<in> {ApApproved, ApDenied} \<longrightarrow> now < ap_expires_at r" unfolding approval_moves_def by blast
  from ok have "approval_record_ok r" by (simp add: approval_ok_def)
  with c(2,3) have "approval_record_ok (closed status reason now r)" by (simp add: approval_record_ok_def)
  with c(4) show ?thesis by (simp add: approval_ok_def c(1))
qed (use ok in simp)

lemma approval_clash_moves:
  "approval_moves a a' \<Longrightarrow> approval_moves b b' \<Longrightarrow> approval_clash a' b' = approval_clash a b"
  by (simp add: approval_clash_def approval_moves_keeps)

lemma closes_inv:
  assumes "closes db db'" and "approval_inv db"
  shows "approval_inv db'"
proof -
  have len: "length db' = length db" and mv: "approval_moves (db ! i) (db' ! i)" if "i < length db" for i
    using assms(1) that by (simp_all add: closes_def ledger_follows_def)
  have len: "length db' = length db" using assms(1) by (simp add: closes_def)
  have "approval_ok (db' ! i)" if "i < length db" for i
    using approval_ok_moves [OF _ mv [OF that]] assms(2) that by (simp add: approval_inv_def list_all_length)
  moreover have "\<not> approval_clash (db' ! j) (db' ! i)" if "i < j" "j < length db" for i j
    using approval_clash_moves [OF mv mv, of j i] assms(2) that by (simp add: approval_inv_def sorted_wrt_iff_nth_less)
  ultimately show ?thesis by (simp add: approval_inv_def list_all_length sorted_wrt_iff_nth_less len)
qed

lemma approval_step_inv: "approval_step db db' \<Longrightarrow> approval_inv db \<Longrightarrow> approval_inv db'"
proof (erule approval_step_cases)
  fix r assume "approval_inv db" "db' = db @ [r]" "approval_record_ok r" "ap_status r = ApPending" "\<forall>x\<in>set db. \<not> approval_clash r x"
  then show "approval_inv db'" by (simp add: approval_inv_def approval_ok_def sorted_wrt_append)
qed (rule closes_inv)

lemma approval_steps_inv: "approval_step\<^sup>*\<^sup>* db db' \<Longrightarrow> approval_inv db \<Longrightarrow> approval_inv db'"
  by (induction rule: rtranclp_induct) (auto intro: approval_step_inv)

lemma approval_reachable_inv: "approval_reachable db \<Longrightarrow> approval_inv db"
  unfolding approval_reachable_def by (erule approval_steps_inv) (simp add: approval_inv_def)

lemma request_unique:
  assumes "approval_inv db" "a \<in> set db" "b \<in> set db" "owner_run_call user run call a" "owner_run_call user run call b"
  shows "a = b"
proof -
  have "sorted_wrt (\<lambda>a b. \<not> approval_clash b a) db" using assms(1) by (simp add: approval_inv_def)
  then show ?thesis using assms(2-5) by (induction db) (auto simp: approval_clash_def owner_run_call_def)
qed

text \<open>
  C37: Every stored request reads back as a well-formed record in every reachable state, and an
  approval or a denial was always recorded strictly before the request expired.
\<close>

theorem approval_rows_readable:
  assumes "approval_reachable db" and "r \<in> set db"
  shows "read_record r = Inr r
    \<and> (ap_status r \<in> {ApApproved, ApDenied} \<longrightarrow> (\<exists>t. ap_decided_at r = Some t \<and> t < ap_expires_at r))"
proof -
  have "approval_ok r" using approval_reachable_inv [OF assms(1)] assms(2) by (simp add: approval_inv_def list_all_iff)
  then show ?thesis by (auto simp: approval_ok_def read_record_def split: option.splits)
qed

lemma decide_exact_won:
  assumes "decide_exact_for_owner now user run call status reason db = (db1, Inr True)"
  obtains r where "r \<in> set db1" "owner_run_call user run call r" "ap_status r = status" "ap_decided_at r = Some now"
    "status \<in> {ApApproved, ApDenied}"
proof -
  let ?P = "owner_run_call user run call"
  let ?db = "expire ?P now db"
  have ok: "decision_ok status reason" and db1: "db1 = updated (open_request ?P now) (closed status reason now) ?db"
    and one: "rowcount (open_request ?P now) ?db = 1"
    using assms by (auto simp: decide_exact_for_owner_def decide_open_def split: if_splits)
  from one obtain x where x: "x \<in> set ?db" "open_request ?P now x" by (auto elim: rowcount_oneE)
  then have "closed status reason now x \<in> set db1" using updatedI [OF x(1), of "open_request ?P now"] by (simp add: db1)
  then show thesis using x(2) ok by (intro that) (auto simp: open_request_def owner_run_call_def decision_ok_def)
qed

text \<open>
  C15: A request is decided once: after an owner's decision was accepted, the request keeps that
  decision whatever happens later, and every further decision of the same request is refused.
\<close>

theorem approval_decided_once:
  assumes "approval_reachable db" and "decide_exact_for_owner now user run call status reason db = (db1, Inr True)"
    and "approval_step\<^sup>*\<^sup>* db1 db2"
  shows "(\<exists>r\<in>set db2. owner_run_call user run call r \<and> ap_status r = status \<and> ap_decided_at r = Some now)
    \<and> snd (decide_exact_for_owner now' user run call status' reason' db2) \<noteq> Inr True"
proof -
  from decide_exact_won [OF assms(2)] obtain r where r: "r \<in> set db1" "owner_run_call user run call r"
    "ap_status r = status" "ap_decided_at r = Some now" "status \<in> {ApApproved, ApDenied}" .
  from approval_ledger.row_moves [OF assms(3) r(1)] approval_moves_final r(3,5) have in2: "r \<in> set db2" by force
  have "approval_step db db1" using approval_step.approval_decided_exact [of db now user run call status reason] assms(2) by simp
  then have "approval_inv db1" using approval_step_inv approval_reachable_inv [OF assms(1)] by blast
  then have inv: "approval_inv db2" by (rule approval_steps_inv [OF assms(3)])
  let ?P = "owner_run_call user run call"
  have "\<not> open_request ?P now' x" if "x \<in> set (expire ?P now' db2)" for x
  proof
    assume o: "open_request ?P now' x"
    from that obtain y where y: "y \<in> set db2" "x = (if due ?P now' y then closed ApExpired ''approval_expired'' now' y else y)"
      unfolding expire_def by (rule in_updatedE)
    with o have "x = y" by (auto simp: open_request_def split: if_splits)
    with o y(1) have "x = r" by (intro request_unique [OF inv _ in2 _ r(2)]) (auto simp: open_request_def)
    with o r(3,5) show False by (auto simp: open_request_def)
  qed
  then have "rowcount (open_request ?P now') (expire ?P now' db2) = 0" by (simp add: rowcount_zero)
  then have "snd (decide_exact_for_owner now' user run call status' reason' db2) \<noteq> Inr True"
    by (simp add: decide_exact_for_owner_def decide_open_def)
  with in2 r show ?thesis by blast
qed

subsection \<open>An example\<close>

definition demo_request :: auth_request where
  "demo_request = \<lparr>aq_tool_call_id = ''c1'', aq_tool_name = ''send_mail'', aq_arguments_hash = replicate 64 CHR ''a'',
     aq_risk_classes = {WRITE}, aq_matched_rule_id = None\<rparr>"

definition demo_approval_id :: string where
  "demo_approval_id = ''00000000-0000-4000-8000-000000000001''"

definition demo_row :: approval_row where
  "demo_row = new_request 100 30 demo_approval_id ''u'' ''conv'' ''run'' demo_request"

lemma demo_identifiers: "identifier_ok ''u''" "identifier_ok ''conv''" "identifier_ok ''run''" "identifier_ok ''c1''" "identifier_ok ''send_mail''"
  by code_simp+

lemma demo_tool: "canonical_tool False ''send_mail'' = Some ''send_mail''"
  by code_simp

lemma demo_uuid: "uuid_ok demo_approval_id"
  by code_simp

lemma demo_hash: "HASH (replicate 64 CHR ''a'')"
  by (simp add: HASH_def hex_lower_def ascii_digit_def list_all_iff)

lemma demo_row_ok: "approval_record_ok demo_row"
  by (simp add: approval_record_ok_def demo_row_def new_request_def demo_request_def demo_identifiers demo_tool demo_uuid demo_hash)

lemma demo_reserved: "reserve_approval 100 30 demo_approval_id ''u'' ''conv'' ''run'' demo_request [] = ([demo_row], Inr demo_row)"
  using demo_row_ok by (simp add: reserve_approval_def demo_row_def [symmetric] insert_unique_def Let_def)

lemma demo_row_reachable: "approval_reachable [demo_row]"
  using approval_step.approval_reserved [of "[]" 100 30 demo_approval_id "''u''" "''conv''" "''run''" demo_request]
  by (simp add: approval_reachable_def demo_reserved)

lemma demo_decided:
  "decide_exact_for_owner 110 ''u'' ''run'' ''c1'' ApApproved ''user_approved'' [demo_row] =
     ([closed ApApproved ''user_approved'' 110 demo_row], Inr True)"
proof -
  have "SAFE_CODE ''user_approved''" by (simp add: SAFE_CODE_def ascii_lower_def ascii_digit_def)
  then show ?thesis
    by (simp add: decide_exact_for_owner_def demo_identifiers decision_ok_def decide_open_def expire_def updated_def due_def
        open_request_def owner_run_call_def rowcount_def demo_row_def new_request_def demo_request_def)
qed

theorem approval_rows_readable_witness: "read_record demo_row = Inr demo_row"
  using approval_rows_readable [OF demo_row_reachable, of demo_row] by simp

theorem approval_decided_once_witness:
  "snd (decide_exact_for_owner 111 ''u'' ''run'' ''c1'' ApDenied ''user_denied''
     [closed ApApproved ''user_approved'' 110 demo_row]) \<noteq> Inr True"
  using approval_decided_once [OF demo_row_reachable demo_decided rtranclp.rtrancl_refl] by blast

end
