(* ===== verification/Live_Approvals.thy ===== *)
theory Live_Approvals
  imports Approval_Repository
begin

text \<open>
  Approval coordination for live runs (\<open>security/live_approvals.py\<close>): the broker that polls the
  durable repository, and the in-memory broker whose waiters hold futures. Polling is a list of
  rounds, each with the loop's clock, a possible cancellation of the waiter, and the repository
  call that ends it; the clock of the process and of the loop are both arguments. Items of the
  in-memory broker are numbered in the order of their creation, which stands for their identity.
\<close>

record run_context =
  rc_user_id :: string
  rc_conversation_id :: string
  rc_run_id :: string

subsection \<open>The durable broker\<close>

datatype wait_error = MissingReservation | RepositoryRaised | WaitCancelled | InvalidOutcome

definition broker_reserve ::
  "timestamp \<Rightarrow> int \<Rightarrow> string \<Rightarrow> run_context \<Rightarrow> auth_request \<Rightarrow> approval_db \<Rightarrow> approval_db \<times> (approval_error + approval_row)" where
  "broker_reserve now ttl fresh_id cx q db =
     reserve_approval now ttl fresh_id (rc_user_id cx) (rc_conversation_id cx) (rc_run_id cx) q db"

definition broker_get ::
  "run_context \<Rightarrow> auth_request \<Rightarrow> timestamp \<Rightarrow> approval_db \<Rightarrow> approval_db \<times> (approval_error + approval_row option)" where
  "broker_get cx q now db = get_exact_binding now (rc_user_id cx) (rc_conversation_id cx) (rc_run_id cx) q db"

definition broker_cancel ::
  "run_context \<Rightarrow> auth_request \<Rightarrow> timestamp \<Rightarrow> approval_db \<Rightarrow> approval_db \<times> (approval_error + bool)" where
  "broker_cancel cx q now db = cancel_one now (rc_user_id cx) (rc_conversation_id cx) (rc_run_id cx) q db"

definition broker_decide ::
  "timestamp \<Rightarrow> string \<Rightarrow> string \<Rightarrow> string \<Rightarrow> bool \<Rightarrow> approval_db \<Rightarrow> approval_db \<times> (approval_error + bool)" where
  "broker_decide now user run call approved db =
     decide_exact_for_owner now user run call (if approved then ApApproved else ApDenied)
       (if approved then ''user_approved'' else ''user_denied'') db"

definition broker_cancel_run :: "timestamp \<Rightarrow> run_context \<Rightarrow> approval_db \<Rightarrow> approval_db \<times> (approval_error + nat)" where
  "broker_cancel_run now cx db = cancel_run now (rc_user_id cx) (rc_run_id cx) db"

record poll =
  pl_loop_time :: timestamp
  pl_cancelled :: bool
  pl_get :: "approval_db call_env"

record wait_env =
  wt_first :: "approval_db call_env"
  wt_now :: timestamp
  wt_loop_time :: timestamp
  wt_polls :: "poll list"
  wt_cancel :: "approval_db call_env"

text \<open>A read of the record through the repository: a lost or refused call is an exception.\<close>

definition read_binding ::
  "run_context \<Rightarrow> auth_request \<Rightarrow> approval_db call_env \<Rightarrow> approval_db \<Rightarrow> approval_db \<times> (wait_error + approval_row)" where
  "read_binding cx q e db =
     (case repository_call e (broker_get cx q) db of
        (db', Inl x) \<Rightarrow> (db', Inl RepositoryRaised)
      | (db', Inr None) \<Rightarrow> (db', Inl MissingReservation)
      | (db', Inr (Some r)) \<Rightarrow> (db', Inr r))"

text \<open>The loop of \<open>wait_for_decision\<close>; None: the rounds end before the loop does.\<close>

fun poll_loop ::
  "run_context \<Rightarrow> auth_request \<Rightarrow> int \<Rightarrow> timestamp \<Rightarrow> approval_db call_env \<Rightarrow> poll list \<Rightarrow> approval_row \<Rightarrow> approval_db
     \<Rightarrow> (approval_db \<times> (wait_error + approval_row)) option" where
  "poll_loop cx q interval deadline cancel [] r db = (if ap_status r \<noteq> ApPending then Some (db, Inr r) else None)"
| "poll_loop cx q interval deadline cancel (p # ps) r db =
     (if ap_status r \<noteq> ApPending then Some (db, Inr r)
      else if min interval (max 0 (deadline - pl_loop_time p)) \<le> 0
      then Some (read_binding cx q ((pl_get p)\<lparr>ce_now := ap_expires_at r\<rparr>) db)
      else if pl_cancelled p
      then Some (fst (repository_call cancel (broker_cancel cx q) db), Inl WaitCancelled)
      else (case read_binding cx q (pl_get p) db of
              (db', Inl x) \<Rightarrow> Some (db', Inl x)
            | (db', Inr r') \<Rightarrow> poll_loop cx q interval deadline cancel ps r' db'))"

definition outcome_of :: "auth_request \<Rightarrow> approval_row \<Rightarrow> wait_error + auth_outcome" where
  "outcome_of q r =
     (let approved = (ap_status r = ApApproved);
          reason = (if ap_status r = ApApproved then ''user_approved''
                    else if ap_status r = ApDenied then ''user_denied''
                    else (case ap_decision_reason r of None \<Rightarrow> ''approval_unavailable'' | Some c \<Rightarrow> c)) in
      case make_outcome approved (aq_tool_call_id q) (aq_tool_name q) (aq_arguments_hash q) reason of
        None \<Rightarrow> Inl InvalidOutcome | Some ao \<Rightarrow> Inr ao)"

definition wait_for_decision ::
  "run_context \<Rightarrow> auth_request \<Rightarrow> int \<Rightarrow> wait_env \<Rightarrow> approval_db \<Rightarrow> (approval_db \<times> (wait_error + auth_outcome)) option" where
  "wait_for_decision cx q interval en db =
     (case read_binding cx q (wt_first en) db of
        (db1, Inl x) \<Rightarrow> Some (db1, Inl x)
      | (db1, Inr r) \<Rightarrow>
          let deadline = wt_loop_time en + max 0 (ap_expires_at r - wt_now en) in
          map_option (\<lambda>(db2, res). (db2, case res of Inl x \<Rightarrow> Inl x | Inr r' \<Rightarrow> outcome_of q r'))
            (poll_loop cx q interval deadline (wt_cancel en) (wt_polls en) r db1))"

subsection \<open>What a wait returns\<close>

text \<open>Other processes only run transactions of the repository.\<close>

definition polite :: "approval_db call_env \<Rightarrow> bool" where
  "polite e \<longleftrightarrow> (\<forall>db. approval_step\<^sup>*\<^sup>* db (ce_before e db))"

definition wait_polite :: "wait_env \<Rightarrow> bool" where
  "wait_polite en \<longleftrightarrow> polite (wt_first en) \<and> polite (wt_cancel en) \<and> (\<forall>p\<in>set (wt_polls en). polite (pl_get p))"

lemma broker_call_steps:
  assumes "polite e" and "repository_call e (broker_get cx q) db = (db', res)"
  shows "approval_step\<^sup>*\<^sup>* db db'"
  by (rule approval_ledger.call_steps [OF _ _ assms(2)])
    (use assms(1) in \<open>auto simp: polite_def broker_get_def intro: r_into_rtranclp approval_step.approval_bound\<close>)

lemma read_binding_row:
  assumes "read_binding cx q e db = (db', Inr r)"
  shows "r \<in> set db'" "exact_binding (rc_user_id cx) (rc_conversation_id cx) (rc_run_id cx) q r"
    "ap_status r = ApPending \<Longrightarrow> ce_now e < ap_expires_at r"
proof -
  let ?P = "exact_binding (rc_user_id cx) (rc_conversation_id cx) (rc_run_id cx) q"
  from assms have call: "repository_call e (broker_get cx q) db = (db', Inr (Some r))"
    by (auto simp: read_binding_def split: prod.splits sum.splits option.splits)
  from repository_call_Inr [OF call]
  have db': "db' = expire ?P (ce_now e) (ce_before e db)" and one: "read_one (select_where ?P db') = Inr (Some r)"
    by (auto simp: broker_get_def get_exact_binding_def Let_def split: if_splits)
  then have r: "r \<in> set db' \<and> ?P r"
    by (auto simp: read_one_def read_record_def split: option.splits if_splits dest!: scalar_select_Some)
  then show "r \<in> set db'" "?P r" by simp_all
  assume p: "ap_status r = ApPending"
  from r obtain x where "x \<in> set (ce_before e db)"
    "r = (if due ?P (ce_now e) x then closed ApExpired ''approval_expired'' (ce_now e) x else x)"
    unfolding db' expire_def by (auto elim: in_updatedE)
  with p r show "ce_now e < ap_expires_at r" by (auto simp: due_def split: if_splits)
qed

lemma read_binding_steps:
  assumes "polite e" and "read_binding cx q e db = (db', res)"
  shows "approval_step\<^sup>*\<^sup>* db db'"
proof -
  obtain d x where c: "repository_call e (broker_get cx q) db = (d, x)" by fastforce
  with assms(2) have "db' = d" by (auto simp: read_binding_def split: sum.splits option.splits)
  with broker_call_steps [OF assms(1) c] show ?thesis by simp
qed

lemma polite_at [simp]: "polite (e\<lparr>ce_now := t\<rparr>) = polite e"
  by (simp add: polite_def)

text \<open>A request read again is the same request.\<close>

lemma same_request:
  assumes "approval_inv db'" and "approval_step\<^sup>*\<^sup>* db db'" and "r \<in> set db" "r' \<in> set db'"
    and "exact_binding user conversation run q r" "exact_binding user conversation run q r'"
  shows "approval_moves r r'"
proof -
  from approval_ledger.row_moves [OF assms(2,3)] obtain x where x: "x \<in> set db'" "approval_moves r x" by blast
  have "owner_run_call user run (aq_tool_call_id q) x" "owner_run_call user run (aq_tool_call_id q) r'"
    using approval_moves_keeps [OF x(2)] assms(5,6) by (simp_all add: exact_binding_def owner_run_call_def)
  then have "x = r'" by (rule request_unique [OF assms(1) x(1) assms(4)])
  with x(2) show ?thesis by simp
qed

text \<open>The record that a loop returns is closed and is in the table it leaves, under the exact binding.\<close>

lemma poll_loop_row:
  assumes "poll_loop cx q interval deadline cancel ps r db = Some (db', Inr r')"
    and "\<forall>p\<in>set ps. polite (pl_get p)" and "approval_inv db" and "r \<in> set db"
    and "exact_binding (rc_user_id cx) (rc_conversation_id cx) (rc_run_id cx) q r"
  shows "approval_step\<^sup>*\<^sup>* db db' \<and> r' \<in> set db' \<and> ap_status r' \<noteq> ApPending
    \<and> exact_binding (rc_user_id cx) (rc_conversation_id cx) (rc_run_id cx) q r'"
  using assms
proof (induction cx q interval deadline cancel ps r db rule: poll_loop.induct)
  case (1 cx q interval deadline cancel r db)
  then show ?case by (auto split: if_splits)
next
  case (2 cx q interval deadline cancel p ps r db)
  consider (final) "ap_status r \<noteq> ApPending"
    | (due) "ap_status r = ApPending" "min interval (max 0 (deadline - pl_loop_time p)) \<le> 0"
    | (sleep) "ap_status r = ApPending" "\<not> min interval (max 0 (deadline - pl_loop_time p)) \<le> 0" by blast
  then show ?case
  proof cases
    case final
    with 2(2,5,6) show ?thesis by auto
  next
    case due
    with 2(2) have rd: "read_binding cx q ((pl_get p)\<lparr>ce_now := ap_expires_at r\<rparr>) db = (db', Inr r')" by simp
    have st: "approval_step\<^sup>*\<^sup>* db db'" by (rule read_binding_steps [OF _ rd]) (use 2(3) in simp)
    note row = read_binding_row [OF rd]
    have "approval_moves r r'" by (rule same_request [OF approval_steps_inv [OF st 2(4)] st 2(5) row(1) 2(6) row(2)])
    then have "ap_expires_at r' = ap_expires_at r" by (rule approval_moves_keeps)
    with row st show ?thesis by auto
  next
    case sleep
    with 2(2) obtain d x where rd: "read_binding cx q (pl_get p) db = (d, Inr x)" and c: "\<not> pl_cancelled p"
      and rest: "poll_loop cx q interval deadline cancel ps x d = Some (db', Inr r')"
      by (auto split: if_splits prod.splits sum.splits)
    have st: "approval_step\<^sup>*\<^sup>* db d" by (rule read_binding_steps [OF _ rd]) (use 2(3) in simp)
    from 2(1) [OF _ _ c rd [symmetric]] sleep rest 2(3) approval_steps_inv [OF st 2(4)] read_binding_row(1,2) [OF rd]
    have "approval_step\<^sup>*\<^sup>* d db' \<and> r' \<in> set db' \<and> ap_status r' \<noteq> ApPending
        \<and> exact_binding (rc_user_id cx) (rc_conversation_id cx) (rc_run_id cx) q r'" by simp
    with st show ?thesis by (auto intro: rtranclp_trans)
  qed
qed

text \<open>
  C16: A wait answers for the exact request: the outcome carries the tool call, the tool and the
  argument digest it was asked about, the durable request of the same owner, conversation, run and
  binding is closed by then, and the outcome approves exactly when that request was approved, which
  happened strictly before it expired.
\<close>

theorem wait_answers_exact_request:
  assumes "approval_reachable db" and "wait_polite en" and "wait_for_decision cx q interval en db = Some (db', Inr ao)"
  shows "binds ao q \<and> (\<exists>r\<in>set db'. exact_binding (rc_user_id cx) (rc_conversation_id cx) (rc_run_id cx) q r
    \<and> ap_status r \<noteq> ApPending \<and> (ao_approved ao \<longleftrightarrow> ap_status r = ApApproved)
    \<and> (ao_approved ao \<longrightarrow> (\<exists>t. ap_decided_at r = Some t \<and> t < ap_expires_at r)))"
proof -
  obtain db1 x where rd: "read_binding cx q (wt_first en) db = (db1, x)" by fastforce
  with assms(3) obtain r where x: "x = Inr r" by (auto simp: wait_for_decision_def split: sum.splits)
  note rd = rd [unfolded x]
  let ?deadline = "wt_loop_time en + max 0 (ap_expires_at r - wt_now en)"
  from assms(3) rd obtain y where y: "poll_loop cx q interval ?deadline (wt_cancel en) (wt_polls en) r db1 = Some (db', y)"
    "(case y of Inl x \<Rightarrow> Inl x | Inr r' \<Rightarrow> outcome_of q r') = Inr ao"
    by (auto simp: wait_for_decision_def Let_def)
  then obtain r' where loop: "poll_loop cx q interval ?deadline (wt_cancel en) (wt_polls en) r db1 = Some (db', Inr r')"
    and out: "outcome_of q r' = Inr ao" by (cases y) auto
  have st: "approval_step\<^sup>*\<^sup>* db db1" by (rule read_binding_steps [OF _ rd]) (use assms(2) in \<open>simp add: wait_polite_def\<close>)
  have inv: "approval_inv db1" by (rule approval_steps_inv [OF st approval_reachable_inv [OF assms(1)]])
  from poll_loop_row [OF loop _ inv read_binding_row(1,2) [OF rd]] assms(2)
  have row: "approval_step\<^sup>*\<^sup>* db1 db'" "r' \<in> set db'" "ap_status r' \<noteq> ApPending"
    "exact_binding (rc_user_id cx) (rc_conversation_id cx) (rc_run_id cx) q r'" by (auto simp: wait_polite_def)
  from approval_steps_inv [OF row(1) inv] row(2) have "approval_ok r'" by (simp add: approval_inv_def list_all_iff)
  moreover have "binds ao q \<and> (ao_approved ao \<longleftrightarrow> ap_status r' = ApApproved)"
    using out by (auto simp: outcome_of_def make_outcome_def binds_def Let_def split: if_splits)
  ultimately show ?thesis using row by (auto simp: approval_ok_def split: option.splits)
qed

definition demo_run_context :: run_context where
  "demo_run_context = \<lparr>rc_user_id = ''u'', rc_conversation_id = ''conv'', rc_run_id = ''run''\<rparr>"

definition at_time :: "timestamp \<Rightarrow> approval_db call_env" where
  "at_time t = \<lparr>ce_before = id, ce_fault = NoFault, ce_now = t\<rparr>"

text \<open>The owner approves between the first read and the first poll.\<close>

definition demo_wait :: wait_env where
  "demo_wait = \<lparr>wt_first = at_time 105, wt_now = 105, wt_loop_time = 0,
     wt_polls = [\<lparr>pl_loop_time = 5, pl_cancelled = False, pl_get = (at_time 110)\<lparr>ce_before :=
       (\<lambda>db. fst (broker_decide 108 ''u'' ''run'' ''c1'' True db))\<rparr>\<rparr>,
       \<lparr>pl_loop_time = 40, pl_cancelled = False, pl_get = at_time 140\<rparr>],
     wt_cancel = at_time 141\<rparr>"

lemma demo_wait_polite: "wait_polite demo_wait"
  by (auto simp: wait_polite_def polite_def demo_wait_def at_time_def broker_decide_def
      intro: r_into_rtranclp approval_step.approval_decided_exact)

lemma demo_codes: "SAFE_CODE ''user_approved''" "SAFE_CODE ''user_denied''"
  by (simp_all add: SAFE_CODE_def ascii_lower_def ascii_digit_def)

lemma demo_wait_result:
  "wait_for_decision demo_run_context demo_request 1 demo_wait [demo_row] =
     Some ([closed ApApproved ''user_approved'' 108 demo_row], Inr \<lparr>ao_approved = True, ao_tool_call_id = ''c1'',
       ao_tool_name = ''send_mail'', ao_arguments_hash = replicate 64 CHR ''a'', ao_reason_code = ''user_approved''\<rparr>)"
proof -
  let ?P = "exact_binding ''u'' ''conv'' ''run'' demo_request"
  have P: "?P demo_row" "?P (closed s c t demo_row)" for s c t
    by (simp_all add: exact_binding_def demo_row_def new_request_def demo_request_def)
  have st: "ap_status demo_row = ApPending" "ap_expires_at demo_row = 130"
    by (simp_all add: demo_row_def new_request_def)
  have ids: "binding_ids_ok ''u'' ''conv'' ''run'' demo_request"
    by (simp add: binding_ids_ok_def demo_identifiers demo_request_def)
  have "approval_record_ok (closed ApApproved ''user_approved'' 108 demo_row)"
    using demo_row_ok demo_codes by (simp add: approval_record_ok_def)
  then have get: "broker_get demo_run_context demo_request 105 [demo_row] = ([demo_row], Inr (Some demo_row))"
    "broker_get demo_run_context demo_request 110 [closed ApApproved ''user_approved'' 108 demo_row] =
       ([closed ApApproved ''user_approved'' 108 demo_row], Inr (Some (closed ApApproved ''user_approved'' 108 demo_row)))"
    using P ids st demo_row_ok
    by (simp_all add: broker_get_def get_exact_binding_def demo_run_context_def Let_def expire_def updated_def due_def
        read_one_def select_where_def scalar_def read_record_def)
  have decide: "broker_decide 108 ''u'' ''run'' ''c1'' True [demo_row] = ([closed ApApproved ''user_approved'' 108 demo_row], Inr True)"
    using demo_codes
    by (simp add: broker_decide_def decide_exact_for_owner_def demo_identifiers decision_ok_def decide_open_def expire_def
        updated_def due_def open_request_def owner_run_call_def rowcount_def demo_row_def new_request_def demo_request_def)
  have out: "outcome_of demo_request (closed ApApproved ''user_approved'' 108 demo_row) = Inr \<lparr>ao_approved = True, ao_tool_call_id = ''c1'',
       ao_tool_name = ''send_mail'', ao_arguments_hash = replicate 64 CHR ''a'', ao_reason_code = ''user_approved''\<rparr>"
    by (simp add: outcome_of_def make_outcome_def binding_ok_def demo_request_def demo_hash demo_tool demo_codes)
  show ?thesis
    by (simp add: wait_for_decision_def read_binding_def repository_call_def demo_wait_def at_time_def get decide st out Let_def)
qed

theorem wait_answers_exact_request_witness:
  "\<exists>r\<in>set [closed ApApproved ''user_approved'' 108 demo_row].
     exact_binding ''u'' ''conv'' ''run'' demo_request r \<and> ap_status r = ApApproved"
  using wait_answers_exact_request [OF demo_row_reachable demo_wait_polite demo_wait_result]
  by (auto simp: demo_run_context_def)

lemma poll_loop_ends:
  assumes "p \<in> set ps" and "deadline \<le> pl_loop_time p"
  shows "poll_loop cx q interval deadline cancel ps r db \<noteq> None"
  using assms
proof (induction cx q interval deadline cancel ps r db rule: poll_loop.induct)
  case (2 cx q interval deadline cancel p' ps r db)
  show ?case
  proof (cases "p = p'")
    case True
    with 2(3) show ?thesis by simp
  next
    case False
    with 2 show ?thesis by (auto split: prod.splits sum.splits)
  qed
qed simp

text \<open>
  No wait outlives its request: when a poll happens at or after the moment the request read
  first expires, as the waiter's clocks tell it, the wait has returned, with an outcome or an error.
\<close>

theorem wait_ends_by_expiry:
  assumes "read_binding cx q (wt_first en) db = (db1, Inr r)" and "p \<in> set (wt_polls en)"
    and "wt_loop_time en + max 0 (ap_expires_at r - wt_now en) \<le> pl_loop_time p"
  shows "\<exists>db' res. wait_for_decision cx q interval en db = Some (db', res)"
  using poll_loop_ends [OF assms(2,3), of cx q interval "wt_cancel en" r db1]
  by (auto simp: wait_for_decision_def assms(1) Let_def)

theorem wait_ends_by_expiry_witness:
  "\<exists>db' res. wait_for_decision demo_run_context demo_request 1 (demo_wait\<lparr>wt_polls := drop 1 (wt_polls demo_wait)\<rparr>) [demo_row] = Some (db', res)"
proof -
  have ids: "binding_ids_ok ''u'' ''conv'' ''run'' demo_request"
    by (simp add: binding_ids_ok_def demo_identifiers demo_request_def)
  have "read_binding demo_run_context demo_request (at_time 105) [demo_row] = ([demo_row], Inr demo_row)"
    using demo_row_ok ids
    by (simp add: read_binding_def repository_call_def at_time_def broker_get_def get_exact_binding_def demo_run_context_def Let_def
        expire_def updated_def due_def read_one_def select_where_def scalar_def read_record_def exact_binding_def)
      (simp add: demo_row_def new_request_def demo_request_def)
  moreover have "ap_expires_at demo_row = 130" by (simp add: demo_row_def new_request_def)
  ultimately show ?thesis
    by (intro wait_ends_by_expiry [where p = "wt_polls demo_wait ! 1" and r = demo_row and ?db1.0 = "[demo_row]"])
      (simp_all add: demo_wait_def)
qed

subsection \<open>The in-memory broker\<close>

record approval_key =
  ak_user_id :: string
  ak_conversation_id :: string
  ak_run_id :: string
  ak_tool_call_id :: string

datatype future = Waiting | Result bool | FutureCancelled

record pending_approval =
  pa_number :: nat
  pa_key :: approval_key
  pa_tool_name :: string
  pa_arguments_hash :: string
  pa_future :: future

text \<open>All items ever created, and the dictionary of the pending ones in insertion order.\<close>

record memory_broker =
  mb_items :: "pending_approval list"
  mb_pending :: "(approval_key \<times> nat) list"

definition approval_key_of :: "run_context \<Rightarrow> auth_request \<Rightarrow> approval_key" where
  "approval_key_of cx q = \<lparr>ak_user_id = rc_user_id cx, ak_conversation_id = rc_conversation_id cx,
     ak_run_id = rc_run_id cx, ak_tool_call_id = aq_tool_call_id q\<rparr>"

definition set_future :: "nat \<Rightarrow> future \<Rightarrow> pending_approval list \<Rightarrow> pending_approval list" where
  "set_future n f items = updated (\<lambda>i. pa_number i = n \<and> pa_future i = Waiting) (\<lambda>i. i\<lparr>pa_future := f\<rparr>) items"

definition memory_reserve :: "run_context \<Rightarrow> auth_request \<Rightarrow> memory_broker \<Rightarrow> memory_broker option" where
  "memory_reserve cx q b =
     (let key = approval_key_of cx q; n = length (mb_items b) in
      if map_of (mb_pending b) key \<noteq> None then None
      else Some \<lparr>mb_items = mb_items b @ [\<lparr>pa_number = n, pa_key = key, pa_tool_name = aq_tool_name q,
                    pa_arguments_hash = aq_arguments_hash q, pa_future = Waiting\<rparr>],
                 mb_pending = mb_pending b @ [(key, n)]\<rparr>)"

text \<open>The item pending under a key, if its tool and arguments match the request.\<close>

definition matching_item :: "auth_request \<Rightarrow> approval_key \<Rightarrow> memory_broker \<Rightarrow> pending_approval option" where
  "matching_item q key b =
     (case map_of (mb_pending b) key of
        None \<Rightarrow> None
      | Some n \<Rightarrow>
          let i = mb_items b ! n in
          if pa_tool_name i \<noteq> aq_tool_name q \<or> pa_arguments_hash i \<noteq> aq_arguments_hash q then None else Some i)"

definition drop_pending :: "approval_key \<Rightarrow> memory_broker \<Rightarrow> memory_broker" where
  "drop_pending key b = b\<lparr>mb_pending := filter (\<lambda>(k, n). k \<noteq> key) (mb_pending b)\<rparr>"

text \<open>The first half of \<open>wait_for_decision\<close> finds the item; None is the missing reservation.\<close>

definition memory_wait_begin :: "run_context \<Rightarrow> auth_request \<Rightarrow> memory_broker \<Rightarrow> nat option" where
  "memory_wait_begin cx q b = map_option pa_number (matching_item q (approval_key_of cx q) b)"

text \<open>
  The second half, when the future of item \<open>n\<close> is done; None while it is not. A cancelled future is
  \<open>CancelledError\<close>. The dictionary entry goes if it still is this item.
\<close>

definition memory_wait_end ::
  "run_context \<Rightarrow> auth_request \<Rightarrow> nat \<Rightarrow> memory_broker \<Rightarrow> (memory_broker \<times> (wait_error + auth_outcome)) option" where
  "memory_wait_end cx q n b =
     (let key = approval_key_of cx q;
          b' = (if map_of (mb_pending b) key = Some n then drop_pending key b else b) in
      case pa_future (mb_items b ! n) of
        Waiting \<Rightarrow> None
      | FutureCancelled \<Rightarrow> Some (b', Inl WaitCancelled)
      | Result approved \<Rightarrow>
          Some (b', case make_outcome approved (aq_tool_call_id q) (aq_tool_name q) (aq_arguments_hash q)
                           (if approved then ''user_approved'' else ''user_denied'') of
                      None \<Rightarrow> Inl InvalidOutcome | Some ao \<Rightarrow> Inr ao))"

definition memory_cancel :: "run_context \<Rightarrow> auth_request \<Rightarrow> memory_broker \<Rightarrow> memory_broker" where
  "memory_cancel cx q b =
     (let key = approval_key_of cx q in
      case matching_item q key b of
        None \<Rightarrow> b
      | Some i \<Rightarrow> (drop_pending key b)\<lparr>mb_items := set_future (pa_number i) FutureCancelled (mb_items b)\<rparr>)"

definition memory_decide :: "string \<Rightarrow> string \<Rightarrow> string \<Rightarrow> bool \<Rightarrow> memory_broker \<Rightarrow> memory_broker \<times> bool" where
  "memory_decide user run call approved b =
     (case List.find (\<lambda>(k, n). ak_user_id k = user \<and> ak_run_id k = run \<and> ak_tool_call_id k = call
                      \<and> pa_future (mb_items b ! n) = Waiting) (mb_pending b) of
        None \<Rightarrow> (b, False)
      | Some (k, n) \<Rightarrow> (b\<lparr>mb_items := set_future n (Result approved) (mb_items b)\<rparr>, True))"

definition memory_cancel_run :: "run_context \<Rightarrow> memory_broker \<Rightarrow> memory_broker" where
  "memory_cancel_run cx b =
     (let P = (\<lambda>k. ak_user_id k = rc_user_id cx \<and> ak_conversation_id k = rc_conversation_id cx \<and> ak_run_id k = rc_run_id cx);
          ns = map snd (filter (P \<circ> fst) (mb_pending b)) in
      \<lparr>mb_items = fold (\<lambda>n. set_future n FutureCancelled) ns (mb_items b),
       mb_pending = filter (\<lambda>(k, n). \<not> P k) (mb_pending b)\<rparr>)"

inductive memory_step :: "memory_broker \<Rightarrow> memory_broker \<Rightarrow> bool" where
  memory_reserved: "memory_reserve cx q b = Some b' \<Longrightarrow> memory_step b b'"
| memory_decided: "memory_step b (fst (memory_decide user run call approved b))"
| memory_cancelled: "memory_step b (memory_cancel cx q b)"
| memory_run_cancelled: "memory_step b (memory_cancel_run cx b)"
| memory_waited: "memory_wait_end cx q n b = Some (b', res) \<Longrightarrow> memory_step b b'"

definition future_moves :: "pending_approval \<Rightarrow> pending_approval \<Rightarrow> bool" where
  "future_moves i i' = (i' = i \<or> pa_future i = Waiting \<and> (\<exists>f. f \<noteq> Waiting \<and> i' = i\<lparr>pa_future := f\<rparr>))"

lemma future_moves_refl: "reflp future_moves"
  by (simp add: reflp_def future_moves_def)

lemma future_moves_trans: "transp future_moves"
  unfolding transp_def future_moves_def by fastforce

lemma set_future_follows: "f \<noteq> Waiting \<Longrightarrow> ledger_follows future_moves items (set_future n f items)"
  unfolding set_future_def by (rule ledger_follows_updated [OF future_moves_refl]) (auto simp: future_moves_def)

lemma memory_step_follows: "memory_step b b' \<Longrightarrow> ledger_follows future_moves (mb_items b) (mb_items b')"
proof (induction rule: memory_step.induct)
  case (memory_reserved cx q b b')
  then show ?case by (auto simp: memory_reserve_def Let_def ledger_follows_append [OF future_moves_refl] split: if_splits)
next
  case (memory_decided b user run call approved)
  then show ?case
    by (auto simp: memory_decide_def ledger_follows_refl [OF future_moves_refl] set_future_follows split: option.split)
next
  case (memory_cancelled b cx q)
  then show ?case
    by (auto simp: memory_cancel_def Let_def ledger_follows_refl [OF future_moves_refl] set_future_follows split: option.split)
next
  case (memory_run_cancelled b cx)
  have "ledger_follows future_moves items (fold (\<lambda>n. set_future n FutureCancelled) ns items)" for ns items
    by (induction ns arbitrary: items)
      (auto intro: ledger_follows_refl [OF future_moves_refl] ledger_follows_trans [OF future_moves_trans set_future_follows])
  then show ?case by (simp add: memory_cancel_run_def Let_def)
next
  case (memory_waited cx q n b b' res)
  then show ?case
    by (auto simp: memory_wait_end_def Let_def drop_pending_def ledger_follows_refl [OF future_moves_refl] split: future.splits if_splits)
qed

interpretation future_ledger: durable_ledger mb_items pa_number future_moves memory_step
  by unfold_locales (auto simp: future_moves_refl future_moves_trans future_moves_def memory_step_follows)

definition memory_reachable :: "memory_broker \<Rightarrow> bool" where
  "memory_reachable b = memory_step\<^sup>*\<^sup>* \<lparr>mb_items = [], mb_pending = []\<rparr> b"

text \<open>Items are numbered by their position, and the dictionary points to items.\<close>

definition memory_inv :: "memory_broker \<Rightarrow> bool" where
  "memory_inv b =
     (map pa_number (mb_items b) = [0..<length (mb_items b)] \<and> list_all (\<lambda>p. snd p < length (mb_items b)) (mb_pending b))"

lemma set_future_numbers [simp]:
  "map pa_number (set_future n f items) = map pa_number items" "length (set_future n f items) = length items"
  by (simp_all add: set_future_def map_updated_same)

lemma fold_set_future_numbers [simp]:
  "map pa_number (fold (\<lambda>n. set_future n f) ns items) = map pa_number items"
  "length (fold (\<lambda>n. set_future n f) ns items) = length items"
  by (induction ns arbitrary: items) simp_all

lemma memory_inv_shrink:
  assumes "memory_inv b" and "map pa_number (mb_items b') = map pa_number (mb_items b)" and "set (mb_pending b') \<subseteq> set (mb_pending b)"
  shows "memory_inv b'"
proof -
  have "length (mb_items b') = length (mb_items b)" using assms(2) by (metis length_map)
  with assms show ?thesis by (auto simp: memory_inv_def list_all_iff)
qed

lemma memory_step_inv: "memory_step b b' \<Longrightarrow> memory_inv b \<Longrightarrow> memory_inv b'"
proof (induction rule: memory_step.induct)
  case (memory_reserved cx q b b')
  then have "\<forall>p\<in>set (mb_pending b). snd p < Suc (length (mb_items b))" by (auto simp: memory_inv_def list_all_iff intro: less_SucI)
  moreover have "b' = \<lparr>mb_items = mb_items b @ [\<lparr>pa_number = length (mb_items b), pa_key = approval_key_of cx q,
      pa_tool_name = aq_tool_name q, pa_arguments_hash = aq_arguments_hash q, pa_future = Waiting\<rparr>],
      mb_pending = mb_pending b @ [(approval_key_of cx q, length (mb_items b))]\<rparr>"
    using memory_reserved(1) by (simp add: memory_reserve_def Let_def split: if_splits)
  ultimately show ?case using memory_reserved(2) by (simp add: memory_inv_def list_all_iff)
next
  case (memory_decided b user run call approved)
  then show ?case
    by (rule memory_inv_shrink) (auto simp: memory_decide_def split: option.split)
next
  case (memory_cancelled b cx q)
  then show ?case
    by (rule memory_inv_shrink) (auto simp: memory_cancel_def Let_def drop_pending_def split: option.split)
next
  case (memory_run_cancelled b cx)
  then show ?case by (rule memory_inv_shrink) (auto simp: memory_cancel_run_def Let_def)
next
  case (memory_waited cx q n b b' res)
  show ?case
    by (rule memory_inv_shrink [OF memory_waited(2)]) (use memory_waited(1) in \<open>auto simp: memory_wait_end_def Let_def drop_pending_def split: future.splits if_splits\<close>)
qed

lemma memory_reachable_inv: "memory_reachable b \<Longrightarrow> memory_inv b"
proof -
  assume "memory_reachable b"
  then have "memory_step\<^sup>*\<^sup>* \<lparr>mb_items = [], mb_pending = []\<rparr> b" by (simp add: memory_reachable_def)
  then show ?thesis
  proof (induction rule: rtranclp_induct)
    case base
    then show ?case by (simp add: memory_inv_def)
  qed (rule memory_step_inv)
qed

lemma memory_decide_won:
  assumes "memory_inv b" and "memory_decide user run call approved b = (b1, True)"
  obtains k n where "(k, n) \<in> set (mb_pending b)" "ak_user_id k = user" "ak_run_id k = run" "ak_tool_call_id k = call"
    "n < length (mb_items b1)" "pa_future (mb_items b1 ! n) = Result approved"
proof -
  from assms(2) obtain k n where f: "List.find (\<lambda>(k, n). ak_user_id k = user \<and> ak_run_id k = run \<and> ak_tool_call_id k = call
      \<and> pa_future (mb_items b ! n) = Waiting) (mb_pending b) = Some (k, n)"
    and b1: "b1 = b\<lparr>mb_items := set_future n (Result approved) (mb_items b)\<rparr>"
    by (auto simp: memory_decide_def split: option.splits)
  from f have k: "(k, n) \<in> set (mb_pending b)" "ak_user_id k = user" "ak_run_id k = run" "ak_tool_call_id k = call"
    "pa_future (mb_items b ! n) = Waiting"
    by (auto simp: find_Some_iff in_set_conv_nth dest: sym)
  have n: "n < length (mb_items b)" using assms(1) k(1) by (force simp: memory_inv_def list_all_iff)
  have "pa_number (mb_items b ! n) = n" 
  proof -
    have "map pa_number (mb_items b) ! n = [0..<length (mb_items b)] ! n" using assms(1) by (simp only: memory_inv_def)
    with n show ?thesis by simp
  qed
  with k n show thesis by (intro that [of k n]) (simp_all add: b1 set_future_def updated_def)
qed

text \<open>
  The in-memory broker is one-shot: a decision it accepts is given to the item pending for
  that owner, run and tool call, and whatever happens afterwards (further decisions,
  cancellations, a reused key) the waiter of that item receives exactly this decision.
\<close>

theorem memory_decision_is_one_shot:
  assumes "memory_reachable b" and "memory_decide user run call approved b = (b1, True)" and "memory_step\<^sup>*\<^sup>* b1 b2"
  shows "\<exists>k n. (k, n) \<in> set (mb_pending b) \<and> ak_user_id k = user \<and> ak_run_id k = run \<and> ak_tool_call_id k = call
    \<and> (\<forall>cx q b3 ao. memory_wait_end cx q n b2 = Some (b3, Inr ao) \<longrightarrow> ao_approved ao = approved \<and> binds ao q)
    \<and> (\<forall>cx q. memory_wait_end cx q n b2 \<noteq> None)"
proof -
  from memory_decide_won [OF memory_reachable_inv [OF assms(1)] assms(2)]
  obtain k n where k: "(k, n) \<in> set (mb_pending b)" "ak_user_id k = user" "ak_run_id k = run" "ak_tool_call_id k = call"
    "n < length (mb_items b1)" "pa_future (mb_items b1 ! n) = Result approved" .
  have "future_moves (mb_items b1 ! n) (mb_items b2 ! n)"
    using future_ledger.settles_star [OF assms(3)] k(5) by (simp add: ledger_follows_def)
  then have f: "pa_future (mb_items b2 ! n) = Result approved" using k(6) by (auto simp: future_moves_def)
  then have "\<forall>cx q b3 ao. memory_wait_end cx q n b2 = Some (b3, Inr ao) \<longrightarrow> ao_approved ao = approved \<and> binds ao q"
    by (auto simp: memory_wait_end_def Let_def make_outcome_def binds_def split: if_splits option.splits)
  moreover from f have "\<forall>cx q. memory_wait_end cx q n b2 \<noteq> None" by (simp add: memory_wait_end_def Let_def)
  ultimately show ?thesis using k by blast
qed

definition demo_memory :: memory_broker where
  "demo_memory = the (memory_reserve demo_run_context demo_request \<lparr>mb_items = [], mb_pending = []\<rparr>)"

theorem memory_decision_is_one_shot_witness:
  "\<exists>n. memory_wait_end demo_run_context demo_request n
     (fst (memory_decide ''u'' ''run'' ''c1'' False (fst (memory_decide ''u'' ''run'' ''c1'' True demo_memory)))) \<noteq> None"
proof -
  let ?b = "fst (memory_decide ''u'' ''run'' ''c1'' True demo_memory)"
  have "memory_reserve demo_run_context demo_request \<lparr>mb_items = [], mb_pending = []\<rparr> = Some demo_memory"
    by (simp add: demo_memory_def memory_reserve_def Let_def)
  then have r: "memory_reachable demo_memory"
    by (auto simp: memory_reachable_def intro: r_into_rtranclp memory_step.memory_reserved)
  have d: "memory_decide ''u'' ''run'' ''c1'' True demo_memory = (?b, True)"
    by (simp add: demo_memory_def memory_reserve_def memory_decide_def approval_key_of_def demo_run_context_def demo_request_def Let_def)
  have s: "memory_step\<^sup>*\<^sup>* ?b (fst (memory_decide ''u'' ''run'' ''c1'' False ?b))"
    by (rule r_into_rtranclp) (rule memory_step.memory_decided)
  from memory_decision_is_one_shot [OF r d s] show ?thesis by blast
qed

end
