(* ===== verification/Regex.thy ===== *)
theory Regex
  imports Prelude
begin

text \<open>
  The part of Python's \<open>re\<close> module that the text scanners use: character classes, sequences,
  ordered alternatives, greedy and lazy counted repetition, word boundaries, and the search
  functions \<open>finditer\<close> and \<open>subn\<close>. The engine is a backtracking one: \<open>ends\<close> lists every place where a
  match can end, in the order in which the engine tries them, so that the match it
  reports is the head of the list. A repetition without an upper limit is cut at the number of
  characters that are left, which is exact when its body consumes at least one character; the
  bodies of every pattern of the source do.
\<close>

datatype regex =
    Chr "char \<Rightarrow> bool"
  | Empty
  | Boundary
  | Cat regex regex
  | Alt regex regex
  | Rep bool regex nat "nat option"

subsection \<open>Character classes\<close>

text \<open>\<open>\d\<close>, \<open>\s\<close> and \<open>\w\<close> on code points below 256.\<close>

definition re_space :: "char \<Rightarrow> bool" where
  "re_space c = (let n = of_char c :: nat in (9 \<le> n \<and> n \<le> 13) \<or> (28 \<le> n \<and> n \<le> 32) \<or> n = 133 \<or> n = 160)"

definition latin_alnum :: "char \<Rightarrow> bool" where
  "latin_alnum c =
     (let n = of_char c :: nat in
      n \<in> {170, 178, 179, 181, 185, 186, 188, 189, 190} \<or> (192 \<le> n \<and> n \<noteq> 215 \<and> n \<noteq> 247))"

definition re_word :: "char \<Rightarrow> bool" where
  "re_word c = (ascii_alnum c \<or> c = CHR ''_'' \<or> latin_alnum c)"

text \<open>
  Where the engine stands in a text: the position, the character before it and the characters
  from it on.
\<close>

type_synonym cursor = "nat \<times> char option \<times> string"

definition word_at :: "char option \<Rightarrow> bool" where
  "word_at c = (case c of None \<Rightarrow> False | Some c \<Rightarrow> re_word c)"

text \<open>\<open>\b\<close>: between a word character and a character that is not one, or the end of the text.\<close>

definition word_boundary :: "char option \<Rightarrow> string \<Rightarrow> bool" where
  "word_boundary prev rest = (word_at prev \<noteq> word_at (case rest of [] \<Rightarrow> None | c # _ \<Rightarrow> Some c))"

subsection \<open>Matching\<close>

text \<open>
  A body repeated at least \<open>lo\<close> and at most \<open>n\<close> times. A greedy repetition tries one more round
  first, a lazy one tries to stop first.
\<close>

fun repeated :: "bool \<Rightarrow> ('c \<Rightarrow> 'c list) \<Rightarrow> nat \<Rightarrow> nat \<Rightarrow> 'c \<Rightarrow> 'c list" where
  "repeated lazy f lo 0 c = (if lo = 0 then [c] else [])"
| "repeated lazy f lo (Suc n) c =
     (let stop = (if lo = 0 then [c] else []); again = concat (map (repeated lazy f (lo - 1) n) (f c)) in
      if lazy then stop @ again else again @ stop)"

fun ends :: "regex \<Rightarrow> cursor \<Rightarrow> cursor list" where
  "ends (Chr P) (i, prev, rest) =
     (case rest of [] \<Rightarrow> [] | c # cs \<Rightarrow> if P c then [(Suc i, Some c, cs)] else [])"
| "ends Empty cur = [cur]"
| "ends Boundary (i, prev, rest) = (if word_boundary prev rest then [(i, prev, rest)] else [])"
| "ends (Cat r s) cur = concat (map (ends s) (ends r cur))"
| "ends (Alt r s) cur = ends r cur @ ends s cur"
| "ends (Rep lazy r lo hi) (i, prev, rest) =
     repeated lazy (ends r) lo (case hi of None \<Rightarrow> lo + length rest | Some n \<Rightarrow> n) (i, prev, rest)"

text \<open>
  \<open>finditer\<close>: the leftmost matches one after the other, as start and end positions. After a match of
  no characters the search goes on one character later.
\<close>

function find_from :: "regex \<Rightarrow> cursor \<Rightarrow> (nat \<times> nat) list" where
  "find_from r (i, prev, []) = []"
| "find_from r (i, prev, c # cs) =
     (case ends r (i, prev, c # cs) of
        [] \<Rightarrow> find_from r (Suc i, Some c, cs)
      | (j, prev', rest) # _ \<Rightarrow>
          (i, j) # find_from r (if length rest \<le> length cs then (j, prev', rest) else (Suc i, Some c, cs)))"
  by pat_completeness auto
termination
  by (relation "measure (\<lambda>(r, i, prev, rest). length rest)") auto

definition finditer :: "regex \<Rightarrow> string \<Rightarrow> (nat \<times> nat) list" where
  "finditer r t = find_from r (0, None, t)"

text \<open>\<open>text[a:b]\<close> for positions, and \<open>pattern.subn(replacement, text)\<close>.\<close>

definition slice :: "'a list \<Rightarrow> nat \<Rightarrow> nat \<Rightarrow> 'a list" where
  "slice t a b = take (b - a) (drop a t)"

fun splice :: "string \<Rightarrow> nat \<Rightarrow> (nat \<times> nat \<times> string) list \<Rightarrow> string" where
  "splice t cursor [] = drop cursor t"
| "splice t cursor ((a, b, tag) # ranges) = slice t cursor a @ tag @ splice t b ranges"

definition subn :: "regex \<Rightarrow> string \<Rightarrow> string \<Rightarrow> string \<times> nat" where
  "subn r replacement t =
     (let found = finditer r t in (splice t 0 (map (\<lambda>(a, b). (a, b, replacement)) found), length found))"

subsection \<open>Notions the patterns are written with\<close>

definition one_of :: "string \<Rightarrow> regex" where
  "one_of s = Chr (\<lambda>c. c \<in> set s)"

fun literal :: "string \<Rightarrow> regex" where
  "literal [] = Empty"
| "literal (c # cs) = Cat (Chr ((=) c)) (literal cs)"

fun cats :: "regex list \<Rightarrow> regex" where
  "cats [] = Empty"
| "cats (r # rs) = Cat r (cats rs)"

fun alts :: "regex list \<Rightarrow> regex" where
  "alts [] = Chr (\<lambda>c. False)"
| "alts (r # rs) = Alt r (alts rs)"

abbreviation maybe :: "regex \<Rightarrow> regex" where
  "maybe r \<equiv> Rep False r 0 (Some 1)"

abbreviation exactly :: "nat \<Rightarrow> regex \<Rightarrow> regex" where
  "exactly n r \<equiv> Rep False r n (Some n)"

abbreviation at_least :: "nat \<Rightarrow> regex \<Rightarrow> regex" where
  "at_least n r \<equiv> Rep False r n None"

abbreviation digit :: regex where
  "digit \<equiv> Chr ascii_digit"

subsection \<open>Lemmas\<close>

lemma re_space_code [code]:
  "re_space (Char b0 b1 b2 b3 b4 b5 b6 b7) =
     (\<not> b6 \<and> (if b7 then b0 \<and> \<not> b1 \<and> b2 \<and> \<not> b3 \<and> \<not> b4 \<and> \<not> b5 \<or> \<not> b0 \<and> \<not> b1 \<and> \<not> b2 \<and> \<not> b3 \<and> \<not> b4 \<and> b5
       else if b5 then \<not> b0 \<and> \<not> b1 \<and> \<not> b2 \<and> \<not> b3 \<and> \<not> b4
       else b3 \<and> (if b4 then b2 else (b0 \<or> b1 \<or> b2) \<and> \<not> (b1 \<and> b2))))"
  by (cases b0; cases b1; cases b2; cases b3; cases b4; cases b5; cases b6; cases b7)
    (simp_all add: re_space_def Let_def)

lemma latin_alnum_code [code]:
  "latin_alnum (Char b0 b1 b2 b3 b4 b5 b6 b7) =
     (b7 \<and> (let n = of_char (Char b0 b1 b2 b3 b4 b5 b6 b7) :: nat in
       n \<in> {170, 178, 179, 181, 185, 186, 188, 189, 190} \<or> (192 \<le> n \<and> n \<noteq> 215 \<and> n \<noteq> 247)))"
  by (cases b0; cases b1; cases b2; cases b3; cases b4; cases b5; cases b6; cases b7)
    (simp_all add: latin_alnum_def Let_def)

text \<open>A match goes forward and stays within the text.\<close>

definition moves_on :: "cursor \<Rightarrow> cursor \<Rightarrow> bool" where
  "moves_on c d \<longleftrightarrow> fst c \<le> fst d \<and> fst d + length (snd (snd d)) = fst c + length (snd (snd c))
     \<and> set (snd (snd d)) \<subseteq> set (snd (snd c))"

lemma moves_on_refl: "moves_on c c"
  by (simp add: moves_on_def)

lemma moves_on_trans: "moves_on c d \<Longrightarrow> moves_on d e \<Longrightarrow> moves_on c e"
  by (auto simp: moves_on_def)

lemma repeated_moves_on:
  assumes "\<And>c d. d \<in> set (f c) \<Longrightarrow> moves_on c d"
  shows "d \<in> set (repeated lazy f lo n c) \<Longrightarrow> moves_on c d"
proof (induction n arbitrary: lo c)
  case 0
  then show ?case by (simp add: moves_on_refl split: if_splits)
next
  case (Suc n)
  then consider "d = c" | e where "e \<in> set (f c)" "d \<in> set (repeated lazy f (lo - 1) n e)"
    by (auto simp: Let_def split: if_splits)
  then show ?case
    using Suc.IH assms moves_on_refl moves_on_trans by cases blast+
qed

lemma ends_moves_on: "d \<in> set (ends r c) \<Longrightarrow> moves_on c d"
proof (induction r arbitrary: c d)
  case (Chr P)
  then show ?case by (cases c) (auto simp: moves_on_def split: list.splits if_splits)
next
  case (Cat r s)
  from Cat.prems obtain e where "e \<in> set (ends r c)" "d \<in> set (ends s e)" by auto
  with Cat.IH show ?case by (blast intro: moves_on_trans)
next
  case (Alt r s)
  from Alt.prems have "d \<in> set (ends r c) \<or> d \<in> set (ends s c)" by simp
  with Alt.IH show ?case by blast
next
  case (Rep lazy r lo hi)
  obtain i p t where c: "c = (i, p, t)" by (cases c)
  from Rep.prems repeated_moves_on [of "ends r", OF Rep.IH] show ?case by (simp add: c)
qed (auto simp: moves_on_refl split: if_splits)

lemma find_from_bounds:
  "(a, b) \<in> set (find_from r (i, prev, t)) \<Longrightarrow> i \<le> a \<and> a \<le> b \<and> b \<le> i + length t"
proof (induction r "(i, prev, t)" arbitrary: i prev t rule: find_from.induct)
  case (2 r i prev c cs)
  show ?case
  proof (cases "ends r (i, prev, c # cs)")
    case Nil
    with 2(1) [OF Nil] 2(3) show ?thesis by simp
  next
    case (Cons d ds)
    obtain j q rest where d: "d = (j, q, rest)" by (cases d)
    note IH = "2.hyps"(2) [OF Cons d [symmetric] refl]
    have mv: "i \<le> j" "j + length rest = i + Suc (length cs)"
      using ends_moves_on [of d r "(i, prev, c # cs)"] Cons d by (auto simp: moves_on_def)
    from 2(3) Cons d consider (here) "(a, b) = (i, j)"
      | (later) "(a, b) \<in> set (find_from r (if length rest \<le> length cs then (j, q, rest) else (Suc i, Some c, cs)))"
      by auto
    then show ?thesis
    proof cases
      case here
      with mv show ?thesis by simp
    next
      case later
      show ?thesis
      proof (cases "length rest \<le> length cs")
        case True
        with later IH [of j q rest] mv show ?thesis by simp
      next
        case False
        with later IH [of "Suc i" "Some c" cs] show ?thesis by simp
      qed
    qed
  qed
qed simp

lemma finditer_bounds: "(a, b) \<in> set (finditer r t) \<Longrightarrow> a \<le> b \<and> b \<le> length t"
  using find_from_bounds [of a b r 0 None t] by (simp add: finditer_def)

text \<open>
  A pattern that cannot match without a character of a class, as seen from its syntax, finds
  nothing in a text that has no such character.
\<close>

fun requires :: "(char \<Rightarrow> bool) \<Rightarrow> regex \<Rightarrow> bool" where
  "requires Q (Chr P) \<longleftrightarrow> (\<forall>c. P c \<longrightarrow> Q c)"
| "requires Q (Cat r s) \<longleftrightarrow> requires Q r \<or> requires Q s"
| "requires Q (Alt r s) \<longleftrightarrow> requires Q r \<and> requires Q s"
| "requires Q (Rep lazy r lo hi) \<longleftrightarrow> 0 < lo \<and> requires Q r"
| "requires Q r \<longleftrightarrow> False"

lemma ends_requires:
  "requires Q r \<Longrightarrow> \<forall>c\<in>set (snd (snd cur)). \<not> Q c \<Longrightarrow> ends r cur = []"
proof (induction r arbitrary: cur)
  case (Chr P)
  then show ?case by (cases cur) (auto split: list.splits)
next
  case (Cat r s)
  show ?case
  proof (cases "requires Q r")
    case True
    with Cat show ?thesis by simp
  next
    case False
    with Cat.prems(1) have s: "requires Q s" by simp
    have "ends s d = []" if "d \<in> set (ends r cur)" for d
      using ends_moves_on [OF that] Cat.prems(2) by (intro Cat.IH(2) [OF s]) (auto simp: moves_on_def)
    then show ?thesis by simp
  qed
next
  case (Rep lazy r lo hi)
  obtain i p t where cur: "cur = (i, p, t)" by (cases cur)
  have "repeated lazy (ends r) lo n cur = []" for n
    using Rep by (cases n) (auto simp: Let_def)
  then show ?case by (simp add: cur)
qed auto

lemma finditer_requires:
  assumes "requires Q r" and "\<forall>c\<in>set t. \<not> Q c"
  shows "finditer r t = []"
proof -
  have "find_from r (i, prev, t) = []" for i prev
    using assms(2)
  proof (induction t arbitrary: i prev)
    case (Cons c cs)
    then show ?case using ends_requires [OF assms(1), of "(i, prev, c # cs)"] by simp
  qed simp
  then show ?thesis by (simp add: finditer_def)
qed

end
