(* ===== verification/Redactor.thy ===== *)
theory Redactor
  imports Regex Json
begin

text \<open>
  Removal of personal data from text and from structured values: the detector of
  \<open>security/pii_detector.py\<close> and the boundary of \<open>security/persistence_redactor.py\<close> that every persisted value
  passes. The optional spaCy model is the parameter \<open>nlp\<close>: \<open>None\<close> when it is not used, otherwise what it
  answers for a text, as label, start and end of each entity it names. Structured values are JSON
  values; a tuple is the list that the JSON encoder writes for it.
\<close>

subsection \<open>Entities\<close>

record pii_entity =
  entity_type :: string
  entity_value :: string
  entity_start :: nat
  entity_end :: nat
  risk_level :: string
  entity_source :: string

type_synonym nlp_model = "(string \<Rightarrow> (string \<times> nat \<times> nat) list) option"

definition email_re :: regex where
  "email_re = cats [
     at_least 1 (Chr (\<lambda>c. ascii_alnum c \<or> c \<in> set ''._%+-'')), one_of ''@'',
     at_least 1 (Chr (\<lambda>c. ascii_alnum c \<or> c \<in> set ''.-'')), one_of ''.'',
     at_least 2 (Chr (\<lambda>c. ascii_lower c \<or> ascii_upper c))]"

definition phone_re :: regex where
  "phone_re = cats [
     Boundary, maybe (cats [maybe (one_of ''+''), one_of ''1'', maybe (one_of ''-.'')]), maybe (one_of ''(''),
     exactly 3 digit, maybe (one_of '')''), maybe (one_of ''-.''), exactly 3 digit, maybe (one_of ''-.''),
     exactly 4 digit, Boundary]"

definition ssn_re :: regex where
  "ssn_re = cats [Boundary, exactly 3 digit, one_of ''-'', exactly 2 digit, one_of ''-'', exactly 4 digit, Boundary]"

definition credit_card_re :: regex where
  "credit_card_re = cats [
     Boundary, exactly 3 (Cat (exactly 4 digit) (maybe (Chr (\<lambda>c. c = CHR ''-'' \<or> re_space c)))), exactly 4 digit,
     Boundary]"

definition ip_address_re :: regex where
  "ip_address_re =
     (let octet = Rep False digit 1 (Some 3) in
      cats [Boundary, octet, one_of ''.'', octet, one_of ''.'', octet, one_of ''.'', octet, Boundary])"

definition date_of_birth_re :: regex where
  "date_of_birth_re = cats [
     Boundary,
     Alt (Cat (one_of ''0'') (one_of ''123456789'')) (Cat (one_of ''1'') (one_of ''012'')), one_of ''/'',
     alts [Cat (one_of ''0'') (one_of ''123456789''), Cat (one_of ''12'') digit, Cat (one_of ''3'') (one_of ''01'')],
     one_of ''/'', Alt (literal ''19'') (literal ''20''), exactly 2 digit, Boundary]"

definition PII_PATTERNS :: "(string \<times> regex \<times> string) list" where
  "PII_PATTERNS = [
     (''email'', email_re, ''medium''),
     (''phone'', phone_re, ''medium''),
     (''ssn'', ssn_re, ''high''),
     (''credit_card'', credit_card_re, ''high''),
     (''ip_address'', ip_address_re, ''low''),
     (''date_of_birth'', date_of_birth_re, ''medium'')]"

subsection \<open>Detection\<close>

definition regex_entities :: "string \<Rightarrow> pii_entity list" where
  "regex_entities text = concat (map (\<lambda>(pii_type, pattern, risk).
     map (\<lambda>(a, b). \<lparr>entity_type = pii_type, entity_value = slice text a b, entity_start = a, entity_end = b,
                    risk_level = risk, entity_source = ''regex''\<rparr>)
       (finditer pattern text)) PII_PATTERNS)"

text \<open>The labels of the language model that count as personal data.\<close>

definition ner_kind :: "string \<Rightarrow> (string \<times> string) option" where
  "ner_kind label =
     (if label = ''PERSON'' then Some (''person_name'', ''medium'')
      else if label = ''GPE'' then Some (''location'', ''low'')
      else if label = ''ORG'' then Some (''organization'', ''low'')
      else None)"

definition ner_entities :: "nlp_model \<Rightarrow> string \<Rightarrow> pii_entity list" where
  "ner_entities nlp text =
     (case nlp of None \<Rightarrow> []
      | Some ner \<Rightarrow> List.map_filter (\<lambda>(label, a, b).
          map_option (\<lambda>(kind, risk).
            \<lparr>entity_type = kind, entity_value = slice text a b, entity_start = a, entity_end = b,
             risk_level = risk, entity_source = ''spacy_ner''\<rparr>) (ner_kind label)) (ner text))"

definition entity_length :: "pii_entity \<Rightarrow> int" where
  "entity_length e = int (entity_end e) - int (entity_start e)"

definition detect :: "nlp_model \<Rightarrow> string \<Rightarrow> pii_entity list" where
  "detect nlp text =
     sort_key (\<lambda>e. (entity_start e, - entity_length e, entity_type e)) (regex_entities text @ ner_entities nlp text)"

definition overlaps :: "pii_entity \<Rightarrow> pii_entity \<Rightarrow> bool" where
  "overlaps e kept = (entity_start e < entity_end kept \<and> entity_start kept < entity_end e)"

fun choose_ranges :: "pii_entity list \<Rightarrow> pii_entity list \<Rightarrow> pii_entity list" where
  "choose_ranges selected [] = selected"
| "choose_ranges selected (e # es) =
     (if entity_end e \<le> entity_start e then choose_ranges selected es
      else if list_ex (overlaps e) selected then choose_ranges selected es
      else choose_ranges (selected @ [e]) es)"

definition non_overlapping :: "pii_entity list \<Rightarrow> pii_entity list" where
  "non_overlapping entities =
     sort_key (\<lambda>e. (entity_start e, entity_end e, entity_type e))
       (choose_ranges [] (sort_key (\<lambda>e. (- entity_length e, entity_start e, entity_type e)) entities))"

text \<open>\<open>str.upper\<close> for the entity types, which are ASCII.\<close>

definition upper_char :: "char \<Rightarrow> char" where
  "upper_char c = (if ascii_lower c then char_of (of_char c - 32 :: nat) else c)"

definition entity_tag :: "pii_entity \<Rightarrow> string" where
  "entity_tag e = ''['' @ map upper_char (entity_type e) @ '']''"

definition redact_entities :: "string \<Rightarrow> pii_entity list \<Rightarrow> string" where
  "redact_entities text entities =
     (let ranges = non_overlapping entities in
      if ranges = [] then text
      else splice text 0 (map (\<lambda>e. (entity_start e, entity_end e, entity_tag e)) ranges))"

definition redact :: "nlp_model \<Rightarrow> string \<Rightarrow> string" where
  "redact nlp text = redact_entities text (detect nlp text)"

definition assess_risk :: "nlp_model \<Rightarrow> string \<Rightarrow> string" where
  "assess_risk nlp text =
     (let entities = detect nlp text in
      if entities = [] then ''none''
      else if list_ex (\<lambda>e. risk_level e = ''high'') entities then ''high''
      else if list_ex (\<lambda>e. risk_level e = ''medium'') entities then ''medium''
      else ''low'')"

subsection \<open>The persistence boundary\<close>

record redaction_result =
  rr_text :: string
  rr_count :: nat
  rr_types :: "string list"

definition redact_text :: "nlp_model \<Rightarrow> string \<Rightarrow> redaction_result" where
  "redact_text nlp text =
     (let entities = detect nlp text; found = map entity_type (non_overlapping entities) in
      \<lparr>rr_text = redact_entities text entities, rr_count = length found, rr_types = sort (remdups found)\<rparr>)"

definition safe_key :: "string \<Rightarrow> nat \<Rightarrow> string" where
  "safe_key base ordinal = (if ordinal = 1 then base else base @ ''__'' @ show_nat ordinal)"

lemma safe_key_inject [simp]: "safe_key base m = safe_key base n \<longleftrightarrow> m = n"
  by (auto simp: safe_key_def dest: show_nat_inject split: if_splits)

text \<open>The loop that looks for a key that is not taken yet. It ends because its keys are distinct.\<close>

function free_ordinal :: "string \<Rightarrow> string list \<Rightarrow> nat \<Rightarrow> nat" where
  "free_ordinal base taken ordinal =
     (if safe_key base ordinal \<in> set taken then free_ordinal base taken (Suc ordinal) else ordinal)"
  by auto
termination
proof (relation "measure (\<lambda>(base, taken, n). card {k \<in> set taken. \<exists>m\<ge>n. k = safe_key base m})", simp)
  fix base taken and ordinal :: nat
  assume now: "safe_key base ordinal \<in> set taken"
  let ?K = "\<lambda>n. {k \<in> set taken. \<exists>m\<ge>n. k = safe_key base m}"
  have "?K (Suc ordinal) \<subset> ?K ordinal"
  proof
    show "?K (Suc ordinal) \<subseteq> ?K ordinal" using Suc_leD by blast
    from now show "?K (Suc ordinal) \<noteq> ?K ordinal" by (auto simp: set_eq_iff intro: exI [of _ "safe_key base ordinal"])
  qed
  then have "card (?K (Suc ordinal)) < card (?K ordinal)" by (intro psubset_card_mono) auto
  then show "((base, taken, Suc ordinal), base, taken, ordinal)
      \<in> measure (\<lambda>(base, taken, n). card {k \<in> set taken. \<exists>m\<ge>n. k = safe_key base m})"
    by simp
qed

declare free_ordinal.simps [simp del]

text \<open>The loop over the items of a mapping, whose values are redacted already.\<close>

fun redact_items ::
  "(string \<Rightarrow> string) \<Rightarrow> (string \<times> json) list \<Rightarrow> (string \<Rightarrow> nat) \<Rightarrow> (string \<times> json) list \<Rightarrow> (string \<times> json) list" where
  "redact_items text_of [] key_counts redacted = redacted"
| "redact_items text_of ((key, item) # items) key_counts redacted =
     (let base = text_of key; ordinal = free_ordinal base (map fst redacted) (key_counts base + 1) in
      redact_items text_of items (key_counts(base := ordinal)) (redacted @ [(safe_key base ordinal, item)]))"

fun redact_value :: "nlp_model \<Rightarrow> json \<Rightarrow> json" where
  "redact_value nlp (JStr s) = JStr (rr_text (redact_text nlp s))"
| "redact_value nlp (JObj items) =
     JObj (redact_items (\<lambda>k. rr_text (redact_text nlp k)) (map (\<lambda>(k, v). (k, redact_value nlp v)) items) (\<lambda>_. 0) [])"
| "redact_value nlp (JList items) = JList (map (redact_value nlp) items)"
| "redact_value nlp v = v"

subsection \<open>The chosen ranges\<close>

lemma upper_char_code [code]:
  "upper_char (Char b0 b1 b2 b3 b4 b5 b6 b7) =
     (if ascii_lower (Char b0 b1 b2 b3 b4 b5 b6 b7) then Char b0 b1 b2 b3 b4 False b6 b7
      else Char b0 b1 b2 b3 b4 b5 b6 b7)"
  by (cases b0; cases b1; cases b2; cases b3; cases b4; cases b5; cases b6; cases b7)
    (simp_all add: upper_char_def ascii_lower_code char_of_def bit_0)

definition disjoint_ranges :: "pii_entity list \<Rightarrow> bool" where
  "disjoint_ranges es \<longleftrightarrow>
     distinct es \<and> (\<forall>e\<in>set es. entity_start e < entity_end e) \<and> (\<forall>e\<in>set es. \<forall>k\<in>set es. e \<noteq> k \<longrightarrow> \<not> overlaps e k)"

lemma overlaps_commute: "overlaps e k = overlaps k e"
  by (auto simp: overlaps_def)

lemma choose_ranges_disjoint: "disjoint_ranges selected \<Longrightarrow> disjoint_ranges (choose_ranges selected es)"
proof (induction selected es rule: choose_ranges.induct)
  case (2 selected e es)
  have "disjoint_ranges (selected @ [e])"
    if "\<not> entity_end e \<le> entity_start e" "\<not> list_ex (overlaps e) selected"
    using that 2(4) by (auto simp: disjoint_ranges_def list_ex_iff overlaps_commute) (auto simp: overlaps_def)
  with 2 show ?case by simp
qed simp

lemma choose_ranges_subset: "set (choose_ranges selected es) \<subseteq> set selected \<union> set es"
  by (induction selected es rule: choose_ranges.induct) auto

lemma choose_ranges_grows: "set selected \<subseteq> set (choose_ranges selected es)"
  by (induction selected es rule: choose_ranges.induct) auto

text \<open>What is not chosen gave way to a range that is at least as long.\<close>

lemma choose_ranges_hits:
  assumes "sorted_wrt (\<lambda>e k. entity_length k \<le> entity_length e) (selected @ es)"
    and "e \<in> set es" and "entity_start e < entity_end e"
  shows "\<exists>k\<in>set (choose_ranges selected es). overlaps e k \<and> entity_length e \<le> entity_length k"
  using assms
proof (induction selected es rule: choose_ranges.induct)
  case (2 selected x es)
  have mono: "sorted_wrt (\<lambda>e k. entity_length k \<le> entity_length e) (selected @ es)"
    using 2(4) by (simp add: sorted_wrt_append)
  show ?case
  proof (cases "e = x")
    case False
    with 2(5) have "e \<in> set es" by simp
    with 2 mono show ?thesis by simp
  next
    case True
    show ?thesis
    proof (cases "list_ex (overlaps x) selected")
      case True
      then obtain k where "k \<in> set selected" "overlaps x k" by (auto simp: list_ex_iff)
      moreover from this(1) have "entity_length x \<le> entity_length k" using 2(4) by (simp add: sorted_wrt_append)
      ultimately show ?thesis using \<open>e = x\<close> choose_ranges_grows [of selected "x # es"] by blast
    next
      case no: False
      from True 2(6) no have "choose_ranges selected (x # es) = choose_ranges (selected @ [x]) es" by simp
      moreover have "x \<in> set (choose_ranges (selected @ [x]) es)"
        using choose_ranges_grows [of "selected @ [x]" es] by simp
      moreover have "overlaps x x" using 2(6) True by (simp add: overlaps_def)
      ultimately show ?thesis using True by auto
    qed
  qed
qed simp

lemma longest_first: "sorted_wrt (\<lambda>e k. entity_length k \<le> entity_length e)
    (sort_key (\<lambda>e. (- entity_length e, entity_start e, entity_type e)) es)"
proof -
  have "sorted (map (\<lambda>e. (- entity_length e, entity_start e, entity_type e))
      (sort_key (\<lambda>e. (- entity_length e, entity_start e, entity_type e)) es))"
    by (rule sorted_sort_key)
  then show ?thesis
    by (simp only: sorted_map) (auto elim: sorted_wrt_mono_rel [rotated])
qed

lemma non_overlapping_disjoint: "disjoint_ranges (non_overlapping es)"
  using choose_ranges_disjoint [of "[]" "sort_key (\<lambda>e. (- entity_length e, entity_start e, entity_type e)) es"]
  by (simp add: non_overlapping_def disjoint_ranges_def)

lemma non_overlapping_subset: "set (non_overlapping es) \<subseteq> set es"
  using choose_ranges_subset [of "[]"] by (fastforce simp: non_overlapping_def)

lemma non_overlapping_hits:
  assumes "e \<in> set es" and "entity_start e < entity_end e"
  shows "\<exists>k\<in>set (non_overlapping es). overlaps e k \<and> entity_length e \<le> entity_length k"
  using choose_ranges_hits [of "[]", OF _ _ assms(2)] longest_first [of es] assms(1)
  by (simp add: non_overlapping_def)

lemma non_overlapping_sorted:
  "sorted_wrt (\<lambda>e k. entity_end e \<le> entity_start k) (non_overlapping es)"
proof -
  let ?es = "non_overlapping es"
  have srt: "sorted_wrt (\<lambda>e k. (entity_start e, entity_end e, entity_type e) \<le> (entity_start k, entity_end k, entity_type k)) ?es"
    unfolding non_overlapping_def by (rule sorted_sort_key [unfolded sorted_map])
  have dis: "disjoint_ranges ?es" by (rule non_overlapping_disjoint)
  show ?thesis
  proof (rule sorted_wrt_iff_nth_less [THEN iffD2, rule_format])
    fix i j assume ij: "i < j" "j < length ?es"
    then have "?es ! i \<noteq> ?es ! j" "?es ! i \<in> set ?es" "?es ! j \<in> set ?es"
      using dis by (auto simp: disjoint_ranges_def nth_eq_iff_index_eq)
    with dis have "\<not> overlaps (?es ! i) (?es ! j)" "entity_start (?es ! j) < entity_end (?es ! j)"
      by (auto simp: disjoint_ranges_def)
    moreover have "entity_start (?es ! i) \<le> entity_start (?es ! j)"
      using sorted_wrt_nth_less [OF srt ij] by auto
    ultimately show "entity_end (?es ! i) \<le> entity_start (?es ! j)" by (auto simp: overlaps_def)
  qed
qed

subsection \<open>What is left of a text\<close>

text \<open>
  The specification of a redaction, position by position: the first position of a range becomes
  the tag of the range, its other positions vanish, and every position outside the ranges is kept.
\<close>

definition redacted_at :: "(nat \<times> nat \<times> string) list \<Rightarrow> string \<Rightarrow> nat \<Rightarrow> string" where
  "redacted_at ranges text i =
     (case find (\<lambda>r. fst r = i) ranges of
        Some r \<Rightarrow> snd (snd r)
      | None \<Rightarrow> if \<exists>r\<in>set ranges. fst r \<le> i \<and> i < fst (snd r) then [] else [text ! i])"

fun ranges_ok :: "nat \<Rightarrow> nat \<Rightarrow> (nat \<times> nat \<times> string) list \<Rightarrow> bool" where
  "ranges_ok c n [] = (c \<le> n)"
| "ranges_ok c n ((a, b, tag) # ranges) = (c \<le> a \<and> a < b \<and> b \<le> n \<and> ranges_ok b n ranges)"

lemma ranges_ok_lower: "ranges_ok c n ranges \<Longrightarrow> r \<in> set ranges \<Longrightarrow> c \<le> fst r"
  by (induction c n ranges rule: ranges_ok.induct) (auto simp: le_trans)

lemma redacted_before:
  assumes "ranges_ok c n ranges" and "i < c"
  shows "redacted_at ranges text i = [text ! i]"
proof -
  from assms ranges_ok_lower have "i < fst r" if "r \<in> set ranges" for r using that by fastforce
  then have "find (\<lambda>r. fst r = i) ranges = None" "\<not> (\<exists>r\<in>set ranges. fst r \<le> i \<and> i < fst (snd r))"
    by (fastforce simp: find_None_iff)+
  then show ?thesis by (simp add: redacted_at_def)
qed

lemma upt_split: "a \<le> b \<Longrightarrow> b \<le> n \<Longrightarrow> [a..<n] = [a..<b] @ [b..<n]"
  using upt_add_eq_append [of a b "n - b"] by simp

lemma concat_singletons: "concat (map (\<lambda>i. [t ! i]) [a..<b]) = slice t a b" if "b \<le> length t"
proof -
  have "concat (map (\<lambda>i. [t ! i]) [a..<b]) = map ((!) t) [a..<b]" by (induction b) auto
  also have "\<dots> = slice t a b" using that by (intro nth_equalityI) (auto simp: slice_def)
  finally show ?thesis .
qed

lemma splice_pointwise:
  "ranges_ok c (length t) ranges \<Longrightarrow> splice t c ranges = concat (map (redacted_at ranges t) [c..<length t])"
proof (induction c "length t" ranges rule: ranges_ok.induct)
  case (1 c)
  have "redacted_at [] t = (\<lambda>i. [t ! i])" by (simp add: redacted_at_def fun_eq_iff)
  with concat_singletons [of "length t" t c] show ?case by (simp add: slice_def)
next
  case (2 c a b tag ranges)
  let ?rs = "(a, b, tag) # ranges"
  from 2(2) have ok: "c \<le> a" "a < b" "b \<le> length t" "ranges_ok b (length t) ranges" by auto
  have split: "[c..<length t] = [c..<a] @ a # [Suc a..<b] @ [b..<length t]"
    using ok upt_split [of c a "length t"] upt_split [of a b "length t"] upt_conv_Cons [of a b] by simp
  have before: "map (redacted_at ?rs t) [c..<a] = map (\<lambda>i. [t ! i]) [c..<a]"
    using redacted_before [of a "length t" ?rs _ t] ok by simp
  have inside: "map (redacted_at ?rs t) [Suc a..<b] = map (\<lambda>i. []) [Suc a..<b]"
  proof (rule map_cong [OF refl])
    fix i assume "i \<in> set [Suc a..<b]"
    moreover from this have "fst r \<noteq> i" if "r \<in> set ranges" for r
      using ranges_ok_lower [OF ok(4) that] by auto
    then have "find (\<lambda>r. fst r = i) ranges = None" by (fastforce simp: find_None_iff)
    ultimately show "redacted_at ?rs t i = []" by (auto simp: redacted_at_def)
  qed
  have after: "map (redacted_at ?rs t) [b..<length t] = map (redacted_at ranges t) [b..<length t]"
    using ok(2) by (auto simp: redacted_at_def)
  have "concat (map (redacted_at ?rs t) [c..<length t])
      = slice t c a @ tag @ concat (map (redacted_at ranges t) [b..<length t])"
    unfolding split using ok concat_singletons [of a t c]
    by (simp add: before inside after) (simp add: redacted_at_def)
  with 2(1) ok(4) show ?case by simp
qed

abbreviation tagged :: "pii_entity \<Rightarrow> nat \<times> nat \<times> string" where
  "tagged \<equiv> \<lambda>e. (entity_start e, entity_end e, entity_tag e)"

lemma sorted_ranges_ok:
  assumes "sorted_wrt (\<lambda>e k. entity_end e \<le> entity_start k) es" and "c \<le> n"
    and "\<And>e. e \<in> set es \<Longrightarrow> c \<le> entity_start e \<and> entity_start e < entity_end e \<and> entity_end e \<le> n"
  shows "ranges_ok c n (map tagged es)"
  using assms by (induction es arbitrary: c) auto

lemma redact_entities_pointwise:
  assumes "\<And>e. e \<in> set es \<Longrightarrow> entity_end e \<le> length t"
  shows "redact_entities t es = concat (map (redacted_at (map tagged (non_overlapping es)) t) [0..<length t])"
proof -
  let ?rs = "map tagged (non_overlapping es)"
  have "ranges_ok 0 (length t) ?rs"
    using non_overlapping_sorted [of es] non_overlapping_disjoint [of es] non_overlapping_subset [of es] assms
    by (intro sorted_ranges_ok) (auto simp: disjoint_ranges_def)
  from splice_pointwise [OF this] show ?thesis by (auto simp: redact_entities_def Let_def)
qed

lemma detect_within:
  assumes "\<And>ner label a b. nlp = Some ner \<Longrightarrow> (label, a, b) \<in> set (ner t) \<Longrightarrow> b \<le> length t"
    and "e \<in> set (detect nlp t)"
  shows "entity_end e \<le> length t"
proof -
  from assms(2) consider "e \<in> set (regex_entities t)" | "e \<in> set (ner_entities nlp t)" by (auto simp: detect_def)
  then show ?thesis
  proof cases
    case 1
    then show ?thesis by (auto simp: regex_entities_def dest: finditer_bounds)
  next
    case 2
    then show ?thesis
      by (auto simp: ner_entities_def List.map_filter_def dest: assms(1) split: option.splits)
  qed
qed

text \<open>Every pattern needs a digit or an at sign, so a text without them is kept as it is.\<close>

definition marks_pii :: "char \<Rightarrow> bool" where
  "marks_pii c = (ascii_digit c \<or> c = CHR ''@'')"

lemma patterns_require: "(ty, pattern, risk) \<in> set PII_PATTERNS \<Longrightarrow> requires marks_pii pattern"
  by (auto simp: PII_PATTERNS_def email_re_def phone_re_def ssn_re_def credit_card_re_def ip_address_re_def
      date_of_birth_re_def one_of_def marks_pii_def Let_def)

lemma redact_unmarked:
  assumes "list_all (\<lambda>c. \<not> marks_pii c) t" and "ner_entities nlp t = []"
  shows "rr_text (redact_text nlp t) = t"
proof -
  have "regex_entities t = []"
    using assms(1) finditer_requires [OF patterns_require] by (auto simp: regex_entities_def list_all_iff)
  with assms(2) show ?thesis by (simp add: redact_text_def detect_def redact_entities_def non_overlapping_def)
qed

subsection \<open>Mappings\<close>

lemma free_ordinal_free: "safe_key base (free_ordinal base taken n) \<notin> set taken"
  by (induction base taken n rule: free_ordinal.induct) (simp add: free_ordinal.simps)

lemma free_ordinal_ge: "n \<le> free_ordinal base taken n"
proof (induction base taken n rule: free_ordinal.induct)
  case (1 base taken n)
  then show ?case by (subst free_ordinal.simps) auto
qed

text \<open>The items of a mapping, each under a key made from the redacted key and an ordinal.\<close>

definition keyed_by :: "(string \<Rightarrow> string) \<Rightarrow> string \<Rightarrow> string \<Rightarrow> bool" where
  "keyed_by text_of key key' \<longleftrightarrow> (\<exists>n\<ge>1. key' = safe_key (text_of key) n)"

lemma redact_items_spec:
  assumes "distinct (map fst redacted)"
  shows "\<exists>new. redact_items text_of items counts redacted = redacted @ new
    \<and> distinct (map fst (redacted @ new)) \<and> map snd new = map snd items
    \<and> list_all2 (keyed_by text_of) (map fst items) (map fst new)"
  using assms
proof (induction text_of items counts redacted rule: redact_items.induct)
  case (1 text_of key_counts redacted)
  then show ?case by simp
next
  case (2 text_of key item items counts redacted)
  define n where "n = free_ordinal (text_of key) (map fst redacted) (counts (text_of key) + 1)"
  let ?k = "safe_key (text_of key) n"
  have fresh: "?k \<notin> set (map fst redacted)" unfolding n_def by (rule free_ordinal_free)
  have "1 \<le> n" using free_ordinal_ge [of "counts (text_of key) + 1" "text_of key" "map fst redacted"] by (simp add: n_def)
  then have key: "keyed_by text_of key ?k" by (auto simp: keyed_by_def)
  from fresh 2(2) have "distinct (map fst (redacted @ [(?k, item)]))" by simp
  from 2(1) [OF refl n_def this]
  obtain new where "redact_items text_of items (counts(text_of key := n)) (redacted @ [(?k, item)])
      = (redacted @ [(?k, item)]) @ new"
    "distinct (map fst ((redacted @ [(?k, item)]) @ new))" "map snd new = map snd items"
    "list_all2 (keyed_by text_of) (map fst items) (map fst new)"
    by blast
  moreover have "redact_items text_of ((key, item) # items) counts redacted
      = redact_items text_of items (counts(text_of key := n)) (redacted @ [(?k, item)])"
    by (simp add: n_def Let_def)
  ultimately show ?case using key by (intro exI [of _ "(?k, item) # new"]) simp
qed

subsection \<open>Properties\<close>

text \<open>
  C13: Redaction removes what was detected and nothing else. When the language model answers
  positions of the text, the redacted text is, position by position, the original text with each
  chosen range replaced by its type's tag; the chosen ranges are disjoint entities that were
  detected; and every detected entity of positive length overlaps a chosen one that is at least
  as long, so none stays in the text in full.
\<close>

theorem redaction_is_pointwise:
  assumes "\<And>ner label a b. nlp = Some ner \<Longrightarrow> (label, a, b) \<in> set (ner text) \<Longrightarrow> b \<le> length text"
  shows "rr_text (redact_text nlp text)
      = concat (map (redacted_at (map tagged (non_overlapping (detect nlp text))) text) [0..<length text])
    \<and> disjoint_ranges (non_overlapping (detect nlp text))
    \<and> set (non_overlapping (detect nlp text)) \<subseteq> set (detect nlp text)
    \<and> (\<forall>e\<in>set (detect nlp text). entity_start e < entity_end e \<longrightarrow>
        (\<exists>k\<in>set (non_overlapping (detect nlp text)). overlaps e k \<and> entity_length e \<le> entity_length k))"
  using redact_entities_pointwise [OF detect_within, OF assms] non_overlapping_disjoint non_overlapping_subset
    non_overlapping_hits
  by (auto simp: redact_text_def Let_def)

theorem redaction_is_pointwise_witness:
  "rr_text (redact_text None ''mail a@b.co'') = ''mail [EMAIL]''
   \<and> rr_text (redact_text None ''mail a@b.co'')
      = concat (map (redacted_at (map tagged (non_overlapping (detect None ''mail a@b.co''))) ''mail a@b.co'')
          [0..<length ''mail a@b.co''])"
proof -
  have "rr_text (redact_text None ''mail a@b.co'') = ''mail [EMAIL]''" by code_simp
  moreover have "rr_text (redact_text None ''mail a@b.co'')
      = concat (map (redacted_at (map tagged (non_overlapping (detect None ''mail a@b.co''))) ''mail a@b.co'')
          [0..<length ''mail a@b.co''])"
    using redaction_is_pointwise [of None "''mail a@b.co''"] by blast
  ultimately show ?thesis by blast
qed

text \<open>
  Redaction keeps every entry of a mapping. Whatever the detector does to the keys, and even
  when it makes distinct keys equal, the redacted mapping has an entry for each entry of the
  original in the same order, with the redacted value, under a key that is the redacted key or
  that key with an ordinal suffix, and all its keys are distinct.
\<close>

theorem redaction_keeps_entries:
  "\<exists>kvs'. redact_value nlp (JObj kvs) = JObj kvs'
    \<and> map snd kvs' = map (redact_value nlp) (map snd kvs)
    \<and> distinct (map fst kvs')
    \<and> list_all2 (keyed_by (\<lambda>k. rr_text (redact_text nlp k))) (map fst kvs) (map fst kvs')"
proof -
  have 1: "map snd (map (\<lambda>(k, v). (k, redact_value nlp v)) kvs) = map (redact_value nlp) (map snd kvs)"
    and 2: "map fst (map (\<lambda>(k, v). (k, redact_value nlp v)) kvs) = map fst kvs"
    by (auto simp: case_prod_unfold)
  from redact_items_spec [of "[]" "\<lambda>k. rr_text (redact_text nlp k)" "map (\<lambda>(k, v). (k, redact_value nlp v)) kvs" "\<lambda>_. 0"]
  show ?thesis by (simp only: 1 2 redact_value.simps) simp
qed

end
