(* ===== verification/Disclosure.thy ===== *)
theory Disclosure
  imports Redactor
begin

text \<open>
  The scanner that every disclosed value passes (\<open>security/disclosure.py\<close>): personal data and secrets are
  replaced in every string and key, and the values of sensitive keys are masked. The value is a JSON
  value, so the source's refusals of a cycle, of a key that is not a string and of an object of
  another type cannot arise; the other refusals (depth, number of nodes, keys that redaction made
  equal, a float that is not finite) are \<open>None\<close>.
\<close>

subsection \<open>Patterns\<close>

text \<open>A literal under \<open>(?i)\<close>.\<close>

fun literal_i :: "string \<Rightarrow> regex" where
  "literal_i [] = Empty"
| "literal_i (c # cs) = Cat (Chr (\<lambda>d. d = c \<or> lower_char d = c)) (literal_i cs)"

definition key_kind_re :: regex where
  "key_kind_re = maybe (alts [literal ''RSA '', literal ''EC '', literal ''OPENSSH ''])"

definition private_key_re :: regex where
  "private_key_re = cats [
     literal ''-----BEGIN '', key_kind_re, literal ''PRIVATE KEY-----'', Rep True (Chr (\<lambda>c. True)) 0 None,
     literal ''-----END '', key_kind_re, literal ''PRIVATE KEY-----'']"

definition bearer_token_re :: regex where
  "bearer_token_re = cats [
     Boundary, literal_i ''bearer'', at_least 1 (Chr re_space),
     at_least 12 (Chr (\<lambda>c. ascii_alnum c \<or> c \<in> set ''._~+/=-''))]"

definition api_key_re :: regex where
  "api_key_re = cats [
     Boundary,
     alts [cats [literal_i ''api'', maybe (one_of ''_-''), literal_i ''key''], literal_i ''secret'', literal_i ''token'',
           literal_i ''password''],
     at_least 0 (Chr re_space), one_of '':='', at_least 0 (Chr re_space),
     at_least 8 (Chr (\<lambda>c. \<not> re_space c \<and> c \<notin> set '',;''))]"

definition provider_key_re :: regex where
  "provider_key_re = cats [
     Boundary,
     Alt (Cat (literal ''sk-'') (at_least 16 (Chr (\<lambda>c. ascii_alnum c \<or> c \<in> set ''_-''))))
         (Cat (literal ''AKIA'') (exactly 16 (Chr (\<lambda>c. ascii_digit c \<or> ascii_upper c)))),
     Boundary]"

definition SECRETS :: "(string \<times> regex) list" where
  "SECRETS = [
     (''private_key'', private_key_re),
     (''bearer_token'', bearer_token_re),
     (''api_key'', api_key_re),
     (''provider_key'', provider_key_re)]"

definition SENSITIVE_OBJECT_KEYS :: "string list" where
  "SENSITIVE_OBJECT_KEYS = [
     ''api_key'', ''apikey'', ''authorization'', ''bearer_token'', ''client_secret'', ''password'', ''private_key'',
     ''refresh_token'', ''secret'', ''token'']"

text \<open>
  \<open>str.casefold\<close>, up to characters that the substitution replaces in any case: the sharp s
  becomes two letters.
\<close>

definition casefold_key :: "string \<Rightarrow> string" where
  "casefold_key s = concat (map (\<lambda>c. if of_char c = (223 :: nat) then ''ss'' else [lower_char c]) s)"

definition normalized_key :: "string \<Rightarrow> string" where
  "normalized_key value =
     (let folded = casefold_key value;
          text = fst (subn (at_least 1 (Chr (\<lambda>c. \<not> (ascii_lower c \<or> ascii_digit c)))) ''_'' folded);
          underscore = (\<lambda>c. c = CHR ''_'') in
      rev (dropWhile underscore (rev (dropWhile underscore text))))"

definition sensitive_key :: "string \<Rightarrow> bool" where
  "sensitive_key key = (normalized_key key \<in> set SENSITIVE_OBJECT_KEYS)"

definition MASK :: string where
  "MASK = ''[REDACTED_STRUCTURED_SECRET]''"

subsection \<open>The scan\<close>

text \<open>
  A \<open>Counter\<close> as its items in order of insertion. \<open>counts[key] += n\<close> inserts the key even when \<open>n\<close> is
  zero.
\<close>

type_synonym counter = "(string \<times> nat) list"

fun add_count :: "string \<Rightarrow> nat \<Rightarrow> counter \<Rightarrow> counter" where
  "add_count key n [] = [(key, n)]"
| "add_count key n ((k, m) # counts) = (if k = key then (k, m + n) # counts else (k, m) # add_count key n counts)"

record scan_state =
  sc_counts :: counter
  sc_nodes :: int

definition count_in :: "string \<Rightarrow> nat \<Rightarrow> scan_state \<Rightarrow> scan_state" where
  "count_in key n st = st\<lparr>sc_counts := add_count key n (sc_counts st)\<rparr>"

fun scan_secrets :: "(string \<times> regex) list \<Rightarrow> string \<Rightarrow> scan_state \<Rightarrow> string \<times> scan_state" where
  "scan_secrets [] text st = (text, st)"
| "scan_secrets ((kind, pattern) # secrets) text st =
     (let (text', found) = subn pattern (''[REDACTED_'' @ map upper_char kind @ '']'') text in
      scan_secrets secrets text' (count_in (''secret:'' @ kind) found st))"

definition scan_text :: "nlp_model \<Rightarrow> string \<Rightarrow> scan_state \<Rightarrow> string \<times> scan_state" where
  "scan_text nlp item st =
     (let entities = non_overlapping (detect nlp item) in
      scan_secrets SECRETS (redact_entities item entities)
        (fold (\<lambda>e. count_in (''pii:'' @ entity_type e) 1) entities st))"

text \<open>The beginning of a visit: one more node, and the structural limits.\<close>

definition enter :: "nat \<Rightarrow> scan_state \<Rightarrow> scan_state option" where
  "enter depth st =
     (let st' = st\<lparr>sc_nodes := sc_nodes st + 1\<rparr> in if depth > 32 \<or> sc_nodes st' > 100000 then None else Some st')"

definition visit_text :: "nlp_model \<Rightarrow> nat \<Rightarrow> string \<Rightarrow> scan_state \<Rightarrow> (string \<times> scan_state) option" where
  "visit_text nlp depth item st = map_option (scan_text nlp item) (enter depth st)"

definition finite_repr :: "string \<Rightarrow> bool" where
  "finite_repr r = (r \<notin> {''nan'', ''inf'', ''-inf''})"

text \<open>A sensitive entry: its value is replaced, and counted unless it was replaced before.\<close>

definition masked :: "string \<Rightarrow> json \<Rightarrow> scan_state \<Rightarrow> scan_state" where
  "masked key child st =
     (if child = JStr MASK then st else count_in (''secret:structured:'' @ normalized_key key) 1 st)"

fun visit :: "nlp_model \<Rightarrow> nat \<Rightarrow> json \<Rightarrow> scan_state \<Rightarrow> (json \<times> scan_state) option"
  and visit_items :: "nlp_model \<Rightarrow> nat \<Rightarrow> (string \<times> json) list \<Rightarrow> (string \<times> json) list \<Rightarrow> scan_state
    \<Rightarrow> ((string \<times> json) list \<times> scan_state) option"
  and visit_all :: "nlp_model \<Rightarrow> nat \<Rightarrow> json list \<Rightarrow> scan_state \<Rightarrow> (json list \<times> scan_state) option" where
  "visit nlp depth item st =
     (case item of
        JStr s \<Rightarrow> map_option (map_prod JStr id) (visit_text nlp depth s st)
      | JObj items \<Rightarrow> Option.bind (enter depth st) (\<lambda>st1.
          map_option (map_prod JObj id) (visit_items nlp (depth + 1) items [] st1))
      | JList items \<Rightarrow> Option.bind (enter depth st) (\<lambda>st1.
          map_option (map_prod JList id) (visit_all nlp (depth + 1) items st1))
      | JFloat r \<Rightarrow> Option.bind (enter depth st) (\<lambda>st1. if finite_repr r then Some (JFloat r, st1) else None)
      | v \<Rightarrow> map_option (Pair v) (enter depth st))"
| "visit_items nlp depth [] result st = Some (result, st)"
| "visit_items nlp depth ((key, child) # items) result st =
     (case visit_text nlp depth key st of
        None \<Rightarrow> None
      | Some (key', st1) \<Rightarrow>
          if key' \<in> set (map fst result) then None
          else if sensitive_key key
          then visit_items nlp depth items (result @ [(key', JStr MASK)]) (masked key child st1)
          else
            (case visit nlp depth child st1 of
               None \<Rightarrow> None
             | Some (child', st2) \<Rightarrow> visit_items nlp depth items (result @ [(key', child')]) st2))"
| "visit_all nlp depth [] st = Some ([], st)"
| "visit_all nlp depth (child # items) st =
     (case visit nlp depth child st of
        None \<Rightarrow> None
      | Some (child', st1) \<Rightarrow> map_option (map_prod (Cons child') id) (visit_all nlp depth items st1))"

record disclosure_result =
  dr_value :: json
  dr_count :: nat
  dr_types :: "string list"

definition scan_disclosure :: "nlp_model \<Rightarrow> json \<Rightarrow> disclosure_result option" where
  "scan_disclosure nlp v =
     map_option (\<lambda>(scanned, st).
       \<lparr>dr_value = scanned, dr_count = sum_list (map snd (sc_counts st)), dr_types = sort (map fst (sc_counts st))\<rparr>)
       (visit nlp 0 v \<lparr>sc_counts = [], sc_nodes = 0\<rparr>)"

subsection \<open>A scan that counts nothing changes nothing\<close>

definition redactions :: "scan_state \<Rightarrow> nat" where
  "redactions st = sum_list (map snd (sc_counts st))"

lemma sum_add_count: "sum_list (map snd (add_count key n counts)) = sum_list (map snd counts) + n"
  by (induction key n counts rule: add_count.induct) auto

lemma total_count_in [simp]: "redactions (count_in key n st) = redactions st + n"
  by (simp add: redactions_def count_in_def sum_add_count)

lemma total_enter: "enter depth st = Some st' \<Longrightarrow> redactions st' = redactions st"
  by (auto simp: enter_def redactions_def Let_def split: if_splits)

lemma total_masked: "redactions (masked key child st) = redactions st + (if child = JStr MASK then 0 else 1)"
  by (simp add: masked_def)

lemma subn_none: "snd (subn r replacement t) = 0 \<Longrightarrow> fst (subn r replacement t) = t"
  by (simp add: subn_def Let_def)

lemma scan_secrets_clean:
  "scan_secrets secrets t st = (t', st') \<Longrightarrow> redactions st \<le> redactions st' \<and> (redactions st' = redactions st \<longrightarrow> t' = t)"
proof (induction secrets t st rule: scan_secrets.induct)
  case (2 kind pattern secrets t st)
  obtain t1 found where s: "subn pattern (''[REDACTED_'' @ map upper_char kind @ '']'') t = (t1, found)" by fastforce
  with subn_none [of pattern "''[REDACTED_'' @ map upper_char kind @ '']''" t] have "found = 0 \<longrightarrow> t1 = t" by simp
  moreover from 2(1) [OF s [symmetric] refl] 2(2) s
  have "redactions st + found \<le> redactions st' \<and> (redactions st' = redactions st + found \<longrightarrow> t' = t1)" by simp
  ultimately show ?case by auto
qed simp

lemma total_pii: "redactions (fold (\<lambda>e. count_in (f e) 1) entities st) = redactions st + length entities"
  by (induction entities arbitrary: st) auto

lemma redact_nothing: "redact_entities t [] = t"
  by (simp add: redact_entities_def non_overlapping_def)

lemma scan_text_clean:
  assumes "scan_text nlp t st = (t', st')"
  shows "redactions st \<le> redactions st' \<and> (redactions st' = redactions st \<longrightarrow> t' = t)"
proof -
  let ?es = "non_overlapping (detect nlp t)"
  let ?st = "fold (\<lambda>e. count_in (''pii:'' @ entity_type e) 1) ?es st"
  from assms have "scan_secrets SECRETS (redact_entities t ?es) ?st = (t', st')"
    by (simp only: scan_text_def Let_def)
  from scan_secrets_clean [OF this] total_pii [of "\<lambda>e. ''pii:'' @ entity_type e" ?es st]
  have "redactions st + length ?es \<le> redactions st'" "redactions st' = redactions st + length ?es \<longrightarrow> t' = redact_entities t ?es"
    by simp_all
  then show ?thesis by (cases "?es = []") (auto simp: redact_nothing)
qed

lemma visit_text_clean:
  "visit_text nlp depth t st = Some (t', st') \<Longrightarrow> redactions st \<le> redactions st' \<and> (redactions st' = redactions st \<longrightarrow> t' = t)"
  by (auto simp: visit_text_def dest!: total_enter scan_text_clean)

lemma visit_clean:
  "visit nlp depth v st = Some (v', st') \<Longrightarrow> redactions st \<le> redactions st' \<and> (redactions st' = redactions st \<longrightarrow> v' = v)"
  "visit_items nlp depth items result st = Some (result', st') \<Longrightarrow>
    redactions st \<le> redactions st' \<and> (redactions st' = redactions st \<longrightarrow> result' = result @ items)"
  "visit_all nlp depth vs st = Some (vs', st') \<Longrightarrow> redactions st \<le> redactions st' \<and> (redactions st' = redactions st \<longrightarrow> vs' = vs)"
proof (induction nlp depth v st and nlp depth items result st and nlp depth vs st
    arbitrary: v' st' and result' st' and vs' st' rule: visit_visit_items_visit_all.induct)
  case (1 nlp depth item st)
  show ?case
  proof (cases item)
    case (JObj items)
    with 1(3) obtain st1 items' where "enter depth st = Some st1" "visit_items nlp (depth + 1) items [] st1 = Some (items', st')"
      "v' = JObj items'"
      by (auto simp: bind_eq_Some_conv)
    with 1(2) [OF JObj] total_enter JObj show ?thesis by fastforce
  next
    case (JList items)
    with 1(3) obtain st1 items' where "enter depth st = Some st1" "visit_all nlp (depth + 1) items st1 = Some (items', st')"
      "v' = JList items'"
      by (auto simp: bind_eq_Some_conv)
    with 1(1) [OF JList] total_enter JList show ?thesis by fastforce
  next
    case (JStr s)
    with 1(3) visit_text_clean show ?thesis by fastforce
  qed (use 1(3) total_enter in \<open>auto simp: bind_eq_Some_conv split: if_splits\<close>)
next
  case (3 nlp depth key child items result st)
  obtain key' st1 where k: "visit_text nlp depth key st = Some (key', st1)" "key' \<notin> set (map fst result)"
    using 3(4) by (auto split: option.splits if_splits)
  have kc: "redactions st \<le> redactions st1" "redactions st1 = redactions st \<longrightarrow> key' = key" using visit_text_clean [OF k(1)] by auto
  show ?case
  proof (cases "sensitive_key key")
    case True
    with 3(1) [OF k(1) refl k(2) True, of result' st'] 3(4) k kc show ?thesis by (auto simp: total_masked split: if_splits)
  next
    case False
    with 3(4) k obtain child' st2 where c: "visit nlp depth child st1 = Some (child', st2)"
      "visit_items nlp depth items (result @ [(key', child')]) st2 = Some (result', st')"
      by (auto split: option.splits)
    from 3(2) [OF k(1) refl k(2) False c(1)] 3(3) [OF k(1) refl k(2) False c(1) refl c(2)] kc show ?thesis by auto
  qed
next
  case (5 nlp depth child items st)
  then obtain child' st1 items' where c: "visit nlp depth child st = Some (child', st1)"
    "visit_all nlp depth items st1 = Some (items', st')" "vs' = child' # items'"
    by (auto split: option.splits)
  from 5(1) [OF c(1)] 5(2) [OF c(1) refl c(2)] c(3) show ?case by auto
qed auto

subsection \<open>What the values of sensitive keys become\<close>

text \<open>The part of a value at a path of positions, and what an object of the result has to look like.\<close>

fun walk :: "json \<Rightarrow> nat list \<Rightarrow> json option" where
  "walk v [] = Some v"
| "walk (JObj items) (i # path) = (if i < length items then walk (snd (items ! i)) path else None)"
| "walk (JList items) (i # path) = (if i < length items then walk (items ! i) path else None)"
| "walk v (i # path) = None"

definition masks_items :: "(string \<times> json) list \<Rightarrow> (string \<times> json) list \<Rightarrow> bool" where
  "masks_items items items' \<longleftrightarrow>
     length items' = length items \<and> distinct (map fst items')
     \<and> (\<forall>i<length items. sensitive_key (fst (items ! i)) \<longrightarrow> snd (items' ! i) = JStr MASK)"

definition masks :: "json \<Rightarrow> json \<Rightarrow> bool" where
  "masks v v' \<longleftrightarrow>
     (\<forall>path items'. walk v' path = Some (JObj items') \<longrightarrow>
       (\<exists>items. walk v path = Some (JObj items) \<and> masks_items items items'))"

lemma masks_atom: "(\<And>i path. walk v' (i # path) = None) \<Longrightarrow> (\<And>items. v' \<noteq> JObj items) \<Longrightarrow> masks v v'"
  unfolding masks_def by (metis neq_Nil_conv option.distinct(1) option.inject walk.simps(1))

lemma masks_JList:
  assumes "list_all2 masks items items'"
  shows "masks (JList items) (JList items')"
  unfolding masks_def
proof (intro allI impI)
  fix path kvs assume w: "walk (JList items') path = Some (JObj kvs)"
  then obtain i p where path: "path = i # p" "i < length items'" "walk (items' ! i) p = Some (JObj kvs)"
    by (cases path) (auto split: if_splits)
  with assms have "masks (items ! i) (items' ! i)" "length items = length items'"
    by (auto simp: list_all2_conv_all_nth)
  with path show "\<exists>is. walk (JList items) path = Some (JObj is) \<and> masks_items is kvs"
    by (auto simp: masks_def)
qed

definition item_masked :: "string \<times> json \<Rightarrow> string \<times> json \<Rightarrow> bool" where
  "item_masked kv kv' \<longleftrightarrow> (if sensitive_key (fst kv) then snd kv' = JStr MASK else masks (snd kv) (snd kv'))"

lemma masks_JObj:
  assumes "list_all2 item_masked items items'" and "distinct (map fst items')"
  shows "masks (JObj items) (JObj items')"
  unfolding masks_def
proof (intro allI impI)
  fix path kvs assume w: "walk (JObj items') path = Some (JObj kvs)"
  have len: "length items = length items'" using assms(1) by (rule list_all2_lengthD)
  show "\<exists>is. walk (JObj items) path = Some (JObj is) \<and> masks_items is kvs"
  proof (cases path)
    case Nil
    with w assms len show ?thesis by (auto simp: masks_items_def item_masked_def list_all2_conv_all_nth)
  next
    case (Cons i p)
    with w have i: "i < length items'" "walk (snd (items' ! i)) p = Some (JObj kvs)" by (auto split: if_splits)
    with assms(1) have im: "item_masked (items ! i) (items' ! i)" by (auto simp: list_all2_conv_all_nth)
    have "\<not> sensitive_key (fst (items ! i))"
    proof
      assume "sensitive_key (fst (items ! i))"
      with im have "snd (items' ! i) = JStr MASK" by (simp add: item_masked_def)
      with i(2) show False by (cases p) auto
    qed
    with im i Cons len show ?thesis by (auto simp: item_masked_def masks_def)
  qed
qed

lemma visit_masks:
  "visit nlp depth v st = Some (v', st') \<Longrightarrow> masks v v'"
  "visit_items nlp depth items result st = Some (result', st') \<Longrightarrow> distinct (map fst result) \<Longrightarrow>
    \<exists>new. result' = result @ new \<and> distinct (map fst result') \<and> list_all2 item_masked items new"
  "visit_all nlp depth vs st = Some (vs', st') \<Longrightarrow> list_all2 masks vs vs'"
proof (induction nlp depth v st and nlp depth items result st and nlp depth vs st
    arbitrary: v' st' and result' st' and vs' st' rule: visit_visit_items_visit_all.induct)
  case (1 nlp depth item st)
  show ?case
  proof (cases item)
    case (JObj items)
    with 1(3) obtain st1 items' where "enter depth st = Some st1" "visit_items nlp (depth + 1) items [] st1 = Some (items', st')"
      "v' = JObj items'"
      by (auto simp: bind_eq_Some_conv)
    with 1(2) [OF JObj] JObj show ?thesis by (fastforce intro: masks_JObj)
  next
    case (JList items)
    with 1(3) obtain st1 items' where "enter depth st = Some st1" "visit_all nlp (depth + 1) items st1 = Some (items', st')"
      "v' = JList items'"
      by (auto simp: bind_eq_Some_conv)
    with 1(1) [OF JList] JList show ?thesis by (fastforce intro: masks_JList)
  qed (use 1(3) in \<open>auto simp: bind_eq_Some_conv split: if_splits intro!: masks_atom\<close>)
next
  case (3 nlp depth key child items result st)
  obtain key' st1 where k: "visit_text nlp depth key st = Some (key', st1)" "key' \<notin> set (map fst result)"
    using 3(4) by (auto split: option.splits if_splits)
  have dist: "distinct (map fst (result @ [(key', x)]))" for x :: json using k(2) 3(5) by simp
  show ?case
  proof (cases "sensitive_key key")
    case True
    with 3(1) [OF k(1) refl k(2) True _ dist, of result' st'] 3(4) k
    obtain new where "result' = (result @ [(key', JStr MASK)]) @ new" "distinct (map fst result')" "list_all2 item_masked items new"
      by (auto split: if_splits)
    moreover have "item_masked (key, child) (key', JStr MASK)" using True by (simp add: item_masked_def)
    ultimately show ?thesis by (intro exI [of _ "(key', JStr MASK) # new"]) simp
  next
    case False
    with 3(4) k obtain child' st2 where c: "visit nlp depth child st1 = Some (child', st2)"
      "visit_items nlp depth items (result @ [(key', child')]) st2 = Some (result', st')"
      by (auto split: option.splits)
    from 3(3) [OF k(1) refl k(2) False c(1) refl c(2) dist] obtain new where
      "result' = (result @ [(key', child')]) @ new" "distinct (map fst result')" "list_all2 item_masked items new" by blast
    moreover have "item_masked (key, child) (key', child')"
      using False 3(2) [OF k(1) refl k(2) False c(1)] by (simp add: item_masked_def)
    ultimately show ?thesis by (intro exI [of _ "(key', child') # new"]) simp
  qed
next
  case (5 nlp depth child items st)
  then obtain child' st1 items' where c: "visit nlp depth child st = Some (child', st1)"
    "visit_all nlp depth items st1 = Some (items', st')" "vs' = child' # items'"
    by (auto split: option.splits)
  from 5(1) [OF c(1)] 5(2) [OF c(1) refl c(2)] c(3) show ?case by simp
qed auto

subsection \<open>Properties\<close>

text \<open>
  C12: The values of sensitive keys never leave. Every object of a scanned value, at any depth,
  comes from the object at the same place of the original; it has as many entries, its keys are
  distinct, and wherever the original key names a secret (\<open>password\<close>, \<open>API-Key\<close>, \<open>Token\<close> and the like, in
  any spelling that normalizes to one of them) the value is the mask.
\<close>

theorem structured_secrets_masked:
  assumes "scan_disclosure nlp v = Some r" and "walk (dr_value r) path = Some (JObj items')"
  shows "\<exists>items. walk v path = Some (JObj items) \<and> length items' = length items \<and> distinct (map fst items')
    \<and> (\<forall>i<length items. sensitive_key (fst (items ! i)) \<longrightarrow> snd (items' ! i) = JStr MASK)"
proof -
  from assms(1) obtain st where "visit nlp 0 v \<lparr>sc_counts = [], sc_nodes = 0\<rparr> = Some (dr_value r, st)"
    by (auto simp: scan_disclosure_def)
  from visit_masks(1) [OF this] assms(2) show ?thesis by (auto simp: masks_def masks_items_def)
qed

theorem structured_secrets_masked_witness:
  "\<exists>r items'. scan_disclosure None (JObj [(''a'', JObj [(''API-Key'', JInt 7)])]) = Some r
    \<and> walk (dr_value r) [0] = Some (JObj items') \<and> snd (items' ! 0) = JStr MASK"
proof -
  let ?v = "JObj [(''a'', JObj [(''API-Key'', JInt 7)])]"
  have s: "map_option dr_value (scan_disclosure None ?v) = Some (JObj [(''a'', JObj [(''API-Key'', JStr MASK)])])"
    and k: "sensitive_key ''API-Key''"
    by code_simp+
  then obtain r where r: "scan_disclosure None ?v = Some r" and w: "walk (dr_value r) [0] = Some (JObj [(''API-Key'', JStr MASK)])"
    by auto
  from structured_secrets_masked [OF r w] k have "snd ([(''API-Key'', JStr MASK)] ! 0) = JStr MASK" by auto
  with r w show ?thesis by blast
qed

text \<open>
  A scan that reports no redaction discloses the value unchanged. The job queue relies on it
  when it refuses a payload with redactions instead of storing a changed one.
\<close>

theorem clean_scan_is_identity:
  assumes "scan_disclosure nlp v = Some r" and "dr_count r = 0"
  shows "dr_value r = v"
proof -
  from assms(1) obtain st where "visit nlp 0 v \<lparr>sc_counts = [], sc_nodes = 0\<rparr> = Some (dr_value r, st)"
    and "dr_count r = redactions st"
    by (auto simp: scan_disclosure_def redactions_def)
  with visit_clean(1) [OF this(1)] assms(2) show ?thesis by (simp add: redactions_def)
qed

theorem clean_scan_is_identity_witness:
  "\<exists>r. scan_disclosure None (JObj [(''run_id'', JStr ''r1'')]) = Some r \<and> dr_value r = JObj [(''run_id'', JStr ''r1'')]"
proof -
  have "map_option dr_count (scan_disclosure None (JObj [(''run_id'', JStr ''r1'')])) = Some 0" by code_simp
  then obtain r where "scan_disclosure None (JObj [(''run_id'', JStr ''r1'')]) = Some r" "dr_count r = 0" by auto
  with clean_scan_is_identity show ?thesis by blast
qed

text \<open>
  A scan is not stable: what it discloses can hold a secret by its own patterns. When the value
  of a secret begins with the name of another one, the replacement of the inner one completes a
  match of the outer one, so that a second scan redacts again and changes the value.
\<close>

theorem rescan_redacts_again:
  "\<exists>r r'. scan_disclosure None (JStr ''token:token: abcdefgh'') = Some r
    \<and> scan_disclosure None (dr_value r) = Some r' \<and> 0 < dr_count r' \<and> dr_value r' \<noteq> dr_value r"
proof -
  let ?out = "JStr ''token:[REDACTED_API_KEY]''" and ?again = "JStr ''[REDACTED_API_KEY]''"
  have "map_option dr_value (scan_disclosure None (JStr ''token:token: abcdefgh'')) = Some ?out"
    and "map_option (\<lambda>r. (dr_value r, dr_count r)) (scan_disclosure None ?out) = Some (?again, 1)"
    by code_simp+
  then show ?thesis by auto
qed

text \<open>
  A scan reports secrets it never found. Every scanned string enters all four kinds of secret
  into the reported types, even a string in which nothing was redacted.
\<close>

theorem clean_scan_reports_secret_types:
  "scan_disclosure None (JStr ''hello'') =
     Some \<lparr>dr_value = JStr ''hello'', dr_count = 0,
           dr_types = [''secret:api_key'', ''secret:bearer_token'', ''secret:private_key'', ''secret:provider_key'']\<rparr>"
  by code_simp

end
