(* ===== verification/Run_Ledger.thy ===== *)
theory Run_Ledger
  imports Complex_Main Sql_Table Disclosure
begin

text \<open>
  The append-only ledger of runs and their events (\<open>services/run_ledger.py\<close>, with the rows of
  \<open>services/db_store.py\<close>). A method is one transaction on the tables, except \<open>append\<close>, which first
  ensures the run in a transaction of its own; what other processes commit in between is an argument.

  The columns of JSON text hold the value they encode (\<open>None\<close> for text that does not parse). Of
  a run, the budget columns belong to the budget ledger and are left out here. A deletion follows
  the foreign keys of the schema: events and checkpoints go with their run, drafts with their checkpoint,
  and a run that is the parent of another one cannot go (\<open>ondelete="RESTRICT"\<close>).
\<close>

subsection \<open>Rows\<close>

datatype ledger_error =
    LedgerValueError string
  | LedgerDataError
  | IntegrityError
  | MultipleRows

record run_row =
  lr_run_id :: string
  lr_user_id :: string
  lr_project_id :: string
  lr_conversation_id :: string
  lr_correlation_id :: string
  lr_parent_run_id :: "string option"
  lr_fork_source_sequence :: "int option"
  lr_provider :: string
  lr_model :: string
  lr_schema_version :: int
  lr_status :: string
  lr_started_at :: timestamp
  lr_completed_at :: "timestamp option"
  lr_stop_reason :: "string option"
  lr_answer_summary :: "string option"
  lr_input_tokens :: int
  lr_output_tokens :: int
  lr_total_tokens :: int
  lr_cost_usd :: "rat option"
  lr_latency_ms :: "rat option"
  lr_iterations :: int
  lr_next_sequence :: int

record event_row =
  ev_run_id :: string
  ev_user_id :: string
  ev_project_id :: string
  ev_conversation_id :: string
  ev_correlation_id :: string
  ev_sequence :: int
  ev_at :: timestamp
  ev_kind :: string
  ev_schema_version :: int
  ev_iteration :: int
  ev_payload :: "json option"

record checkpoint_row =
  cp_checkpoint_id :: string
  cp_user_id :: string
  cp_project_id :: string
  cp_source_run_id :: string
  cp_source_sequence :: int
  cp_snapshot :: "(string \<times> string) list"
  cp_policy_profile :: string
  cp_memory_ids :: "string list"
  cp_workspace_restoration :: string
  cp_created_at :: timestamp

record draft_row =
  fd_id :: string
  fd_checkpoint_id :: string
  fd_user_id :: string
  fd_project_id :: string
  fd_source_run_id :: string
  fd_source_sequence :: int
  fd_target_conversation_id :: string
  fd_created_at :: timestamp

record conversation_row =
  cv_id :: string
  cv_title :: string
  cv_user_id :: string
  cv_created_at :: timestamp
  cv_updated_at :: timestamp
  cv_is_active :: int

record message_row =
  ms_id :: nat
  ms_conversation_id :: string
  ms_role :: string
  ms_content :: string
  ms_created_at :: timestamp

record ledger_db =
  lg_runs :: "run_row list"
  lg_events :: "event_row list"
  lg_checkpoints :: "checkpoint_row list"
  lg_drafts :: "draft_row list"
  lg_conversations :: "conversation_row list"
  lg_messages :: "message_row list"

definition SCHEMA_VERSION :: int where
  "SCHEMA_VERSION = 1"

definition TERMINAL_RUN_STATUSES :: "string list" where
  "TERMINAL_RUN_STATUSES = [''completed'', ''failed'', ''cancelled'']"

text \<open>The fields of an event that may be persisted, by the kind of the event.\<close>

definition SAFE_FIELDS :: "(string \<times> string list) list" where
  "SAFE_FIELDS = [
     (''run_started'', [''safe'']),
     (''iteration_started'', []),
     (''model_response'', [''provider_stop_reason'', ''actual_provider'', ''actual_model'', ''cache_read_input_tokens'',
        ''cache_write_input_tokens'']),
     (''budget_blocked'', [''code'', ''stop_reason'']),
     (''provider_capability_rejected'', [''code'', ''missing_capabilities'']),
     (''structured_output_rejected'', [''code'']),
     (''model_progress'', []),
     (''text_delta'', []),
     (''tool_call_requested'', [''id'', ''name'', ''arguments_hash'']),
     (''policy_decided'', [''id'', ''name'', ''arguments_hash'', ''risk_classes'', ''matched_rule_id'', ''action'',
        ''reason_code'']),
     (''tool_call_completed'', [''id'', ''name'', ''arguments_hash'', ''output_hash'', ''output_size'', ''status'']),
     (''tool_progress'', [''id'', ''name'', ''status'', ''offset'', ''total'']),
     (''approval_required'', [''id'', ''name'', ''arguments_hash'', ''risk_classes'', ''matched_rule_id'']),
     (''approval_decided'', [''id'', ''name'', ''arguments_hash'', ''approved'', ''reason_code'']),
     (''tool_denied'', [''id'', ''name'', ''arguments_hash'', ''action'', ''reason_code'', ''status'']),
     (''evidence_retrieved'', [''evidence_ids'', ''document_ids'', ''chunk_ids'', ''content_hashes'', ''scores'',
        ''evidence_count'', ''web_evidence_count'', ''web_search_source'', ''web_filtered_count'',
        ''ranked_evidence'']),
     (''claim_verified'', [''claim_hashes'', ''unsupported_hashes'', ''cited_evidence_ids'', ''supported_count'',
        ''unsupported_count'']),
     (''grounded_answer'', [''answer_hash'', ''citation_ids'', ''supported_count'', ''unsupported_count'']),
     (''orchestration_routed'', [''requested_mode'', ''resolved_mode'', ''reason_code'', ''router_version'', ''degraded'']),
     (''delegation_requested'', [''child_id'', ''parent_run_id'', ''user_id'', ''project_id'', ''policy_id'', ''claim_ids'',
        ''claim_hashes'', ''evidence_ids'', ''content_hashes'', ''claim_count'', ''evidence_count'',
        ''status'', ''reason_code'', ''input_tokens'', ''output_tokens'', ''profile_id'',
        ''specialist_kind'', ''tool_count'']),
     (''delegation_completed'', [''child_id'', ''parent_run_id'', ''claim_ids'', ''claim_hashes'', ''evidence_ids'',
        ''content_hashes'', ''claim_count'', ''evidence_count'', ''supported_count'', ''rejected_count'',
        ''escalated_count'', ''status'', ''reason_code'', ''reason_codes'', ''input_tokens'',
        ''output_tokens'', ''total_tokens'', ''profile_id'', ''specialist_kind'', ''iterations'',
        ''tool_count'']),
     (''reflection_started'', [''rubric_id'', ''rubric_version'', ''draft_hash'', ''max_revisions'']),
     (''reflection_verdict'', [''rubric_id'', ''rubric_version'', ''draft_hash'', ''critique_hash'', ''verdict'', ''issue_codes'',
        ''evidence_refs'', ''confidence'']),
     (''reflection_completed'', [''rubric_id'', ''rubric_version'', ''draft_hash'', ''selected_hash'', ''outcome'', ''calls'',
        ''revisions'', ''input_tokens'', ''output_tokens'', ''cost_microusd'']),
     (''run_stopped'', [''reason'', ''error'', ''cache_read_input_tokens'', ''cache_write_input_tokens'',
        ''persistence_duration_ms'', ''workflow_duration_ms''])]"


subsection \<open>Payloads\<close>

text \<open>\<open>bool(value)\<close>.\<close>

fun truthy :: "json \<Rightarrow> bool" where
  "truthy JNull = False"
| "truthy (JBool b) = b"
| "truthy (JInt n) = (n \<noteq> 0)"
| "truthy (JFloat r) = (r \<notin> {''0.0'', ''-0.0''})"
| "truthy (JStr s) = (s \<noteq> [])"
| "truthy (JList vs) = (vs \<noteq> [])"
| "truthy (JObj kvs) = (kvs \<noteq> [])"

text \<open>What \<open>json.dumps\<close> with \<open>allow_nan=False\<close> accepts.\<close>

fun finite_json :: "json \<Rightarrow> bool" where
  "finite_json (JFloat r) = finite_repr r"
| "finite_json (JList vs) = list_all finite_json vs"
| "finite_json (JObj kvs) = list_all (\<lambda>(k, v). finite_json v) kvs"
| "finite_json v = True"

definition project_payload :: "string list \<Rightarrow> (string \<times> json) list \<Rightarrow> (string \<times> json) list" where
  "project_payload allowed payload =
     map (\<lambda>(key, v). (key, if key = ''error'' then JBool (truthy v) else v))
       (List.map_filter (\<lambda>key. map_option (Pair key) (map_of payload key)) allowed)"

definition safe_event_payload ::
  "nlp_model \<Rightarrow> string \<Rightarrow> (string \<times> json) list \<Rightarrow> ledger_error + (string \<times> json) list" where
  "safe_event_payload nlp kind payload =
     (case map_of SAFE_FIELDS kind of
        None \<Rightarrow> Inl (LedgerValueError ''unsupported runtime event kind'')
      | Some allowed \<Rightarrow>
          (case redact_value nlp (JObj (project_payload allowed payload)) of
             JObj safe \<Rightarrow> Inr safe
           | _ \<Rightarrow> Inl (LedgerValueError ''event payload must be an object'')))"

subsection \<open>Creating runs\<close>

record run_identity =
  ri_run_id :: string
  ri_user_id :: string
  ri_project_id :: string
  ri_conversation_id :: string
  ri_correlation_id :: string
  ri_provider :: string
  ri_model :: string

definition new_run :: "timestamp \<Rightarrow> run_identity \<Rightarrow> string option \<Rightarrow> run_row" where
  "new_run now ident parent =
     \<lparr>lr_run_id = ri_run_id ident, lr_user_id = ri_user_id ident, lr_project_id = ri_project_id ident,
      lr_conversation_id = ri_conversation_id ident, lr_correlation_id = ri_correlation_id ident,
      lr_parent_run_id = parent, lr_fork_source_sequence = None,
      lr_provider = ri_provider ident, lr_model = ri_model ident, lr_schema_version = SCHEMA_VERSION,
      lr_status = ''running'', lr_started_at = now, lr_completed_at = None, lr_stop_reason = None,
      lr_answer_summary = None, lr_input_tokens = 0, lr_output_tokens = 0, lr_total_tokens = 0,
      lr_cost_usd = None, lr_latency_ms = None, lr_iterations = 0, lr_next_sequence = 1\<rparr>"

definition same_run :: "run_row \<Rightarrow> run_row \<Rightarrow> bool" where
  "same_run a b = (lr_run_id a = lr_run_id b)"

definition run_exists :: "string \<Rightarrow> ledger_db \<Rightarrow> bool" where
  "run_exists run db = list_ex (\<lambda>r. lr_run_id r = run) (lg_runs db)"

definition draft_for :: "run_identity \<Rightarrow> draft_row \<Rightarrow> bool" where
  "draft_for ident d =
     (fd_user_id d = ri_user_id ident \<and> fd_project_id d = ri_project_id ident
      \<and> fd_target_conversation_id d = ri_conversation_id ident)"

text \<open>The transaction that creates a run consumes the draft that waits for its conversation.\<close>

definition ensure_run :: "timestamp \<Rightarrow> run_identity \<Rightarrow> ledger_db \<Rightarrow> ledger_db \<times> (ledger_error + unit)" where
  "ensure_run now ident db =
     (case insert_or_ignore same_run (new_run now ident None) (lg_runs db) of
        (runs, False) \<Rightarrow> (db, Inr ())
      | (runs, True) \<Rightarrow>
          let db1 = db\<lparr>lg_runs := runs, lg_drafts := filter (\<lambda>d. \<not> draft_for ident d) (lg_drafts db)\<rparr> in
          (case select_where (draft_for ident) (lg_drafts db) of
             [] \<Rightarrow> (db1, Inr ())
           | [d] \<Rightarrow>
               if run_exists (fd_source_run_id d) db1
               then (db1\<lparr>lg_runs := updated
                       (\<lambda>r. lr_run_id r = ri_run_id ident \<and> lr_user_id r = ri_user_id ident)
                       (\<lambda>r. r\<lparr>lr_parent_run_id := Some (fd_source_run_id d),
                              lr_fork_source_sequence := Some (fd_source_sequence d)\<rparr>) runs\<rparr>, Inr ())
               else (db, Inl IntegrityError)
           | _ \<Rightarrow> (db, Inl MultipleRows)))"

definition child_of :: "string \<Rightarrow> string \<Rightarrow> string \<Rightarrow> run_row \<Rightarrow> bool" where
  "child_of user project parent r =
     (lr_user_id r = user \<and> lr_project_id r = project \<and> lr_parent_run_id r = Some parent)"

definition or_default :: "string option \<Rightarrow> string \<Rightarrow> string" where
  "or_default value fallback = (case value of None \<Rightarrow> fallback | Some s \<Rightarrow> if s = [] then fallback else s)"

definition select_run :: "string \<Rightarrow> ledger_db \<Rightarrow> run_row option" where
  "select_run run db = scalar (select_where (\<lambda>r. lr_run_id r = run) (lg_runs db))"

definition ensure_child_run ::
  "timestamp \<Rightarrow> (ledger_db \<Rightarrow> ledger_db) \<Rightarrow> string \<Rightarrow> string \<Rightarrow> string \<Rightarrow> string \<Rightarrow> string \<Rightarrow> string
     \<Rightarrow> string option \<Rightarrow> string option \<Rightarrow> ledger_db \<Rightarrow> ledger_db \<times> (ledger_error + unit)" where
  "ensure_child_run now between run_id parent_run_id user project provider model conversation correlation db =
     (case select_run parent_run_id db of
        None \<Rightarrow> (db, Inl (LedgerValueError ''parent run does not exist''))
      | Some parent \<Rightarrow>
          if lr_user_id parent \<noteq> user \<or> lr_project_id parent \<noteq> project
          then (db, Inl (LedgerValueError ''parent run owner mismatch''))
          else
            (case select_run run_id db of
               Some existing \<Rightarrow>
                 (db, if child_of user project parent_run_id existing then Inr ()
                      else Inl (LedgerValueError ''child run identity mismatch''))
             | None \<Rightarrow>
                 let ident = \<lparr>ri_run_id = run_id, ri_user_id = user, ri_project_id = project,
                       ri_conversation_id = or_default conversation (lr_conversation_id parent),
                       ri_correlation_id = or_default correlation (lr_correlation_id parent),
                       ri_provider = provider, ri_model = model\<rparr>;
                     db1 = between db;
                     db2 = db1\<lparr>lg_runs :=
                       fst (insert_or_ignore same_run (new_run now ident (Some parent_run_id)) (lg_runs db1))\<rparr> in
                 if \<not> run_exists parent_run_id db1 \<and> \<not> run_exists run_id db1 then (db1, Inl IntegrityError)
                 else
                 (case select_run run_id db2 of
                    Some persisted \<Rightarrow>
                      if child_of user project parent_run_id persisted then (db2, Inr ())
                      else (db1, Inl (LedgerValueError ''child run identity mismatch''))
                  | None \<Rightarrow> (db1, Inl (LedgerValueError ''child run identity mismatch'')))))"

subsection \<open>Appending events\<close>

record usage_totals =
  ut_input :: int
  ut_output :: int
  ut_total :: int

definition event_clash :: "event_row \<Rightarrow> event_row \<Rightarrow> bool" where
  "event_clash a b = (ev_run_id a = ev_run_id b \<and> ev_sequence a = ev_sequence b)"

text \<open>The condition of the updates that allocate a sequence number and that finalize the run.\<close>

definition run_open :: "string \<Rightarrow> string \<Rightarrow> run_row \<Rightarrow> bool" where
  "run_open run user r =
     (lr_run_id r = run \<and> lr_user_id r = user \<and> lr_status r = ''running'' \<and> lr_completed_at r = None)"

definition new_event ::
  "timestamp \<Rightarrow> run_identity \<Rightarrow> int \<Rightarrow> string \<Rightarrow> int \<Rightarrow> (string \<times> json) list \<Rightarrow> event_row" where
  "new_event now ident sequence kind iteration safe =
     \<lparr>ev_run_id = ri_run_id ident, ev_user_id = ri_user_id ident, ev_project_id = ri_project_id ident,
      ev_conversation_id = ri_conversation_id ident, ev_correlation_id = ri_correlation_id ident,
      ev_sequence = sequence, ev_at = now, ev_kind = kind, ev_schema_version = SCHEMA_VERSION,
      ev_iteration = iteration, ev_payload = Some (JObj safe)\<rparr>"

definition stop_status :: "json option \<Rightarrow> json option \<Rightarrow> string" where
  "stop_status reason error =
     (if reason = Some (JStr ''cancelled'') then ''cancelled''
      else if (case error of None \<Rightarrow> False | Some v \<Rightarrow> truthy v) then ''failed''
      else ''completed'')"

text \<open>\<open>str(reason)\<close>; \<open>py_str\<close> is the language's own for a value that is not text.\<close>

definition stop_reason :: "(json \<Rightarrow> string) \<Rightarrow> json option \<Rightarrow> string option" where
  "stop_reason py_str reason =
     (case reason of
        None \<Rightarrow> None
      | Some JNull \<Rightarrow> None
      | Some (JStr s) \<Rightarrow> Some (take 100 s)
      | Some v \<Rightarrow> Some (take 100 (py_str v)))"

definition finalized ::
  "(json \<Rightarrow> string) \<Rightarrow> timestamp \<Rightarrow> int \<Rightarrow> usage_totals \<Rightarrow> (string \<times> json) list \<Rightarrow> run_row \<Rightarrow> run_row" where
  "finalized py_str now iteration usage safe r =
     r\<lparr>lr_status := stop_status (map_of safe ''reason'') (map_of safe ''error''), lr_completed_at := Some now,
       lr_stop_reason := stop_reason py_str (map_of safe ''reason''),
       lr_input_tokens := ut_input usage, lr_output_tokens := ut_output usage, lr_total_tokens := ut_total usage,
       lr_iterations := iteration, lr_latency_ms := Some (of_int (now - lr_started_at r) / 1000)\<rparr>"

text \<open>The second transaction of \<open>append\<close>, for a payload that was made safe.\<close>

definition append_event ::
  "(json \<Rightarrow> string) \<Rightarrow> timestamp \<Rightarrow> run_identity \<Rightarrow> string \<Rightarrow> int \<Rightarrow> usage_totals \<Rightarrow> (string \<times> json) list
     \<Rightarrow> ledger_db \<Rightarrow> ledger_db \<times> (ledger_error + int)" where
  "append_event py_str now ident kind iteration usage safe db =
     (let run = ri_run_id ident; user = ri_user_id ident in
      case scalar (select_where (run_open run user) (lg_runs db)) of
        None \<Rightarrow>
          (db, Inl (LedgerValueError
             (if list_ex (\<lambda>r. lr_run_id r = run \<and> lr_user_id r = user) (lg_runs db)
              then ''run is not running'' else ''run owner mismatch'')))
      | Some r \<Rightarrow>
          let sequence = lr_next_sequence r;
              runs = updated (run_open run user) (\<lambda>r. r\<lparr>lr_next_sequence := lr_next_sequence r + 1\<rparr>) (lg_runs db) in
          (case insert_unique event_clash (new_event now ident sequence kind iteration safe) (lg_events db) of
             None \<Rightarrow> (db, Inl IntegrityError)
           | Some events \<Rightarrow>
               let db' = db\<lparr>lg_runs := runs, lg_events := events\<rparr> in
               if kind \<noteq> ''run_stopped'' then (db', Inr sequence)
               else if rowcount (run_open run user) runs \<noteq> 1
               then (db, Inl (LedgerValueError ''run is not running''))
               else (db'\<lparr>lg_runs := updated (run_open run user) (finalized py_str now iteration usage safe) runs\<rparr>,
                     Inr sequence)))"

definition append_run ::
  "nlp_model \<Rightarrow> (json \<Rightarrow> string) \<Rightarrow> timestamp \<Rightarrow> timestamp \<Rightarrow> (ledger_db \<Rightarrow> ledger_db) \<Rightarrow> run_identity \<Rightarrow> string \<Rightarrow> int
     \<Rightarrow> (string \<times> json) list \<Rightarrow> usage_totals \<Rightarrow> ledger_db \<Rightarrow> ledger_db \<times> (ledger_error + int)" where
  "append_run nlp py_str started now between ident kind iteration payload usage db =
     (case ensure_run started ident db of
        (db1, Inl e) \<Rightarrow> (db1, Inl e)
      | (db1, Inr _) \<Rightarrow>
          (case safe_event_payload nlp kind payload of
             Inl e \<Rightarrow> (db1, Inl e)
           | Inr safe \<Rightarrow>
               if \<not> finite_json (JObj safe) then (db1, Inl (LedgerValueError ''out of range float values''))
               else append_event py_str now ident kind iteration usage safe (between db1)))"

definition finalize_metadata ::
  "nlp_model \<Rightarrow> string \<Rightarrow> string \<Rightarrow> string \<Rightarrow> rat option \<Rightarrow> rat option \<Rightarrow> ledger_db \<Rightarrow> ledger_db \<times> (ledger_error + unit)" where
  "finalize_metadata nlp user run answer cost_usd latency_ms db =
     (let P = (\<lambda>r. lr_run_id r = run \<and> lr_user_id r = user);
          nonneg = (\<lambda>value old. case value of Some x \<Rightarrow> if x \<ge> 0 then Some x else old | None \<Rightarrow> old);
          f = (\<lambda>r. r\<lparr>lr_answer_summary := Some (take 2000 (rr_text (redact_text nlp answer))),
                     lr_cost_usd := nonneg cost_usd (lr_cost_usd r),
                     lr_latency_ms := nonneg latency_ms (lr_latency_ms r)\<rparr>) in
      if rowcount P (lg_runs db) \<noteq> 1 then (db, Inl (LedgerValueError ''run not found''))
      else (db\<lparr>lg_runs := updated P f (lg_runs db)\<rparr>, Inr ()))"

subsection \<open>Reading\<close>

definition bounded_page :: "int \<Rightarrow> int \<Rightarrow> bool" where
  "bounded_page limit position = (1 \<le> limit \<and> limit \<le> 200 \<and> 0 \<le> position)"

text \<open>The record read from a row: the row without its sequence counter, when its schema is supported.\<close>

definition run_record :: "run_row \<Rightarrow> ledger_error + run_row" where
  "run_record r = (if lr_schema_version r \<noteq> SCHEMA_VERSION then Inl LedgerDataError else Inr r)"

definition event_record :: "event_row \<Rightarrow> ledger_error + event_row" where
  "event_record e =
     (case map_of SAFE_FIELDS (ev_kind e) of
        None \<Rightarrow> Inl LedgerDataError
      | Some allowed \<Rightarrow>
          if ev_schema_version e \<noteq> SCHEMA_VERSION then Inl LedgerDataError
          else (case ev_payload e of
                  Some (JObj payload) \<Rightarrow>
                    if list_ex (\<lambda>(key, v). key \<notin> set allowed) payload then Inl LedgerDataError else Inr e
                | _ \<Rightarrow> Inl LedgerDataError))"

fun records :: "('r \<Rightarrow> ledger_error + 'r) \<Rightarrow> 'r list \<Rightarrow> ledger_error + 'r list" where
  "records record_of [] = Inr []"
| "records record_of (r # rs) =
     (case record_of r of
        Inl e \<Rightarrow> Inl e
      | Inr x \<Rightarrow> (case records record_of rs of Inl e \<Rightarrow> Inl e | Inr xs \<Rightarrow> Inr (x # xs)))"

definition newest_first :: "run_row list \<Rightarrow> run_row list" where
  "newest_first runs = rev (sort_key (\<lambda>r. (lr_started_at r, lr_run_id r)) runs)"

definition page_of_runs :: "(run_row \<Rightarrow> bool) \<Rightarrow> int \<Rightarrow> int \<Rightarrow> ledger_db \<Rightarrow> ledger_error + run_row list" where
  "page_of_runs P limit offset db =
     (if \<not> bounded_page limit offset then Inl (LedgerValueError ''pagination is outside supported bounds'')
      else records run_record (take (nat limit) (drop (nat offset) (newest_first (select_where P (lg_runs db))))))"

definition list_runs ::
  "string \<Rightarrow> int \<Rightarrow> int \<Rightarrow> string option \<Rightarrow> string option \<Rightarrow> ledger_db \<Rightarrow> ledger_error + run_row list" where
  "list_runs user limit offset conversation project db =
     page_of_runs (\<lambda>r. lr_user_id r = user
       \<and> (case conversation of None \<Rightarrow> True | Some c \<Rightarrow> lr_conversation_id r = c)
       \<and> (case project of None \<Rightarrow> True | Some p \<Rightarrow> lr_project_id r = p)) limit offset db"

definition get_run :: "string \<Rightarrow> string \<Rightarrow> ledger_db \<Rightarrow> ledger_error + run_row option" where
  "get_run user run db =
     (case scalar (select_where (\<lambda>r. lr_run_id r = run \<and> lr_user_id r = user) (lg_runs db)) of
        None \<Rightarrow> Inr None
      | Some r \<Rightarrow> map_sum id Some (run_record r))"

definition list_children :: "string \<Rightarrow> string \<Rightarrow> int \<Rightarrow> int \<Rightarrow> ledger_db \<Rightarrow> ledger_error + run_row list" where
  "list_children user parent limit offset db =
     page_of_runs (\<lambda>r. lr_user_id r = user \<and> lr_parent_run_id r = Some parent) limit offset db"

definition run_events ::
  "string \<Rightarrow> string \<Rightarrow> int \<Rightarrow> int \<Rightarrow> ledger_db \<Rightarrow> ledger_error + event_row list option" where
  "run_events user run limit after_sequence db =
     (if \<not> bounded_page limit after_sequence then Inl (LedgerValueError ''pagination is outside supported bounds'')
      else if \<not> list_ex (\<lambda>r. lr_run_id r = run \<and> lr_user_id r = user) (lg_runs db) then Inr None
      else map_sum id Some (records event_record (take (nat limit) (sort_key ev_sequence
             (select_where (\<lambda>e. ev_run_id e = run \<and> ev_user_id e = user \<and> after_sequence < ev_sequence e)
               (lg_events db))))))"

subsection \<open>Forking\<close>

definition next_message_id :: "message_row list \<Rightarrow> nat" where
  "next_message_id messages = fold (\<lambda>m n. max n (Suc (ms_id m))) messages 1"

definition checkpoint_source :: "string \<Rightarrow> string \<Rightarrow> int \<Rightarrow> checkpoint_row \<Rightarrow> bool" where
  "checkpoint_source user run sequence c =
     (cp_user_id c = user \<and> cp_source_run_id c = run \<and> cp_source_sequence c = sequence)"

definition checkpoint_name :: "string \<Rightarrow> string \<Rightarrow> int \<Rightarrow> string" where
  "checkpoint_name user run sequence =
     ''cogentrex:checkpoint:'' @ user @ '':'' @ run @ '':'' @ show_int sequence"

text \<open>The messages of a conversation up to a moment, redacted and cut.\<close>

definition conversation_snapshot ::
  "nlp_model \<Rightarrow> string \<Rightarrow> timestamp \<Rightarrow> message_row list \<Rightarrow> (string \<times> string) list" where
  "conversation_snapshot nlp conversation cutoff messages =
     map (\<lambda>m. (ms_role m, take 10000 (rr_text (redact_text nlp (ms_content m)))))
       (sort_key (\<lambda>m. (ms_created_at m, ms_id m))
         (select_where (\<lambda>m. ms_conversation_id m = conversation \<and> ms_created_at m \<le> cutoff) messages))"

text \<open>
  \<open>ON CONFLICT DO NOTHING\<close> on the source of the checkpoint; a clash of the primary key is still an
  integrity error (\<open>None\<close>).
\<close>

definition insert_checkpoint :: "checkpoint_row \<Rightarrow> checkpoint_row list \<Rightarrow> checkpoint_row list option" where
  "insert_checkpoint c cs =
     (if list_ex (checkpoint_source (cp_user_id c) (cp_source_run_id c) (cp_source_sequence c)) cs then Some cs
      else insert_unique (\<lambda>a b. cp_checkpoint_id a = cp_checkpoint_id b) c cs)"

definition forked_messages :: "timestamp \<Rightarrow> string \<Rightarrow> (string \<times> string) list \<Rightarrow> message_row list \<Rightarrow> message_row list" where
  "forked_messages now target snapshot messages =
     map (\<lambda>(i, role, content). \<lparr>ms_id = next_message_id messages + i, ms_conversation_id = target, ms_role = role,
            ms_content = content, ms_created_at = now\<rparr>) (enumerate 0 snapshot)"

text \<open>The rows that a fork adds once its checkpoint \<open>c\<close> is there.\<close>

definition fork_rows ::
  "timestamp \<Rightarrow> string \<Rightarrow> string \<Rightarrow> string \<Rightarrow> run_row \<Rightarrow> conversation_row \<Rightarrow> checkpoint_row \<Rightarrow> int \<Rightarrow> ledger_db
     \<Rightarrow> ledger_db option" where
  "fork_rows now target draft_id user run conversation c sequence db =
     (let title = take 200 (''Fork: '' @ cv_title conversation);
          cv = \<lparr>cv_id = target, cv_title = title, cv_user_id = user, cv_created_at = now, cv_updated_at = now,
                cv_is_active = 1\<rparr>;
          d = \<lparr>fd_id = draft_id, fd_checkpoint_id = cp_checkpoint_id c, fd_user_id = user,
               fd_project_id = lr_project_id run, fd_source_run_id = lr_run_id run, fd_source_sequence = sequence,
               fd_target_conversation_id = target, fd_created_at = now\<rparr> in
      case insert_unique (\<lambda>a b. cv_id a = cv_id b) cv (lg_conversations db) of
        None \<Rightarrow> None
      | Some conversations \<Rightarrow>
          (case insert_unique (\<lambda>a b. fd_id a = fd_id b \<or> fd_target_conversation_id a = fd_target_conversation_id b)
                  d (lg_drafts db) of
             None \<Rightarrow> None
           | Some drafts \<Rightarrow>
               Some (db\<lparr>lg_conversations := conversations,
                 lg_messages := lg_messages db @ forked_messages now target (cp_snapshot c) (lg_messages db),
                 lg_drafts := drafts\<rparr>)))"

text \<open>What is forked: the run, its conversation and the moment of the source event.\<close>

definition fork_source ::
  "string \<Rightarrow> string \<Rightarrow> int \<Rightarrow> ledger_db \<Rightarrow> ledger_error + (run_row \<times> conversation_row \<times> timestamp) option" where
  "fork_source user run_id sequence db =
     (case scalar (select_where (\<lambda>r. lr_run_id r = run_id \<and> lr_user_id r = user) (lg_runs db)) of
        None \<Rightarrow> Inr None
      | Some run \<Rightarrow>
      (case scalar (select_where (\<lambda>e. ev_run_id e = run_id \<and> ev_user_id e = user \<and> ev_sequence e = sequence)
               (lg_events db)) of
        None \<Rightarrow> Inl (LedgerValueError ''source sequence not found'')
      | Some event \<Rightarrow>
      (case scalar (select_where (\<lambda>c. cv_id c = lr_conversation_id run \<and> cv_user_id c = user) (lg_conversations db)) of
        None \<Rightarrow> Inl (LedgerValueError ''source conversation not found'')
      | Some conversation \<Rightarrow>
      (case (if ev_kind event = ''run_stopped'' then lr_completed_at run else Some (ev_at event)) of
        None \<Rightarrow> Inl (LedgerValueError ''terminal run has no completion timestamp'')
      | Some cutoff \<Rightarrow> Inr (Some (run, conversation, cutoff))))))"

definition new_checkpoint ::
  "nlp_model \<Rightarrow> (string \<Rightarrow> string) \<Rightarrow> timestamp \<Rightarrow> string \<Rightarrow> int \<Rightarrow> string \<Rightarrow> string list \<Rightarrow> run_row \<Rightarrow> timestamp
     \<Rightarrow> message_row list \<Rightarrow> checkpoint_row" where
  "new_checkpoint nlp uuid5 now user sequence policy_profile memory_ids run cutoff messages =
     \<lparr>cp_checkpoint_id = uuid5 (checkpoint_name user (lr_run_id run) sequence), cp_user_id = user,
      cp_project_id = lr_project_id run, cp_source_run_id = lr_run_id run, cp_source_sequence = sequence,
      cp_snapshot = conversation_snapshot nlp (lr_conversation_id run) cutoff messages,
      cp_policy_profile = take 100 policy_profile, cp_memory_ids = memory_ids,
      cp_workspace_restoration = ''none'', cp_created_at = now\<rparr>"

definition fork_run ::
  "nlp_model \<Rightarrow> (string \<Rightarrow> string) \<Rightarrow> timestamp \<Rightarrow> string \<Rightarrow> string \<Rightarrow> string \<Rightarrow> string \<Rightarrow> int \<Rightarrow> string \<Rightarrow> string list
     \<Rightarrow> ledger_db \<Rightarrow> ledger_db \<times> (ledger_error + checkpoint_row option)" where
  "fork_run nlp uuid5 now target draft_id user run_id sequence policy_profile memory_ids db =
     (case fork_source user run_id sequence db of
        Inl e \<Rightarrow> (db, Inl e)
      | Inr None \<Rightarrow> (db, Inr None)
      | Inr (Some (run, conversation, cutoff)) \<Rightarrow>
      (case insert_checkpoint (new_checkpoint nlp uuid5 now user sequence policy_profile memory_ids run cutoff
               (lg_messages db)) (lg_checkpoints db) of
        None \<Rightarrow> (db, Inl IntegrityError)
      | Some checkpoints \<Rightarrow>
      (case scalar (select_where (checkpoint_source user run_id sequence) checkpoints) of
        None \<Rightarrow> (db, Inl (LedgerValueError ''checkpoint insert failed''))
      | Some c \<Rightarrow>
      (case fork_rows now target draft_id user run conversation c sequence (db\<lparr>lg_checkpoints := checkpoints\<rparr>) of
        None \<Rightarrow> (db, Inl IntegrityError)
      | Some db' \<Rightarrow> (db', Inr (Some c))))))"

subsection \<open>Pruning\<close>

definition terminal_run :: "run_row \<Rightarrow> bool" where
  "terminal_run r = (lr_status r \<in> set TERMINAL_RUN_STATUSES \<and> lr_completed_at r \<noteq> None)"

text \<open>
  The deletion of runs one after the other: a run goes only if no run that is still there has it as its
  parent. A database that checks at the end of the statement behaves like an order in which
  children come first.
\<close>

fun delete_runs :: "string list \<Rightarrow> run_row list \<Rightarrow> run_row list option" where
  "delete_runs [] runs = Some runs"
| "delete_runs (i # ids) runs =
     (if list_ex (\<lambda>r. lr_parent_run_id r = Some i \<and> lr_run_id r \<noteq> i) runs then None
      else delete_runs ids (filter (\<lambda>r. lr_run_id r \<noteq> i) runs))"

definition eligible_runs :: "string option \<Rightarrow> string list \<Rightarrow> run_row list \<Rightarrow> string list" where
  "eligible_runs user ids runs =
     map lr_run_id (filter (\<lambda>r. lr_run_id r \<in> set ids \<and> terminal_run r
       \<and> (case user of None \<Rightarrow> True | Some u \<Rightarrow> lr_user_id r = u)) runs)"

definition drop_dependents :: "string list \<Rightarrow> ledger_db \<Rightarrow> ledger_db" where
  "drop_dependents ids db =
     (let gone = map cp_checkpoint_id (filter (\<lambda>c. cp_source_run_id c \<in> set ids) (lg_checkpoints db)) in
      db\<lparr>lg_events := filter (\<lambda>e. ev_run_id e \<notin> set ids) (lg_events db),
         lg_checkpoints := filter (\<lambda>c. cp_source_run_id c \<notin> set ids) (lg_checkpoints db),
         lg_drafts := filter (\<lambda>d. fd_checkpoint_id d \<notin> set gone) (lg_drafts db)\<rparr>)"

text \<open>\<open>rank\<close> is the order in which the database visits the rows.\<close>

definition delete_terminal_runs ::
  "(string \<Rightarrow> nat) \<Rightarrow> string option \<Rightarrow> string list \<Rightarrow> ledger_db \<Rightarrow> ledger_db \<times> (ledger_error + nat)" where
  "delete_terminal_runs rank user ids db =
     (if ids = [] then (db, Inr 0)
      else
        let eligible = eligible_runs user ids (lg_runs db) in
        (case delete_runs (sort_key rank eligible) (lg_runs db) of
           None \<Rightarrow> (db, Inl IntegrityError)
         | Some runs \<Rightarrow> ((drop_dependents eligible db)\<lparr>lg_runs := runs\<rparr>, Inr (length eligible))))"

definition prune_completed ::
  "(string \<Rightarrow> nat) \<Rightarrow> string \<Rightarrow> timestamp \<Rightarrow> ledger_db \<Rightarrow> ledger_db \<times> (ledger_error + nat)" where
  "prune_completed rank user completed_before db =
     (let ids = map lr_run_id (select_where (\<lambda>r. lr_user_id r = user \<and> terminal_run r
            \<and> (case lr_completed_at r of Some c \<Rightarrow> c < completed_before | None \<Rightarrow> False)) (lg_runs db)) in
      if ids = [] then (db, Inr 0) else delete_terminal_runs rank (Some user) ids db)"

fun stale_runs :: "int \<Rightarrow> int \<Rightarrow> int \<Rightarrow> (string \<times> int) list \<Rightarrow> string list" where
  "stale_runs max_events event_total removed [] = []"
| "stale_runs max_events event_total removed ((run, count) # candidates) =
     run # (if event_total - (removed + count) \<le> max_events then []
            else stale_runs max_events event_total (removed + count) candidates)"

definition event_count :: "string \<Rightarrow> ledger_db \<Rightarrow> int" where
  "event_count run db = int (rowcount (\<lambda>e. ev_run_id e = run) (lg_events db))"

definition prune_candidates :: "ledger_db \<Rightarrow> (string \<times> int) list" where
  "prune_candidates db =
     map (\<lambda>r. (lr_run_id r, event_count (lr_run_id r) db))
       (sort_key (\<lambda>r. (the (lr_completed_at r), lr_run_id r)) (select_where terminal_run (lg_runs db)))"

definition prune_terminal_to_event_budget ::
  "(string \<Rightarrow> nat) \<Rightarrow> int \<Rightarrow> ledger_db \<Rightarrow> ledger_db \<times> (ledger_error + nat)" where
  "prune_terminal_to_event_budget rank max_events db =
     (let event_total = int (length (lg_events db)) in
      if max_events < 0 then (db, Inl (LedgerValueError ''max_events must be non-negative''))
      else if event_total \<le> max_events then (db, Inr 0)
      else
        let stale = stale_runs max_events event_total 0 (prune_candidates db) in
        if stale = [] then (db, Inr 0) else delete_terminal_runs rank None stale db)"

end
