(* ===== verification/Run_Trajectories.thy ===== *)
theory Run_Trajectories
  imports Run_Ledger
begin

text \<open>
  The invariants of the run ledger. A trajectory is a run with its events: the events are numbered
  from one without a gap, and the run is terminal exactly when its last event, and only that one, is
  \<open>run_stopped\<close>. The lineage invariant says that the runs and checkpoints that rows refer to are there.
  Both hold in every state that transactions of the repository can reach, in any interleaving.
\<close>

subsection \<open>Trajectories\<close>

text \<open>The columns of a run that its events depend on.\<close>

record run_core =
  rc_id :: string
  rc_user :: string
  rc_status :: string
  rc_completed :: "timestamp option"
  rc_next :: int

definition core :: "run_row \<Rightarrow> run_core" where
  "core r = \<lparr>rc_id = lr_run_id r, rc_user = lr_user_id r, rc_status = lr_status r, rc_completed = lr_completed_at r,
     rc_next = lr_next_sequence r\<rparr>"

lemma core_sel [simp]:
  "rc_id (core r) = lr_run_id r" "rc_user (core r) = lr_user_id r" "rc_status (core r) = lr_status r"
  "rc_completed (core r) = lr_completed_at r" "rc_next (core r) = lr_next_sequence r"
  by (simp_all add: core_def)

definition events_of :: "string \<Rightarrow> event_row list \<Rightarrow> event_row list" where
  "events_of run events = filter (\<lambda>e. ev_run_id e = run) events"

definition stops_at_end :: "event_row list \<Rightarrow> bool" where
  "stops_at_end es \<longleftrightarrow>
     es \<noteq> [] \<and> ev_kind (last es) = ''run_stopped'' \<and> (\<forall>e\<in>set (butlast es). ev_kind e \<noteq> ''run_stopped'')"

definition trajectory_ok :: "run_core \<Rightarrow> event_row list \<Rightarrow> bool" where
  "trajectory_ok c es \<longleftrightarrow>
     1 \<le> rc_next c \<and> map ev_sequence es = [1..rc_next c - 1] \<and> (\<forall>e\<in>set es. ev_user_id e = rc_user c)
     \<and> (if rc_completed c = None then rc_status c = ''running'' \<and> (\<forall>e\<in>set es. ev_kind e \<noteq> ''run_stopped'')
        else rc_status c \<in> set TERMINAL_RUN_STATUSES \<and> stops_at_end es)"

definition trajectories_ok :: "run_core list \<Rightarrow> event_row list \<Rightarrow> bool" where
  "trajectories_ok cs es \<longleftrightarrow>
     distinct (map rc_id cs) \<and> (\<forall>c\<in>set cs. trajectory_ok c (events_of (rc_id c) es)) \<and> ev_run_id ` set es \<subseteq> rc_id ` set cs"

lemma events_of_append: "events_of run (es @ es') = events_of run es @ events_of run es'"
  by (simp add: events_of_def)

lemma events_of_none: "run \<notin> ev_run_id ` set es \<Longrightarrow> events_of run es = []"
  by (auto simp: events_of_def filter_empty_conv)

lemma trajectories_new:
  assumes "trajectories_ok cs es" and "rc_id c \<notin> rc_id ` set cs"
    and "rc_next c = 1" "rc_completed c = None" "rc_status c = ''running''"
  shows "trajectories_ok (cs @ [c]) es"
proof -
  have "events_of (rc_id c) es = []" using assms(1,2) by (intro events_of_none) (auto simp: trajectories_ok_def)
  with assms show ?thesis by (auto simp: trajectories_ok_def trajectory_ok_def)
qed

lemma trajectories_extend:
  assumes ok: "trajectories_ok cs es" and c: "c \<in> set cs" and e: "ev_run_id e = rc_id c"
    and c': "rc_id c' = rc_id c" "trajectory_ok c' (events_of (rc_id c) es @ [e])"
  shows "trajectories_ok (map (\<lambda>x. if rc_id x = rc_id c then c' else x) cs) (es @ [e])"
proof -
  have ids: "map rc_id (map (\<lambda>x. if rc_id x = rc_id c then c' else x) cs) = map rc_id cs" using c' by auto
  then have idset: "rc_id ` set (map (\<lambda>x. if rc_id x = rc_id c then c' else x) cs) = rc_id ` set cs"
    by (metis list.set_map)
  have "trajectory_ok x (events_of (rc_id x) (es @ [e]))"
    if "x \<in> set (map (\<lambda>x. if rc_id x = rc_id c then c' else x) cs)" for x
  proof (cases "rc_id x = rc_id c")
    case True
    with that c' have "x = c'" by auto
    with c' e show ?thesis by (simp add: events_of_append) (simp add: events_of_def)
  next
    case False
    with that c' have "x \<in> set cs" by (auto split: if_splits)
    with ok False e show ?thesis by (simp add: events_of_append trajectories_ok_def) (simp add: events_of_def)
  qed
  with ok ids idset c e show ?thesis by (auto simp: trajectories_ok_def simp del: map_map)
qed

lemma trajectories_filter:
  assumes "trajectories_ok cs es"
  shows "trajectories_ok (filter (\<lambda>c. rc_id c \<notin> I) cs) (filter (\<lambda>e. ev_run_id e \<notin> I) es)"
proof -
  have "events_of i (filter (\<lambda>e. ev_run_id e \<notin> I) es) = events_of i es" if "i \<notin> I" for i
    using that by (auto simp: events_of_def intro: filter_cong)
  with assms show ?thesis by (auto simp: trajectories_ok_def distinct_map_filter)
qed

text \<open>One more event of a run that is open.\<close>

lemma trajectory_next:
  assumes "trajectory_ok c es" and "rc_completed c = None" and "ev_sequence e = rc_next c" "ev_user_id e = rc_user c"
    and "ev_kind e \<noteq> ''run_stopped''"
  shows "trajectory_ok (c\<lparr>rc_next := rc_next c + 1\<rparr>) (es @ [e])"
  using assms by (auto simp: trajectory_ok_def upto_rec2)

lemma trajectory_stop:
  assumes "trajectory_ok c es" and "rc_completed c = None" and "ev_sequence e = rc_next c" "ev_user_id e = rc_user c"
    and "ev_kind e = ''run_stopped''" "s \<in> set TERMINAL_RUN_STATUSES"
  shows "trajectory_ok (c\<lparr>rc_next := rc_next c + 1, rc_status := s, rc_completed := Some t\<rparr>) (es @ [e])"
  using assms by (auto simp: trajectory_ok_def stops_at_end_def upto_rec2)

subsection \<open>Lineage\<close>

definition run_ids :: "ledger_db \<Rightarrow> string set" where
  "run_ids db = lr_run_id ` set (lg_runs db)"

definition lineage_ok :: "ledger_db \<Rightarrow> bool" where
  "lineage_ok db \<longleftrightarrow>
     (\<forall>r\<in>set (lg_runs db). set_option (lr_parent_run_id r) \<subseteq> run_ids db)
     \<and> (\<forall>c\<in>set (lg_checkpoints db). cp_source_run_id c \<in> run_ids db)
     \<and> (\<forall>d\<in>set (lg_drafts db). \<exists>c\<in>set (lg_checkpoints db).
          cp_checkpoint_id c = fd_checkpoint_id d \<and> cp_source_run_id c = fd_source_run_id d)"

definition ledger_ok :: "ledger_db \<Rightarrow> bool" where
  "ledger_ok db \<longleftrightarrow> trajectories_ok (map core (lg_runs db)) (lg_events db) \<and> lineage_ok db"

lemma run_exists_iff: "run_exists run db \<longleftrightarrow> run \<in> run_ids db"
  by (auto simp: run_exists_def run_ids_def list_ex_iff)

lemma ledger_ok_distinct: "ledger_ok db \<Longrightarrow> distinct (map lr_run_id (lg_runs db))"
  by (simp add: ledger_ok_def trajectories_ok_def comp_def)

text \<open>An update of columns that no invariant mentions, and one that also sets an existing parent.\<close>

lemma ledger_ok_runs:
  assumes "ledger_ok db" and "map core runs = map core (lg_runs db)"
    and "\<And>r. r \<in> set runs \<Longrightarrow> set_option (lr_parent_run_id r) \<subseteq> run_ids db"
  shows "ledger_ok (db\<lparr>lg_runs := runs\<rparr>)"
proof -
  have "map (rc_id \<circ> core) runs = map (rc_id \<circ> core) (lg_runs db)" using assms(2) by (metis map_map)
  then have "run_ids (db\<lparr>lg_runs := runs\<rparr>) = run_ids db" by (simp add: comp_def run_ids_def) (metis list.set_map)
  with assms show ?thesis by (simp add: ledger_ok_def lineage_ok_def)
qed

lemma ledger_ok_update:
  assumes "ledger_ok db" and "\<And>r. core (f r) = core r"
    and "\<And>r. r \<in> set (lg_runs db) \<Longrightarrow> P r \<Longrightarrow> set_option (lr_parent_run_id (f r)) \<subseteq> run_ids db"
  shows "ledger_ok (db\<lparr>lg_runs := updated P f (lg_runs db)\<rparr>)"
proof (rule ledger_ok_runs [OF assms(1)])
  show "map core (updated P f (lg_runs db)) = map core (lg_runs db)" using assms(2) by (simp add: map_updated_same)
  show "set_option (lr_parent_run_id r) \<subseteq> run_ids db" if "r \<in> set (updated P f (lg_runs db))" for r
  proof -
    from that obtain x where x: "x \<in> set (lg_runs db)" "r = (if P x then f x else x)" by (rule in_updatedE)
    moreover from assms(1) x(1) have "set_option (lr_parent_run_id x) \<subseteq> run_ids db"
      by (simp add: ledger_ok_def lineage_ok_def)
    ultimately show ?thesis using assms(3) by (cases "P x") simp_all
  qed
qed

lemma ledger_ok_new_run:
  assumes "ledger_ok db" and "ri_run_id ident \<notin> run_ids db" and "set_option parent \<subseteq> run_ids db"
  shows "ledger_ok (db\<lparr>lg_runs := lg_runs db @ [new_run now ident parent]\<rparr>)"
proof -
  have "trajectories_ok (map core (lg_runs db) @ [core (new_run now ident parent)]) (lg_events db)"
    using assms by (intro trajectories_new) (auto simp: ledger_ok_def run_ids_def new_run_def)
  moreover have "lr_parent_run_id (new_run now ident parent) = parent" by (simp add: new_run_def)
  ultimately show ?thesis using assms by (auto simp: ledger_ok_def lineage_ok_def run_ids_def)
qed

lemma ledger_ok_drafts: "ledger_ok db \<Longrightarrow> ledger_ok (db\<lparr>lg_drafts := filter P (lg_drafts db)\<rparr>)"
  by (auto simp: ledger_ok_def lineage_ok_def run_ids_def)

lemma ensure_run_ok:
  assumes "ledger_ok db"
  shows "ledger_ok (fst (ensure_run now ident db))"
proof (cases "ri_run_id ident \<in> run_ids db")
  case True
  then have "ensure_run now ident db = (db, Inr ())"
    by (auto simp: ensure_run_def insert_or_ignore_def list_ex_iff same_run_def run_ids_def new_run_def)
  with assms show ?thesis by simp
next
  case False
  let ?runs = "lg_runs db @ [new_run now ident None]"
  let ?db1 = "db\<lparr>lg_runs := ?runs, lg_drafts := filter (\<lambda>d. \<not> draft_for ident d) (lg_drafts db)\<rparr>"
  have ins: "insert_or_ignore same_run (new_run now ident None) (lg_runs db) = (?runs, True)"
    using False by (auto simp: insert_or_ignore_def list_ex_iff same_run_def run_ids_def new_run_def)
  have ok1: "ledger_ok ?db1"
    using ledger_ok_drafts [OF ledger_ok_new_run [OF assms False], of None "\<lambda>d. \<not> draft_for ident d" now] by simp
  have ok2: "ledger_ok (?db1\<lparr>lg_runs := updated P (\<lambda>r. r\<lparr>lr_parent_run_id := Some i, lr_fork_source_sequence := k\<rparr>) ?runs\<rparr>)"
    if "run_exists i ?db1" for P i k
    using ledger_ok_update [OF ok1, of "\<lambda>r. r\<lparr>lr_parent_run_id := Some i, lr_fork_source_sequence := k\<rparr>" P] that
    by (simp add: core_def run_exists_iff)
  from assms ok1 ok2 show ?thesis by (auto simp: ensure_run_def ins Let_def split: list.splits)
qed

lemma ensure_child_run_ok:
  assumes "ledger_ok db" and "ledger_ok (between db)"
  shows "ledger_ok (fst (ensure_child_run now between run parent user project provider model conversation correlation db))"
proof -
  have "ledger_ok (between db\<lparr>lg_runs := fst (insert_or_ignore same_run (new_run now ident (Some parent)) (lg_runs (between db)))\<rparr>)"
    if "run_exists parent (between db) \<or> run_exists (ri_run_id ident) (between db)" for ident
  proof (cases "run_exists (ri_run_id ident) (between db)")
    case True
    then have "fst (insert_or_ignore same_run (new_run now ident (Some parent)) (lg_runs (between db))) = lg_runs (between db)"
      by (force simp: insert_or_ignore_def list_ex_iff same_run_def run_exists_def new_run_def)
    with assms(2) show ?thesis by simp
  next
    case False
    with that ledger_ok_new_run [OF assms(2), of ident "Some parent" now] show ?thesis
      by (auto simp: insert_or_ignore_def list_ex_iff same_run_def run_exists_iff run_ids_def new_run_def)
  qed
  from this [of "\<lparr>ri_run_id = run, ri_user_id = u, ri_project_id = p, ri_conversation_id = c, ri_correlation_id = k, ri_provider = v, ri_model = m\<rparr>" for u p c k v m]
  show ?thesis using assms
    by (simp add: ensure_child_run_def Let_def split: option.splits)
qed

subsection \<open>Appending\<close>

lemma stop_status_terminal: "stop_status reason error \<in> set TERMINAL_RUN_STATUSES"
  by (simp add: stop_status_def TERMINAL_RUN_STATUSES_def)

text \<open>When the row of a run is open, the update of the open rows with its key is the update of that row.\<close>

lemma open_row:
  assumes "ledger_ok db" and "scalar (select_where (run_open run user) (lg_runs db)) = Some r"
  shows "r \<in> set (lg_runs db)" and "run_open run user r"
    and "\<And>x. x \<in> set (lg_runs db) \<Longrightarrow> run_open run user x \<longleftrightarrow> x = r"
    and "\<And>x. x \<in> set (lg_runs db) \<Longrightarrow> lr_run_id x = run \<longleftrightarrow> x = r"
proof -
  from scalar_select_Some [OF assms(2)] show r: "r \<in> set (lg_runs db)" "run_open run user r" by auto
  then have run: "lr_run_id r = run" by (simp add: run_open_def)
  have inj: "x = r" if "x \<in> set (lg_runs db)" "lr_run_id x = lr_run_id r" for x
    using ledger_ok_distinct [OF assms(1)] r(1) that by (auto simp: distinct_map inj_on_def)
  show "run_open run user x \<longleftrightarrow> x = r" if "x \<in> set (lg_runs db)" for x
    using that r(2) inj run by (auto simp: run_open_def)
  show "lr_run_id x = run \<longleftrightarrow> x = r" if "x \<in> set (lg_runs db)" for x
    using that inj run by auto
qed

lemma map_core_updated:
  assumes "\<And>x. x \<in> set runs \<Longrightarrow> P x \<longleftrightarrow> x = r" "\<And>x. x \<in> set runs \<Longrightarrow> lr_run_id x = lr_run_id r \<longleftrightarrow> x = r"
  shows "map core (updated P f runs) = map (\<lambda>c. if rc_id c = rc_id (core r) then core (f r) else c) (map core runs)"
  using assms by (auto simp: updated_def)

lemma updated_twice:
  assumes "\<And>x. P x \<Longrightarrow> P (f x)"
  shows "updated P g (updated P f runs) = updated P (g \<circ> f) runs"
  using assms by (auto simp: updated_def)

lemma ledger_ok_event:
  assumes "ledger_ok db" and r: "scalar (select_where (run_open run user) (lg_runs db)) = Some r"
    and "ev_run_id e = run" and f: "\<And>x. lr_run_id (f x) = lr_run_id x" "\<And>x. lr_parent_run_id (f x) = lr_parent_run_id x"
    and t: "\<And>es. trajectory_ok (core r) es \<Longrightarrow> trajectory_ok (core (f r)) (es @ [e])"
  shows "ledger_ok (db\<lparr>lg_runs := updated (run_open run user) f (lg_runs db), lg_events := lg_events db @ [e]\<rparr>)"
proof -
  note row = open_row [OF assms(1) r]
  from row(2) have run: "lr_run_id r = run" by (simp add: run_open_def)
  have mc: "map core (updated (run_open run user) f (lg_runs db))
      = map (\<lambda>c. if rc_id c = rc_id (core r) then core (f r) else c) (map core (lg_runs db))"
    by (rule map_core_updated) (use row(3,4) run in auto)
  have "trajectories_ok (map core (updated (run_open run user) f (lg_runs db))) (lg_events db @ [e])"
    unfolding mc
  proof (rule trajectories_extend)
    show "trajectories_ok (map core (lg_runs db)) (lg_events db)" using assms(1) by (simp add: ledger_ok_def)
    then show "trajectory_ok (core (f r)) (events_of (rc_id (core r)) (lg_events db) @ [e])"
      using row(1) by (intro t) (auto simp: trajectories_ok_def)
  qed (use row(1) run f assms(3) in auto)
  moreover have "lr_run_id ` set (updated (run_open run user) f (lg_runs db)) = lr_run_id ` set (lg_runs db)"
    using map_updated_same [of "lg_runs db" "run_open run user" lr_run_id f] f(1) by (metis list.set_map)
  moreover have "lr_parent_run_id ` set (updated (run_open run user) f (lg_runs db)) = lr_parent_run_id ` set (lg_runs db)"
    using map_updated_same [of "lg_runs db" "run_open run user" lr_parent_run_id f] f(2) by (metis list.set_map)
  ultimately show ?thesis using assms(1)
    unfolding ledger_ok_def lineage_ok_def run_ids_def by simp (metis image_iff)
qed

lemma append_event_eq:
  assumes "scalar (select_where (run_open (ri_run_id ident) (ri_user_id ident)) (lg_runs db)) = Some r"
  shows "append_event py_str now ident kind iteration usage safe db =
    (let P = run_open (ri_run_id ident) (ri_user_id ident);
         runs = updated P (\<lambda>r. r\<lparr>lr_next_sequence := lr_next_sequence r + 1\<rparr>) (lg_runs db);
         e = new_event now ident (lr_next_sequence r) kind iteration safe in
     if list_ex (event_clash e) (lg_events db) then (db, Inl IntegrityError)
     else if kind \<noteq> ''run_stopped'' then (db\<lparr>lg_runs := runs, lg_events := lg_events db @ [e]\<rparr>, Inr (lr_next_sequence r))
     else if rowcount P runs \<noteq> 1 then (db, Inl (LedgerValueError ''run is not running''))
     else (db\<lparr>lg_runs := updated P (finalized py_str now iteration usage safe) runs, lg_events := lg_events db @ [e]\<rparr>,
           Inr (lr_next_sequence r)))"
  unfolding append_event_def Let_def assms insert_unique_def by simp

lemma append_event_ok:
  assumes "ledger_ok db"
  shows "ledger_ok (fst (append_event py_str now ident kind iteration usage safe db))"
proof (cases "scalar (select_where (run_open (ri_run_id ident) (ri_user_id ident)) (lg_runs db))")
  case None
  with assms show ?thesis by (simp add: append_event_def Let_def del: scalar_None)
next
  case (Some r)
  let ?P = "run_open (ri_run_id ident) (ri_user_id ident)" and ?e = "new_event now ident (lr_next_sequence r) kind iteration safe"
  let ?next = "\<lambda>r. r\<lparr>lr_next_sequence := lr_next_sequence r + 1\<rparr>" and ?fin = "finalized py_str now iteration usage safe"
  from open_row(2) [OF assms Some] have r: "lr_run_id r = ri_run_id ident" "lr_user_id r = ri_user_id ident" "lr_completed_at r = None"
    by (auto simp: run_open_def)
  have e: "ev_run_id ?e = ri_run_id ident" "ev_sequence ?e = rc_next (core r)" "ev_user_id ?e = rc_user (core r)" "ev_kind ?e = kind"
    using r by (simp_all add: new_event_def)
  have core1: "core (?next r) = (core r)\<lparr>rc_next := rc_next (core r) + 1\<rparr>" by (simp add: core_def)
  have core2: "core ((?fin \<circ> ?next) r) = (core r)\<lparr>rc_next := rc_next (core r) + 1,
      rc_status := stop_status (map_of safe ''reason'') (map_of safe ''error''), rc_completed := Some now\<rparr>"
    by (simp add: core_def finalized_def)
  have next_ok: "ledger_ok (db\<lparr>lg_runs := updated ?P ?next (lg_runs db), lg_events := lg_events db @ [?e]\<rparr>)"
    if "kind \<noteq> ''run_stopped''"
  proof (rule ledger_ok_event [OF assms Some])
    show "trajectory_ok (core (?next r)) (es @ [?e])" if "trajectory_ok (core r) es" for es
      unfolding core1 using that r e \<open>kind \<noteq> _\<close> by (intro trajectory_next) auto
  qed (use e in auto)
  have stop_ok: "ledger_ok (db\<lparr>lg_runs := updated ?P (?fin \<circ> ?next) (lg_runs db), lg_events := lg_events db @ [?e]\<rparr>)"
    if "kind = ''run_stopped''"
  proof (rule ledger_ok_event [OF assms Some])
    show "trajectory_ok (core ((?fin \<circ> ?next) r)) (es @ [?e])" if "trajectory_ok (core r) es" for es
      unfolding core2 using that r e \<open>kind = _\<close> stop_status_terminal by (intro trajectory_stop) auto
  qed (use e in \<open>auto simp: finalized_def\<close>)
  have tw: "updated ?P ?fin (updated ?P ?next (lg_runs db)) = updated ?P (?fin \<circ> ?next) (lg_runs db)"
    by (rule updated_twice) (simp add: run_open_def)
  note eq = append_event_eq [OF Some, of py_str now kind iteration usage safe, unfolded Let_def tw]
  show ?thesis
  proof (cases "list_ex (event_clash ?e) (lg_events db)")
    case True
    with assms show ?thesis by (simp only: eq if_True fst_conv)
  next
    case False
    show ?thesis
      unfolding eq using False assms next_ok stop_ok
      by (cases "kind = ''run_stopped''"; cases "rowcount ?P (updated ?P ?next (lg_runs db)) = 1") (simp_all only: if_True if_False fst_conv simp_thms)
  qed
qed

lemma append_run_ok:
  assumes "ledger_ok db" and "ledger_ok (between (fst (ensure_run started ident db)))"
  shows "ledger_ok (fst (append_run nlp py_str started now between ident kind iteration payload usage db))"
  using append_event_ok [OF assms(2)] ensure_run_ok [OF assms(1), of started ident]
  by (auto simp: append_run_def split: prod.splits sum.splits)

lemma finalize_metadata_ok:
  assumes "ledger_ok db"
  shows "ledger_ok (fst (finalize_metadata nlp user run answer cost latency db))"
proof -
  have "ledger_ok (db\<lparr>lg_runs := updated P (\<lambda>r. r\<lparr>lr_answer_summary := a, lr_cost_usd := c r, lr_latency_ms := l r\<rparr>) (lg_runs db)\<rparr>)"
    for P a c l
    using assms by (intro ledger_ok_update) (auto simp: core_def ledger_ok_def lineage_ok_def)
  with assms show ?thesis by (simp add: finalize_metadata_def Let_def)
qed

subsection \<open>Forking and pruning\<close>

lemma insert_checkpoint_cases:
  assumes "insert_checkpoint c cs = Some cs'"
  shows "cs' = cs \<or> cs' = cs @ [c]"
  using assms by (auto simp: insert_checkpoint_def insert_unique_def split: if_splits)

lemma fork_rows_cases:
  assumes "fork_rows now target draft_id user run conversation c sequence db = Some db'"
  shows "\<exists>d cvs msgs. db' = db\<lparr>lg_conversations := cvs, lg_messages := msgs, lg_drafts := lg_drafts db @ [d]\<rparr>
    \<and> fd_checkpoint_id d = cp_checkpoint_id c \<and> fd_source_run_id d = lr_run_id run \<and> fd_source_sequence d = sequence
    \<and> fd_target_conversation_id d = target"
  using assms by (auto simp: fork_rows_def Let_def insert_unique_def split: option.splits if_splits) fastforce

text \<open>What a fork that went through has added to the tables.\<close>

definition fork_adds :: "string \<Rightarrow> string \<Rightarrow> int \<Rightarrow> checkpoint_row \<Rightarrow> ledger_db \<Rightarrow> ledger_db \<Rightarrow> bool" where
  "fork_adds user run_id sequence c db db' \<longleftrightarrow>
     run_id \<in> run_ids db
     \<and> (\<exists>cs cvs msgs d. (cs = lg_checkpoints db \<or> (\<exists>k. cs = lg_checkpoints db @ [k] \<and> cp_source_run_id k = run_id))
          \<and> scalar (select_where (checkpoint_source user run_id sequence) cs) = Some c
          \<and> db' = db\<lparr>lg_checkpoints := cs, lg_conversations := cvs, lg_messages := msgs, lg_drafts := lg_drafts db @ [d]\<rparr>
          \<and> fd_checkpoint_id d = cp_checkpoint_id c \<and> fd_source_run_id d = run_id)"

lemma fork_source_run:
  "fork_source user run_id sequence db = Inr (Some (run, conversation, cutoff)) \<Longrightarrow> lr_run_id run = run_id \<and> run_id \<in> run_ids db"
  by (auto simp: fork_source_def run_ids_def split: option.splits if_splits dest!: scalar_select_Some)

lemma fork_run_cases:
  assumes "fork_run nlp uuid5 now target draft_id user run_id sequence profile memory_ids db = (db', res)"
  shows "db' = db \<or> (\<exists>c. res = Inr (Some c) \<and> fork_adds user run_id sequence c db db')"
proof -
  consider "db' = db" | run conversation cutoff cs c where
      "fork_source user run_id sequence db = Inr (Some (run, conversation, cutoff))"
      "insert_checkpoint (new_checkpoint nlp uuid5 now user sequence profile memory_ids run cutoff (lg_messages db))
         (lg_checkpoints db) = Some cs"
      "scalar (select_where (checkpoint_source user run_id sequence) cs) = Some c"
      "fork_rows now target draft_id user run conversation c sequence (db\<lparr>lg_checkpoints := cs\<rparr>) = Some db'"
      "res = Inr (Some c)"
    using assms unfolding fork_run_def by (auto split: sum.splits option.splits)
  then show ?thesis
  proof cases
    case 2
    from fork_source_run [OF 2(1)] have id: "lr_run_id run = run_id" "run_id \<in> run_ids db" by auto
    from fork_rows_cases [OF 2(4)] obtain d cvs msgs where
      "db' = db\<lparr>lg_checkpoints := cs, lg_conversations := cvs, lg_messages := msgs, lg_drafts := lg_drafts db @ [d]\<rparr>"
      "fd_checkpoint_id d = cp_checkpoint_id c" "fd_source_run_id d = run_id"
      using id by auto
    moreover have "cp_source_run_id (new_checkpoint nlp uuid5 now user sequence profile memory_ids run cutoff msgs) = run_id" for msgs
      using id by (simp add: new_checkpoint_def)
    ultimately have "fork_adds user run_id sequence c db db'"
      using insert_checkpoint_cases [OF 2(2)] 2(3) id unfolding fork_adds_def by blast
    with 2(5) show ?thesis by blast
  qed simp
qed

lemma fork_run_ok:
  assumes "ledger_ok db"
  shows "ledger_ok (fst (fork_run nlp uuid5 now target draft_id user run_id sequence profile memory_ids db))"
proof -
  obtain db' res where f: "fork_run nlp uuid5 now target draft_id user run_id sequence profile memory_ids db = (db', res)"
    by fastforce
  have "ledger_ok db'" if "fork_adds user run_id sequence c db db'" for c
  proof -
    from that obtain cs cvs msgs d where
      cs: "cs = lg_checkpoints db \<or> (\<exists>k. cs = lg_checkpoints db @ [k] \<and> cp_source_run_id k = run_id)"
      and c: "scalar (select_where (checkpoint_source user run_id sequence) cs) = Some c"
      and db': "db' = db\<lparr>lg_checkpoints := cs, lg_conversations := cvs, lg_messages := msgs, lg_drafts := lg_drafts db @ [d]\<rparr>"
      and d: "fd_checkpoint_id d = cp_checkpoint_id c" "fd_source_run_id d = run_id" and id: "run_id \<in> run_ids db"
      unfolding fork_adds_def by blast
    from scalar_select_Some [OF c] have "c \<in> set cs" "cp_source_run_id c = run_id" by (auto simp: checkpoint_source_def)
    with assms cs d id show ?thesis by (auto simp: db' ledger_ok_def lineage_ok_def run_ids_def)
  qed
  with fork_run_cases [OF f] f assms show ?thesis by auto
qed

lemma delete_runs_Some:
  assumes "delete_runs ids runs = Some runs'"
  shows "runs' = filter (\<lambda>r. lr_run_id r \<notin> set ids) runs"
    and "r \<in> set runs' \<Longrightarrow> lr_parent_run_id r = Some p \<Longrightarrow> p \<notin> set ids"
proof -
  from assms have "runs' = filter (\<lambda>r. lr_run_id r \<notin> set ids) runs
      \<and> (\<forall>r\<in>set runs'. \<forall>p. lr_parent_run_id r = Some p \<longrightarrow> p \<notin> set ids)"
  proof (induction ids runs rule: delete_runs.induct)
    case (2 i ids runs)
    from 2(2) have go: "\<not> list_ex (\<lambda>r. lr_parent_run_id r = Some i \<and> lr_run_id r \<noteq> i) runs"
      and rest: "delete_runs ids (filter (\<lambda>r. lr_run_id r \<noteq> i) runs) = Some runs'"
      by (simp_all split: if_splits)
    from go have no: "\<forall>r\<in>set runs. lr_run_id r \<noteq> i \<longrightarrow> lr_parent_run_id r \<noteq> Some i" by (auto simp: list_ex_iff)
    from 2(1) [OF go rest] have eq: "runs' = filter (\<lambda>r. lr_run_id r \<notin> set ids) (filter (\<lambda>r. lr_run_id r \<noteq> i) runs)"
      and par: "\<forall>r\<in>set runs'. \<forall>p. lr_parent_run_id r = Some p \<longrightarrow> p \<notin> set ids" by blast+
    from eq no have "\<forall>r\<in>set runs'. lr_parent_run_id r \<noteq> Some i" by simp
    with par have "\<forall>r\<in>set runs'. \<forall>p. lr_parent_run_id r = Some p \<longrightarrow> p \<notin> set (i # ids)" by auto
    moreover from eq have "runs' = filter (\<lambda>r. lr_run_id r \<notin> set (i # ids)) runs" by (simp add: conj_commute)
    ultimately show ?case by blast
  qed simp
  then show "runs' = filter (\<lambda>r. lr_run_id r \<notin> set ids) runs"
    and "r \<in> set runs' \<Longrightarrow> lr_parent_run_id r = Some p \<Longrightarrow> p \<notin> set ids" by blast+
qed

lemma drop_dependents_sel [simp]:
  "lg_runs (drop_dependents ids db) = lg_runs db"
  "lg_events (drop_dependents ids db) = filter (\<lambda>e. ev_run_id e \<notin> set ids) (lg_events db)"
  "lg_checkpoints (drop_dependents ids db) = filter (\<lambda>c. cp_source_run_id c \<notin> set ids) (lg_checkpoints db)"
  by (simp_all add: drop_dependents_def Let_def)

lemma drop_dependents_drafts:
  "d \<in> set (lg_drafts (drop_dependents ids db)) \<longleftrightarrow>
    d \<in> set (lg_drafts db) \<and> (\<forall>c\<in>set (lg_checkpoints db). cp_source_run_id c \<in> set ids \<longrightarrow> cp_checkpoint_id c \<noteq> fd_checkpoint_id d)"
  by (simp add: drop_dependents_def Let_def image_iff) metis

lemma drop_runs_ok:
  assumes ok: "ledger_ok db" and runs: "delete_runs order (lg_runs db) = Some runs" and ids: "set order = set ids"
  shows "ledger_ok ((drop_dependents ids db)\<lparr>lg_runs := runs\<rparr>)"
proof -
  let ?db = "(drop_dependents ids db)\<lparr>lg_runs := runs\<rparr>"
  have eq: "runs = filter (\<lambda>r. lr_run_id r \<notin> set ids) (lg_runs db)" using delete_runs_Some(1) [OF runs] ids by simp
  have left: "run_ids ?db = run_ids db - set ids" by (auto simp: run_ids_def eq)
  have "trajectories_ok (map core (lg_runs ?db)) (lg_events ?db)"
    using trajectories_filter [of "map core (lg_runs db)" "lg_events db" "set ids"] ok
    by (simp add: ledger_ok_def eq filter_map comp_def)
  moreover have "set_option (lr_parent_run_id r) \<subseteq> run_ids ?db" if "r \<in> set runs" for r
    using delete_runs_Some(2) [OF runs that] that ids ok unfolding left
    by (cases "lr_parent_run_id r") (auto simp: eq ledger_ok_def lineage_ok_def)
  moreover have "\<exists>c\<in>set (lg_checkpoints ?db). cp_checkpoint_id c = fd_checkpoint_id d \<and> cp_source_run_id c = fd_source_run_id d"
    if "d \<in> set (lg_drafts ?db)" for d
  proof -
    from that have d: "d \<in> set (lg_drafts db)"
      and kept: "\<forall>c\<in>set (lg_checkpoints db). cp_source_run_id c \<in> set ids \<longrightarrow> cp_checkpoint_id c \<noteq> fd_checkpoint_id d"
      by (simp_all add: drop_dependents_drafts)
    from ok d obtain c where "c \<in> set (lg_checkpoints db)" "cp_checkpoint_id c = fd_checkpoint_id d"
      "cp_source_run_id c = fd_source_run_id d"
      by (auto simp: ledger_ok_def lineage_ok_def)
    with kept show ?thesis by auto
  qed
  moreover have "cp_source_run_id c \<in> run_ids ?db" if "c \<in> set (lg_checkpoints ?db)" for c
    using that ok unfolding left by (auto simp: ledger_ok_def lineage_ok_def)
  ultimately show ?thesis unfolding ledger_ok_def lineage_ok_def by simp
qed

lemma delete_terminal_runs_ok:
  assumes "ledger_ok db"
  shows "ledger_ok (fst (delete_terminal_runs rank user ids db))"
proof (cases "delete_runs (sort_key rank (eligible_runs user ids (lg_runs db))) (lg_runs db)")
  case None
  with assms show ?thesis by (simp add: delete_terminal_runs_def Let_def)
next
  case (Some runs)
  from drop_runs_ok [OF assms Some, of "eligible_runs user ids (lg_runs db)"] assms Some
  show ?thesis by (simp add: delete_terminal_runs_def Let_def)
qed

lemma prune_ok:
  assumes "ledger_ok db"
  shows "ledger_ok (fst (prune_completed rank user before db))"
    and "ledger_ok (fst (prune_terminal_to_event_budget rank max_events db))"
  using assms delete_terminal_runs_ok [OF assms]
  by (simp_all add: prune_completed_def prune_terminal_to_event_budget_def Let_def)

subsection \<open>Reachable states\<close>

text \<open>
  The states that transactions of the repository reach from empty tables. The conversations and
  their messages are also written by the chat service, at any time.
\<close>

inductive ledger_reachable :: "nlp_model \<Rightarrow> ledger_db \<Rightarrow> bool" for nlp where
  empty: "ledger_reachable nlp \<lparr>lg_runs = [], lg_events = [], lg_checkpoints = [], lg_drafts = [],
     lg_conversations = [], lg_messages = []\<rparr>"
| ensured: "ledger_reachable nlp db \<Longrightarrow> ledger_reachable nlp (fst (ensure_run now ident db))"
| child: "ledger_reachable nlp db \<Longrightarrow> ledger_reachable nlp (between db) \<Longrightarrow>
     ledger_reachable nlp (fst (ensure_child_run now between run parent user project provider model conv corr db))"
| appended: "ledger_reachable nlp db \<Longrightarrow> ledger_reachable nlp (between (fst (ensure_run started ident db))) \<Longrightarrow>
     ledger_reachable nlp (fst (append_run nlp py_str started now between ident kind iteration payload usage db))"
| metadata: "ledger_reachable nlp db \<Longrightarrow> ledger_reachable nlp (fst (finalize_metadata nlp user run answer cost latency db))"
| forked: "ledger_reachable nlp db \<Longrightarrow>
     ledger_reachable nlp (fst (fork_run nlp uuid5 now target draft_id user run sequence profile memory_ids db))"
| pruned: "ledger_reachable nlp db \<Longrightarrow> ledger_reachable nlp (fst (prune_completed rank user completed_before db))"
| trimmed: "ledger_reachable nlp db \<Longrightarrow> ledger_reachable nlp (fst (prune_terminal_to_event_budget rank max_events db))"
| chat: "ledger_reachable nlp db \<Longrightarrow> ledger_reachable nlp (db\<lparr>lg_conversations := cvs, lg_messages := msgs\<rparr>)"

lemma reachable_ok: "ledger_reachable nlp db \<Longrightarrow> ledger_ok db"
proof (induction rule: ledger_reachable.induct)
  case empty
  show ?case by (simp add: ledger_ok_def trajectories_ok_def lineage_ok_def)
next
  case (chat db cvs msgs)
  then show ?case by (simp add: ledger_ok_def lineage_ok_def run_ids_def)
qed (simp_all only: ensure_run_ok ensure_child_run_ok append_run_ok finalize_metadata_ok fork_run_ok prune_ok)

subsection \<open>Readable events\<close>

definition field_names :: "string list" where
  "field_names = concat (map snd SAFE_FIELDS)"

text \<open>The language model, where it is used, sees no personal data in the name of a field.\<close>

definition names_no_field :: "nlp_model \<Rightarrow> bool" where
  "names_no_field nlp = (case nlp of None \<Rightarrow> True | Some ner \<Rightarrow> list_all (\<lambda>f. ner f = []) field_names)"

lemma field_names_unmarked: "list_all (list_all (\<lambda>c. \<not> marks_pii c)) field_names"
  by code_simp

lemma field_kept: "names_no_field nlp \<Longrightarrow> f \<in> set field_names \<Longrightarrow> rr_text (redact_text nlp f) = f"
  using field_names_unmarked
  by (intro redact_unmarked) (auto simp: names_no_field_def list_all_iff ner_entities_def split: option.splits)

text \<open>Keys that are distinct and that redaction keeps stay as they are.\<close>

lemma free_ordinal_now: "safe_key base n \<notin> set taken \<Longrightarrow> free_ordinal base taken n = n"
  by (subst free_ordinal.simps) simp

lemma redact_items_keys:
  assumes "distinct (map fst redacted @ map fst items)" and "\<forall>k\<in>fst ` set items. text_of k = k \<and> counts k = 0"
  shows "map fst (redact_items text_of items counts redacted) = map fst redacted @ map fst items"
  using assms
proof (induction text_of items counts redacted rule: redact_items.induct)
  case (2 text_of key item items counts redacted)
  let ?n = "free_ordinal (text_of key) (map fst redacted) (counts (text_of key) + 1)"
  from 2(2,3) have k: "text_of key = key" "counts key = 0" "key \<notin> set (map fst redacted)" by auto
  have n: "?n = 1" unfolding k(1,2) using free_ordinal_now [of key 1 "map fst redacted"] k(3) by (simp add: safe_key_def)
  have key: "safe_key (text_of key) ?n = key" unfolding n by (simp add: k(1) safe_key_def)
  have dist: "distinct (map fst (redacted @ [(safe_key (text_of key) ?n, item)]) @ map fst items)"
    unfolding key using 2(2) by simp
  have rest: "\<forall>k\<in>fst ` set items. text_of k = k \<and> (counts(text_of key := ?n)) k = 0"
    using 2(2,3) k(1) by auto
  note IH = 2(1) [OF refl refl dist rest]
  have eq: "redact_items text_of ((key, item) # items) counts redacted
      = redact_items text_of items (counts(text_of key := ?n)) (redacted @ [(safe_key (text_of key) ?n, item)])"
    by (simp only: redact_items.simps Let_def)
  show ?case unfolding eq IH unfolding key by simp
qed simp

lemma project_payload_keys:
  assumes "distinct allowed"
  shows "set (map fst (project_payload allowed payload)) \<subseteq> set allowed" and "distinct (map fst (project_payload allowed payload))"
proof -
  have "map fst (project_payload allowed payload) = filter (\<lambda>k. map_of payload k \<noteq> None) allowed"
    by (induction allowed) (auto simp: project_payload_def List.map_filter_def comp_def)
  then show "set (map fst (project_payload allowed payload)) \<subseteq> set allowed" "distinct (map fst (project_payload allowed payload))"
    using assms by auto
qed

lemma SAFE_FIELDS_distinct: "list_all (\<lambda>kf. distinct (snd kf)) SAFE_FIELDS"
  by code_simp

lemma safe_event_payload_keys:
  assumes "names_no_field nlp" and "safe_event_payload nlp kind payload = Inr safe"
  shows "\<exists>allowed. map_of SAFE_FIELDS kind = Some allowed \<and> fst ` set safe \<subseteq> set allowed"
proof -
  from assms(2) obtain allowed where allowed: "map_of SAFE_FIELDS kind = Some allowed"
    and safe: "redact_value nlp (JObj (project_payload allowed payload)) = JObj safe"
    by (auto simp: safe_event_payload_def split: option.splits json.splits)
  then have mem: "(kind, allowed) \<in> set SAFE_FIELDS" by (intro map_of_SomeD)
  then have dist: "distinct allowed" using SAFE_FIELDS_distinct by (auto simp: list_all_iff)
  let ?items = "map (\<lambda>(k, v). (k, redact_value nlp v)) (project_payload allowed payload)"
  have keys: "map fst ?items = map fst (project_payload allowed payload)" by (simp add: case_prod_unfold)
  have "f \<in> set field_names" if "f \<in> set allowed" for f using mem that by (force simp: field_names_def)
  then have "\<forall>k\<in>fst ` set ?items. rr_text (redact_text nlp k) = k"
    using project_payload_keys(1) [OF dist, of payload] field_kept [OF assms(1)] keys by (metis list.set_map subsetD)
  then have "map fst (redact_items (\<lambda>k. rr_text (redact_text nlp k)) ?items (\<lambda>_. 0) []) = map fst ?items"
    using project_payload_keys(2) [OF dist, of payload] keys
    by (subst redact_items_keys) (auto simp del: map_map)
  moreover from safe have "redact_items (\<lambda>k. rr_text (redact_text nlp k)) ?items (\<lambda>_. 0) [] = safe" by simp
  ultimately have "map fst safe = map fst (project_payload allowed payload)" using keys by simp
  with allowed project_payload_keys(1) [OF dist, of payload] show ?thesis by (metis list.set_map)
qed

definition readable :: "event_row \<Rightarrow> bool" where
  "readable e \<longleftrightarrow> event_record e = Inr e"

lemma new_event_readable:
  assumes "names_no_field nlp" and "safe_event_payload nlp kind payload = Inr safe"
  shows "readable (new_event now ident sequence kind iteration safe)"
  using safe_event_payload_keys [OF assms]
  by (fastforce simp: readable_def event_record_def new_event_def list_ex_iff)

lemma ensure_run_events [simp]: "lg_events (fst (ensure_run now ident db)) = lg_events db"
  by (simp add: ensure_run_def Let_def split: prod.splits bool.splits list.splits)

lemma append_event_events:
  "set (lg_events (fst (append_event py_str now ident kind iteration usage safe db))) \<subseteq>
    set (lg_events db) \<union> range (\<lambda>n. new_event now ident n kind iteration safe)"
proof (cases "scalar (select_where (run_open (ri_run_id ident) (ri_user_id ident)) (lg_runs db))")
  case None
  then show ?thesis by (simp add: append_event_def Let_def del: scalar_None)
next
  case (Some r)
  show ?thesis by (simp add: append_event_eq [OF Some] Let_def)
qed

lemma append_run_events:
  assumes "names_no_field nlp" and "\<forall>e\<in>set (lg_events db). readable e"
    and "\<forall>e\<in>set (lg_events (between (fst (ensure_run started ident db)))). readable e"
  shows "\<forall>e\<in>set (lg_events (fst (append_run nlp py_str started now between ident kind iteration payload usage db))). readable e"
proof -
  obtain db1 res where e: "ensure_run started ident db = (db1, res)" by fastforce
  then have db1: "lg_events db1 = lg_events db" using ensure_run_events [of started ident db] by simp
  show ?thesis
  proof (cases "safe_event_payload nlp kind payload")
    case (Inl x)
    with assms(2) e db1 show ?thesis by (auto simp: append_run_def split: sum.splits)
  next
    case (Inr safe)
    from new_event_readable [OF assms(1) Inr] assms(3) append_event_events [of py_str now ident kind iteration usage safe "between db1"]
    have "\<forall>x\<in>set (lg_events (fst (append_event py_str now ident kind iteration usage safe (between db1)))). readable x"
      by (fastforce simp: e)
    with Inr assms(2) e db1 show ?thesis by (auto simp: append_run_def split: sum.splits)
  qed
qed

lemma ensure_child_run_events:
  "lg_events (fst (ensure_child_run now between run parent user project provider model conv corr db))
    \<in> {lg_events db, lg_events (between db)}"
  by (simp add: ensure_child_run_def Let_def split: option.splits)

lemma fork_run_events [simp]:
  "lg_events (fst (fork_run nlp uuid5 now target draft_id user run_id sequence profile memory_ids db)) = lg_events db"
proof -
  obtain db' res where f: "fork_run nlp uuid5 now target draft_id user run_id sequence profile memory_ids db = (db', res)"
    by fastforce
  from fork_run_cases [OF f] have "lg_events db' = lg_events db" unfolding fork_adds_def by fastforce
  with f show ?thesis by simp
qed

lemma delete_terminal_runs_events: "set (lg_events (fst (delete_terminal_runs rank user ids db))) \<subseteq> set (lg_events db)"
  by (auto simp: delete_terminal_runs_def Let_def split: option.splits)

lemma prune_events:
  "set (lg_events (fst (prune_completed rank user before db))) \<subseteq> set (lg_events db)"
  "set (lg_events (fst (prune_terminal_to_event_budget rank max_events db))) \<subseteq> set (lg_events db)"
  using delete_terminal_runs_events
  by (simp_all add: prune_completed_def prune_terminal_to_event_budget_def Let_def)

lemma reachable_readable:
  assumes "names_no_field nlp" and "ledger_reachable nlp db"
  shows "\<forall>e\<in>set (lg_events db). readable e"
  using assms(2)
proof (induction rule: ledger_reachable.induct)
  case (child db between now run parent user project provider model conv corr)
  with ensure_child_run_events [of now between run parent user project provider model conv corr db] show ?case by auto
next
  case (appended db between started ident py_str now kind iteration payload usage)
  from append_run_events [where between = between, OF assms(1) appended.IH] show ?case .
next
  case (metadata db user run answer cost latency)
  then show ?case by (simp add: finalize_metadata_def Let_def)
next
  case (pruned db rank user before)
  with prune_events(1) show ?case by blast
next
  case (trimmed db rank n)
  with prune_events(2) show ?case by blast
qed simp_all

subsection \<open>Pages and deletions\<close>

lemma records_all: "(\<And>x. x \<in> set xs \<Longrightarrow> f x = Inr x) \<Longrightarrow> records f xs = Inr xs"
  by (induction xs) auto

lemma take_upto: "take k [i..j] = [i..min (i + int k - 1) j]"
  by (rule nth_equalityI) (auto simp: min_def split: if_splits)

lemma filter_upto: "0 \<le> a \<Longrightarrow> filter ((<) a) [1..n] = [a + 1..n]"
proof (cases "a \<le> n")
  case True
  assume "0 \<le> a"
  with True have "[1..n] = [1..a] @ [a + 1..n]" by (cases "a = 0") (simp_all add: upto_split2)
  then show ?thesis by (simp add: filter_empty_conv)
qed (auto simp: filter_empty_conv)

lemma page_of_events:
  assumes "trajectory_ok (core r) (events_of (lr_run_id r) events)" and "0 \<le> after"
  shows "map ev_sequence (take k (sort_key ev_sequence
      (select_where (\<lambda>e. ev_run_id e = lr_run_id r \<and> ev_user_id e = lr_user_id r \<and> after < ev_sequence e) events)))
    = [after + 1..min (after + int k) (lr_next_sequence r - 1)]"
proof -
  let ?es = "events_of (lr_run_id r) events"
  have user: "\<forall>e\<in>set ?es. ev_user_id e = lr_user_id r" and seq: "map ev_sequence ?es = [1..lr_next_sequence r - 1]"
    using assms(1) by (auto simp: trajectory_ok_def)
  have sel: "select_where (\<lambda>e. ev_run_id e = lr_run_id r \<and> ev_user_id e = lr_user_id r \<and> after < ev_sequence e) events
      = filter (\<lambda>e. after < ev_sequence e) ?es"
    using user by (auto simp: select_where_def events_of_def intro!: filter_cong)
  have page: "map ev_sequence (filter (\<lambda>e. after < ev_sequence e) ?es) = [after + 1..lr_next_sequence r - 1]"
    using filter_upto [OF assms(2), of "lr_next_sequence r - 1"] seq
    by (metis (mono_tags, lifting) comp_apply filter_cong filter_map)
  then have "sorted (map ev_sequence (filter (\<lambda>e. after < ev_sequence e) ?es))" by (simp add: sorted_upto)
  then have "sort_key ev_sequence (filter (\<lambda>e. after < ev_sequence e) ?es) = filter (\<lambda>e. after < ev_sequence e) ?es"
    by (rule sort_key_id_if_sorted)
  then show ?thesis unfolding sel using page take_upto [of k "after + 1"] by (simp add: take_map [symmetric])
qed

lemma delete_runs_blocked:
  assumes "p \<in> set ids" and "r \<in> set runs" "lr_parent_run_id r = Some p" "lr_run_id r \<notin> set ids"
  shows "delete_runs ids runs = None"
  using assms
proof (induction ids runs rule: delete_runs.induct)
  case (2 i ids runs)
  show ?case
  proof (cases "p = i")
    case True
    with 2(3-5) have "list_ex (\<lambda>r. lr_parent_run_id r = Some i \<and> lr_run_id r \<noteq> i) runs" by (auto simp: list_ex_iff)
    then show ?thesis by simp
  next
    case False
    with 2(2-5) have "delete_runs ids (filter (\<lambda>r. lr_run_id r \<noteq> i) runs) = None"
      if "\<not> list_ex (\<lambda>r. lr_parent_run_id r = Some i \<and> lr_run_id r \<noteq> i) runs"
      by (intro 2(1) [OF that]) auto
    then show ?thesis by simp
  qed
qed simp

text \<open>The runs that a retention run of an owner selects.\<close>

definition expired_run :: "string \<Rightarrow> timestamp \<Rightarrow> run_row \<Rightarrow> bool" where
  "expired_run user before r \<longleftrightarrow> lr_user_id r = user \<and> terminal_run r \<and> (\<exists>c. lr_completed_at r = Some c \<and> c < before)"

lemma prune_completed_eq:
  assumes "distinct (map lr_run_id (lg_runs db))"
  shows "prune_completed rank user before db =
    (let ids = map lr_run_id (filter (expired_run user before) (lg_runs db)) in
     if ids = [] then (db, Inr 0)
     else case delete_runs (sort_key rank ids) (lg_runs db) of
            None \<Rightarrow> (db, Inl IntegrityError)
          | Some runs \<Rightarrow> ((drop_dependents ids db)\<lparr>lg_runs := runs\<rparr>, Inr (length ids)))"
proof -
  have sel: "(\<lambda>r. lr_user_id r = user \<and> terminal_run r \<and> (case lr_completed_at r of Some c \<Rightarrow> c < before | None \<Rightarrow> False))
      = expired_run user before"
    by (auto simp: expired_run_def fun_eq_iff split: option.splits)
  let ?ids = "map lr_run_id (filter (expired_run user before) (lg_runs db))"
  have "(lr_run_id r \<in> set ?ids \<and> terminal_run r \<and> lr_user_id r = user) = expired_run user before r"
    if "r \<in> set (lg_runs db)" for r
    using that assms by (auto simp: expired_run_def distinct_map dest: inj_onD)
  then have "eligible_runs (Some user) ?ids (lg_runs db) = ?ids"
    by (auto simp: eligible_runs_def intro: filter_cong arg_cong [of _ _ "map lr_run_id"])
  then show ?thesis
    by (simp add: prune_completed_def delete_terminal_runs_def sel select_where_def Let_def)
qed

text \<open>A small history for the witnesses: a run that starts and stops, and a fork of it that goes on.\<close>

definition demo_ident :: "string \<Rightarrow> string \<Rightarrow> run_identity" where
  "demo_ident run conversation =
     \<lparr>ri_run_id = run, ri_user_id = ''u'', ri_project_id = ''p'', ri_conversation_id = conversation,
      ri_correlation_id = ''k'', ri_provider = ''mock'', ri_model = ''m''\<rparr>"

definition demo_append :: "timestamp \<Rightarrow> string \<Rightarrow> string \<Rightarrow> string \<Rightarrow> ledger_db \<Rightarrow> ledger_db" where
  "demo_append now run conversation kind db =
     fst (append_run None (\<lambda>_. []) now now (\<lambda>db. db) (demo_ident run conversation) kind 1
       [(''safe'', JBool True), (''reason'', JStr ''stop''), (''prompt'', JStr ''x'')]
       \<lparr>ut_input = 0, ut_output = 0, ut_total = 0\<rparr> db)"

definition demo_chat :: ledger_db where
  "demo_chat = \<lparr>lg_runs = [], lg_events = [], lg_checkpoints = [], lg_drafts = [],
     lg_conversations = [\<lparr>cv_id = ''c'', cv_title = ''t'', cv_user_id = ''u'', cv_created_at = 0, cv_updated_at = 0,
       cv_is_active = 1\<rparr>],
     lg_messages = [\<lparr>ms_id = 1, ms_conversation_id = ''c'', ms_role = ''user'', ms_content = ''hi'', ms_created_at = 0\<rparr>]\<rparr>"

definition demo_stopped :: ledger_db where
  "demo_stopped = demo_append 2 ''r1'' ''c'' ''run_stopped'' (demo_append 1 ''r1'' ''c'' ''run_started'' demo_chat)"

definition demo_forked :: ledger_db where
  "demo_forked = demo_append 4 ''r2'' ''c2'' ''run_started''
     (fst (fork_run None (\<lambda>n. ''x'') 3 ''c2'' ''d'' ''u'' ''r1'' 2 ''default'' [] demo_stopped))"

lemma demo_append_reachable: "ledger_reachable None db \<Longrightarrow> ledger_reachable None (demo_append now run conversation kind db)"
  unfolding demo_append_def by (intro appended ensured)

lemma demo_runs_reachable: "ledger_reachable None demo_stopped" "ledger_reachable None demo_forked"
proof -
  have "ledger_reachable None demo_chat" using chat [OF ledger_reachable.empty [of None]] by (simp add: demo_chat_def)
  then show 1: "ledger_reachable None demo_stopped" unfolding demo_stopped_def by (intro demo_append_reachable)
  show "ledger_reachable None demo_forked" unfolding demo_forked_def by (intro demo_append_reachable forked 1)
qed

lemma demo_runs:
  "map (\<lambda>r. (lr_run_id r, lr_user_id r, lr_status r, lr_next_sequence r, lr_parent_run_id r)) (lg_runs demo_stopped) = [(''r1'', ''u'', ''completed'', 3, None)]"
  "map (\<lambda>r. (lr_run_id r, lr_user_id r, lr_status r, lr_next_sequence r, lr_parent_run_id r)) (lg_runs demo_forked)
    = [(''r1'', ''u'', ''completed'', 3, None), (''r2'', ''u'', ''running'', 2, Some ''r1'')]"
  by code_simp+


subsection \<open>Properties\<close>

text \<open>
  C8: The events of a run are numbered without a gap and end with its stop. In every state that the
  repository's transactions reach, in whatever order processes interleave them, the events of a
  run carry exactly the numbers from 1 up to its counter, in the order in which they were
  appended; the run has a completion time exactly when its last event is \<open>run_stopped\<close>, and no other
  event is, so nothing is ever appended to a run that stopped.
\<close>

theorem run_trajectory_complete:
  assumes "ledger_reachable nlp db" and "r \<in> set (lg_runs db)"
  defines "es \<equiv> filter (\<lambda>e. ev_run_id e = lr_run_id r) (lg_events db)"
  shows "map ev_sequence es = [1..lr_next_sequence r - 1]
    \<and> (\<forall>e\<in>set es. ev_user_id e = lr_user_id r)
    \<and> (lr_completed_at r \<noteq> None \<longleftrightarrow> es \<noteq> [] \<and> ev_kind (last es) = ''run_stopped'')
    \<and> (\<forall>e\<in>set (butlast es). ev_kind e \<noteq> ''run_stopped'')
    \<and> (lr_completed_at r = None \<longleftrightarrow> lr_status r = ''running'')"
proof -
  from reachable_ok [OF assms(1)] assms(2) have "trajectory_ok (core r) es"
    by (auto simp: ledger_ok_def trajectories_ok_def es_def events_of_def)
  then show ?thesis
    by (cases "lr_completed_at r = None")
      (auto simp: trajectory_ok_def stops_at_end_def TERMINAL_RUN_STATUSES_def dest: in_set_butlastD)
qed

theorem run_trajectory_complete_witness:
  "\<exists>r. r \<in> set (lg_runs demo_stopped) \<and> lr_completed_at r \<noteq> None \<and>
     map ev_sequence (filter (\<lambda>e. ev_run_id e = lr_run_id r) (lg_events demo_stopped)) = [1..2]"
proof -
  from demo_runs(1) obtain r where r: "r \<in> set (lg_runs demo_stopped)" "lr_status r = ''completed''" "lr_next_sequence r = 3"
    by auto
  from run_trajectory_complete [OF demo_runs_reachable(1) r(1)] r show ?thesis by auto
qed

text \<open>
  A page of events is complete and readable. For a run of the owner and a page within the
  bounds, the reader answers exactly the events that follow the given sequence number, as many as the
  page takes, in order and without a gap; no stored event is rejected as malformed. The hypothesis
  is that the optional language model sees no personal data in the names of the ledger's own fields.
\<close>

theorem events_page_complete:
  assumes "names_no_field nlp" and "ledger_reachable nlp db" and "r \<in> set (lg_runs db)"
    and "1 \<le> limit" "limit \<le> 200" "0 \<le> after"
  shows "\<exists>es. run_events (lr_user_id r) (lr_run_id r) limit after db = Inr (Some es)
    \<and> map ev_sequence es = [after + 1..min (after + limit) (lr_next_sequence r - 1)]
    \<and> set es \<subseteq> {e \<in> set (lg_events db). ev_run_id e = lr_run_id r}"
proof -
  let ?es = "take (nat limit) (sort_key ev_sequence (select_where
      (\<lambda>e. ev_run_id e = lr_run_id r \<and> ev_user_id e = lr_user_id r \<and> after < ev_sequence e) (lg_events db)))"
  have sub: "set ?es \<subseteq> {e \<in> set (lg_events db). ev_run_id e = lr_run_id r}" by (auto dest: in_set_takeD)
  with reachable_readable [OF assms(1,2)] have "records event_record ?es = Inr ?es"
    by (intro records_all) (auto simp: readable_def)
  moreover have "list_ex (\<lambda>x. lr_run_id x = lr_run_id r \<and> lr_user_id x = lr_user_id r) (lg_runs db)"
    using assms(3) by (auto simp: list_ex_iff)
  ultimately have "run_events (lr_user_id r) (lr_run_id r) limit after db = Inr (Some ?es)"
    using assms(4-6) by (simp add: run_events_def bounded_page_def)
  moreover from reachable_ok [OF assms(2)] assms(3) have "trajectory_ok (core r) (events_of (lr_run_id r) (lg_events db))"
    by (auto simp: ledger_ok_def trajectories_ok_def)
  from page_of_events [OF this assms(6), of "nat limit"] assms(4)
  have "map ev_sequence ?es = [after + 1..min (after + limit) (lr_next_sequence r - 1)]" by simp
  ultimately show ?thesis using sub by blast
qed

theorem events_page_complete_witness:
  "\<exists>r es. r \<in> set (lg_runs demo_stopped) \<and> run_events (lr_user_id r) (lr_run_id r) 100 1 demo_stopped = Inr (Some es)
     \<and> map ev_sequence es = [2]"
proof -
  from demo_runs(1) obtain r where r: "r \<in> set (lg_runs demo_stopped)" "lr_next_sequence r = 3" by auto
  have "names_no_field None" by (simp add: names_no_field_def)
  from events_page_complete [OF this demo_runs_reachable(1) r(1), of 100 1] r show ?thesis by auto
qed

text \<open>
  C38: Retention removes whole runs and nothing else. When the retention of an owner's runs returns,
  it has removed exactly the owner's terminal runs that completed before the given time, with all
  their events; every other run and every event of it is untouched.
\<close>

theorem prune_removes_whole_runs:
  assumes "ledger_reachable nlp db" and "prune_completed rank user before db = (db', Inr n)"
  shows "lg_runs db' = filter (\<lambda>r. \<not> expired_run user before r) (lg_runs db)
    \<and> lg_events db' = filter (\<lambda>e. \<exists>r\<in>set (lg_runs db'). ev_run_id e = lr_run_id r) (lg_events db)
    \<and> n = length (filter (expired_run user before) (lg_runs db))"
proof -
  have ok: "ledger_ok db" and dist: "distinct (map lr_run_id (lg_runs db))"
    using reachable_ok [OF assms(1)] ledger_ok_distinct by auto
  let ?ids = "map lr_run_id (filter (expired_run user before) (lg_runs db))"
  have out: "lr_run_id r \<in> set ?ids \<longleftrightarrow> expired_run user before r" if "r \<in> set (lg_runs db)" for r
    using that dist by (auto simp: distinct_map dest: inj_onD)
  have all: "\<exists>r\<in>set (lg_runs db). ev_run_id e = lr_run_id r" if "e \<in> set (lg_events db)" for e
    using that ok by (force simp: ledger_ok_def trajectories_ok_def)
  have "lg_runs db' = filter (\<lambda>r. lr_run_id r \<notin> set ?ids) (lg_runs db) \<and> lg_events db' = filter (\<lambda>e. ev_run_id e \<notin> set ?ids) (lg_events db)
      \<and> n = length ?ids"
  proof (cases "?ids = []")
    case True
    with assms(2) show ?thesis by (simp add: prune_completed_eq [OF dist])
  next
    case False
    with assms(2) obtain runs where "delete_runs (sort_key rank ?ids) (lg_runs db) = Some runs"
      "db' = (drop_dependents ?ids db)\<lparr>lg_runs := runs\<rparr>" "n = length ?ids"
      by (simp add: prune_completed_eq [OF dist] Let_def split: option.splits)
    with delete_runs_Some(1) show ?thesis by fastforce
  qed
  moreover have "filter (\<lambda>r. lr_run_id r \<notin> set ?ids) (lg_runs db) = filter (\<lambda>r. \<not> expired_run user before r) (lg_runs db)"
    using out by (intro filter_cong) auto
  moreover have "filter (\<lambda>e. ev_run_id e \<notin> set ?ids) (lg_events db)
      = filter (\<lambda>e. \<exists>r\<in>set (filter (\<lambda>r. \<not> expired_run user before r) (lg_runs db)). ev_run_id e = lr_run_id r) (lg_events db)"
  proof (rule filter_cong [OF refl])
    fix e assume "e \<in> set (lg_events db)"
    with all obtain r where r: "r \<in> set (lg_runs db)" "ev_run_id e = lr_run_id r" by blast
    have "x = r" if "x \<in> set (lg_runs db)" "lr_run_id x = lr_run_id r" for x
      using that r(1) dist by (auto simp: distinct_map dest: inj_onD)
    with out [OF r(1)] r show "(ev_run_id e \<notin> set ?ids)
        = (\<exists>r\<in>set (filter (\<lambda>r. \<not> expired_run user before r) (lg_runs db)). ev_run_id e = lr_run_id r)"
      by (simp only: set_filter mem_Collect_eq r(2)) (metis (mono_tags, lifting) mem_Collect_eq)
  qed
  ultimately show ?thesis by simp
qed

theorem prune_removes_whole_runs_witness:
  "\<exists>db'. prune_completed (\<lambda>_. 0) ''u'' 5 demo_stopped = (db', Inr 1) \<and> lg_runs db' = filter (\<lambda>r. \<not> expired_run ''u'' 5 r) (lg_runs demo_stopped)"
proof -
  have "snd (prune_completed (\<lambda>_. 0) ''u'' 5 demo_stopped) = Inr 1" by code_simp
  then obtain db' where p: "prune_completed (\<lambda>_. 0) ''u'' 5 demo_stopped = (db', Inr 1)" by (metis prod.collapse)
  from prune_removes_whole_runs [OF demo_runs_reachable(1) p] p show ?thesis by blast
qed

text \<open>
  C39: A descendant blocks retention. When one of the runs that retention selects is the parent of a
  run that it does not select (a fork that is still running, or a child that completed later), the
  deletion is refused by the database, nothing at all is pruned, and the refusal is not handled.
\<close>

theorem retention_blocked_by_descendant:
  assumes "ledger_reachable nlp db" and "p \<in> set (lg_runs db)" "expired_run user before p"
    and "r \<in> set (lg_runs db)" "lr_parent_run_id r = Some (lr_run_id p)" "\<not> expired_run user before r"
  shows "prune_completed rank user before db = (db, Inl IntegrityError)"
proof -
  have dist: "distinct (map lr_run_id (lg_runs db))" using reachable_ok [OF assms(1)] ledger_ok_distinct by auto
  let ?ids = "map lr_run_id (filter (expired_run user before) (lg_runs db))"
  have p: "lr_run_id p \<in> set (sort_key rank ?ids)" using assms(2,3) by auto
  have r: "lr_run_id r \<notin> set (sort_key rank ?ids)" using assms(4,6) dist by (auto simp: distinct_map dest: inj_onD)
  have "?ids \<noteq> []" using assms(2,3) by (auto simp: filter_empty_conv)
  with delete_runs_blocked [OF p assms(4,5) r] show ?thesis by (simp add: prune_completed_eq [OF dist] Let_def)
qed

theorem retention_blocked_by_descendant_witness:
  "prune_completed (\<lambda>_. 0) ''u'' 5 demo_forked = (demo_forked, Inl IntegrityError)"
proof -
  have "map (\<lambda>r. (lr_user_id r, terminal_run r, lr_completed_at r)) (lg_runs demo_forked)
      = [(''u'', True, Some 2), (''u'', False, None)]"
    by code_simp
  with demo_runs(2) obtain p r where "lg_runs demo_forked = [p, r]" "lr_run_id p = ''r1''" "lr_parent_run_id r = Some ''r1''"
    "expired_run ''u'' 5 p" "\<not> expired_run ''u'' 5 r"
    by (auto simp: map_eq_Cons_conv expired_run_def)
  then show ?thesis by (intro retention_blocked_by_descendant [OF demo_runs_reachable(2), of p _ _ r]) auto
qed

end
