(* ===== verification/Runtime_Monad.thy ===== *)
theory Runtime_Monad
  imports Prelude
begin

text \<open>
  Programs that change a state and may raise: the shape of the agent runtime's coroutines, with
  \<open>try\<close> and \<open>finally\<close> as Python has them. Two ways to reason about them follow: what every run
  of a program does to the state, whether it returns or raises (\<open>obeys\<close>, for a reflexive and
  transitive relation), and triples with a postcondition for each kind of end.
\<close>

type_synonym ('s, 'x, 'a) prog = "'s \<Rightarrow> ('x + 'a) \<times> 's"

definition ret :: "'a \<Rightarrow> ('s, 'x, 'a) prog" where
  "ret a = (\<lambda>s. (Inr a, s))"

definition throw :: "'x \<Rightarrow> ('s, 'x, 'a) prog" where
  "throw x = (\<lambda>s. (Inl x, s))"

definition bind :: "('s, 'x, 'a) prog \<Rightarrow> ('a \<Rightarrow> ('s, 'x, 'b) prog) \<Rightarrow> ('s, 'x, 'b) prog" where
  "bind m f = (\<lambda>s. case m s of (Inl x, s') \<Rightarrow> (Inl x, s') | (Inr a, s') \<Rightarrow> f a s')"

definition seq :: "('s, 'x, 'a) prog \<Rightarrow> ('s, 'x, 'b) prog \<Rightarrow> ('s, 'x, 'b) prog" where
  "seq m k = bind m (\<lambda>_. k)"

text \<open>\<open>try: m except ...\<close>; a handler raises again what no clause catches.\<close>

definition try_catch :: "('s, 'x, 'a) prog \<Rightarrow> ('x \<Rightarrow> ('s, 'x, 'a) prog) \<Rightarrow> ('s, 'x, 'a) prog" where
  "try_catch m h = (\<lambda>s. case m s of (Inl x, s') \<Rightarrow> h x s' | (Inr a, s') \<Rightarrow> (Inr a, s'))"

definition try_finally :: "('s, 'x, 'a) prog \<Rightarrow> ('s, 'x, unit) prog \<Rightarrow> ('s, 'x, 'a) prog" where
  "try_finally m c =
     (\<lambda>s. case m s of (r, s') \<Rightarrow> (case c s' of (Inl x, s'') \<Rightarrow> (Inl x, s'') | (Inr _, s'') \<Rightarrow> (r, s'')))"

definition reads :: "('s \<Rightarrow> 'a) \<Rightarrow> ('s, 'x, 'a) prog" where
  "reads f = (\<lambda>s. (Inr (f s), s))"

definition modify :: "('s \<Rightarrow> 's) \<Rightarrow> ('s, 'x, unit) prog" where
  "modify f = (\<lambda>s. (Inr (), f s))"

lemmas prog_defs = ret_def throw_def bind_def seq_def try_catch_def try_finally_def reads_def modify_def

lemma bind_reads: "bind (reads f) g s = g (f s) s"
  by (simp add: bind_def reads_def)

lemma seq_bind_reads: "seq (bind (reads f) g) k s = seq (g (f s)) k s"
  by (simp add: seq_def bind_def reads_def)

lemma seq_modify: "seq (modify f) k s = k (f s)"
  by (simp add: seq_def bind_def modify_def)

lemma seq_ret: "seq (ret a) k s = k s"
  by (simp add: seq_def bind_def ret_def)

subsection \<open>What every run does to the state\<close>

definition obeys :: "('s \<Rightarrow> 's \<Rightarrow> bool) \<Rightarrow> ('s, 'x, 'a) prog \<Rightarrow> bool" where
  "obeys R m = (\<forall>s. R s (snd (m s)))"

lemma obeysD: "obeys R m \<Longrightarrow> m s = (r, s') \<Longrightarrow> R s s'"
  unfolding obeys_def by (metis snd_conv)

lemma obeys_mono: "obeys R m \<Longrightarrow> (\<And>s s'. R s s' \<Longrightarrow> R' s s') \<Longrightarrow> obeys R' m"
  unfolding obeys_def by blast

lemma obeys_both: "obeys R m \<Longrightarrow> obeys R' m \<Longrightarrow> obeys (\<lambda>s s'. R s s' \<and> R' s s') m"
  unfolding obeys_def by blast

locale state_order =
  fixes R :: "'s \<Rightarrow> 's \<Rightarrow> bool"
  assumes same: "R s s"
    and onward: "R s s' \<Longrightarrow> R s' s'' \<Longrightarrow> R s s''"
begin

lemma obeys_ret: "obeys R (ret a)"
  by (simp add: obeys_def ret_def same)

lemma obeys_throw: "obeys R (throw x)"
  by (simp add: obeys_def throw_def same)

lemma obeys_reads: "obeys R (reads f)"
  by (simp add: obeys_def reads_def same)

lemma obeys_modify: "(\<And>s. R s (f s)) \<Longrightarrow> obeys R (modify f)"
  by (simp add: obeys_def modify_def)

lemma obeys_bind: "obeys R m \<Longrightarrow> (\<And>a. obeys R (f a)) \<Longrightarrow> obeys R (bind m f)"
  unfolding obeys_def bind_def by (auto split: prod.splits sum.splits) (metis onward snd_conv)+

lemma obeys_seq: "obeys R m \<Longrightarrow> obeys R k \<Longrightarrow> obeys R (seq m k)"
  unfolding seq_def by (rule obeys_bind)

lemma obeys_try: "obeys R m \<Longrightarrow> (\<And>x. obeys R (h x)) \<Longrightarrow> obeys R (try_catch m h)"
  unfolding obeys_def try_catch_def by (auto split: prod.splits sum.splits) (metis onward snd_conv)+

lemma obeys_finally: "obeys R m \<Longrightarrow> obeys R c \<Longrightarrow> obeys R (try_finally m c)"
  unfolding obeys_def try_finally_def by (auto split: prod.splits sum.splits) (metis onward snd_conv)+

lemma obeys_if: "obeys R m \<Longrightarrow> obeys R k \<Longrightarrow> obeys R (if b then m else k)"
  by simp

lemma obeys_let: "(\<And>a. obeys R (f a)) \<Longrightarrow> obeys R (let a = v in f a)"
  by (simp add: Let_def)

lemma obeys_option: "obeys R m \<Longrightarrow> (\<And>a. obeys R (f a)) \<Longrightarrow> obeys R (case v of None \<Rightarrow> m | Some a \<Rightarrow> f a)"
  by (simp split: option.splits)

lemma obeys_sum: "(\<And>a. obeys R (f a)) \<Longrightarrow> (\<And>b. obeys R (g b)) \<Longrightarrow> obeys R (case v of Inl a \<Rightarrow> f a | Inr b \<Rightarrow> g b)"
  by (simp split: sum.splits)

lemma obeys_prod: "(\<And>a b. obeys R (f a b)) \<Longrightarrow> obeys R (case v of (a, b) \<Rightarrow> f a b)"
  by (simp split: prod.splits)

lemmas obeys_rules = obeys_ret obeys_throw obeys_reads obeys_bind obeys_seq obeys_try obeys_finally obeys_if obeys_let
  obeys_option obeys_sum obeys_prod

end

subsection \<open>Triples\<close>

definition triple ::
  "('s \<Rightarrow> bool) \<Rightarrow> ('s, 'x, 'a) prog \<Rightarrow> ('a \<Rightarrow> 's \<Rightarrow> bool) \<Rightarrow> ('x \<Rightarrow> 's \<Rightarrow> bool) \<Rightarrow> bool" where
  "triple P m Q E = (\<forall>s. P s \<longrightarrow> (case m s of (Inl x, s') \<Rightarrow> E x s' | (Inr a, s') \<Rightarrow> Q a s'))"

lemma tripleI: "(\<And>s. P s \<Longrightarrow> case m s of (Inl x, s') \<Rightarrow> E x s' | (Inr a, s') \<Rightarrow> Q a s') \<Longrightarrow> triple P m Q E"
  by (simp add: triple_def)

lemma tripleD: "triple P m Q E \<Longrightarrow> P s \<Longrightarrow> m s = (Inr a, s') \<Longrightarrow> Q a s'"
  unfolding triple_def by fastforce

lemma tripleE: "triple P m Q E \<Longrightarrow> P s \<Longrightarrow> m s = (Inl x, s') \<Longrightarrow> E x s'"
  unfolding triple_def by fastforce

lemma triple_end: "triple P m (\<lambda>_. Q) (\<lambda>_. Q) \<Longrightarrow> P s \<Longrightarrow> m s = (r, s') \<Longrightarrow> Q s'"
  by (cases r) (auto dest: tripleD tripleE)

lemma triple_ret: "(\<And>s. P s \<Longrightarrow> Q a s) \<Longrightarrow> triple P (ret a) Q E"
  by (simp add: triple_def ret_def)

lemma triple_throw: "(\<And>s. P s \<Longrightarrow> E x s) \<Longrightarrow> triple P (throw x) Q E"
  by (simp add: triple_def throw_def)

lemma triple_modify: "(\<And>s. P s \<Longrightarrow> Q () (f s)) \<Longrightarrow> triple P (modify f) Q E"
  by (simp add: triple_def modify_def)

lemma triple_reads: "(\<And>s. P s \<Longrightarrow> Q (f s) s) \<Longrightarrow> triple P (reads f) Q E"
  by (simp add: triple_def reads_def)

lemma triple_bind_reads: "(\<And>a. triple (\<lambda>s. P s \<and> f s = a) (g a) Q E) \<Longrightarrow> triple P (bind (reads f) g) Q E"
  unfolding triple_def by (simp add: bind_reads)

lemma triple_bind_reads_any: "(\<And>a. triple P (g a) Q E) \<Longrightarrow> triple P (bind (reads f) g) Q E"
  unfolding triple_def by (simp add: bind_reads)

lemma triple_bind: "triple P m Q' E \<Longrightarrow> (\<And>a. triple (Q' a) (f a) Q E) \<Longrightarrow> triple P (bind m f) Q E"
  unfolding triple_def bind_def by (fastforce split: prod.splits sum.splits)

lemma triple_seq: "triple P m (\<lambda>_. Q') E \<Longrightarrow> triple Q' k Q E \<Longrightarrow> triple P (seq m k) Q E"
  unfolding seq_def by (rule triple_bind)

lemma triple_try: "triple P m Q E' \<Longrightarrow> (\<And>x. triple (E' x) (h x) Q E) \<Longrightarrow> triple P (try_catch m h) Q E"
  unfolding triple_def try_catch_def by (fastforce split: prod.splits sum.splits)

lemma triple_conseq:
  "triple P' m Q' E' \<Longrightarrow> (\<And>s. P s \<Longrightarrow> P' s) \<Longrightarrow> (\<And>a s. Q' a s \<Longrightarrow> Q a s) \<Longrightarrow> (\<And>x s. E' x s \<Longrightarrow> E x s) \<Longrightarrow> triple P m Q E"
  unfolding triple_def by (fastforce split: prod.splits sum.splits)

lemma triple_pre: "triple P' m Q E \<Longrightarrow> (\<And>s. P s \<Longrightarrow> P' s) \<Longrightarrow> triple P m Q E"
  by (simp add: triple_def)

lemma triple_if: "(b \<Longrightarrow> triple P m Q E) \<Longrightarrow> (\<not> b \<Longrightarrow> triple P k Q E) \<Longrightarrow> triple P (if b then m else k) Q E"
  by simp

lemma triple_obeys:
  "obeys R m \<Longrightarrow> (\<And>s s'. P s \<Longrightarrow> R s s' \<Longrightarrow> Q s') \<Longrightarrow> (\<And>s s'. P s \<Longrightarrow> R s s' \<Longrightarrow> E s') \<Longrightarrow> triple P m (\<lambda>_. Q) (\<lambda>_. E)"
  unfolding triple_def obeys_def by (auto split: prod.splits sum.splits) (metis snd_conv)+

lemma triple_strengthen:
  "triple P m Q E \<Longrightarrow> obeys R m \<Longrightarrow> (\<And>s s'. P s \<Longrightarrow> R s s' \<Longrightarrow> F s') \<Longrightarrow> triple P m (\<lambda>a s. Q a s \<and> F s) (\<lambda>x s. E x s \<and> F s)"
  unfolding triple_def obeys_def by (auto split: prod.splits sum.splits) (metis snd_conv)+

end
