(* ===== verification/Json_Reader.thy ===== *)
theory Json_Reader
  imports Json "HOL-Library.AList"
begin

text \<open>
  \<open>json.loads\<close> on the documents that \<open>json.dumps\<close> with \<open>separators=(",", ":")\<close> writes, which
  have no white space. A number with a fraction or an exponent keeps its text, since a float is
  represented by its \<open>repr\<close>. The fuel of the reader is the nesting that the text leaves room for;
  \<open>loads_dumps\<close> shows that it is enough, and that a document is read back as the value it was
  written from with the keys of every object in order.
\<close>

definition hex_value :: "char \<Rightarrow> nat option" where
  "hex_value c =
     (let n = of_char c :: nat in
      if 48 \<le> n \<and> n \<le> 57 then Some (n - 48)
      else if 97 \<le> n \<and> n \<le> 102 then Some (n - 87)
      else if 65 \<le> n \<and> n \<le> 70 then Some (n - 55)
      else None)"

text \<open>The escapes of one letter.\<close>

definition unescape :: "char \<Rightarrow> char option" where
  "unescape c =
     (if c = CHR 0x22 \<or> c = CHR 0x5C \<or> c = CHR ''/'' then Some c
      else if c = CHR ''n'' then Some (CHR 0x0A)
      else if c = CHR ''r'' then Some (CHR 0x0D)
      else if c = CHR ''t'' then Some (CHR 0x09)
      else if c = CHR ''f'' then Some (CHR 0x0C)
      else if c = CHR ''b'' then Some (CHR 0x08)
      else None)"

text \<open>The four digits after \<open>\u\<close>, for the code points that are represented.\<close>

definition unicode_escape :: "string \<Rightarrow> char option" where
  "unicode_escape ds =
     (case those (map hex_value ds) of
        Some [0, 0, h, l] \<Rightarrow> Some (char_of (16 * h + l))
      | _ \<Rightarrow> None)"

text \<open>The text up to the closing quote, and what follows it.\<close>

fun read_string :: "string \<Rightarrow> (string \<times> string) option" where
  "read_string [] = None"
| "read_string (c # s) =
     (if c = CHR 0x22 then Some ([], s)
      else if c = CHR 0x5C then
        (case s of
           [] \<Rightarrow> None
         | e # s' \<Rightarrow>
             if e = CHR ''u'' then
               (case unicode_escape (take 4 s') of
                  None \<Rightarrow> None
                | Some d \<Rightarrow> map_option (apfst (Cons d)) (read_string (drop 4 s')))
             else
               (case unescape e of
                  None \<Rightarrow> None
                | Some d \<Rightarrow> map_option (apfst (Cons d)) (read_string s')))
      else if of_char c < (32::nat) then None
      else map_option (apfst (Cons c)) (read_string s))"

definition number_char :: "char \<Rightarrow> bool" where
  "number_char c = (ascii_digit c \<or> c \<in> {CHR ''-'', CHR ''+'', CHR ''.'', CHR ''e'', CHR ''E''})"

definition digits_value :: "string \<Rightarrow> nat" where
  "digits_value = foldl (\<lambda>n c. 10 * n + (of_char c - 48)) 0"

definition number_of :: "string \<Rightarrow> json option" where
  "number_of t =
     (let body = (case t of c # t' \<Rightarrow> if c = CHR ''-'' then t' else t | [] \<Rightarrow> []) in
      if body = [] \<or> \<not> ascii_digit (hd body) then None
      else if list_all ascii_digit body
      then Some (JInt (if hd t = CHR ''-'' then - int (digits_value body) else int (digits_value body)))
      else Some (JFloat t))"

definition read_number :: "string \<Rightarrow> (json \<times> string) option" where
  "read_number s = map_option (\<lambda>v. (v, dropWhile number_char s)) (number_of (takeWhile number_char s))"

definition read_name :: "string \<Rightarrow> (json \<times> string) option" where
  "read_name s =
     (if startswith s ''null'' then Some (JNull, drop 4 s)
      else if startswith s ''true'' then Some (JBool True, drop 4 s)
      else if startswith s ''false'' then Some (JBool False, drop 5 s)
      else read_number s)"

text \<open>\<open>dict(pairs)\<close>: a later pair replaces the value of an earlier one.\<close>

definition dict_of :: "(string \<times> 'v) list \<Rightarrow> (string \<times> 'v) list" where
  "dict_of pairs = foldl (\<lambda>d (k, v). AList.update k v d) [] pairs"

fun read_value :: "nat \<Rightarrow> string \<Rightarrow> (json \<times> string) option"
  and read_items :: "nat \<Rightarrow> string \<Rightarrow> (json list \<times> string) option"
  and read_fields :: "nat \<Rightarrow> string \<Rightarrow> ((string \<times> json) list \<times> string) option" where
  "read_value 0 s = None"
| "read_value (Suc n) s =
     (case s of
        [] \<Rightarrow> None
      | c # r \<Rightarrow>
          if c = CHR 0x22 then map_option (apfst JStr) (read_string r)
          else if c = CHR ''['' then
            (if startswith r '']'' then Some (JList [], tl r)
             else map_option (apfst JList) (read_items n r))
          else if c = CHR ''{'' then
            (if startswith r ''}'' then Some (JObj [], tl r)
             else map_option (apfst (\<lambda>kvs. JObj (dict_of kvs))) (read_fields n r))
          else read_name s)"
| "read_items 0 s = None"
| "read_items (Suc n) s =
     (case read_value n s of
        None \<Rightarrow> None
      | Some (v, []) \<Rightarrow> None
      | Some (v, d # r) \<Rightarrow>
          if d = CHR '']'' then Some ([v], r)
          else if d = CHR '','' then map_option (apfst (Cons v)) (read_items n r)
          else None)"
| "read_fields 0 s = None"
| "read_fields (Suc n) s =
     (case s of
        [] \<Rightarrow> None
      | q # s' \<Rightarrow>
          if q \<noteq> CHR 0x22 then None
          else
            (case read_string s' of
               None \<Rightarrow> None
             | Some (k, []) \<Rightarrow> None
             | Some (k, colon # r) \<Rightarrow>
                 if colon \<noteq> CHR '':'' then None
                 else
                   (case read_value n r of
                      None \<Rightarrow> None
                    | Some (v, []) \<Rightarrow> None
                    | Some (v, d # r') \<Rightarrow>
                        if d = CHR ''}'' then Some ([(k, v)], r')
                        else if d = CHR '','' then map_option (apfst (Cons (k, v))) (read_fields n r')
                        else None)))"

definition loads :: "string \<Rightarrow> json option" where
  "loads s = (case read_value (2 * length s) s of Some (v, []) \<Rightarrow> Some v | _ \<Rightarrow> None)"

text \<open>A JSON value of Python: floats are texts of finite floats, the keys of an object are distinct.\<close>

definition float_text :: "string \<Rightarrow> bool" where
  "float_text r =
     (let body = (case r of c # t \<Rightarrow> if c = CHR ''-'' then t else r | [] \<Rightarrow> []) in
      body \<noteq> [] \<and> ascii_digit (hd body) \<and> list_all number_char body \<and> \<not> list_all ascii_digit body)"

fun json_ok :: "json \<Rightarrow> bool" where
  "json_ok (JFloat r) = float_text r"
| "json_ok (JList vs) = list_all json_ok vs"
| "json_ok (JObj kvs) = (distinct (map fst kvs) \<and> list_all (\<lambda>(k, v). json_ok v) kvs)"
| "json_ok v = True"

text \<open>The same value with the keys of its objects in order.\<close>

fun in_order :: "json \<Rightarrow> json" where
  "in_order (JList vs) = JList (map in_order vs)"
| "in_order (JObj kvs) = JObj (sort_key fst (map (\<lambda>(k, v). (k, in_order v)) kvs))"
| "in_order v = v"

subsection \<open>Reading back\<close>

lemma hex_value_digit: "n < 16 \<Longrightarrow> hex_value (hex_digit n) = Some n"
  by (auto simp: hex_value_def hex_digit_def of_char_of take_bit_nat_eq_self)

lemma unicode_escape_hex: "unicode_escape [CHR ''0'', CHR ''0'', hex_digit (of_char c div 16), hex_digit (of_char c mod 16)] = Some c"
proof -
  have c: "(of_char c :: nat) < 256" by simp
  have z: "hex_value (CHR ''0'') = Some 0" by (simp add: hex_value_def)
  have d: "hex_value (hex_digit (of_char c div 16)) = Some (of_char c div 16)"
    using c by (intro hex_value_digit less_mult_imp_div_less) simp
  have m: "hex_value (hex_digit (of_char c mod 16)) = Some (of_char c mod 16)"
    by (rule hex_value_digit) simp
  have s: "16 * (of_char c div 16) + of_char c mod 16 = (of_char c :: nat)" by simp
  show ?thesis unfolding unicode_escape_def by (simp only: list.map those.simps option.case z d m option.map list.case nat.case s char_of_char)
qed

lemma read_string_escape: "read_string (escape_char c @ s) = map_option (apfst (Cons c)) (read_string s)"
  by (auto simp: escape_char_def unescape_def unicode_escape_hex)

lemma read_string_quote: "read_string (concat (map escape_char t) @ CHR 0x22 # r) = Some (t, r)"
  by (induction t) (simp_all add: read_string_escape)

lemma ascii_digit_char: "(n::nat) < 10 \<Longrightarrow> ascii_digit (char_of (48 + n))"
  by (simp add: ascii_digit_def of_char_of take_bit_nat_eq_self)

lemma show_nat_digits: "list_all ascii_digit (show_nat n)"
proof (induction n rule: show_nat.induct)
  case (1 n)
  then show ?case by (subst show_nat.simps) (simp add: ascii_digit_char)
qed

lemma digits_value_snoc: "digits_value (s @ [c]) = 10 * digits_value s + (of_char c - 48)"
  by (simp add: digits_value_def)

lemma digits_value_show: "digits_value (show_nat n) = n"
proof (induction n rule: show_nat.induct)
  case (1 n)
  show ?case
  proof (cases "n < 10")
    case True
    then show ?thesis
      by (subst show_nat.simps) (simp add: digits_value_def of_char_of take_bit_nat_eq_self)
  next
    case False
    with 1 show ?thesis
      by (subst show_nat.simps) (simp add: digits_value_snoc of_char_of take_bit_nat_eq_self)
  qed
qed

lemma number_digit: "ascii_digit c \<Longrightarrow> number_char c"
  by (simp add: number_char_def)

lemma digit_not_special: "ascii_digit c \<Longrightarrow> c \<notin> {CHR ''-'', CHR 0x22, CHR ''['', CHR ''{'', CHR ''n'', CHR ''t'', CHR ''f''}"
  by (auto simp: ascii_digit_def)

text \<open>What may follow a value in a document.\<close>

definition delimited :: "string \<Rightarrow> bool" where
  "delimited r = (case r of [] \<Rightarrow> True | c # _ \<Rightarrow> \<not> number_char c)"

lemma delimited_simps [simp]:
  "delimited []" "delimited (CHR '','' # r)" "delimited (CHR '']'' # r)" "delimited (CHR ''}'' # r)"
  by (simp_all add: delimited_def number_char_def ascii_digit_def)

lemma number_split:
  assumes "list_all number_char t" "delimited r"
  shows "takeWhile number_char (t @ r) = t" "dropWhile number_char (t @ r) = r"
  using assms by (auto simp: list_all_iff delimited_def takeWhile_append2 dropWhile_append2 split: list.splits)

lemma number_of_int: "number_of (show_int n) = Some (JInt n)"
proof -
  obtain c t where ct: "show_nat (nat \<bar>n\<bar>) = c # t" by (cases "show_nat (nat \<bar>n\<bar>)") auto
  with show_nat_digits [of "nat \<bar>n\<bar>"] have c: "ascii_digit c" "list_all ascii_digit t" by simp_all
  have v: "digits_value (c # t) = nat \<bar>n\<bar>" using digits_value_show [of "nat \<bar>n\<bar>"] ct by simp
  show ?thesis
  proof (cases "n < 0")
    case True
    with ct have "show_int n = CHR ''-'' # c # t" by (simp add: show_int_def)
    with c v True show ?thesis by (simp add: number_of_def)
  next
    case False
    with ct have "show_int n = c # t" by (simp add: show_int_def)
    with c v False digit_not_special [OF c(1)] show ?thesis by (simp add: number_of_def)
  qed
qed

lemma number_char_int: "list_all number_char (show_int n)"
  using show_nat_digits by (auto simp: show_int_def list_all_iff number_digit) (simp add: number_char_def)

lemma read_number_int: "delimited r \<Longrightarrow> read_number (show_int n @ r) = Some (JInt n, r)"
  by (simp add: read_number_def number_split [OF number_char_int] number_of_int)

lemma read_number_float: "float_text t \<Longrightarrow> delimited r \<Longrightarrow> read_number (t @ r) = Some (JFloat t, r)"
proof -
  assume t: "float_text t" and r: "delimited r"
  then have "list_all number_char t"
    by (cases t) (auto simp: float_text_def Let_def number_char_def split: if_splits)
  moreover have "number_of t = Some (JFloat t)"
    using t by (auto simp: float_text_def number_of_def Let_def)
  ultimately show ?thesis by (simp add: read_number_def number_split [OF _ r])
qed

lemma read_name_number:
  assumes "s = c # s'" "ascii_digit c \<or> c = CHR ''-''"
  shows "read_name s = read_number s"
  using assms digit_not_special [of c] by (auto simp: read_name_def)

lemma dict_of_distinct: "distinct (map fst kvs) \<Longrightarrow> dict_of kvs = kvs"
proof -
  have up: "k \<notin> fst ` set d \<Longrightarrow> AList.update k v d = d @ [(k, v)]" for k and v :: 'b and d
    by (induction d) auto
  have "foldl (\<lambda>d (k, v). AList.update k v d) d kvs = d @ kvs" if "distinct (map fst (d @ kvs))" for d
    using that by (induction kvs arbitrary: d) (auto simp: up image_iff split: prod.splits)
  from this [of "[]"] show "distinct (map fst kvs) \<Longrightarrow> dict_of kvs = kvs" by (simp add: dict_of_def)
qed

lemma sort_key_map_value:
  "sort_key fst (map (\<lambda>(k, v). (k, f v)) kvs) = map (\<lambda>(k, v). (k, f v)) (sort_key fst kvs)"
proof (induction kvs)
  case (Cons kv kvs)
  have "insort_key fst (case kv of (k, v) \<Rightarrow> (k, f v)) (map (\<lambda>(k, v). (k, f v)) xs) = map (\<lambda>(k, v). (k, f v)) (insort_key fst kv xs)" for xs
    by (induction xs) (auto split: prod.splits)
  with Cons show ?case by simp
qed simp

definition write_field :: "string \<times> json \<Rightarrow> string" where
  "write_field kv = json_quote (fst kv) @ '':'' @ dumps (snd kv)"

lemma dumps_object: "dumps (JObj kvs) = ''{'' @ join '','' (map write_field (sort_key fst kvs)) @ ''}''"
  by (simp only: dumps.simps sort_key_map_value map_map comp_def split_beta write_field_def [abs_def] fst_conv snd_conv)

lemma in_order_object: "in_order (JObj kvs) = JObj (map (\<lambda>(k, v). (k, in_order v)) (sort_key fst kvs))"
  by (simp add: sort_key_map_value)

lemma dumps_nonempty: "json_ok v \<Longrightarrow> dumps v \<noteq> []"
  by (cases v) (auto simp: show_int_def json_quote_def float_text_def)

text \<open>The value that a text starts with, as the reader has to find it with the given fuel.\<close>

definition reads_back :: "json \<Rightarrow> bool" where
  "reads_back v = (\<forall>n r. 2 * length (dumps v) \<le> n \<longrightarrow> delimited r \<longrightarrow> read_value n (dumps v @ r) = Some (in_order v, r))"

lemma reads_backD:
  "reads_back v \<Longrightarrow> 2 * length (dumps v) \<le> n \<Longrightarrow> delimited r \<Longrightarrow> read_value n (dumps v @ r) = Some (in_order v, r)"
  unfolding reads_back_def by blast

lemma read_items_join:
  "vs \<noteq> [] \<Longrightarrow> \<forall>v\<in>set vs. reads_back v \<Longrightarrow> 2 * length (join '','' (map dumps vs)) < n
   \<Longrightarrow> read_items n (join '','' (map dumps vs) @ CHR '']'' # r) = Some (map in_order vs, r)"
proof (induction vs arbitrary: n)
  case (Cons v vs)
  obtain m where m: "n = Suc m" using Cons.prems by (cases n) auto
  show ?case
  proof (cases vs)
    case Nil
    with Cons.prems m reads_backD [of v m "CHR '']'' # r"] show ?thesis by simp
  next
    case (Cons w ws)
    let ?rest = "join '','' (map dumps vs)"
    have j: "join '','' (dumps v # map dumps vs) = dumps v @ CHR '','' # ?rest" using Cons by simp
    have l: "2 * length (dumps v) \<le> m" "2 * length ?rest < m" using Cons.prems m by (simp_all add: j)
    have "read_value m (dumps v @ CHR '','' # ?rest @ CHR '']'' # r) = Some (in_order v, CHR '','' # ?rest @ CHR '']'' # r)"
      using Cons.prems l by (intro reads_backD) auto
    moreover have "read_items m (?rest @ CHR '']'' # r) = Some (map in_order vs, r)"
      using Cons.prems l Cons by (intro Cons.IH) auto
    ultimately show ?thesis by (simp add: j m)
  qed
qed simp

lemma read_fields_one:
  assumes "reads_back v" "2 * length (dumps v) \<le> n" "delimited (d # r)"
  shows "read_fields (Suc n) (write_field (k, v) @ d # r) =
    (if d = CHR ''}'' then Some ([(k, in_order v)], r)
     else if d = CHR '','' then map_option (apfst (Cons (k, in_order v))) (read_fields n r)
     else None)"
  using assms reads_backD [OF assms] by (simp add: write_field_def json_quote_def read_string_quote)

lemma read_fields_join:
  "kvs \<noteq> [] \<Longrightarrow> \<forall>(k, v)\<in>set kvs. reads_back v \<Longrightarrow> 2 * length (join '','' (map write_field kvs)) < n
   \<Longrightarrow> read_fields n (join '','' (map write_field kvs) @ CHR ''}'' # r) = Some (map (\<lambda>(k, v). (k, in_order v)) kvs, r)"
proof (induction kvs arbitrary: n)
  case (Cons kv kvs)
  obtain k v where kv: "kv = (k, v)" by (cases kv)
  obtain m where m: "n = Suc m" using Cons.prems by (cases n) auto
  have w: "length (dumps v) \<le> length (write_field kv)" by (simp add: kv write_field_def)
  show ?case
  proof (cases kvs)
    case Nil
    with Cons.prems m w read_fields_one [of v m "CHR ''}''" r k] kv show ?thesis by simp
  next
    case (Cons w ws)
    let ?rest = "join '','' (map write_field kvs)"
    have j: "join '','' (write_field kv # map write_field kvs) = write_field kv @ CHR '','' # ?rest" using Cons by simp
    have l: "2 * length (dumps v) \<le> m" "2 * length ?rest < m" using Cons.prems m w by (simp_all add: j)
    have "read_fields m (?rest @ CHR ''}'' # r) = Some (map (\<lambda>(k, v). (k, in_order v)) kvs, r)"
      using Cons.prems l Cons by (intro Cons.IH) auto
    with read_fields_one [of v m "CHR '',''" "?rest @ CHR ''}'' # r" k] Cons.prems l kv show ?thesis
      by (simp add: j [unfolded kv] m)
  qed
qed simp

lemma startswith_single: "startswith s [c] \<longleftrightarrow> s \<noteq> [] \<and> hd s = c"
  by (cases s) auto

lemma dumps_head: "json_ok v \<Longrightarrow> hd (dumps v) \<noteq> CHR '']''"
proof (cases v)
  case (JInt n)
  then show ?thesis using show_nat_digits [of "nat \<bar>n\<bar>"]
    by (cases "show_nat (nat \<bar>n\<bar>)") (auto simp: show_int_def ascii_digit_def split: if_splits)
next
  case (JFloat r)
  then show "json_ok v \<Longrightarrow> ?thesis" by (cases r) (auto simp: float_text_def ascii_digit_def split: if_splits)
qed (auto simp: json_quote_def)

lemma read_number_value:
  assumes "read_number (t @ r) = Some (v, r)" "t = c # t'" "ascii_digit c \<or> c = CHR ''-''" "0 < n"
  shows "read_value n (t @ r) = Some (v, r)"
proof -
  obtain m where "n = Suc m" using assms(4) by (cases n) auto
  with assms read_name_number [of "t @ r" c "t' @ r"] digit_not_special [of c] show ?thesis by auto
qed

lemma reads_back_all: "json_ok v \<Longrightarrow> reads_back v"
proof (induction v)
  case JNull
  show ?case unfolding reads_back_def
  proof (intro allI impI)
    fix n r
    assume "2 * length (dumps JNull) \<le> n"
    then obtain m where "n = Suc m" by (cases n) auto
    then show "read_value n (dumps JNull @ r) = Some (in_order JNull, r)" by (simp add: read_name_def)
  qed
next
  case (JBool b)
  show ?case unfolding reads_back_def
  proof (intro allI impI)
    fix n r
    assume "2 * length (dumps (JBool b)) \<le> n"
    then obtain m where "n = Suc m" by (cases n) (auto split: if_splits)
    then show "read_value n (dumps (JBool b) @ r) = Some (in_order (JBool b), r)" by (simp add: read_name_def)
  qed
next
  case (JInt k)
  obtain c t where ct: "show_int k = c # t" "ascii_digit c \<or> c = CHR ''-''"
    using show_nat_digits [of "nat \<bar>k\<bar>"] by (cases "show_nat (nat \<bar>k\<bar>)"; cases "k < 0") (auto simp: show_int_def)
  show ?case unfolding reads_back_def
    by (auto intro!: read_number_value [OF _ ct] read_number_int) (use ct in simp)
next
  case (JFloat t)
  then obtain c t' where ct: "t = c # t'" "ascii_digit c \<or> c = CHR ''-''"
    by (cases t) (auto simp: float_text_def split: if_splits)
  show ?case unfolding reads_back_def using JFloat
    by (auto intro!: read_number_value [OF _ ct] read_number_float) (use ct in simp)
next
  case (JStr t)
  show ?case unfolding reads_back_def
  proof (intro allI impI)
    fix n r
    assume "2 * length (dumps (JStr t)) \<le> n"
    then obtain m where "n = Suc m" by (cases n) (auto simp: json_quote_def)
    then show "read_value n (dumps (JStr t) @ r) = Some (in_order (JStr t), r)"
      by (simp add: json_quote_def read_string_quote)
  qed
next
  case (JList vs)
  show ?case unfolding reads_back_def
  proof (intro allI impI)
    fix n r
    assume n: "2 * length (dumps (JList vs)) \<le> n"
    then obtain m where m: "n = Suc m" by (cases n) auto
    show "read_value n (dumps (JList vs) @ r) = Some (in_order (JList vs), r)"
    proof (cases "vs = []")
      case True
      with m show ?thesis by simp
    next
      case False
      have "read_items m (join '','' (map dumps vs) @ CHR '']'' # r) = Some (map in_order vs, r)"
        using False JList n m by (intro read_items_join) (auto simp: list_all_iff)
      moreover have "\<not> startswith (join '','' (map dumps vs) @ CHR '']'' # r) '']''"
        using False JList.prems dumps_nonempty [of "hd vs"] dumps_head [of "hd vs"]
        by (cases vs; cases "tl vs") (auto simp: startswith_single)
      ultimately show ?thesis by (simp add: m)
    qed
  qed
next
  case (JObj kvs)
  have ok: "\<forall>(k, v)\<in>set (sort_key fst kvs). reads_back v" using JObj by (force simp: list_all_iff)
  have "distinct (map fst (sort_key fst kvs))" using JObj.prems by (simp add: distinct_map)
  then have d: "distinct (map fst (map (\<lambda>(k, v). (k, in_order v)) (sort_key fst kvs)))"
    by (simp add: comp_def split_beta)
  show ?case unfolding reads_back_def
  proof (intro allI impI)
    fix n r
    assume n: "2 * length (dumps (JObj kvs)) \<le> n"
    then obtain m where m: "n = Suc m" by (cases n) auto
    show "read_value n (dumps (JObj kvs) @ r) = Some (in_order (JObj kvs), r)"
    proof (cases "kvs = []")
      case True
      with m show ?thesis by simp
    next
      case False
      then have ne: "sort_key fst kvs \<noteq> []" by (metis length_0_conv length_sort)
      have "read_fields m (join '','' (map write_field (sort_key fst kvs)) @ CHR ''}'' # r)
        = Some (map (\<lambda>(k, v). (k, in_order v)) (sort_key fst kvs), r)"
        using ok n m by (intro read_fields_join ne) (auto simp: dumps_object simp del: dumps.simps)
      moreover have "\<not> startswith (join '','' (map write_field (sort_key fst kvs)) @ CHR ''}'' # r) ''}''"
        using ne by (cases "sort_key fst kvs"; cases "tl (sort_key fst kvs)") (auto simp: startswith_single write_field_def json_quote_def)
      ultimately show ?thesis
        by (simp add: m dumps_object in_order_object dict_of_distinct [OF d] del: dumps.simps in_order.simps)
    qed
  qed
qed

lemma loads_dumps: "json_ok v \<Longrightarrow> loads (dumps v) = Some (in_order v)"
  using reads_backD [OF reads_back_all, of v "2 * length (dumps v)" "[]"] by (simp add: loads_def)

lemma sort_key_idem: "sort_key f (sort_key f xs) = sort_key f xs"
  by (rule sort_key_id_if_sorted) (rule sorted_sort_key)

lemma dumps_in_order: "dumps (in_order v) = dumps v"
proof (induction v)
  case (JObj kvs)
  have "map (\<lambda>(k, v). (k, dumps v)) (map (\<lambda>(k, v). (k, in_order v)) kvs) = map (\<lambda>(k, v). (k, dumps v)) kvs"
    using JObj by (auto split: prod.splits)
  then show ?case by (simp only: in_order.simps dumps.simps sort_key_map_value [of dumps, symmetric])
      (simp add: sort_key_map_value sort_key_idem)
qed (auto cong: map_cong)

lemma in_order_ok: "json_ok v \<Longrightarrow> json_ok (in_order v)"
proof (induction v)
  case (JObj kvs)
  then show ?case by (force simp: distinct_map list_all_iff inj_on_def)
qed (auto simp: list_all_iff)

end
