(* ===== verification/Runtime_Values.thy ===== *)
theory Runtime_Values
  imports Json_Reader Policy
begin

text \<open>
  The values of the agent runtime (\<open>runtime/models.py\<close>, \<open>runtime/events.py\<close>): messages, tool
  calls, token usage and events; the canonical form of tool arguments
  (\<open>security/policy.py\<close>); the provider capabilities (\<open>runtime/capabilities.py\<close>) and the estimate
  of a request's size (\<open>runtime/monetary_budget.py\<close>).

  What a collaborator hands over is a Python value, a tree in which \<open>VBack\<close> is a reference to a
  container that is being traversed, \<open>VFloat\<close> carries whether the float is finite and its
  \<open>repr\<close>, and \<open>VOther\<close> is any object \<open>json\<close> does not know, with what \<open>str\<close> writes of it. Keys of
  a dictionary that are floats, booleans or \<open>None\<close> are not represented.
\<close>

subsection \<open>Python values\<close>

datatype py_key = KStr string | KInt int | KOther

datatype pyval =
    VNone
  | VBool bool
  | VInt int
  | VFloat bool string
  | VStr string
  | VDict "(py_key \<times> pyval) list"
  | VList "pyval list"
  | VTuple "pyval list"
  | VBack
  | VOther string

fun of_json :: "json \<Rightarrow> pyval" where
  "of_json JNull = VNone"
| "of_json (JBool b) = VBool b"
| "of_json (JInt n) = VInt n"
| "of_json (JFloat r) = VFloat True r"
| "of_json (JStr s) = VStr s"
| "of_json (JList vs) = VList (map of_json vs)"
| "of_json (JObj kvs) = VDict (map (\<lambda>(k, v). (KStr k, of_json v)) kvs)"

definition key_string :: "py_key \<Rightarrow> string option" where
  "key_string k = (case k of KStr s \<Rightarrow> Some s | _ \<Rightarrow> None)"

text \<open>\<open>None\<close> is a \<open>TypeError\<close> or \<open>ValueError\<close>.\<close>

fun canonical_json_value :: "pyval \<Rightarrow> json option" where
  "canonical_json_value VNone = Some JNull"
| "canonical_json_value (VBool b) = Some (JBool b)"
| "canonical_json_value (VInt n) = Some (JInt n)"
| "canonical_json_value (VFloat finite_float r) = (if finite_float then Some (JFloat r) else None)"
| "canonical_json_value (VStr s) = Some (JStr s)"
| "canonical_json_value (VDict kvs) =
     map_option JObj (those (map (\<lambda>(k, v).
       case key_string k of None \<Rightarrow> None | Some s \<Rightarrow> map_option (Pair s) (canonical_json_value v)) kvs))"
| "canonical_json_value (VList vs) = map_option JList (those (map canonical_json_value vs))"
| "canonical_json_value (VTuple vs) = None"
| "canonical_json_value VBack = None"
| "canonical_json_value (VOther t) = None"

definition canonical_arguments_snapshot :: "pyval \<Rightarrow> json option" where
  "canonical_arguments_snapshot arguments =
     (case canonical_json_value arguments of Some (JObj kvs) \<Rightarrow> Some (JObj kvs) | _ \<Rightarrow> None)"

definition canonical_arguments_hash :: "(string \<Rightarrow> string) \<Rightarrow> pyval \<Rightarrow> string option" where
  "canonical_arguments_hash sha256 arguments =
     map_option (\<lambda>normalized. sha256 (utf8 (dumps normalized))) (canonical_json_value arguments)"

text \<open>
  \<open>json.dumps(value, ensure_ascii=False, sort_keys=True, separators=(",", ":"), default=str)\<close>.
  Keys of different types cannot be sorted.
\<close>

definition float_json :: "bool \<Rightarrow> string \<Rightarrow> string" where
  "float_json finite_float r =
     (if finite_float then r
      else if r = ''nan'' then ''NaN'' else if r = ''inf'' then ''Infinity'' else ''-Infinity'')"

fun key_int :: "py_key \<Rightarrow> int option" where
  "key_int (KInt n) = Some n"
| "key_int _ = None"

definition sorted_keys :: "(py_key \<times> 'v) list \<Rightarrow> (string \<times> 'v) list option" where
  "sorted_keys kvs =
     (case those (map (\<lambda>(k, v). map_option (\<lambda>s. (s, v)) (key_string k)) kvs) of
        Some skvs \<Rightarrow> Some (sort_key fst skvs)
      | None \<Rightarrow>
          map_option (\<lambda>ikvs. map (\<lambda>(n, v). (show_int n, v)) (sort_key fst ikvs))
            (those (map (\<lambda>(k, v). map_option (\<lambda>n. (n, v)) (key_int k)) kvs)))"

fun py_dumps :: "pyval \<Rightarrow> string option" where
  "py_dumps VNone = Some ''null''"
| "py_dumps (VBool b) = Some (if b then ''true'' else ''false'')"
| "py_dumps (VInt n) = Some (show_int n)"
| "py_dumps (VFloat finite_float r) = Some (float_json finite_float r)"
| "py_dumps (VStr s) = Some (json_quote s)"
| "py_dumps (VList vs) = map_option (\<lambda>ts. ''['' @ join '','' ts @ '']'') (those (map py_dumps vs))"
| "py_dumps (VTuple vs) = map_option (\<lambda>ts. ''['' @ join '','' ts @ '']'') (those (map py_dumps vs))"
| "py_dumps (VDict kvs) =
     (case those (map (\<lambda>(k, v). map_option (Pair k) (py_dumps v)) kvs) of
        None \<Rightarrow> None
      | Some kts \<Rightarrow>
          map_option (\<lambda>fields. ''{'' @ join '','' (map (\<lambda>(k, t). json_quote k @ '':'' @ t) fields) @ ''}'')
            (sorted_keys kts))"
| "py_dumps VBack = None"
| "py_dumps (VOther t) = Some (json_quote t)"

text \<open>\<open>json.dumps(value, separators=(",", ":"))\<close> of a dictionary of texts.\<close>

definition dumps_texts :: "(string \<times> string) list \<Rightarrow> string" where
  "dumps_texts kvs =
     ascii_only (''{'' @ join '','' (map (\<lambda>(k, t). json_quote k @ '':'' @ json_quote t) kvs) @ ''}'')"

subsection \<open>Messages, tool calls and usage\<close>

datatype role = RSystem | RUser | RAssistant | RTool

definition role_value :: "role \<Rightarrow> string" where
  "role_value r = (case r of RSystem \<Rightarrow> ''system'' | RUser \<Rightarrow> ''user'' | RAssistant \<Rightarrow> ''assistant'' | RTool \<Rightarrow> ''tool'')"

record tool_call =
  tc_id :: string
  tc_name :: string
  tc_arguments :: pyval

record message =
  mg_role :: role
  mg_content :: string
  mg_tool_call_id :: "string option"
  mg_tool_calls :: "tool_call list"
  mg_images :: "string list"

definition text_message :: "role \<Rightarrow> string \<Rightarrow> message" where
  "text_message r content =
     \<lparr>mg_role = r, mg_content = content, mg_tool_call_id = None, mg_tool_calls = [], mg_images = []\<rparr>"

definition tool_message :: "string \<Rightarrow> string \<Rightarrow> message" where
  "tool_message content call_id =
     \<lparr>mg_role = RTool, mg_content = content, mg_tool_call_id = Some call_id, mg_tool_calls = [], mg_images = []\<rparr>"

record tool_definition =
  td_name :: string
  td_description :: string
  td_input_schema :: pyval

record token_usage =
  tu_input_tokens :: int
  tu_output_tokens :: int
  tu_cache_read :: "int option"
  tu_cache_write :: "int option"

definition no_usage :: token_usage where
  "no_usage = \<lparr>tu_input_tokens = 0, tu_output_tokens = 0, tu_cache_read = None, tu_cache_write = None\<rparr>"

definition usage_valid :: "token_usage \<Rightarrow> bool" where
  "usage_valid u =
     (0 \<le> tu_input_tokens u \<and> 0 \<le> tu_output_tokens u
      \<and> (case tu_cache_read u of None \<Rightarrow> True | Some n \<Rightarrow> 0 \<le> n)
      \<and> (case tu_cache_write u of None \<Rightarrow> True | Some n \<Rightarrow> 0 \<le> n))"

definition total_tokens :: "token_usage \<Rightarrow> int" where
  "total_tokens u = tu_input_tokens u + tu_output_tokens u"

definition add_optional :: "int option \<Rightarrow> int option \<Rightarrow> int option" where
  "add_optional left right =
     (if left = None \<and> right = None then None
      else Some ((case left of None \<Rightarrow> 0 | Some n \<Rightarrow> n) + (case right of None \<Rightarrow> 0 | Some n \<Rightarrow> n)))"

definition add_usage :: "token_usage \<Rightarrow> token_usage \<Rightarrow> token_usage" where
  "add_usage u v =
     \<lparr>tu_input_tokens = tu_input_tokens u + tu_input_tokens v,
      tu_output_tokens = tu_output_tokens u + tu_output_tokens v,
      tu_cache_read = add_optional (tu_cache_read u) (tu_cache_read v),
      tu_cache_write = add_optional (tu_cache_write u) (tu_cache_write v)\<rparr>"

subsection \<open>Provider capabilities\<close>

record provider_capabilities =
  pc_native_tools :: bool
  pc_images :: bool
  pc_json_mode :: bool
  pc_json_schema :: bool
  pc_prompt_caching :: bool
  pc_cache_usage :: bool
  pc_usage :: bool
  pc_stop_reason :: bool
  pc_streaming :: bool

definition capability_fields :: "(string \<times> (provider_capabilities \<Rightarrow> bool)) list" where
  "capability_fields =
     [(''native_tools'', pc_native_tools), (''images'', pc_images), (''json_mode'', pc_json_mode),
      (''json_schema'', pc_json_schema), (''prompt_caching'', pc_prompt_caching),
      (''cache_usage'', pc_cache_usage), (''usage'', pc_usage), (''stop_reason'', pc_stop_reason),
      (''streaming'', pc_streaming)]"

definition missing_capabilities :: "provider_capabilities \<Rightarrow> provider_capabilities \<Rightarrow> string list" where
  "missing_capabilities declared required =
     map fst (filter (\<lambda>(name, has). has required \<and> \<not> has declared) capability_fields)"

definition text_only :: provider_capabilities where
  "text_only = \<lparr>pc_native_tools = False, pc_images = False, pc_json_mode = False, pc_json_schema = False,
     pc_prompt_caching = False, pc_cache_usage = False, pc_usage = False, pc_stop_reason = False, pc_streaming = False\<rparr>"

text \<open>\<open>None\<close> when the provider declares nothing that is a \<open>ProviderCapabilities\<close>.\<close>

definition get_provider_capabilities :: "provider_capabilities option \<Rightarrow> provider_capabilities" where
  "get_provider_capabilities declared = (case declared of Some caps \<Rightarrow> caps | None \<Rightarrow> text_only)"

subsection \<open>Response contracts and the estimate of a request\<close>

text \<open>
  A contract carries what \<open>parse_and_validate\<close> answers: the value, or the code of the
  \<open>StructuredOutputError\<close>. The schema validator and the domain validator are third-party code.
\<close>

record response_contract =
  ct_schema_id :: string
  ct_schema_version :: string
  ct_json_schema :: json
  ct_max_output_bytes :: int
  ct_max_depth :: int
  ct_max_nodes :: int
  ct_parse :: "string \<Rightarrow> string + pyval"

definition utf8_length :: "string \<Rightarrow> int" where
  "utf8_length s = int (length (utf8 s))"

definition dumps_length :: "pyval \<Rightarrow> int option" where
  "dumps_length v = map_option utf8_length (py_dumps v)"

definition call_tokens :: "tool_call \<Rightarrow> int option" where
  "call_tokens call =
     map_option (\<lambda>n. 128 + n) (dumps_length (VList [VStr (tc_id call), VStr (tc_name call), tc_arguments call]))"

definition image_tokens :: "(string \<Rightarrow> bool) \<Rightarrow> string \<Rightarrow> int option" where
  "image_tokens image_ok uri = (if image_ok uri then Some (22000 + utf8_length uri) else None)"

definition sum_all :: "int option list \<Rightarrow> int option" where
  "sum_all ns = map_option sum_list (those ns)"

definition message_tokens :: "(string \<Rightarrow> bool) \<Rightarrow> message \<Rightarrow> int option" where
  "message_tokens image_ok m =
     sum_all
       (Some (128 + utf8_length (role_value (mg_role m)) + utf8_length (mg_content m)
              + (case mg_tool_call_id m of None \<Rightarrow> 0 | Some i \<Rightarrow> utf8_length i))
        # map (image_tokens image_ok) (mg_images m) @ map call_tokens (mg_tool_calls m))"

definition definition_tokens :: "tool_definition \<Rightarrow> int option" where
  "definition_tokens d =
     map_option (\<lambda>n. 256 + n)
       (dumps_length (VList [VStr (td_name d), VStr (td_description d), td_input_schema d]))"

definition contract_tokens :: "response_contract \<Rightarrow> int option" where
  "contract_tokens c =
     map_option (\<lambda>n. 1024 + n)
       (dumps_length (VList [VStr (ct_schema_id c), VStr (ct_schema_version c), of_json (ct_json_schema c),
          VInt (ct_max_output_bytes c), VInt (ct_max_depth c), VInt (ct_max_nodes c)]))"

text \<open>\<open>None\<close> when an image is refused or a value cannot be encoded.\<close>

definition estimate_request_input_tokens ::
  "(string \<Rightarrow> bool) \<Rightarrow> message list \<Rightarrow> tool_definition list \<Rightarrow> response_contract option \<Rightarrow> int option" where
  "estimate_request_input_tokens image_ok messages tools contract =
     sum_all
       (map (message_tokens image_ok) messages @ map definition_tokens tools
        @ (case contract of None \<Rightarrow> [] | Some c \<Rightarrow> [contract_tokens c]))"

subsection \<open>Events\<close>

datatype event_kind =
    RUN_STARTED | ITERATION_STARTED | MODEL_RESPONSE | BUDGET_BLOCKED | PROVIDER_CAPABILITY_REJECTED
  | STRUCTURED_OUTPUT_REJECTED | MODEL_PROGRESS | TEXT_DELTA | TOOL_CALL_REQUESTED | POLICY_DECIDED
  | TOOL_CALL_COMPLETED | TOOL_PROGRESS | APPROVAL_REQUIRED | APPROVAL_DECIDED | TOOL_DENIED
  | EVIDENCE_RETRIEVED | CLAIM_VERIFIED | GROUNDED_ANSWER | ORCHESTRATION_ROUTED
  | DELEGATION_REQUESTED | DELEGATION_COMPLETED | REFLECTION_STARTED | REFLECTION_VERDICT
  | REFLECTION_COMPLETED | RUN_STOPPED

record agent_event =
  ae_kind :: event_kind
  ae_iteration :: int
  ae_data :: "(string \<times> pyval) list"
  ae_usage :: token_usage

subsection \<open>Canonical arguments\<close>

text \<open>A value as Python has it: finite floats are written as such, the keys of a dictionary differ.\<close>

fun py_ok :: "pyval \<Rightarrow> bool" where
  "py_ok (VFloat finite_float r) = (finite_float \<longrightarrow> float_text r)"
| "py_ok (VDict kvs) = (distinct (map fst kvs) \<and> list_all (\<lambda>(k, v). py_ok v) kvs)"
| "py_ok (VList vs) = list_all py_ok vs"
| "py_ok (VTuple vs) = list_all py_ok vs"
| "py_ok _ = True"

lemma those_map: "(\<And>x. x \<in> set xs \<Longrightarrow> f x = Some (g x)) \<Longrightarrow> those (map f xs) = Some (map g xs)"
  by (induction xs) auto

lemma those_SomeD: "those (map f xs) = Some ys \<Longrightarrow> list_all2 (\<lambda>x y. f x = Some y) xs ys"
  by (induction xs arbitrary: ys) (auto split: option.splits)

lemma canonical_of_json: "canonical_json_value (of_json j) = Some j"
proof (induction j)
  case (JObj kvs)
  have "those (map (\<lambda>(k, v). case key_string k of None \<Rightarrow> None | Some s \<Rightarrow> map_option (Pair s) (canonical_json_value v))
      (map (\<lambda>(k, v). (KStr k, of_json v)) kvs)) = those (map Some kvs)"
    unfolding map_map by (rule arg_cong [of _ _ those], rule map_cong) (use JObj in \<open>auto simp: key_string_def\<close>)
  then show ?case by (simp add: those_map [of kvs Some "\<lambda>x. x"])
qed (auto simp: comp_def those_map [where g = "\<lambda>x. x"])

lemma canonical_ok: "py_ok v \<Longrightarrow> canonical_json_value v = Some j \<Longrightarrow> json_ok j"
proof (induction v arbitrary: j)
  case (VDict kvs)
  let ?field = "\<lambda>(k, v). case key_string k of None \<Rightarrow> None | Some s \<Rightarrow> map_option (Pair s) (canonical_json_value v)"
  from VDict.prems obtain ys where j: "j = JObj ys" and those: "those (map ?field kvs) = Some ys" by auto
  have ys: "list_all2 (\<lambda>(k, v) y. \<exists>s w. k = KStr s \<and> canonical_json_value v = Some w \<and> y = (s, w)) kvs ys"
    by (rule list_all2_mono [OF those_SomeD [OF those]])
      (auto simp: key_string_def split: option.splits py_key.splits prod.splits)
  have "map fst kvs = map (\<lambda>(s, w). KStr s) ys"
    using ys by (induction kvs ys rule: list_all2_induct) auto
  also have "\<dots> = map KStr (map fst ys)" by (simp add: split_beta comp_def)
  finally have "distinct (map KStr (map fst ys))" using VDict.prems by simp
  then have "distinct (map fst ys)" unfolding distinct_map [of KStr] by blast
  moreover have "list_all (\<lambda>(k, v). json_ok v) ys"
    unfolding list_all_iff
  proof
    fix y
    assume "y \<in> set ys"
    then obtain i where i: "i < length ys" "y = ys ! i" by (auto simp: in_set_conv_nth)
    with ys obtain s w where "fst (kvs ! i) = KStr s" "canonical_json_value (snd (kvs ! i)) = Some w" "y = (s, w)" "kvs ! i \<in> set kvs"
      by (auto simp: list_all2_conv_all_nth split_beta)
    with VDict show "case y of (k, v) \<Rightarrow> json_ok v" by (cases "kvs ! i") (fastforce simp: list_all_iff)
  qed
  ultimately show ?case by (simp add: j)
next
  case (VList vs)
  then obtain ys where j: "j = JList ys" and ys: "list_all2 (\<lambda>x y. canonical_json_value x = Some y) vs ys"
    by (auto dest: those_SomeD)
  have "list_all json_ok ys"
    using ys VList.IH VList.prems(1) by (induction vs ys rule: list_all2_induct) auto
  then show ?case by (simp add: j)
qed (auto split: if_splits)

lemma snapshot_cases: "canonical_arguments_snapshot v = Some j \<longleftrightarrow> canonical_json_value v = Some j \<and> (\<exists>kvs. j = JObj kvs)"
  by (auto simp: canonical_arguments_snapshot_def split: option.splits json.splits)

lemma py_dumps_of_json: "py_dumps (of_json j) = Some (dumps j)"
proof (induction j)
  case (JObj kvs)
  have "those (map (\<lambda>(k, v). map_option (Pair k) (py_dumps v)) (map (\<lambda>(k, v). (KStr k, of_json v)) kvs))
    = Some (map (\<lambda>(k, v). (KStr k, dumps v)) kvs)"
    unfolding map_map by (rule those_map) (use JObj in auto)
  moreover have "those (map (\<lambda>(k, v). map_option (\<lambda>s. (s, v)) (key_string k)) (map (\<lambda>(k, v). (KStr k, dumps v)) kvs))
    = Some (map (\<lambda>(k, v). (k, dumps v)) kvs)"
    unfolding map_map by (rule those_map) (auto simp: key_string_def)
  ultimately show ?case by (simp add: sorted_keys_def)
next
  case (JList vs)
  then have "those (map (py_dumps \<circ> of_json) vs) = Some (map dumps vs)" by (intro those_map) simp
  then show ?case by simp
qed (simp_all add: float_json_def)

end
