(* ===== verification/Agent_Runtime.thy ===== *)
theory Agent_Runtime
  imports Runtime_Monad Runtime_Values Approval_Repository
begin

text \<open>
  The agent loop (\<open>runtime/engine.py\<close>) and the deadline around it (\<open>runtime/deadline.py\<close>).

  The locals of \<open>_run\<close>, the deadline state and a trace of what the runtime did (newest first) are
  the state. Everything outside is the environment: the clock, the event sink, the model, the
  tools, the policy engine, the authorizer, the recorder. Each time the runtime asks it something
  a step number goes up, and what is answered is a function of that number, so that the answers
  of a collaborator may differ every time. A collaborator may also raise, never finish, or change
  an object it was handed: the tool call it was shown (\<open>rn_observe\<close>) and the authorization
  request (\<open>rn_request\<close>).

  An await that does not finish is cancelled: by the deadline that the runtime puts on the model
  and on a tool, or by the one around the whole run. A cancelled await raises where it stands, and
  what \<open>run\<close> does next comes after the clean-up of \<open>_run\<close>; a collaborator that swallows the
  cancellation is one that does not finish. Time is in ticks of the clock.
\<close>

subsection \<open>Data\<close>

datatype agent_stop =
    COMPLETED | CANCELLED | ITERATION_BUDGET_EXHAUSTED | TOOL_BUDGET_EXHAUSTED | TOKEN_BUDGET_EXHAUSTED
  | CONTEXT_BUDGET_EXHAUSTED | TIME_BUDGET_EXHAUSTED | POLICY_DENIED | APPROVAL_TIMEOUT
  | APPROVAL_UNAVAILABLE | PROVIDER_CAPABILITY_UNSUPPORTED | STRUCTURED_OUTPUT_INVALID
  | PROVIDER_LENGTH_LIMIT | PROVIDER_REFUSAL | PROVIDER_CONTENT_FILTER | MONETARY_BUDGET_EXHAUSTED
  | MODEL_CHARGE_DUPLICATE | MODEL_CHARGE_INDETERMINATE | PROVIDER_ERROR | ERROR

definition stop_value :: "agent_stop \<Rightarrow> string" where
  "stop_value r =
     (case r of
        COMPLETED \<Rightarrow> ''completed'' | CANCELLED \<Rightarrow> ''cancelled''
      | ITERATION_BUDGET_EXHAUSTED \<Rightarrow> ''iteration_budget_exhausted''
      | TOOL_BUDGET_EXHAUSTED \<Rightarrow> ''tool_budget_exhausted''
      | TOKEN_BUDGET_EXHAUSTED \<Rightarrow> ''token_budget_exhausted''
      | CONTEXT_BUDGET_EXHAUSTED \<Rightarrow> ''context_budget_exhausted''
      | TIME_BUDGET_EXHAUSTED \<Rightarrow> ''time_budget_exhausted''
      | POLICY_DENIED \<Rightarrow> ''policy_denied'' | APPROVAL_TIMEOUT \<Rightarrow> ''approval_timeout''
      | APPROVAL_UNAVAILABLE \<Rightarrow> ''approval_unavailable''
      | PROVIDER_CAPABILITY_UNSUPPORTED \<Rightarrow> ''provider_capability_unsupported''
      | STRUCTURED_OUTPUT_INVALID \<Rightarrow> ''structured_output_invalid''
      | PROVIDER_LENGTH_LIMIT \<Rightarrow> ''provider_length_limit'' | PROVIDER_REFUSAL \<Rightarrow> ''provider_refusal''
      | PROVIDER_CONTENT_FILTER \<Rightarrow> ''provider_content_filter''
      | MONETARY_BUDGET_EXHAUSTED \<Rightarrow> ''monetary_budget_exhausted''
      | MODEL_CHARGE_DUPLICATE \<Rightarrow> ''model_charge_duplicate''
      | MODEL_CHARGE_INDETERMINATE \<Rightarrow> ''model_charge_indeterminate''
      | PROVIDER_ERROR \<Rightarrow> ''provider_error'' | ERROR \<Rightarrow> ''error'')"

record runtime_budget =
  rb_max_iterations :: int
  rb_max_tool_calls :: int
  rb_max_tokens :: int
  rb_max_seconds :: int
  rb_max_tool_result_chars :: int
  rb_final_synthesis_tokens :: int
  rb_max_structured_retries :: int
  rb_max_context_tokens :: int
  rb_context_output_reserve_tokens :: int

definition budget_valid :: "runtime_budget \<Rightarrow> bool" where
  "budget_valid b =
     (\<not> rb_max_iterations b < 1
      \<and> \<not> (rb_max_tool_calls b < 0 \<or> rb_max_tokens b < 0 \<or> rb_max_seconds b \<le> 0)
      \<and> 0 \<le> rb_max_structured_retries b \<and> rb_max_structured_retries b \<le> 2
      \<and> \<not> (rb_max_context_tokens b < 1
           \<or> \<not> (0 \<le> rb_context_output_reserve_tokens b
                \<and> rb_context_output_reserve_tokens b < rb_max_context_tokens b)))"

type_synonym call_record = "(string \<times> pyval) list"

record agent_result =
  ar_content :: string
  ar_stop_reason :: agent_stop
  ar_iterations :: int
  ar_tool_calls :: "call_record list"
  ar_usage :: token_usage
  ar_error :: "string option"
  ar_structured_output :: pyval

text \<open>The exceptions the runtime tells apart, with the type and the text of any other one.\<close>

datatype run_exc =
    XDeadline
  | XTimeout string
  | XBudgetExhausted
  | XDuplicateCharge
  | XIndeterminateCharge
  | XChargeState
  | XUnsupported "string list" string
  | XCancelled
  | XRaised string string

fun exc_type :: "run_exc \<Rightarrow> string" where
  "exc_type XDeadline = ''DeadlineExceededError''"
| "exc_type (XTimeout t) = ''TimeoutError''"
| "exc_type XBudgetExhausted = ''ModelBudgetExhausted''"
| "exc_type XDuplicateCharge = ''DuplicateModelCharge''"
| "exc_type XIndeterminateCharge = ''IndeterminateModelCharge''"
| "exc_type XChargeState = ''DurableModelChargeStateError''"
| "exc_type (XUnsupported caps t) = ''UnsupportedProviderCapability''"
| "exc_type XCancelled = ''CancelledError''"
| "exc_type (XRaised ty t) = ty"

fun exc_text :: "run_exc \<Rightarrow> string" where
  "exc_text XDeadline = ''deadline_exceeded''"
| "exc_text (XTimeout t) = t"
| "exc_text XBudgetExhausted = ''model_budget_exhausted''"
| "exc_text XDuplicateCharge = ''duplicate_model_charge''"
| "exc_text XIndeterminateCharge = ''indeterminate_model_charge''"
| "exc_text XChargeState = ''durable_model_charge_state_error''"
| "exc_text (XUnsupported caps t) = t"
| "exc_text XCancelled = []"
| "exc_text (XRaised ty t) = t"

text \<open>The stop of a durable charge error, \<open>None\<close> for any other exception.\<close>

fun budget_stop :: "run_exc \<Rightarrow> agent_stop option" where
  "budget_stop XBudgetExhausted = Some MONETARY_BUDGET_EXHAUSTED"
| "budget_stop XDuplicateCharge = Some MODEL_CHARGE_DUPLICATE"
| "budget_stop XIndeterminateCharge = Some MODEL_CHARGE_INDETERMINATE"
| "budget_stop XChargeState = Some MODEL_CHARGE_INDETERMINATE"
| "budget_stop _ = None"

datatype 'a answer = Returned 'a | Threw run_exc | NotDone

text \<open>A tool call as the provider's response holds it; \<open>None\<close> is an attribute that is not a string or cannot be read.\<close>

record raw_call =
  rc_id :: "string option"
  rc_name :: "string option"
  rc_arguments :: "pyval option"

record model_response =
  rs_content :: "string option"
  rs_tool_calls :: "raw_call list"
  rs_usage :: token_usage
  rs_stop_reason :: "string option"
  rs_actual_provider :: "string option"
  rs_actual_model :: "string option"

record native_binding =
  nb_tool_call_id :: string
  nb_tool_name :: string
  nb_arguments_hash :: string
  nb_arguments_json :: string

record execution_binding =
  xb_tool_call_id :: string
  xb_tool_name :: string
  xb_arguments_hash :: string
  xb_arguments_json :: string
  xb_request :: policy_request
  xb_action :: policy_action
  xb_risk_classes :: "risk_class set"
  xb_matched_rule_id :: "string option"
  xb_reason :: string

record call_copies =
  cc_binding :: native_binding
  cc_history_call :: tool_call
  cc_execution_call :: tool_call

datatype authorizer_kind = NoAuthorizer | PlainAuthorizer | PreparatoryAuthorizer

datatype action =
    Emitted agent_event
  | CalledModel "message list" "tool_definition list" int
  | Received model_response
  | Executed tool_call
  | AskedPolicy tool_call
  | Decided native_binding policy_request policy_decision
  | Prepared auth_request
  | Authorized auth_request "auth_outcome option answer"
  | Withdrawn auth_request
  | AskedHook tool_call
  | Reflected string
  | Captured string
  | RecordedResult string

text \<open>The arguments of \<open>persist_terminal\<close>, its stages, and the task that runs it.\<close>

record terminal_args =
  ta_reason :: agent_stop
  ta_content :: string
  ta_iterations :: int
  ta_usage :: token_usage
  ta_error :: "string option"

datatype stage = Capture | RecordResult | EmitStopped

datatype terminal_task = TaskPending stage "stage list" terminal_args | TaskDone "run_exc option"

record runtime_state =
  rt_step :: nat
  rt_trace :: "action list"
  rt_history :: "message list"
  rt_iterations :: int
  rt_calls :: "call_record list"
  rt_seen :: "string set"
  rt_usage :: token_usage
  rt_content :: string
  rt_structured :: pyval
  rt_retries :: int
  rt_final_content :: string
  rt_final_usage :: token_usage
  ds_deadline :: int
  ds_terminal_started :: bool
  ds_terminal_persisted :: bool
  ds_terminal_reason :: "agent_stop option"
  ds_terminal_error :: "string option"
  ds_content :: string
  ds_iterations :: int
  ds_calls :: "call_record list"
  ds_usage :: "token_usage option"
  ds_structured :: pyval
  ds_task :: "terminal_task option"

type_synonym 'a run_prog = "(runtime_state, run_exc, 'a) prog"

text \<open>The runtime's configuration, the arguments of the run, and the collaborators.\<close>

record runtime_env =
  rn_budget :: runtime_budget
  rn_policy_mode :: bool
  rn_policy_aware :: bool
  rn_authorizer :: authorizer_kind
  rn_approval_timeout :: int
  rn_has_hook :: bool
  rn_requires_approval :: "string \<Rightarrow> bool"
  rn_has_recorder :: bool
  rn_has_capture :: bool
  rn_compliance :: "(string \<Rightarrow> string) option"
  rn_reflection_enabled :: bool
  rn_capabilities :: "provider_capabilities option"
  rn_tools :: "tool_definition list"
  rn_messages :: "message list"
  rn_contract :: "response_contract option"
  rn_required :: "provider_capabilities option"
  rn_sha256 :: "string \<Rightarrow> string"
  rn_image_ok :: "string \<Rightarrow> bool"
  rn_clock :: "nat \<Rightarrow> int"
  rn_emit :: "nat \<Rightarrow> agent_event \<Rightarrow> unit answer"
  rn_complete :: "nat \<Rightarrow> message list \<Rightarrow> model_response answer"
  rn_execute :: "nat \<Rightarrow> tool_call \<Rightarrow> (py_key \<times> pyval) list answer"
  rn_policy_request :: "nat \<Rightarrow> tool_call \<Rightarrow> policy_request option"
  rn_observe :: "nat \<Rightarrow> tool_call \<Rightarrow> tool_call option"
  rn_evaluate :: "nat \<Rightarrow> policy_request \<Rightarrow> policy_decision option"
  rn_prepare :: "nat \<Rightarrow> auth_request \<Rightarrow> unit answer"
  rn_request :: "nat \<Rightarrow> auth_request \<Rightarrow> auth_request"
  rn_authorize :: "nat \<Rightarrow> auth_request \<Rightarrow> auth_outcome option answer"
  rn_withdraw :: "nat \<Rightarrow> auth_request \<Rightarrow> unit answer"
  rn_hook :: "nat \<Rightarrow> tool_call \<Rightarrow> bool answer"
  rn_reflect :: "nat \<Rightarrow> string \<Rightarrow> (string \<times> token_usage) answer"
  rn_capture :: "nat \<Rightarrow> string \<Rightarrow> run_exc option"
  rn_record :: "nat \<Rightarrow> string \<Rightarrow> unit answer"
  rn_resume :: "nat \<Rightarrow> unit answer"
  rn_deadline_fired :: "nat \<Rightarrow> bool"
  rn_grace_over :: "nat \<Rightarrow> bool"

subsection \<open>Asking the environment\<close>

definition ask :: "(nat \<Rightarrow> 'a) \<Rightarrow> 'a run_prog" where
  "ask f = (\<lambda>s. (Inr (f (rt_step s)), s\<lparr>rt_step := Suc (rt_step s)\<rparr>))"

definition log_action :: "action \<Rightarrow> unit run_prog" where
  "log_action a = modify (\<lambda>s. s\<lparr>rt_trace := a # rt_trace s\<rparr>)"

text \<open>An await without a deadline of its own: what does not finish is cancelled.\<close>

definition settle :: "'a answer \<Rightarrow> 'a run_prog" where
  "settle r = (case r of Returned a \<Rightarrow> ret a | Threw x \<Rightarrow> throw x | NotDone \<Rightarrow> throw XCancelled)"

definition clock :: "runtime_env \<Rightarrow> int run_prog" where
  "clock e = ask (rn_clock e)"

definition expired :: "runtime_env \<Rightarrow> int \<Rightarrow> bool run_prog" where
  "expired e started = bind (clock e) (\<lambda>now. ret (now - started \<ge> rb_max_seconds (rn_budget e)))"

text \<open>\<open>await_before_deadline\<close>: the operation is not started when the deadline has passed.\<close>

definition await_before_deadline :: "runtime_env \<Rightarrow> int \<Rightarrow> 'a answer run_prog \<Rightarrow> 'a run_prog" where
  "await_before_deadline e deadline operation =
     bind (clock e) (\<lambda>now.
     if deadline - now \<le> 0 then throw XDeadline
     else
       seq (clock e)
       (bind operation (\<lambda>r.
        case r of
          NotDone \<Rightarrow> throw XDeadline
        | Returned a \<Rightarrow> bind (clock e) (\<lambda>late. if late \<ge> deadline then throw XDeadline else ret a)
        | Threw x \<Rightarrow>
            bind (clock e) (\<lambda>late. if late \<ge> deadline \<and> x \<noteq> XCancelled then throw XDeadline else throw x))))"

definition within_deadline :: "runtime_env \<Rightarrow> int \<Rightarrow> 'a answer run_prog \<Rightarrow> 'a run_prog" where
  "within_deadline e started operation = await_before_deadline e (started + rb_max_seconds (rn_budget e)) operation"

definition observe :: "runtime_env \<Rightarrow> tool_call \<Rightarrow> tool_call option run_prog" where
  "observe e call = ask (\<lambda>n. rn_observe e n call)"

subsection \<open>Events\<close>

definition cache_fields :: "event_kind \<Rightarrow> token_usage \<Rightarrow> (string \<times> pyval) list" where
  "cache_fields kind u =
     (if kind = MODEL_RESPONSE \<or> kind = RUN_STOPPED
      then (case tu_cache_read u of None \<Rightarrow> [] | Some n \<Rightarrow> [(''cache_read_input_tokens'', VInt n)])
           @ (case tu_cache_write u of None \<Rightarrow> [] | Some n \<Rightarrow> [(''cache_write_input_tokens'', VInt n)])
      else [])"

definition new_agent_event :: "event_kind \<Rightarrow> int \<Rightarrow> (string \<times> pyval) list \<Rightarrow> token_usage \<Rightarrow> agent_event" where
  "new_agent_event kind iteration_number data u =
     \<lparr>ae_kind = kind, ae_iteration = iteration_number, ae_data = data @ cache_fields kind u, ae_usage = u\<rparr>"

text \<open>The emission of any event but \<open>RUN_STOPPED\<close>, which only the terminal task emits.\<close>

definition emit_usage :: "runtime_env \<Rightarrow> event_kind \<Rightarrow> int \<Rightarrow> (string \<times> pyval) list \<Rightarrow> token_usage \<Rightarrow> unit run_prog" where
  "emit_usage e kind iteration_number data u =
     (let event = new_agent_event kind iteration_number data u in
      seq (log_action (Emitted event))
      (bind (ask (\<lambda>n. rn_emit e n event)) (\<lambda>r.
       seq (settle r)
       (bind (clock e) (\<lambda>now.
        bind (reads ds_deadline) (\<lambda>deadline.
        if now \<ge> deadline then throw XDeadline else ret ()))))))"

definition emit :: "runtime_env \<Rightarrow> event_kind \<Rightarrow> (string \<times> pyval) list \<Rightarrow> unit run_prog" where
  "emit e kind data = bind (reads rt_iterations) (\<lambda>i. emit_usage e kind i data no_usage)"

subsection \<open>Stopping\<close>

definition comply :: "runtime_env \<Rightarrow> string \<Rightarrow> string" where
  "comply e content = (case rn_compliance e of None \<Rightarrow> content | Some enforce_output \<Rightarrow> enforce_output content)"

definition stopped_event :: "terminal_args \<Rightarrow> agent_event" where
  "stopped_event a =
     new_agent_event RUN_STOPPED (ta_iterations a)
       [(''reason'', VStr (stop_value (ta_reason a))),
        (''error'', case ta_error a of None \<Rightarrow> VNone | Some t \<Rightarrow> VStr t)]
       (ta_usage a)"

definition perform :: "runtime_env \<Rightarrow> terminal_args \<Rightarrow> stage \<Rightarrow> unit answer run_prog" where
  "perform e a st =
     (case st of
        Capture \<Rightarrow>
          seq (log_action (Captured (ta_content a)))
          (bind (ask (\<lambda>n. rn_capture e n (ta_content a))) (\<lambda>r.
           ret (case r of None \<Rightarrow> Returned () | Some x \<Rightarrow> Threw x)))
      | RecordResult \<Rightarrow>
          seq (log_action (RecordedResult (ta_content a))) (ask (\<lambda>n. rn_record e n (ta_content a)))
      | EmitStopped \<Rightarrow>
          seq (log_action (Emitted (stopped_event a))) (ask (\<lambda>n. rn_emit e n (stopped_event a))))"

definition stage_done :: "stage \<Rightarrow> unit run_prog" where
  "stage_done st =
     (if st = EmitStopped then modify (\<lambda>s. s\<lparr>ds_terminal_persisted := True\<rparr>) else ret ())"

text \<open>The task from a stage on; an await that does not finish leaves it pending there.\<close>

fun run_stages :: "runtime_env \<Rightarrow> terminal_args \<Rightarrow> stage list \<Rightarrow> terminal_task run_prog" where
  "run_stages e a [] = ret (TaskDone None)"
| "run_stages e a (st # rest) =
     bind (perform e a st) (\<lambda>r.
     case r of
       Returned _ \<Rightarrow> seq (stage_done st) (run_stages e a rest)
     | Threw x \<Rightarrow> ret (TaskDone (Some x))
     | NotDone \<Rightarrow> ret (TaskPending st rest a))"

definition stages :: "runtime_env \<Rightarrow> bool \<Rightarrow> stage list" where
  "stages e record_result =
     (if rn_has_capture e then [Capture] else [])
     @ (if record_result \<and> rn_has_recorder e then [RecordResult] else []) @ [EmitStopped]"

definition set_task :: "terminal_task \<Rightarrow> unit run_prog" where
  "set_task t = modify (\<lambda>s. s\<lparr>ds_task := Some t\<rparr>)"

text \<open>A pending task goes on: the await it stands at ends in one of the three ways.\<close>

definition resume_task :: "runtime_env \<Rightarrow> unit run_prog" where
  "resume_task e =
     bind (reads ds_task) (\<lambda>t.
     case t of
       Some (TaskPending st rest a) \<Rightarrow>
         bind (ask (rn_resume e)) (\<lambda>r.
         case r of
           Returned _ \<Rightarrow> seq (stage_done st) (bind (run_stages e a rest) set_task)
         | Threw x \<Rightarrow> set_task (TaskDone (Some x))
         | NotDone \<Rightarrow> ret ())
     | _ \<Rightarrow> ret ())"

text \<open>\<open>await asyncio.shield(terminal_task)\<close> once the task has run as far as it goes.\<close>

definition shield :: "unit run_prog" where
  "shield =
     bind (reads ds_task) (\<lambda>t.
     case t of
       Some (TaskDone None) \<Rightarrow> ret ()
     | Some (TaskDone (Some x)) \<Rightarrow> throw x
     | _ \<Rightarrow> throw XCancelled)"

definition start_terminal :: "agent_stop \<Rightarrow> string \<Rightarrow> int \<Rightarrow> call_record list \<Rightarrow> token_usage \<Rightarrow> string option \<Rightarrow> pyval \<Rightarrow> unit run_prog" where
  "start_terminal reason content iterations calls u error structured =
     modify (\<lambda>s. s\<lparr>ds_terminal_started := True, ds_terminal_reason := Some reason, ds_terminal_error := error,
       ds_structured := structured, ds_content := content, ds_iterations := iterations, ds_calls := calls,
       ds_usage := Some u\<rparr>)"

definition terminal_result :: "agent_stop \<Rightarrow> runtime_state \<Rightarrow> token_usage \<Rightarrow> agent_result" where
  "terminal_result reason s u =
     \<lparr>ar_content = ds_content s,
      ar_stop_reason = (case ds_terminal_reason s of Some r \<Rightarrow> r | None \<Rightarrow> reason),
      ar_iterations = ds_iterations s, ar_tool_calls = ds_calls s,
      ar_usage = (case ds_usage s of Some v \<Rightarrow> v | None \<Rightarrow> u),
      ar_error = ds_terminal_error s, ar_structured_output = ds_structured s\<rparr>"

text \<open>\<open>_stop\<close>: the first one fixes the outcome, every other one awaits and reports the same.\<close>

definition stop_run ::
  "runtime_env \<Rightarrow> agent_stop \<Rightarrow> string \<Rightarrow> int \<Rightarrow> call_record list \<Rightarrow> token_usage \<Rightarrow> string option \<Rightarrow> pyval \<Rightarrow> bool
     \<Rightarrow> agent_result run_prog" where
  "stop_run e reason content iterations calls u error structured record_result =
     seq (bind (reads ds_terminal_started) (\<lambda>again.
          if again then ret ()
          else start_terminal reason (comply e content) iterations calls u error structured))
     (bind (reads (terminal_result reason)) (\<lambda>outcome.
      let res = outcome u in
      seq (bind (reads ds_task) (\<lambda>t.
           case t of
             None \<Rightarrow>
               bind (run_stages e \<lparr>ta_reason = ar_stop_reason res, ta_content = ar_content res,
                                   ta_iterations = ar_iterations res, ta_usage = ar_usage res,
                                   ta_error = ar_error res\<rparr> (stages e record_result)) set_task
           | Some _ \<Rightarrow> resume_task e))
      (seq shield
      (seq (modify (\<lambda>s. s\<lparr>ds_terminal_persisted := True\<rparr>))
       (ret res)))))"

text \<open>\<open>_stop\<close> as the loop calls it, with its locals.\<close>

definition stop_now :: "runtime_env \<Rightarrow> agent_stop \<Rightarrow> string option \<Rightarrow> pyval \<Rightarrow> agent_result run_prog" where
  "stop_now e reason error structured =
     bind (reads id) (\<lambda>s. stop_run e reason (rt_content s) (rt_iterations s) (rt_calls s) (rt_usage s) error structured True)"

text \<open>\<open>_stop\<close> as \<open>_finalize\<close> calls it.\<close>

definition stop_final :: "runtime_env \<Rightarrow> agent_stop \<Rightarrow> string option \<Rightarrow> pyval \<Rightarrow> agent_result run_prog" where
  "stop_final e reason error structured =
     bind (reads id) (\<lambda>s. stop_run e reason (rt_final_content s) (rt_iterations s) (rt_calls s) (rt_final_usage s) error structured True)"

definition stop_for_budget_error ::
  "runtime_env \<Rightarrow> (agent_stop \<Rightarrow> string option \<Rightarrow> pyval \<Rightarrow> agent_result run_prog) \<Rightarrow> agent_stop \<Rightarrow> string \<Rightarrow> agent_result run_prog" where
  "stop_for_budget_error e stop reason code =
     seq (emit e BUDGET_BLOCKED [(''code'', VStr code), (''stop_reason'', VStr (stop_value reason))])
     (stop reason (Some code) VNone)"

definition reject_provider_capabilities ::
  "runtime_env \<Rightarrow> (agent_stop \<Rightarrow> string option \<Rightarrow> pyval \<Rightarrow> agent_result run_prog) \<Rightarrow> string list \<Rightarrow> agent_result run_prog" where
  "reject_provider_capabilities e stop missing =
     seq (emit e PROVIDER_CAPABILITY_REJECTED
            [(''code'', VStr ''provider_capability_unsupported''),
             (''missing_capabilities'', VTuple (map VStr missing))])
     (stop PROVIDER_CAPABILITY_UNSUPPORTED
        (Some (''provider_capability_unsupported:'' @ join '','' missing)) VNone)"

definition safe_missing_capability_names :: "string list \<Rightarrow> string list" where
  "safe_missing_capability_names reported = filter (\<lambda>name. name \<in> set reported) (map fst capability_fields)"

definition provider_requirements :: "runtime_env \<Rightarrow> provider_capabilities" where
  "provider_requirements e =
     (let explicit = (case rn_required e of Some r \<Rightarrow> r | None \<Rightarrow> text_only) in
      explicit\<lparr>pc_native_tools := pc_native_tools explicit \<or> rn_tools e \<noteq> [],
               pc_images := pc_images explicit \<or> list_ex (\<lambda>m. mg_images m \<noteq> []) (rn_messages e),
               pc_json_mode := pc_json_mode explicit \<or> rn_contract e \<noteq> None\<rparr>)"

definition normalize_provider_stop_reason :: "string option \<Rightarrow> bool \<Rightarrow> agent_stop option" where
  "normalize_provider_stop_reason reason has_tool_calls =
     (let normalized = (case reason of Some r \<Rightarrow> str_lower (strip r) | None \<Rightarrow> []) in
      if normalized \<in> {''tool_use'', ''tool_calls''}
      then (if has_tool_calls then None else Some PROVIDER_ERROR)
      else if normalized \<in> {[], ''stop'', ''end_turn'', ''stop_sequence'', ''completed''} then Some COMPLETED
      else if normalized \<in> {''max_tokens'', ''length'', ''max_output_tokens''} then Some PROVIDER_LENGTH_LIMIT
      else if normalized = ''refusal'' then Some PROVIDER_REFUSAL
      else if normalized \<in> {''content_filter'', ''safety'', ''blocked''} then Some PROVIDER_CONTENT_FILTER
      else Some PROVIDER_ERROR)"

subsection \<open>Snapshots\<close>

definition snapshot_history :: "message list \<Rightarrow> message list" where
  "snapshot_history messages =
     map (\<lambda>m. \<lparr>mg_role = mg_role m, mg_content = mg_content m, mg_tool_call_id = mg_tool_call_id m,
               mg_tool_calls = map (\<lambda>c. \<lparr>tc_id = tc_id c, tc_name = tc_name c, tc_arguments = tc_arguments c\<rparr>) (mg_tool_calls m),
               mg_images = mg_images m\<rparr>) messages"

definition safe_text :: "string option \<Rightarrow> string" where
  "safe_text raw = (case raw of Some t \<Rightarrow> if t \<noteq> [] then t else ''unavailable'' | None \<Rightarrow> ''unavailable'')"

text \<open>The copies of a call in policy mode and without: \<open>None\<close> is any exception.\<close>

definition native_copies :: "string \<Rightarrow> string \<Rightarrow> string \<Rightarrow> string \<Rightarrow> pyval \<Rightarrow> call_copies" where
  "native_copies call_id name hash text arguments =
     \<lparr>cc_binding = \<lparr>nb_tool_call_id = call_id, nb_tool_name = name, nb_arguments_hash = hash, nb_arguments_json = text\<rparr>,
      cc_history_call = \<lparr>tc_id = call_id, tc_name = name, tc_arguments = arguments\<rparr>,
      cc_execution_call = \<lparr>tc_id = call_id, tc_name = name, tc_arguments = arguments\<rparr>\<rparr>"

definition policy_copies :: "(string \<Rightarrow> string) \<Rightarrow> string \<Rightarrow> string \<Rightarrow> pyval \<Rightarrow> call_copies option" where
  "policy_copies sha256 call_id name raw =
     (if canonical_tool False name \<noteq> Some name then None
      else
        (case canonical_arguments_snapshot raw of
           None \<Rightarrow> None
         | Some arguments \<Rightarrow>
             (case canonical_arguments_hash sha256 (of_json arguments) of
                None \<Rightarrow> None
              | Some hash \<Rightarrow> Some (native_copies call_id name hash (dumps arguments) (of_json arguments)))))"

definition legacy_copies :: "(string \<Rightarrow> string) \<Rightarrow> string \<Rightarrow> string \<Rightarrow> pyval \<Rightarrow> call_copies option" where
  "legacy_copies sha256 call_id name raw =
     (case raw of
        VDict kvs \<Rightarrow>
          map_option (\<lambda>text. native_copies call_id name (sha256 (utf8 text)) text raw) (py_dumps raw)
      | _ \<Rightarrow> None)"

definition snapshot_call :: "(string \<Rightarrow> string) \<Rightarrow> bool \<Rightarrow> raw_call \<Rightarrow> (string \<times> string) + call_copies" where
  "snapshot_call sha256 policy_mode raw =
     (let safe_id = safe_text (rc_id raw); safe_name = safe_text (rc_name raw);
          copies =
            (if rc_id raw \<noteq> Some safe_id \<or> rc_name raw \<noteq> Some safe_name then None
             else case rc_arguments raw of
                None \<Rightarrow> None
              | Some arguments \<Rightarrow>
                  (if policy_mode then policy_copies else legacy_copies) sha256 safe_id safe_name arguments)
      in case copies of None \<Rightarrow> Inl (safe_id, safe_name) | Some c \<Rightarrow> Inr c)"

fun snapshot_provider_tool_calls ::
  "(string \<Rightarrow> string) \<Rightarrow> bool \<Rightarrow> raw_call list \<Rightarrow> (string \<times> string) + call_copies list" where
  "snapshot_provider_tool_calls sha256 policy_mode [] = Inr []"
| "snapshot_provider_tool_calls sha256 policy_mode (raw # rest) =
     (case snapshot_call sha256 policy_mode raw of
        Inl bad \<Rightarrow> Inl bad
      | Inr c \<Rightarrow> map_sum id (Cons c) (snapshot_provider_tool_calls sha256 policy_mode rest))"

text \<open>The key of a call, by which a repeated call is recognised.\<close>

definition call_key :: "tool_call \<Rightarrow> string option" where
  "call_key call = map_option ascii_only (py_dumps (VList [VStr (tc_name call), tc_arguments call]))"

subsection \<open>Denials\<close>

definition record_denial :: "runtime_env \<Rightarrow> string \<Rightarrow> string \<Rightarrow> string \<Rightarrow> string option \<Rightarrow> unit run_prog" where
  "record_denial e call_id name reason_code hash =
     seq (modify (\<lambda>s. s\<lparr>rt_calls := rt_calls s @
            [[(''tool'', VStr name), (''parameters'', VDict []),
              (''result'', VDict [(KStr ''error'', VStr ''Tool call denied''), (KStr ''reason_code'', VStr reason_code)]),
              (''status'', VStr ''denied'')]]\<rparr>))
     (emit e TOOL_DENIED
        ([(''id'', VStr call_id), (''name'', VStr name), (''reason_code'', VStr reason_code)]
         @ (case hash of None \<Rightarrow> [] | Some h \<Rightarrow> [(''arguments_hash'', VStr h)])))"

definition emit_policy_failure :: "runtime_env \<Rightarrow> string \<Rightarrow> string \<Rightarrow> string \<Rightarrow> string option \<Rightarrow> unit run_prog" where
  "emit_policy_failure e call_id name reason_code hash =
     emit e POLICY_DECIDED
       ([(''id'', VStr call_id), (''name'', VStr name), (''action'', VStr (action_value DENY)),
         (''reason_code'', VStr reason_code)]
        @ (case hash of None \<Rightarrow> [] | Some h \<Rightarrow> [(''arguments_hash'', VStr h)]))"

definition emit_approval_failure :: "runtime_env \<Rightarrow> string \<Rightarrow> string \<Rightarrow> string \<Rightarrow> string \<Rightarrow> unit run_prog" where
  "emit_approval_failure e call_id name hash reason_code =
     emit e APPROVAL_DECIDED
       [(''id'', VStr call_id), (''name'', VStr name), (''arguments_hash'', VStr hash),
        (''approved'', VBool False), (''reason_code'', VStr reason_code)]"

text \<open>A refusal by policy and one on the way to an approval.\<close>

definition refuse_policy :: "runtime_env \<Rightarrow> native_binding \<Rightarrow> string \<Rightarrow> (agent_stop + 'b) run_prog" where
  "refuse_policy e nb reason_code =
     seq (emit_policy_failure e (nb_tool_call_id nb) (nb_tool_name nb) reason_code (Some (nb_arguments_hash nb)))
     (seq (record_denial e (nb_tool_call_id nb) (nb_tool_name nb) reason_code (Some (nb_arguments_hash nb)))
      (ret (Inl POLICY_DENIED)))"

definition deny :: "runtime_env \<Rightarrow> native_binding \<Rightarrow> string \<Rightarrow> agent_stop \<Rightarrow> (agent_stop + 'b) run_prog" where
  "deny e nb reason_code reason =
     seq (record_denial e (nb_tool_call_id nb) (nb_tool_name nb) reason_code (Some (nb_arguments_hash nb)))
     (ret (Inl reason))"

definition refuse_approval :: "runtime_env \<Rightarrow> native_binding \<Rightarrow> string \<Rightarrow> agent_stop \<Rightarrow> (agent_stop + 'b) run_prog" where
  "refuse_approval e nb reason_code reason =
     seq (emit_approval_failure e (nb_tool_call_id nb) (nb_tool_name nb) (nb_arguments_hash nb) reason_code)
     (deny e nb reason_code reason)"

subsection \<open>Policy enforcement\<close>

definition binding_matches :: "(string \<Rightarrow> string) \<Rightarrow> native_binding \<Rightarrow> tool_call \<Rightarrow> bool" where
  "binding_matches sha256 nb call =
     (tc_id call = nb_tool_call_id nb \<and> tc_name call = nb_tool_name nb
      \<and> canonical_tool False (tc_name call) = Some (nb_tool_name nb)
      \<and> canonical_arguments_hash sha256 (tc_arguments call) = Some (nb_arguments_hash nb))"

definition ask_policy_request :: "runtime_env \<Rightarrow> tool_call \<Rightarrow> policy_request option run_prog" where
  "ask_policy_request e call =
     seq (log_action (AskedPolicy call)) (ask (\<lambda>n. rn_policy_request e n call))"

definition risk_values :: "risk_class set \<Rightarrow> pyval" where
  "risk_values risks =
     VList (map (\<lambda>(r, t). VStr t) (filter (\<lambda>(r, t). r \<in> risks)
       [(EXECUTE, ''execute''), (EXTERNAL_SIDE_EFFECT, ''external_side_effect''), (NETWORK, ''network''),
        (READ, ''read''), (SECRET, ''secret''), (WRITE, ''write'')]))"

definition decision_reason_code :: "policy_action \<Rightarrow> string" where
  "decision_reason_code a =
     (case a of ALLOW \<Rightarrow> ''policy_allowed'' | ASK \<Rightarrow> ''approval_required'' | DENY \<Rightarrow> ''policy_denied'')"

definition rule_id_shown :: "string \<Rightarrow> bool" where
  "rule_id_shown t = (t \<noteq> [] \<and> length t \<le> 128 \<and> list_all (\<lambda>c. ascii_alnum c \<or> c \<in> {CHR ''_'', CHR ''.'', CHR '':'', CHR ''-''}) t)"

definition policy_data :: "native_binding \<Rightarrow> policy_decision \<Rightarrow> (string \<times> pyval) list" where
  "policy_data nb d =
     [(''id'', VStr (nb_tool_call_id nb)), (''name'', VStr (nb_tool_name nb)),
      (''action'', VStr (action_value (pd_action d))),
      (''reason_code'', VStr (decision_reason_code (pd_action d))),
      (''risk_classes'', risk_values (pd_risk_classes d)),
      (''arguments_hash'', VStr (nb_arguments_hash nb))]
     @ (case pd_matched_rule_id d of
          Some rule \<Rightarrow> if rule_id_shown rule then [(''matched_rule_id'', VStr rule)] else []
        | None \<Rightarrow> [])"

definition bind_decision :: "native_binding \<Rightarrow> policy_request \<Rightarrow> policy_decision \<Rightarrow> execution_binding" where
  "bind_decision nb request d =
     \<lparr>xb_tool_call_id = nb_tool_call_id nb, xb_tool_name = nb_tool_name nb,
      xb_arguments_hash = nb_arguments_hash nb, xb_arguments_json = nb_arguments_json nb,
      xb_request = request, xb_action = pd_action d, xb_risk_classes = pd_risk_classes d,
      xb_matched_rule_id = pd_matched_rule_id d, xb_reason = pd_reason d\<rparr>"

definition withdraw :: "runtime_env \<Rightarrow> auth_request \<Rightarrow> unit run_prog" where
  "withdraw e q =
     (if rn_authorizer e = PreparatoryAuthorizer
      then seq (log_action (Withdrawn q)) (bind (ask (\<lambda>n. rn_withdraw e n q)) settle)
      else ret ())"

text \<open>\<open>with suppress(Exception)\<close>: only a cancellation gets through.\<close>

definition suppress_exception :: "unit run_prog \<Rightarrow> unit run_prog" where
  "suppress_exception m = try_catch m (\<lambda>x. if x = XCancelled then throw x else ret ())"

text \<open>The authorizer holds the request it was given, and may change it.\<close>

definition reread :: "runtime_env \<Rightarrow> auth_request \<Rightarrow> auth_request run_prog" where
  "reread e q = ask (\<lambda>n. rn_request e n q)"

text \<open>What the outcome and the request have to be after \<open>authorize\<close> for the outcome to count.\<close>

definition outcome_binds :: "auth_request \<Rightarrow> auth_request \<Rightarrow> auth_outcome \<Rightarrow> bool" where
  "outcome_binds q q' out = (q' = q \<and> SAFE_CODE (ao_reason_code out) \<and> binds out q)"

definition decide_outcome ::
  "runtime_env \<Rightarrow> native_binding \<Rightarrow> execution_binding \<Rightarrow> auth_request \<Rightarrow> auth_outcome option \<Rightarrow> (agent_stop + execution_binding) run_prog" where
  "decide_outcome e nb b q answer =
     bind (reread e q) (\<lambda>q'.
     case answer of
       None \<Rightarrow> refuse_approval e nb ''approval_binding_mismatch'' APPROVAL_UNAVAILABLE
     | Some out \<Rightarrow>
         if \<not> outcome_binds q q' out
         then refuse_approval e nb ''approval_binding_mismatch'' APPROVAL_UNAVAILABLE
         else
           seq (emit e APPROVAL_DECIDED
                  [(''id'', VStr (ao_tool_call_id out)), (''name'', VStr (ao_tool_name out)),
                   (''arguments_hash'', VStr (ao_arguments_hash out)),
                   (''approved'', VBool (ao_approved out)), (''reason_code'', VStr (ao_reason_code out))])
           (if ao_approved out then ret (Inr b)
            else deny e nb (ao_reason_code out) POLICY_DENIED))"

text \<open>The wait for the authorizer: an outcome, or the stop of a wait that failed.\<close>

definition await_authorization ::
  "runtime_env \<Rightarrow> native_binding \<Rightarrow> auth_request \<Rightarrow> (agent_stop + auth_outcome option) run_prog" where
  "await_authorization e nb q =
     bind (if rn_authorizer e = PreparatoryAuthorizer then reread e q else ret q) (\<lambda>q'.
     try_finally
       (try_catch
          (bind (ask (\<lambda>n. rn_authorize e n q')) (\<lambda>r.
           seq (log_action (Authorized q' r))
           (case r of
              NotDone \<Rightarrow> refuse_approval e nb ''approval_timeout'' APPROVAL_TIMEOUT
            | Threw x \<Rightarrow> throw x
            | Returned out \<Rightarrow> ret (Inr out))))
          (\<lambda>x. if x = XCancelled then throw x
               else refuse_approval e nb ''approval_unavailable'' APPROVAL_UNAVAILABLE))
       (suppress_exception (withdraw e q)))"

definition request_approval ::
  "runtime_env \<Rightarrow> int \<Rightarrow> native_binding \<Rightarrow> execution_binding \<Rightarrow> auth_request \<Rightarrow> (agent_stop + execution_binding) run_prog" where
  "request_approval e started nb b q =
     seq (try_catch
            (emit e APPROVAL_REQUIRED
               [(''id'', VStr (nb_tool_call_id nb)), (''name'', VStr (nb_tool_name nb)),
                (''arguments_hash'', VStr (nb_arguments_hash nb)), (''risk_classes'', risk_values (xb_risk_classes b))])
            (\<lambda>x. seq (withdraw e q) (throw x)))
     (bind (clock e) (\<lambda>now.
      if min (rb_max_seconds (rn_budget e) - (now - started)) (rn_approval_timeout e) \<le> 0
      then seq (withdraw e q) (refuse_approval e nb ''approval_timeout'' APPROVAL_TIMEOUT)
      else
        bind (await_authorization e nb q) (\<lambda>r.
        case r of Inl reason \<Rightarrow> ret (Inl reason) | Inr answer \<Rightarrow> decide_outcome e nb b q answer)))"

text \<open>A preparatory authorizer reserves the request first: \<open>Some\<close> is the stop of a reservation that failed.\<close>

definition prepare_approval ::
  "runtime_env \<Rightarrow> int \<Rightarrow> native_binding \<Rightarrow> auth_request \<Rightarrow> (agent_stop + unit) run_prog" where
  "prepare_approval e started nb q =
     (if rn_authorizer e \<noteq> PreparatoryAuthorizer then ret (Inr ())
      else
        bind (try_catch
                (seq (log_action (Prepared q)) (seq (bind (ask (\<lambda>n. rn_prepare e n q)) settle) (ret (Inr ()))))
                (\<lambda>x. seq (withdraw e q)
                     (if x = XCancelled then throw x
                      else refuse_approval e nb ''approval_unavailable'' APPROVAL_UNAVAILABLE))) (\<lambda>r.
        case r of
          Inl reason \<Rightarrow> ret (Inl reason)
        | Inr _ \<Rightarrow>
            bind (expired e started) (\<lambda>over.
            if over then throw XDeadline
            else
              bind (reread e q) (\<lambda>q'.
              if q' \<noteq> q
              then seq (withdraw e q) (refuse_approval e nb ''approval_binding_mismatch'' APPROVAL_UNAVAILABLE)
              else ret (Inr ())))))"

definition authorization_request :: "execution_binding \<Rightarrow> auth_request" where
  "authorization_request b =
     \<lparr>aq_tool_call_id = xb_tool_call_id b, aq_tool_name = xb_tool_name b,
      aq_arguments_hash = xb_arguments_hash b, aq_risk_classes = xb_risk_classes b,
      aq_matched_rule_id = xb_matched_rule_id b\<rparr>"

definition enforce_ask ::
  "runtime_env \<Rightarrow> int \<Rightarrow> native_binding \<Rightarrow> execution_binding \<Rightarrow> (agent_stop + execution_binding) run_prog" where
  "enforce_ask e started nb b =
     (if rn_authorizer e = NoAuthorizer then deny e nb ''approval_unavailable'' APPROVAL_UNAVAILABLE
      else
        (let q = authorization_request b in
         if \<not> auth_request_ok q then throw (XRaised ''ValueError'' [])
         else
           bind (prepare_approval e started nb q) (\<lambda>r.
           case r of Inl reason \<Rightarrow> ret (Inl reason) | Inr _ \<Rightarrow> request_approval e started nb b q)))"

definition enforce_decision ::
  "runtime_env \<Rightarrow> int \<Rightarrow> native_binding \<Rightarrow> policy_request \<Rightarrow> policy_decision \<Rightarrow> (agent_stop + execution_binding) run_prog" where
  "enforce_decision e started nb request d =
     seq (emit e POLICY_DECIDED (policy_data nb d))
     (case pd_action d of
        ALLOW \<Rightarrow> ret (Inr (bind_decision nb request d))
      | DENY \<Rightarrow> deny e nb ''policy_denied'' POLICY_DENIED
      | ASK \<Rightarrow> enforce_ask e started nb (bind_decision nb request d))"

definition evaluate_request ::
  "runtime_env \<Rightarrow> int \<Rightarrow> native_binding \<Rightarrow> policy_request \<Rightarrow> (agent_stop + execution_binding) run_prog" where
  "evaluate_request e started nb request =
     bind (ask (\<lambda>n. rn_evaluate e n request)) (\<lambda>r.
     case r of
       None \<Rightarrow> refuse_policy e nb ''policy_engine_unavailable''
     | Some d \<Rightarrow>
         if pd_risk_classes d \<noteq> rq_risk_classes request
         then refuse_policy e nb ''policy_engine_unavailable''
         else seq (log_action (Decided nb request d)) (enforce_decision e started nb request d))"

text \<open>\<open>_enforce_policy\<close>: the call is compared with its binding before and after the tools see it.\<close>

definition enforce_policy ::
  "runtime_env \<Rightarrow> int \<Rightarrow> tool_call \<Rightarrow> native_binding \<Rightarrow> (agent_stop + execution_binding) run_prog" where
  "enforce_policy e started call nb =
     (if \<not> binding_matches (rn_sha256 e) nb call then refuse_policy e nb ''binding_mismatch''
      else if \<not> rn_policy_aware e then refuse_policy e nb ''policy_metadata_unavailable''
      else
        bind (ask_policy_request e call) (\<lambda>r.
        bind (observe e call) (\<lambda>seen.
        case seen of
          None \<Rightarrow> refuse_policy e nb ''binding_mismatch''
        | Some call' \<Rightarrow>
            if \<not> binding_matches (rn_sha256 e) nb call' then refuse_policy e nb ''binding_mismatch''
            else
              (case r of
                 None \<Rightarrow> refuse_policy e nb ''policy_metadata_unavailable''
               | Some request \<Rightarrow>
                   if rq_tool_name request \<noteq> nb_tool_name nb then refuse_policy e nb ''policy_metadata_unavailable''
                   else evaluate_request e started nb request))))"

text \<open>\<open>_prepare_policy_execution_call\<close>; \<open>None\<close> is any exception.\<close>

definition bound_arguments :: "execution_binding \<Rightarrow> json option" where
  "bound_arguments b =
     (case loads (xb_arguments_json b) of None \<Rightarrow> None | Some v \<Rightarrow> canonical_arguments_snapshot (of_json v))"

definition verified :: "(string \<Rightarrow> string) \<Rightarrow> execution_binding \<Rightarrow> tool_call \<Rightarrow> bool" where
  "verified sha256 b call =
     (tc_id call = xb_tool_call_id b \<and> tc_name call = xb_tool_name b
      \<and> canonical_arguments_hash sha256 (tc_arguments call) = Some (xb_arguments_hash b))"

definition prepare_policy_execution_call ::
  "runtime_env \<Rightarrow> tool_call \<Rightarrow> execution_binding \<Rightarrow> tool_call option run_prog" where
  "prepare_policy_execution_call e call b =
     (if \<not> rn_policy_aware e then ret None
      else
        bind (observe e call) (\<lambda>seen.
        case seen of
          None \<Rightarrow> ret None
        | Some call' \<Rightarrow>
            if canonical_arguments_snapshot (tc_arguments call') = None
               \<or> \<not> verified (rn_sha256 e) b call' \<or> canonical_tool False (tc_name call') \<noteq> Some (tc_name call')
            then ret None
            else
              (case bound_arguments b of
                 None \<Rightarrow> ret None
               | Some arguments \<Rightarrow>
                   if canonical_arguments_hash (rn_sha256 e) (of_json arguments) \<noteq> Some (xb_arguments_hash b) then ret None
                   else
                     (let execution = \<lparr>tc_id = xb_tool_call_id b, tc_name = xb_tool_name b, tc_arguments = of_json arguments\<rparr> in
                      bind (ask_policy_request e execution) (\<lambda>r.
                      bind (observe e execution) (\<lambda>seen.
                      case (r, seen) of
                        (Some request, Some call'') \<Rightarrow>
                          if \<not> verified (rn_sha256 e) b call'' \<or> rq_tool_name request \<noteq> xb_tool_name b
                             \<or> request \<noteq> xb_request b
                          then ret None else ret (Some execution)
                      | _ \<Rightarrow> ret None))))))"

subsection \<open>Authorizing a batch\<close>

definition append_history :: "message list \<Rightarrow> unit run_prog" where
  "append_history ms = modify (\<lambda>s. s\<lparr>rt_history := rt_history s @ ms\<rparr>)"

definition duplicate_message :: "tool_call \<Rightarrow> message" where
  "duplicate_message call =
     tool_message (dumps_texts [(''error'', ''Duplicate tool call blocked; use existing result.'')]) (tc_id call)"

definition bound_native :: "execution_binding \<Rightarrow> native_binding" where
  "bound_native b =
     \<lparr>nb_tool_call_id = xb_tool_call_id b, nb_tool_name = xb_tool_name b,
      nb_arguments_hash = xb_arguments_hash b, nb_arguments_json = xb_arguments_json b\<rparr>"

definition refuse_binding :: "runtime_env \<Rightarrow> execution_binding \<Rightarrow> (agent_stop + 'b) run_prog" where
  "refuse_binding e b =
     (if xb_action b = ASK then refuse_approval e (bound_native b) ''binding_mismatch'' APPROVAL_UNAVAILABLE
      else refuse_policy e (bound_native b) ''binding_mismatch'')"

definition authorize_call ::
  "runtime_env \<Rightarrow> int \<Rightarrow> tool_call \<Rightarrow> native_binding \<Rightarrow> (agent_stop + tool_call \<times> execution_binding) run_prog" where
  "authorize_call e started call nb =
     seq (emit e TOOL_CALL_REQUESTED
            [(''id'', VStr (nb_tool_call_id nb)), (''name'', VStr (nb_tool_name nb)),
             (''arguments_hash'', VStr (nb_arguments_hash nb))])
     (bind (enforce_policy e started call nb) (\<lambda>r.
      case r of
        Inl reason \<Rightarrow> ret (Inl reason)
      | Inr b \<Rightarrow>
          bind (prepare_policy_execution_call e call b) (\<lambda>prepared.
          case prepared of
            None \<Rightarrow> refuse_binding e b
          | Some execution \<Rightarrow> ret (Inr (execution, b)))))"

text \<open>\<open>_prepare_policy_batch\<close>: the prepared calls (\<open>None\<close> for a duplicate) and the keys seen, or a stop.\<close>

fun prepare_calls ::
  "runtime_env \<Rightarrow> int \<Rightarrow> string set \<Rightarrow> (tool_call \<times> native_binding) list
     \<Rightarrow> (agent_stop + (tool_call \<times> execution_binding) option list \<times> string set) run_prog" where
  "prepare_calls e started seen [] = ret (Inr ([], seen))"
| "prepare_calls e started seen ((call, nb) # rest) =
     (case call_key call of
        None \<Rightarrow> throw (XRaised ''TypeError'' [])
      | Some key \<Rightarrow>
          if key \<in> seen
          then seq (append_history [duplicate_message call])
               (bind (prepare_calls e started seen rest) (\<lambda>r. ret (map_sum id (apfst (Cons None)) r)))
          else
            bind (authorize_call e started call nb) (\<lambda>r.
            case r of
              Inl reason \<Rightarrow> ret (Inl reason)
            | Inr p \<Rightarrow>
                bind (prepare_calls e started (insert key seen) rest) (\<lambda>r'.
                ret (map_sum id (apfst (Cons (Some p))) r'))))"

definition prepare_policy_batch ::
  "runtime_env \<Rightarrow> int \<Rightarrow> call_copies list \<Rightarrow> (agent_stop + (tool_call \<times> execution_binding) option list) run_prog" where
  "prepare_policy_batch e started copies =
     bind (reads rt_seen) (\<lambda>seen.
     bind (prepare_calls e started seen (map (\<lambda>c. (cc_execution_call c, cc_binding c)) copies)) (\<lambda>r.
     case r of
       Inl reason \<Rightarrow> ret (Inl reason)
     | Inr (prepared, seen') \<Rightarrow>
         seq (modify (\<lambda>s. s\<lparr>rt_seen := rt_seen s \<union> seen'\<rparr>)) (ret (Inr prepared))))"

text \<open>The novel calls of a batch; \<open>None\<close> is an exception of the encoder.\<close>

fun novel_calls :: "string set \<Rightarrow> tool_call list \<Rightarrow> nat option" where
  "novel_calls keys [] = Some 0"
| "novel_calls keys (call # rest) =
     (case call_key call of
        None \<Rightarrow> None
      | Some key \<Rightarrow>
          if key \<in> keys then novel_calls keys rest
          else map_option Suc (novel_calls (insert key keys) rest))"

subsection \<open>Dispatching a call\<close>

definition py_slice :: "int \<Rightarrow> string \<Rightarrow> string" where
  "py_slice n t = (if n \<ge> 0 then take (nat n) t else take (length t - nat (- n)) t)"

definition policy_tool_result_data :: "runtime_env \<Rightarrow> execution_binding \<Rightarrow> string \<Rightarrow> (string \<times> pyval) list" where
  "policy_tool_result_data e b serialized =
     [(''id'', VStr (xb_tool_call_id b)), (''name'', VStr (xb_tool_name b)),
      (''arguments_hash'', VStr (xb_arguments_hash b)),
      (''arguments_size'', VInt (utf8_length (xb_arguments_json b))),
      (''output_hash'', VStr (rn_sha256 e (utf8 serialized))), (''output_size'', VInt (utf8_length serialized))]"

text \<open>The record of a call and the data of \<open>TOOL_CALL_COMPLETED\<close>; the arguments of a bound call are read back from the binding.\<close>

definition completed_record ::
  "runtime_env \<Rightarrow> tool_call \<Rightarrow> execution_binding option \<Rightarrow> pyval \<Rightarrow> string \<Rightarrow> string \<Rightarrow> call_record option" where
  "completed_record e call binding result serialized status =
     (case binding of
        None \<Rightarrow>
          Some [(''tool'', VStr (tc_name call)), (''tool_call_id'', VStr (tc_id call)),
                (''parameters'', tc_arguments call), (''result'', result), (''status'', VStr status)]
      | Some b \<Rightarrow>
          map_option (\<lambda>arguments.
            [(''tool'', VStr (xb_tool_name b)), (''tool_call_id'', VStr (xb_tool_call_id b)),
             (''parameters'', of_json arguments), (''result'', result), (''status'', VStr status)]
            @ policy_tool_result_data e b serialized) (bound_arguments b))"

definition completed_data ::
  "runtime_env \<Rightarrow> tool_call \<Rightarrow> execution_binding option \<Rightarrow> pyval \<Rightarrow> string \<Rightarrow> string option \<Rightarrow> (string \<times> pyval) list" where
  "completed_data e call binding result serialized status =
     (case binding of
        None \<Rightarrow>
          [(''id'', VStr (tc_id call)), (''name'', VStr (tc_name call)), (''arguments'', tc_arguments call),
           (''output'', result)] @ (case status of None \<Rightarrow> [] | Some t \<Rightarrow> [(''status'', VStr t)])
      | Some b \<Rightarrow>
          policy_tool_result_data e b serialized
          @ [(''status'', VStr (case status of None \<Rightarrow> ''error'' | Some t \<Rightarrow> t))])"

definition append_record :: "call_record option \<Rightarrow> unit run_prog" where
  "append_record r =
     (case r of
        None \<Rightarrow> throw (XRaised ''TypeError'' [])
      | Some record_fields \<Rightarrow> modify (\<lambda>s. s\<lparr>rt_calls := rt_calls s @ [record_fields]\<rparr>))"

definition result_id :: "tool_call \<Rightarrow> execution_binding option \<Rightarrow> string" where
  "result_id call binding = (case binding of None \<Rightarrow> tc_id call | Some b \<Rightarrow> xb_tool_call_id b)"

text \<open>A tool that raised: the error goes back to the model.\<close>

definition reflexion_hint :: string where
  "reflexion_hint = ''The tool call failed. Analyze the error, adjust your approach, and try again with corrected parameters or a different tool.''"

definition tool_failed :: "runtime_env \<Rightarrow> tool_call \<Rightarrow> execution_binding option \<Rightarrow> run_exc \<Rightarrow> unit run_prog" where
  "tool_failed e call binding x =
     (let fields = [(''error'', exc_type x @ '': '' @ exc_text x), (''reflexion_hint'', reflexion_hint)];
          result = VDict (map (\<lambda>(k, t). (KStr k, VStr t)) fields);
          serialized = dumps_texts fields in
      seq (append_record (completed_record e call binding result serialized ''error''))
      (seq (emit e TOOL_CALL_COMPLETED (completed_data e call binding result serialized None))
       (append_history [tool_message (dumps_texts fields) (result_id call binding)])))"

fun progress_chunks ::
  "runtime_env \<Rightarrow> tool_call \<Rightarrow> execution_binding option \<Rightarrow> string \<Rightarrow> (string \<times> pyval) list \<Rightarrow> nat list \<Rightarrow> unit run_prog" where
  "progress_chunks e call binding serialized data [] = ret ()"
| "progress_chunks e call binding serialized data (i # is) =
     seq (emit e TOOL_PROGRESS
            (case binding of
               None \<Rightarrow>
                 [(''id'', VStr (tc_id call)), (''name'', VStr (tc_name call)),
                  (''chunk'', VStr (take 500 (drop i serialized))), (''offset'', VInt (int i)),
                  (''total'', VInt (int (length serialized)))]
             | Some b \<Rightarrow> data @ [(''offset'', VInt (int i)), (''total'', VInt (int (length serialized)))]))
     (progress_chunks e call binding serialized data is)"

definition chunk_offsets :: "nat \<Rightarrow> nat list" where
  "chunk_offsets n = map (\<lambda>k. 500 * k) [0..<(n + 499) div 500]"

definition tool_returned ::
  "runtime_env \<Rightarrow> tool_call \<Rightarrow> execution_binding option \<Rightarrow> (py_key \<times> pyval) list \<Rightarrow> unit run_prog" where
  "tool_returned e call binding output =
     (case py_dumps (VDict output) of
        None \<Rightarrow> throw (XRaised ''TypeError'' [])
      | Some text \<Rightarrow>
          (let serialized = ascii_only text;
               status = (if map_of output (KStr ''status'') = Some (VStr ''duplicate_effect_blocked'')
                         then ''duplicate'' else ''success'');
               data = completed_data e call binding (VDict output) serialized (Some status) in
           seq (append_record (completed_record e call binding (VDict output) serialized status))
           (seq (emit e TOOL_CALL_COMPLETED data)
           (seq (if length serialized > 500
                 then progress_chunks e call binding serialized data (chunk_offsets (length serialized)) else ret ())
            (append_history
               [tool_message
                  (if int (length serialized) > rb_max_tool_result_chars (rn_budget e)
                   then py_slice (rb_max_tool_result_chars (rn_budget e)) serialized @ ''...[truncated]''
                   else serialized)
                  (result_id call binding)])))))"

text \<open>A tool call is dispatched with a copy that no other collaborator has seen in policy mode.\<close>

definition execute_tool :: "runtime_env \<Rightarrow> tool_call \<Rightarrow> (py_key \<times> pyval) list answer run_prog" where
  "execute_tool e call = seq (log_action (Executed call)) (ask (\<lambda>n. rn_execute e n call))"

definition dispatch_tool :: "runtime_env \<Rightarrow> int \<Rightarrow> tool_call \<Rightarrow> execution_binding option \<Rightarrow> unit run_prog" where
  "dispatch_tool e started call binding =
     bind (try_catch
             (bind (within_deadline e started (execute_tool e call)) (\<lambda>output. ret (Inr output)))
             (\<lambda>x. if x = XDeadline \<or> x = XCancelled then throw x else ret (Inl x))) (\<lambda>r.
     case r of
       Inl x \<Rightarrow> tool_failed e call binding x
     | Inr output \<Rightarrow> tool_returned e call binding output)"

fun dispatch_prepared :: "runtime_env \<Rightarrow> int \<Rightarrow> (tool_call \<times> execution_binding) option list \<Rightarrow> unit run_prog" where
  "dispatch_prepared e started [] = ret ()"
| "dispatch_prepared e started (None # rest) = dispatch_prepared e started rest"
| "dispatch_prepared e started (Some (call, b) # rest) =
     seq (dispatch_tool e started call (Some b)) (dispatch_prepared e started rest)"

definition unexecuted_messages :: "tool_call list \<Rightarrow> string \<Rightarrow> message list" where
  "unexecuted_messages calls reason_code =
     map (\<lambda>call. tool_message
       (dumps_texts [(''error'', ''Tool call was not executed.''), (''reason_code'', reason_code)]) (tc_id call)) calls"

subsection \<open>The final synthesis\<close>

definition complete_model :: "runtime_env \<Rightarrow> tool_definition list \<Rightarrow> int \<Rightarrow> model_response answer run_prog" where
  "complete_model e tools max_tokens =
     bind (reads rt_history) (\<lambda>history.
     let messages = snapshot_history history in
     seq (log_action (CalledModel messages tools max_tokens)) (ask (\<lambda>n. rn_complete e n messages)))"

definition response_data :: "model_response \<Rightarrow> (string \<times> pyval) list" where
  "response_data resp =
     (case rs_stop_reason resp of None \<Rightarrow> [] | Some t \<Rightarrow> [(''provider_stop_reason'', VStr t)])
     @ (case rs_actual_provider resp of None \<Rightarrow> [] | Some t \<Rightarrow> [(''actual_provider'', VStr t)])
     @ (case rs_actual_model resp of None \<Rightarrow> [] | Some t \<Rightarrow> [(''actual_model'', VStr t)])"

definition emit_response :: "runtime_env \<Rightarrow> model_response \<Rightarrow> unit run_prog" where
  "emit_response e resp =
     bind (reads rt_iterations) (\<lambda>i. emit_usage e MODEL_RESPONSE i (response_data resp) (rs_usage resp))"

text \<open>The text of a response after compliance; an empty one is left alone.\<close>

definition comply_response :: "runtime_env \<Rightarrow> string \<Rightarrow> string" where
  "comply_response e content = (if content = [] then [] else comply e content)"

definition response_text :: "model_response \<Rightarrow> string" where
  "response_text resp = (case rs_content resp of None \<Rightarrow> [] | Some t \<Rightarrow> t)"

text \<open>The stop for what the provider reported, \<open>None\<close> when the response counts.\<close>

definition provider_stop :: "string option \<Rightarrow> bool \<Rightarrow> agent_stop option" where
  "provider_stop reason has_tool_calls =
     (case normalize_provider_stop_reason reason has_tool_calls of
        None \<Rightarrow> None
      | Some r \<Rightarrow> if r = COMPLETED then None else Some r)"

definition finish_synthesis :: "runtime_env \<Rightarrow> agent_stop \<Rightarrow> string \<Rightarrow> pyval \<Rightarrow> agent_result run_prog" where
  "finish_synthesis e reason content structured =
     seq (if content = [] then ret ()
          else seq (modify (\<lambda>s. s\<lparr>rt_final_content := content\<rparr>)) (emit e TEXT_DELTA [(''text'', VStr content)]))
     (stop_final e reason None structured)"

definition accept_synthesis :: "runtime_env \<Rightarrow> agent_stop \<Rightarrow> model_response \<Rightarrow> agent_result run_prog" where
  "accept_synthesis e reason resp =
     (case provider_stop (rs_stop_reason resp) False of
        Some r \<Rightarrow> stop_final e r (Some (''provider_stop_reason:'' @ stop_value r)) VNone
      | None \<Rightarrow>
          if rs_tool_calls resp \<noteq> []
          then stop_final e PROVIDER_ERROR (Some ''provider_stop_reason:final_synthesis_tool_call'') VNone
          else
            (let content = comply_response e (response_text resp) in
             case rn_contract e of
               None \<Rightarrow> finish_synthesis e reason content VNone
             | Some c \<Rightarrow>
                 (case ct_parse c content of
                    Inl code \<Rightarrow>
                      seq (emit e STRUCTURED_OUTPUT_REJECTED [(''code'', VStr code)])
                      (stop_final e STRUCTURED_OUTPUT_INVALID (Some (''structured_output_invalid:'' @ code)) VNone)
                  | Inr v \<Rightarrow> finish_synthesis e reason content v)))"

definition final_synthesis :: "runtime_env \<Rightarrow> int \<Rightarrow> agent_stop \<Rightarrow> agent_result run_prog" where
  "final_synthesis e started reason =
     bind (within_deadline e started (complete_model e [] (rb_final_synthesis_tokens (rn_budget e)))) (\<lambda>resp.
     if \<not> usage_valid (rs_usage resp) then throw (XRaised ''ValueError'' [])
     else
       seq (modify (\<lambda>s. s\<lparr>rt_final_usage := add_usage (rt_final_usage s) (rs_usage resp)\<rparr>))
       (seq (emit_response e resp) (accept_synthesis e reason resp)))"

definition synthesis_message :: message where
  "synthesis_message = text_message RUser
     ''Execution budget reached. Do not call tools. Produce the best complete final answer now from the evidence already available. State any missing coverage.''"

definition capabilities_missing :: "runtime_env \<Rightarrow> string list" where
  "capabilities_missing e =
     missing_capabilities (get_provider_capabilities (rn_capabilities e)) (provider_requirements e)"

definition finalize_run :: "runtime_env \<Rightarrow> int \<Rightarrow> agent_stop \<Rightarrow> agent_result run_prog" where
  "finalize_run e started reason =
     bind (expired e started) (\<lambda>over.
     if over then stop_now e reason None VNone
     else
       seq (append_history [synthesis_message])
       (if capabilities_missing e \<noteq> [] then reject_provider_capabilities e (stop_now e) (capabilities_missing e)
        else
          seq (modify (\<lambda>s. s\<lparr>rt_final_content := rt_content s, rt_final_usage := rt_usage s\<rparr>))
          (try_catch (final_synthesis e started reason) (\<lambda>x.
           if x = XDeadline then stop_final e TIME_BUDGET_EXHAUSTED None VNone
           else if x = XCancelled then throw x
           else
             (case budget_stop x of
                Some r \<Rightarrow> stop_for_budget_error e (stop_final e) r (exc_text x)
              | None \<Rightarrow>
                  (case x of
                     XUnsupported caps t \<Rightarrow>
                       reject_provider_capabilities e (stop_final e) (safe_missing_capability_names caps)
                   | _ \<Rightarrow> stop_final e reason (Some ''final_synthesis_failed'') VNone))))))"

subsection \<open>The loop\<close>

text \<open>A pass of the loop ends the run (\<open>Some\<close>) or goes on to the next (\<open>None\<close>).\<close>

definition ends_run :: "agent_result run_prog \<Rightarrow> agent_result option run_prog" where
  "ends_run m = bind m (\<lambda>res. ret (Some res))"

definition seen_call :: "runtime_env \<Rightarrow> tool_call \<Rightarrow> tool_call run_prog" where
  "seen_call e call = bind (observe e call) (\<lambda>r. ret (case r of None \<Rightarrow> call | Some call' \<Rightarrow> call'))"

definition call_fields :: "tool_call \<Rightarrow> (string \<times> pyval) list" where
  "call_fields call = [(''id'', VStr (tc_id call)), (''name'', VStr (tc_name call)), (''arguments'', tc_arguments call)]"

definition user_denied :: "runtime_env \<Rightarrow> tool_call \<Rightarrow> unit run_prog" where
  "user_denied e call =
     (let denied = VDict [(KStr ''error'', VStr ''User denied this tool call'')] in
      seq (append_record (Some
             [(''tool'', VStr (tc_name call)), (''tool_call_id'', VStr (tc_id call)), (''parameters'', tc_arguments call),
              (''result'', denied), (''status'', VStr ''denied'')]))
      (seq (emit e TOOL_DENIED (call_fields call))
       (append_history [tool_message (dumps_texts [(''error'', ''User denied this tool call'')]) (tc_id call)])))"

text \<open>The deprecated approval hook: the call as it is afterwards, or \<open>None\<close> when it was denied.\<close>

definition legacy_approval :: "runtime_env \<Rightarrow> tool_call \<Rightarrow> tool_call option run_prog" where
  "legacy_approval e call =
     (if \<not> (rn_has_hook e \<and> rn_requires_approval e (tc_name call)) then ret (Some call)
      else
        seq (emit e APPROVAL_REQUIRED (call_fields call))
        (seq (log_action (AskedHook call))
        (bind (ask (\<lambda>n. rn_hook e n call)) (\<lambda>r.
         bind (settle r) (\<lambda>approved.
         bind (seen_call e call) (\<lambda>call'.
         if approved then ret (Some call') else seq (user_denied e call') (ret None)))))))"

fun dispatch_legacy :: "runtime_env \<Rightarrow> int \<Rightarrow> tool_call list \<Rightarrow> agent_result option run_prog" where
  "dispatch_legacy e started [] = ret None"
| "dispatch_legacy e started (call # rest) =
     bind (reads rt_calls) (\<lambda>calls.
     if int (length calls) \<ge> rb_max_tool_calls (rn_budget e)
     then seq (append_history (unexecuted_messages (call # rest) (stop_value TOOL_BUDGET_EXHAUSTED)))
          (ends_run (finalize_run e started TOOL_BUDGET_EXHAUSTED))
     else
       (case call_key call of
          None \<Rightarrow> throw (XRaised ''TypeError'' [])
        | Some key \<Rightarrow>
            bind (reads rt_seen) (\<lambda>seen.
            if key \<in> seen
            then seq (append_history [duplicate_message call]) (dispatch_legacy e started rest)
            else
              seq (modify (\<lambda>s. s\<lparr>rt_seen := insert key (rt_seen s)\<rparr>))
              (seq (emit e TOOL_CALL_REQUESTED (call_fields call))
              (bind (legacy_approval e call) (\<lambda>r.
               seq (case r of None \<Rightarrow> ret () | Some call' \<Rightarrow> dispatch_tool e started call' None)
               (dispatch_legacy e started rest)))))))"

definition dispatch_policy :: "runtime_env \<Rightarrow> int \<Rightarrow> call_copies list \<Rightarrow> agent_result option run_prog" where
  "dispatch_policy e started copies =
     bind (reads id) (\<lambda>s.
     case novel_calls (rt_seen s) (map cc_execution_call copies) of
       None \<Rightarrow> throw (XRaised ''TypeError'' [])
     | Some novel \<Rightarrow>
         if int (length (rt_calls s)) + int novel > rb_max_tool_calls (rn_budget e)
         then seq (append_history (unexecuted_messages (map cc_execution_call copies) (stop_value TOOL_BUDGET_EXHAUSTED)))
              (ends_run (finalize_run e started TOOL_BUDGET_EXHAUSTED))
         else
           bind (prepare_policy_batch e started copies) (\<lambda>r.
           case r of
             Inl reason \<Rightarrow> ends_run (stop_now e reason None VNone)
           | Inr prepared \<Rightarrow> seq (dispatch_prepared e started prepared) (ret None)))"

definition run_tools :: "runtime_env \<Rightarrow> int \<Rightarrow> string \<Rightarrow> call_copies list \<Rightarrow> agent_result option run_prog" where
  "run_tools e started content copies =
     seq (append_history
            [\<lparr>mg_role = RAssistant, mg_content = (if rn_contract e \<noteq> None then [] else content),
              mg_tool_call_id = None, mg_tool_calls = map cc_history_call copies, mg_images = []\<rparr>])
     (if rn_policy_mode e then dispatch_policy e started copies
      else dispatch_legacy e started (map cc_execution_call copies))"

definition publish_response :: "runtime_env \<Rightarrow> int \<Rightarrow> string \<Rightarrow> call_copies list \<Rightarrow> agent_result option run_prog" where
  "publish_response e started content copies =
     seq (if content \<noteq> [] \<and> (rn_contract e = None \<or> copies = [])
          then seq (modify (\<lambda>s. s\<lparr>rt_content := content\<rparr>))
               (emit e (if copies \<noteq> [] then MODEL_PROGRESS else TEXT_DELTA) [(''text'', VStr content)])
          else ret ())
     (bind (reads id) (\<lambda>s.
      if total_tokens (rt_usage s) > rb_max_tokens (rn_budget e)
      then ends_run (finalize_run e started TOKEN_BUDGET_EXHAUSTED)
      else if copies = [] then ends_run (stop_now e COMPLETED None (rt_structured s))
      else run_tools e started content copies))"

definition retry_message :: "response_contract \<Rightarrow> message" where
  "retry_message c = text_message RUser
     (''The previous response was invalid. Return exactly one JSON value matching schema '' @ ct_schema_id c
      @ '' version '' @ ct_schema_version c @ ''. Include no prose or markdown.'')"

definition can_retry :: "runtime_env \<Rightarrow> int \<Rightarrow> bool run_prog" where
  "can_retry e started =
     bind (reads id) (\<lambda>s.
     if rt_retries s < rb_max_structured_retries (rn_budget e) \<and> rt_iterations s < rb_max_iterations (rn_budget e)
        \<and> total_tokens (rt_usage s) < rb_max_tokens (rn_budget e)
     then bind (expired e started) (\<lambda>over. ret (\<not> over)) else ret False)"

definition reject_structured :: "runtime_env \<Rightarrow> int \<Rightarrow> response_contract \<Rightarrow> string \<Rightarrow> agent_result option run_prog" where
  "reject_structured e started c code =
     bind (reads rt_retries) (\<lambda>retries.
     seq (emit e STRUCTURED_OUTPUT_REJECTED
            [(''code'', VStr code), (''retry'', VBool (retries < rb_max_structured_retries (rn_budget e)))])
     (bind (can_retry e started) (\<lambda>again.
      if again
      then seq (modify (\<lambda>s. s\<lparr>rt_retries := rt_retries s + 1\<rparr>)) (seq (append_history [retry_message c]) (ret None))
      else ends_run (stop_now e STRUCTURED_OUTPUT_INVALID (Some (''structured_output_invalid:'' @ code)) VNone))))"

definition check_structured :: "runtime_env \<Rightarrow> int \<Rightarrow> string \<Rightarrow> call_copies list \<Rightarrow> agent_result option run_prog" where
  "check_structured e started content copies =
     (case (copies, rn_contract e) of
        ([], Some c) \<Rightarrow>
          (case ct_parse c content of
             Inl code \<Rightarrow> reject_structured e started c code
           | Inr v \<Rightarrow> seq (modify (\<lambda>s. s\<lparr>rt_structured := v\<rparr>)) (publish_response e started content copies))
      | _ \<Rightarrow> publish_response e started content copies)"

text \<open>The optional reflection on a final answer, with the text it leaves.\<close>

definition reflect_response :: "runtime_env \<Rightarrow> int \<Rightarrow> string \<Rightarrow> call_copies list \<Rightarrow> string run_prog" where
  "reflect_response e started content copies =
     (if content \<noteq> [] \<and> copies = [] \<and> rn_contract e = None \<and> rn_reflection_enabled e
      then
        seq (clock e)
        (seq (log_action (Reflected content))
        (bind (ask (\<lambda>n. rn_reflect e n content)) (\<lambda>r.
         bind (settle r) (\<lambda>(content', u).
         seq (modify (\<lambda>s. s\<lparr>rt_usage := add_usage (rt_usage s) u\<rparr>)) (ret content')))))
      else ret content)"

definition accept_response :: "runtime_env \<Rightarrow> int \<Rightarrow> model_response \<Rightarrow> call_copies list \<Rightarrow> agent_result option run_prog" where
  "accept_response e started resp copies =
     (case provider_stop (rs_stop_reason resp) (copies \<noteq> []) of
        Some r \<Rightarrow> ends_run (stop_now e r (Some (''provider_stop_reason:'' @ stop_value r)) VNone)
      | None \<Rightarrow>
          seq (if response_text resp \<noteq> [] \<and> rn_contract e = None
               then modify (\<lambda>s. s\<lparr>rt_content := response_text resp\<rparr>) else ret ())
          (bind (reflect_response e started (response_text resp) copies) (\<lambda>content.
           check_structured e started (comply_response e content) copies)))"

definition refuse_snapshot :: "runtime_env \<Rightarrow> string \<Rightarrow> string \<Rightarrow> agent_result option run_prog" where
  "refuse_snapshot e call_id name =
     seq (emit e TOOL_CALL_REQUESTED [(''id'', VStr call_id), (''name'', VStr name)])
     (seq (emit_policy_failure e call_id name ''policy_metadata_unavailable'' None)
     (seq (record_denial e call_id name ''policy_metadata_unavailable'' None)
      (ends_run (stop_now e POLICY_DENIED None VNone))))"

text \<open>What follows the provider's return: the calls are copied before anything else happens.\<close>

definition receive_response :: "runtime_env \<Rightarrow> int \<Rightarrow> model_response \<Rightarrow> agent_result option run_prog" where
  "receive_response e started resp =
     (let copies = snapshot_provider_tool_calls (rn_sha256 e) (rn_policy_mode e) (rs_tool_calls resp) in
      seq (log_action (Received resp))
      (bind (expired e started) (\<lambda>over.
      if over then throw (XTimeout [])
      else if \<not> usage_valid (rs_usage resp) then throw (XRaised ''ValueError'' [])
      else
        seq (modify (\<lambda>s. let u = add_usage (rt_usage s) (rs_usage resp) in s\<lparr>rt_usage := u, ds_usage := Some u\<rparr>))
        (seq (emit_response e resp)
         (case copies of
            Inl (call_id, name) \<Rightarrow> refuse_snapshot e call_id name
          | Inr cs \<Rightarrow> accept_response e started resp cs)))))"

definition request_model :: "runtime_env \<Rightarrow> int \<Rightarrow> (agent_result + model_response) run_prog" where
  "request_model e started =
     bind (reads rt_usage) (\<lambda>u.
     try_catch
       (bind (within_deadline e started (complete_model e (rn_tools e)
                (min 4096 (max 1 (rb_max_tokens (rn_budget e) - total_tokens u))))) (\<lambda>resp. ret (Inr resp)))
       (\<lambda>x.
          if x = XDeadline \<or> x = XCancelled then throw x
          else
            bind (case budget_stop x of
                    Some r \<Rightarrow> stop_for_budget_error e (stop_now e) r (exc_text x)
                  | None \<Rightarrow>
                      (case x of
                         XUnsupported caps t \<Rightarrow>
                           reject_provider_capabilities e (stop_now e) (safe_missing_capability_names caps)
                       | _ \<Rightarrow> stop_now e PROVIDER_ERROR (Some ''provider_call_failed'') VNone)) (\<lambda>res.
            ret (Inl res))))"

definition call_model :: "runtime_env \<Rightarrow> int \<Rightarrow> agent_result option run_prog" where
  "call_model e started =
     bind (reads rt_history) (\<lambda>history.
     case estimate_request_input_tokens (rn_image_ok e) history (rn_tools e) (rn_contract e) of
       None \<Rightarrow> throw (XRaised ''ValueError'' [])
     | Some estimate \<Rightarrow>
         if estimate > rb_max_context_tokens (rn_budget e) - rb_context_output_reserve_tokens (rn_budget e)
         then ends_run (stop_now e CONTEXT_BUDGET_EXHAUSTED None VNone)
         else
           bind (request_model e started) (\<lambda>r.
           case r of Inl res \<Rightarrow> ret (Some res) | Inr resp \<Rightarrow> receive_response e started resp))"

definition begin_iteration :: "unit run_prog" where
  "begin_iteration = modify (\<lambda>s. s\<lparr>rt_iterations := rt_iterations s + 1, ds_iterations := rt_iterations s + 1\<rparr>)"

definition loop_body :: "runtime_env \<Rightarrow> int \<Rightarrow> agent_result option run_prog" where
  "loop_body e started =
     bind (expired e started) (\<lambda>over.
     if over then ends_run (stop_now e TIME_BUDGET_EXHAUSTED None VNone)
     else if capabilities_missing e \<noteq> []
     then ends_run (reject_provider_capabilities e (stop_now e) (capabilities_missing e))
     else seq begin_iteration (seq (emit e ITERATION_STARTED []) (call_model e started)))"

end
