(* ===== verification/Agent_Frames.thy ===== *)
theory Agent_Frames
  imports Agent_Runtime
begin

text \<open>
  What the operations of the agent runtime do to its state, by groups of effects. A relation
  between states that holds of the small updates of a group (the locals and the quiet entries of
  the trace; a stop of the run; a model call; a tool call) holds of every operation built from
  them. Each locale is a group, its lemmas are the operations, and every invariant of the
  runtime is an interpretation.
\<close>

text \<open>
  The entries of the trace that are no effect of their own. A decision and an authorization are
  what the policy engine and the authorizer answered.
\<close>

fun quiet :: "runtime_env \<Rightarrow> action \<Rightarrow> bool" where
  "quiet e (Emitted ev) = (ae_kind ev \<noteq> RUN_STOPPED)"
| "quiet e (Decided nb request d) =
     ((\<exists>n. rn_evaluate e n request = Some d) \<and> pd_risk_classes d = rq_risk_classes request)"
| "quiet e (Authorized q r) = (\<exists>n. rn_authorize e n q = r)"
| "quiet e (CalledModel ms ts n) = False"
| "quiet e (Executed c) = False"
| "quiet e (Captured t) = False"
| "quiet e (RecordedResult t) = False"
| "quiet e _ = True"

lemma new_agent_event_kind [simp]: "ae_kind (new_agent_event k i d u) = k"
  by (simp add: new_agent_event_def)

lemma stopped_event_kind [simp]: "ae_kind (stopped_event a) = RUN_STOPPED"
  by (simp add: stopped_event_def)

locale event_order = state_order R for R :: "runtime_state \<Rightarrow> runtime_state \<Rightarrow> bool" +
  fixes e :: runtime_env
  assumes step: "R s (s\<lparr>rt_step := n\<rparr>)"
    and quiet_log: "quiet e a \<Longrightarrow> R s (s\<lparr>rt_trace := a # rt_trace s\<rparr>)"
    and history: "R s (s\<lparr>rt_history := h\<rparr>)"
begin

lemma obeys_ask: "obeys R (ask f)"
  by (simp add: obeys_def ask_def step)

lemma obeys_bind_ask: "(\<And>n. obeys R (g (f n))) \<Longrightarrow> obeys R (bind (ask f) g)"
  unfolding obeys_def bind_def ask_def by (auto intro: onward [OF step])

lemma obeys_log: "quiet e a \<Longrightarrow> obeys R (log_action a)"
  by (simp add: log_action_def obeys_modify quiet_log)

lemma obeys_append_history: "obeys R (append_history ms)"
  by (simp add: append_history_def obeys_modify history)

lemma obeys_answer:
  "(\<And>a. obeys R (f a)) \<Longrightarrow> (\<And>x. obeys R (g x)) \<Longrightarrow> obeys R h \<Longrightarrow> obeys R (case r of Returned a \<Rightarrow> f a | Threw x \<Rightarrow> g x | NotDone \<Rightarrow> h)"
  by (simp split: answer.splits)

lemma obeys_action: "obeys R f \<Longrightarrow> obeys R g \<Longrightarrow> obeys R h \<Longrightarrow> obeys R (case a of ALLOW \<Rightarrow> f | ASK \<Rightarrow> g | DENY \<Rightarrow> h)"
  by (simp split: policy_action.splits)

lemma obeys_settle: "obeys R (settle r)"
  unfolding settle_def by (intro obeys_answer obeys_rules)

lemmas obeys_events = obeys_rules obeys_answer obeys_action obeys_ask obeys_log obeys_append_history obeys_settle

lemma obeys_clock: "obeys R (clock e)"
  unfolding clock_def by (intro obeys_events)

lemma obeys_expired: "obeys R (expired e started)"
  unfolding expired_def by (intro obeys_events obeys_clock)

lemma obeys_await: "obeys R m \<Longrightarrow> obeys R (await_before_deadline e deadline m)"
  unfolding await_before_deadline_def by (intro obeys_events obeys_clock)

lemma obeys_within_deadline: "obeys R m \<Longrightarrow> obeys R (within_deadline e started m)"
  unfolding within_deadline_def by (rule obeys_await)

lemma obeys_observe: "obeys R (observe e call)"
  unfolding observe_def by (intro obeys_events)

lemma obeys_emit_usage: "kind \<noteq> RUN_STOPPED \<Longrightarrow> obeys R (emit_usage e kind i data u)"
  unfolding emit_usage_def Let_def by (intro obeys_events obeys_clock) simp

lemma obeys_emit: "kind \<noteq> RUN_STOPPED \<Longrightarrow> obeys R (emit e kind data)"
  unfolding emit_def by (intro obeys_events obeys_emit_usage)

lemma obeys_emit_policy_failure: "obeys R (emit_policy_failure e call_id name reason_code hash)"
  unfolding emit_policy_failure_def by (rule obeys_emit) simp

lemma obeys_emit_approval_failure: "obeys R (emit_approval_failure e call_id name hash reason_code)"
  unfolding emit_approval_failure_def by (rule obeys_emit) simp

lemma obeys_ask_policy_request: "obeys R (ask_policy_request e call)"
  unfolding ask_policy_request_def by (intro obeys_events) simp

lemma obeys_withdraw: "obeys R (withdraw e q)"
  unfolding withdraw_def by (intro obeys_events) simp

lemma obeys_suppress: "obeys R m \<Longrightarrow> obeys R (suppress_exception m)"
  unfolding suppress_exception_def by (intro obeys_events)

lemma obeys_reread: "obeys R (reread e q)"
  unfolding reread_def by (intro obeys_events)

lemma obeys_prepare_execution: "obeys R (prepare_policy_execution_call e call b)"
  unfolding prepare_policy_execution_call_def
  by (intro obeys_events obeys_ask_policy_request obeys_observe)

lemma obeys_progress_chunks: "obeys R (progress_chunks e call binding serialized data is)"
  by (induction "is") (auto intro!: obeys_events obeys_emit)

lemma obeys_seen_call: "obeys R (seen_call e call)"
  unfolding seen_call_def by (intro obeys_events obeys_observe)

end

text \<open>The refusals and the records of calls.\<close>

locale quiet_order = event_order +
  assumes calls: "R s (s\<lparr>rt_calls := rt_calls s @ [c]\<rparr>)"
begin

lemma obeys_append_record: "obeys R (append_record r)"
  by (auto simp: append_record_def intro!: obeys_modify obeys_throw calls split: option.splits)

lemmas obeys_basic = obeys_events obeys_append_record

lemma obeys_record_denial: "obeys R (record_denial e call_id name reason_code hash)"
  unfolding record_denial_def by (intro obeys_basic obeys_modify calls obeys_emit) simp

lemma obeys_refuse_policy: "obeys R (refuse_policy e nb reason_code)"
  unfolding refuse_policy_def by (intro obeys_basic obeys_emit_policy_failure obeys_record_denial)

lemma obeys_deny: "obeys R (deny e nb reason_code reason)"
  unfolding deny_def by (intro obeys_basic obeys_record_denial)

lemma obeys_refuse_approval: "obeys R (refuse_approval e nb reason_code reason)"
  unfolding refuse_approval_def by (intro obeys_basic obeys_emit_approval_failure obeys_deny)

lemmas obeys_refusals = obeys_refuse_policy obeys_deny obeys_refuse_approval

lemma obeys_decide_outcome: "obeys R (decide_outcome e nb b q out)"
  unfolding decide_outcome_def by (intro obeys_basic obeys_reread obeys_refusals obeys_emit) simp

lemma obeys_await_authorization: "obeys R (await_authorization e nb q)"
  unfolding await_authorization_def
  by (intro obeys_bind_ask obeys_basic obeys_reread obeys_refusals obeys_suppress obeys_withdraw) auto

lemma obeys_request_approval: "obeys R (request_approval e started nb b q)"
  unfolding request_approval_def
  by (intro obeys_basic obeys_clock obeys_withdraw obeys_refusals obeys_await_authorization obeys_decide_outcome obeys_emit) simp

lemma obeys_prepare_approval: "obeys R (prepare_approval e started nb q)"
  unfolding prepare_approval_def
  by (intro obeys_basic obeys_expired obeys_reread obeys_withdraw obeys_refusals) simp

lemma obeys_enforce_ask: "obeys R (enforce_ask e started nb b)"
  unfolding enforce_ask_def by (intro obeys_basic obeys_prepare_approval obeys_request_approval obeys_refusals)

lemma obeys_enforce_decision: "obeys R (enforce_decision e started nb request d)"
  unfolding enforce_decision_def by (intro obeys_basic obeys_enforce_ask obeys_refusals obeys_emit) simp

lemma obeys_evaluate_request: "obeys R (evaluate_request e started nb request)"
  unfolding evaluate_request_def
proof (rule obeys_bind_ask)
  fix n
  show "obeys R (case rn_evaluate e n request of
      None \<Rightarrow> refuse_policy e nb ''policy_engine_unavailable''
    | Some d \<Rightarrow>
        if pd_risk_classes d \<noteq> rq_risk_classes request then refuse_policy e nb ''policy_engine_unavailable''
        else seq (log_action (Decided nb request d)) (enforce_decision e started nb request d))"
    by (auto split: option.splits intro!: obeys_refusals obeys_seq obeys_log obeys_enforce_decision)
qed

lemma obeys_enforce_policy: "obeys R (enforce_policy e started call nb)"
  unfolding enforce_policy_def
  by (intro obeys_basic obeys_ask_policy_request obeys_observe obeys_evaluate_request obeys_refusals)

lemma obeys_authorize_call: "obeys R (authorize_call e started call nb)"
  unfolding authorize_call_def refuse_binding_def
  by (intro obeys_basic obeys_enforce_policy obeys_prepare_execution obeys_refusals obeys_emit) simp

lemma obeys_prepare_calls: "obeys R (prepare_calls e started seen cs)"
proof (induction cs arbitrary: seen)
  case (Cons c cs)
  show ?case by (cases c) (simp only: prepare_calls.simps, intro obeys_basic obeys_authorize_call Cons.IH)
qed (simp add: obeys_ret)

lemma obeys_tool_failed: "obeys R (tool_failed e call binding x)"
  unfolding tool_failed_def by (intro obeys_basic obeys_emit) simp

lemma obeys_tool_returned: "obeys R (tool_returned e call binding output)"
  unfolding tool_returned_def by (intro obeys_basic obeys_emit obeys_progress_chunks) simp

lemma obeys_user_denied: "obeys R (user_denied e call)"
  unfolding user_denied_def by (intro obeys_basic obeys_emit) simp

lemma obeys_legacy_approval: "obeys R (legacy_approval e call)"
  unfolding legacy_approval_def by (intro obeys_basic obeys_emit obeys_seen_call obeys_user_denied) simp_all

end

text \<open>The terminal task: what only a stop of the run does.\<close>

fun closing :: "action \<Rightarrow> bool" where
  "closing (Emitted ev) = (ae_kind ev = RUN_STOPPED)"
| "closing (Captured t) = True"
| "closing (RecordedResult t) = True"
| "closing _ = False"

locale terminal_order = quiet_order +
  assumes closing_log: "closing a \<Longrightarrow> R s (s\<lparr>rt_trace := a # rt_trace s\<rparr>)"
    and persisted: "R s (s\<lparr>ds_terminal_persisted := True\<rparr>)"
    and task: "R s (s\<lparr>ds_task := Some t\<rparr>)"
    and started: "R s (s\<lparr>ds_terminal_started := True, ds_terminal_reason := reason, ds_terminal_error := error,
       ds_structured := v, ds_content := text, ds_iterations := i, ds_calls := records, ds_usage := u\<rparr>)"
begin

lemma obeys_closing: "closing a \<Longrightarrow> obeys R (log_action a)"
  by (simp add: log_action_def obeys_modify closing_log)

lemma obeys_perform: "obeys R (perform e a st)"
  unfolding perform_def by (cases st) (auto intro!: obeys_basic obeys_closing)

lemma obeys_stage_done: "obeys R (stage_done st)"
  unfolding stage_done_def by (intro obeys_basic obeys_modify persisted)

lemma obeys_run_stages: "obeys R (run_stages e a sts)"
  by (induction sts) (auto intro!: obeys_rules obeys_answer obeys_perform obeys_stage_done)

lemma obeys_set_task: "obeys R (set_task t)"
  unfolding set_task_def by (intro obeys_modify task)

lemma obeys_task: "(\<And>st rest a. obeys R (f st rest a)) \<Longrightarrow> obeys R g \<Longrightarrow> obeys R (case t of Some (TaskPending st rest a) \<Rightarrow> f st rest a | _ \<Rightarrow> g)"
  by (simp split: option.splits terminal_task.splits)

lemma obeys_resume_task: "obeys R (resume_task e)"
  unfolding resume_task_def by (intro obeys_rules obeys_task obeys_answer obeys_ask obeys_stage_done obeys_run_stages obeys_set_task)

lemma obeys_shield: "obeys R shield"
  unfolding shield_def by (auto intro!: obeys_rules split: option.splits terminal_task.splits)

lemma obeys_stop_run: "obeys R (stop_run e reason text iterations records u error v record_result)"
  unfolding stop_run_def start_terminal_def
  by (intro obeys_rules obeys_modify started persisted obeys_run_stages obeys_set_task obeys_resume_task obeys_shield)

end

text \<open>The updates of the locals that a pass of the loop makes, and a stop of the run.\<close>

locale stop_order = quiet_order +
  assumes content: "R s (s\<lparr>rt_content := t\<rparr>)"
    and structured: "R s (s\<lparr>rt_structured := v\<rparr>)"
    and retries: "R s (s\<lparr>rt_retries := n'\<rparr>)"
    and final_content: "R s (s\<lparr>rt_final_content := t\<rparr>)"
    and final_usage: "R s (s\<lparr>rt_final_usage := u\<rparr>)"
    and usage: "R s (s\<lparr>rt_usage := u\<rparr>)"
    and counted_usage: "R s (s\<lparr>ds_usage := Some u\<rparr>)"
    and seen: "R s (s\<lparr>rt_seen := ks\<rparr>)"
    and stop: "obeys R (stop_run e reason text iterations records u error v record_result)"
begin

lemma obeys_stop_now: "obeys R (stop_now e reason error v)"
  unfolding stop_now_def by (intro obeys_basic stop)

lemma obeys_stop_final: "obeys R (stop_final e reason error v)"
  unfolding stop_final_def by (intro obeys_basic stop)

lemma obeys_stop_for_budget_error: "(\<And>r t v. obeys R (f r t v)) \<Longrightarrow> obeys R (stop_for_budget_error e f reason code)"
  unfolding stop_for_budget_error_def by (intro obeys_basic obeys_emit) simp

lemma obeys_reject_capabilities: "(\<And>r t v. obeys R (f r t v)) \<Longrightarrow> obeys R (reject_provider_capabilities e f missing)"
  unfolding reject_provider_capabilities_def by (intro obeys_basic obeys_emit) simp

lemmas obeys_stops = obeys_stop_now obeys_stop_final obeys_stop_for_budget_error obeys_reject_capabilities

lemma obeys_emit_response: "obeys R (emit_response e resp)"
  unfolding emit_response_def by (intro obeys_basic obeys_emit_usage) simp

lemma obeys_exc:
  "(\<And>caps t. x = XUnsupported caps t \<Longrightarrow> obeys R (f caps t)) \<Longrightarrow> obeys R g \<Longrightarrow> obeys R (case x of XUnsupported caps t \<Rightarrow> f caps t | _ \<Rightarrow> g)"
  by (simp split: run_exc.splits)

lemma obeys_accept_synthesis: "obeys R (accept_synthesis e reason resp)"
  unfolding accept_synthesis_def finish_synthesis_def
  by (intro obeys_basic obeys_stops obeys_modify final_content obeys_emit) simp_all

lemma obeys_ends_run: "obeys R m \<Longrightarrow> obeys R (ends_run m)"
  unfolding ends_run_def by (intro obeys_basic)

lemma obeys_prepare_policy_batch: "obeys R (prepare_policy_batch e started copies)"
  unfolding prepare_policy_batch_def by (intro obeys_basic obeys_prepare_calls obeys_modify seen)

lemma obeys_can_retry: "obeys R (can_retry e started)"
  unfolding can_retry_def by (intro obeys_basic obeys_expired)

lemma obeys_reject_structured: "obeys R (reject_structured e started c code)"
  unfolding reject_structured_def
  by (intro obeys_basic obeys_emit obeys_can_retry obeys_modify retries obeys_ends_run obeys_stops) simp

lemma obeys_reflect_response: "obeys R (reflect_response e started text copies)"
  unfolding reflect_response_def by (intro obeys_basic obeys_clock obeys_modify usage) simp

lemma obeys_refuse_snapshot: "obeys R (refuse_snapshot e call_id name)"
  unfolding refuse_snapshot_def
  by (intro obeys_basic obeys_emit obeys_emit_policy_failure obeys_record_denial obeys_ends_run obeys_stops) simp

end

text \<open>With calls of the model.\<close>

locale model_order = stop_order +
  assumes model_log: "R s (s\<lparr>rt_trace := CalledModel ms ts n # rt_trace s\<rparr>)"
begin

lemma obeys_complete_model: "obeys R (complete_model e tools max_tokens)"
  unfolding complete_model_def log_action_def by (intro obeys_basic obeys_modify model_log)

lemma obeys_final_synthesis: "obeys R (final_synthesis e started reason)"
  unfolding final_synthesis_def
  by (intro obeys_basic obeys_within_deadline obeys_complete_model obeys_modify final_usage obeys_emit_response obeys_accept_synthesis)

lemma obeys_finalize_run: "obeys R (finalize_run e started reason)"
proof -
  have "obeys R (modify (\<lambda>s. s\<lparr>rt_final_content := rt_content s, rt_final_usage := rt_usage s\<rparr>))"
    by (rule obeys_modify) (rule onward [OF final_content final_usage])
  then show ?thesis unfolding finalize_run_def
    by (intro obeys_basic obeys_expired obeys_stops obeys_final_synthesis obeys_exc)
qed

lemma obeys_request_model: "obeys R (request_model e started)"
  unfolding request_model_def
  by (intro obeys_basic obeys_within_deadline obeys_complete_model obeys_stops obeys_exc)

end

text \<open>With calls of the tools that are allowed.\<close>

locale tool_order = quiet_order +
  fixes allowed :: "tool_call \<Rightarrow> bool"
  assumes tool_log: "allowed call \<Longrightarrow> R s (s\<lparr>rt_trace := Executed call # rt_trace s\<rparr>)"
begin

lemma obeys_execute_tool: "allowed call \<Longrightarrow> obeys R (execute_tool e call)"
  unfolding execute_tool_def log_action_def by (intro obeys_basic obeys_modify tool_log)

lemma obeys_dispatch_tool: "allowed call \<Longrightarrow> obeys R (dispatch_tool e started call binding)"
  unfolding dispatch_tool_def
  by (intro obeys_basic obeys_within_deadline obeys_execute_tool obeys_tool_failed obeys_tool_returned)

lemma obeys_dispatch_prepared:
  "(\<And>call b. Some (call, b) \<in> set prepared \<Longrightarrow> allowed call) \<Longrightarrow> obeys R (dispatch_prepared e started prepared)"
proof (induction prepared)
  case (Cons p ps)
  have rest: "obeys R (dispatch_prepared e started ps)" by (rule Cons.IH) (erule Cons.prems [OF list.set_intros(2)])
  show ?case
  proof (cases p)
    case (Some cb)
    obtain call b where cb: "cb = (call, b)" by (cases cb)
    have "allowed call" by (rule Cons.prems [of call b]) (simp add: Some cb)
    then show ?thesis by (simp add: Some cb obeys_seq obeys_dispatch_tool rest)
  qed (simp add: rest)
qed (simp add: obeys_ret)

end

text \<open>A pass of the loop after its iteration was counted.\<close>

locale pass_order = model_order R e + tool_order R e "\<lambda>_. True" for R e
begin

lemma obeys_dispatch_legacy: "obeys R (dispatch_legacy e started cs)"
proof (induction cs)
  case (Cons c cs)
  show ?case unfolding dispatch_legacy.simps
    by (intro obeys_basic obeys_ends_run obeys_finalize_run obeys_modify seen obeys_emit obeys_legacy_approval
        obeys_dispatch_tool Cons.IH) simp_all
qed (simp add: obeys_ret)

lemma obeys_dispatch_policy: "obeys R (dispatch_policy e started copies)"
  unfolding dispatch_policy_def
  by (intro obeys_basic obeys_ends_run obeys_finalize_run obeys_prepare_policy_batch obeys_stops obeys_dispatch_prepared) simp

lemma obeys_publish_response: "obeys R (publish_response e started text copies)"
  unfolding publish_response_def run_tools_def
  by (intro obeys_basic obeys_modify content obeys_emit obeys_ends_run obeys_finalize_run obeys_stops
      obeys_dispatch_policy obeys_dispatch_legacy) simp

lemma obeys_check_structured: "obeys R (check_structured e started text copies)"
  unfolding check_structured_def
  by (auto split: list.splits option.splits sum.splits
      intro!: obeys_seq obeys_modify structured obeys_reject_structured obeys_publish_response)

lemma obeys_accept_response: "obeys R (accept_response e started resp copies)"
  unfolding accept_response_def
  by (intro obeys_basic obeys_ends_run obeys_stops obeys_modify content obeys_reflect_response obeys_check_structured)

lemma obeys_receive_response: "obeys R (receive_response e started resp)"
proof -
  have "obeys R (modify (\<lambda>s. let u = add_usage (rt_usage s) (rs_usage resp) in s\<lparr>rt_usage := u, ds_usage := Some u\<rparr>))"
    unfolding Let_def by (rule obeys_modify) (rule onward [OF usage counted_usage])
  then show ?thesis unfolding receive_response_def
    by (intro obeys_basic obeys_expired obeys_emit_response obeys_refuse_snapshot obeys_accept_response) simp_all
qed

lemma obeys_call_model: "obeys R (call_model e started)"
  unfolding call_model_def
  by (intro obeys_basic obeys_ends_run obeys_stops obeys_request_model obeys_receive_response)

end

end
