(* ===== verification/Agent_Run.thy ===== *)
theory Agent_Run
  imports Agent_Frames
begin

text \<open>
  The loop of the agent runtime, \<open>_run\<close> around it and \<open>run\<close> around that (\<open>runtime/engine.py\<close>).
  A pass that does not end the run has counted its iteration, which is why the loop ends.
\<close>

definition same_iterations :: "runtime_state \<Rightarrow> runtime_state \<Rightarrow> bool" where
  "same_iterations s s' = (rt_iterations s' = rt_iterations s)"

interpretation iter_stop: terminal_order same_iterations e for e
  by unfold_locales (auto simp: same_iterations_def)

interpretation iter: pass_order same_iterations e for e
  by unfold_locales (auto simp: same_iterations_def intro: iter_stop.obeys_stop_run)

lemma loop_body_counts:
  assumes "loop_body e started s = (Inr None, s')"
  shows "rt_iterations s' = rt_iterations s + 1"
proof -
  have ends: "ends_run m t \<noteq> (Inr None, t')" for m t t'
    by (auto simp: ends_run_def bind_def ret_def split: prod.splits sum.splits)
  obtain r s1 where s1: "expired e started s = (r, s1)" by (cases "expired e started s")
  have i1: "rt_iterations s1 = rt_iterations s"
    using obeysD [OF iter_stop.obeys_expired s1] by (simp add: same_iterations_def)
  let ?s2 = "s1\<lparr>rt_iterations := rt_iterations s1 + 1, ds_iterations := rt_iterations s1 + 1\<rparr>"
  have "seq (emit e ITERATION_STARTED []) (call_model e started) ?s2 = (Inr None, s')"
    using assms ends s1 by (auto simp: loop_body_def bind_def seq_def begin_iteration_def modify_def split: sum.splits if_splits)
  moreover have "obeys same_iterations (seq (emit e ITERATION_STARTED []) (call_model e started))"
    by (intro iter_stop.obeys_seq iter_stop.obeys_emit iter.obeys_call_model) simp
  ultimately have "same_iterations ?s2 s'" by (blast intro: obeysD)
  with i1 show ?thesis by (simp add: same_iterations_def)
qed

function run_loop :: "runtime_env \<Rightarrow> int \<Rightarrow> agent_result run_prog" where
  "run_loop e started s =
     (if rt_iterations s < rb_max_iterations (rn_budget e) then
        (case loop_body e started s of
           (Inl x, s') \<Rightarrow> (Inl x, s')
         | (Inr (Some res), s') \<Rightarrow> (Inr res, s')
         | (Inr None, s') \<Rightarrow> run_loop e started s')
      else finalize_run e started ITERATION_BUDGET_EXHAUSTED s)"
  by pat_completeness auto
termination
  by (relation "measure (\<lambda>(e, started, s). nat (rb_max_iterations (rn_budget e) - rt_iterations s))")
    (auto dest: loop_body_counts [OF sym])

declare run_loop.simps [simp del]

text \<open>The \<open>except\<close> clauses around the loop.\<close>

definition loop_failed :: "runtime_env \<Rightarrow> run_exc \<Rightarrow> agent_result run_prog" where
  "loop_failed e x =
     (case x of
        XCancelled \<Rightarrow> throw x
      | XDeadline \<Rightarrow> stop_now e TIME_BUDGET_EXHAUSTED None VNone
      | XTimeout t \<Rightarrow> stop_now e TIME_BUDGET_EXHAUSTED None VNone
      | _ \<Rightarrow>
          (case budget_stop x of
             Some r \<Rightarrow> stop_for_budget_error e (stop_now e) r (exc_text x)
           | None \<Rightarrow> stop_now e ERROR (Some (''runtime_error:'' @ exc_type x)) VNone))"

definition run_inner :: "runtime_env \<Rightarrow> int \<Rightarrow> agent_result run_prog" where
  "run_inner e started =
     seq (modify (\<lambda>s. s\<lparr>rt_history := snapshot_history (rn_messages e)\<rparr>))
     (seq (emit e RUN_STARTED [])
      (try_catch (run_loop e started) (loop_failed e)))"

subsection \<open>The run and its deadline\<close>

definition indeterminate_result :: "runtime_state \<Rightarrow> agent_result" where
  "indeterminate_result s =
     \<lparr>ar_content = ds_content s, ar_stop_reason = TIME_BUDGET_EXHAUSTED, ar_iterations = ds_iterations s,
      ar_tool_calls = ds_calls s, ar_usage = (case ds_usage s of Some u \<Rightarrow> u | None \<Rightarrow> no_usage),
      ar_error = Some ''terminal_persistence_indeterminate'', ar_structured_output = VNone\<rparr>"

definition terminal_reported :: "runtime_state \<Rightarrow> agent_result" where
  "terminal_reported s =
     (let res = terminal_result TIME_BUDGET_EXHAUSTED s no_usage in
      if \<not> ds_terminal_persisted s \<and> (ar_error res = None \<or> ar_error res = Some [])
      then res\<lparr>ar_error := Some ''terminal_persistence_indeterminate''\<rparr> else res)"

text \<open>
  \<open>_deadline_result\<close>: a task that has started gets two short waits, the second after it was
  cancelled; otherwise the run is stopped within a grace period of its own clock.
\<close>

definition deadline_result :: "runtime_env \<Rightarrow> agent_result run_prog" where
  "deadline_result e =
     bind (reads ds_terminal_started) (\<lambda>terminal.
     if terminal then seq (resume_task e) (seq (resume_task e) (reads terminal_reported))
     else
       try_catch
         (bind (ask (rn_grace_over e)) (\<lambda>over.
          if over then throw XDeadline
          else
            bind (reads id) (\<lambda>s.
            bind (stop_run e TIME_BUDGET_EXHAUSTED (ds_content s) (ds_iterations s) (ds_calls s)
                    (case ds_usage s of Some u \<Rightarrow> u | None \<Rightarrow> no_usage) (Some ''deadline_exceeded'') VNone True) (\<lambda>res.
            bind (ask (rn_grace_over e)) (\<lambda>late. if late then throw XDeadline else ret res)))))
         (\<lambda>x. reads indeterminate_result))"

text \<open>\<open>await_before_deadline\<close> around \<open>_run\<close>: a cancellation comes from the deadline or from the caller.\<close>

definition await_run :: "runtime_env \<Rightarrow> int \<Rightarrow> agent_result run_prog" where
  "await_run e started =
     bind (clock e) (\<lambda>now.
     bind (reads ds_deadline) (\<lambda>deadline.
     if deadline - now \<le> 0 then throw XDeadline
     else
       seq (clock e)
       (bind (try_catch (bind (run_inner e started) (\<lambda>res. ret (Inr res))) (\<lambda>x. ret (Inl x))) (\<lambda>r.
        case r of
          Inl x \<Rightarrow>
            if x = XCancelled
            then bind (ask (rn_deadline_fired e)) (\<lambda>fired. throw (if fired then XDeadline else XCancelled))
            else bind (clock e) (\<lambda>late. throw (if late \<ge> deadline then XDeadline else x))
        | Inr res \<Rightarrow> bind (clock e) (\<lambda>late. if late \<ge> deadline then throw XDeadline else ret res)))))"

definition cancelled_run :: "runtime_env \<Rightarrow> agent_result run_prog" where
  "cancelled_run e =
     bind (reads id) (\<lambda>s.
     seq (stop_run e CANCELLED [] (ds_iterations s) (ds_calls s)
            (case ds_usage s of Some u \<Rightarrow> u | None \<Rightarrow> no_usage) (Some ''run_cancelled'') VNone False)
     (throw XCancelled))"

definition fresh_state :: "int \<Rightarrow> runtime_state" where
  "fresh_state deadline =
     \<lparr>rt_step = 1, rt_trace = [], rt_history = [], rt_iterations = 0, rt_calls = [], rt_seen = {}, rt_usage = no_usage,
      rt_content = [], rt_structured = VNone, rt_retries = 0, rt_final_content = [], rt_final_usage = no_usage,
      ds_deadline = deadline, ds_terminal_started = False, ds_terminal_persisted = False, ds_terminal_reason = None,
      ds_terminal_error = None, ds_content = [], ds_iterations = 0, ds_calls = [], ds_usage = None,
      ds_structured = VNone, ds_task = None\<rparr>"

definition run_agent :: "runtime_env \<Rightarrow> (run_exc + agent_result) \<times> runtime_state" where
  "run_agent e =
     (let started = rn_clock e 0 in
      try_catch (await_run e started)
        (\<lambda>x. if x = XCancelled then cancelled_run e else if x = XDeadline then deadline_result e else throw x)
        (fresh_state (started + rb_max_seconds (rn_budget e))))"

subsection \<open>What a whole run does to the state\<close>

text \<open>
  Around the loop there are only events and stops: what the loop establishes, and these keep,
  holds at the end of the run.
\<close>

locale frame_order = stop_order +
  assumes resume: "obeys R (resume_task e)"
begin

lemma obeys_loop_failed: "obeys R (loop_failed e x)"
  unfolding loop_failed_def by (auto split: run_exc.splits option.splits intro!: obeys_throw obeys_stops)

lemma obeys_deadline_result: "obeys R (deadline_result e)"
  unfolding deadline_result_def by (intro obeys_basic resume stop)

lemma obeys_cancelled_run: "obeys R (cancelled_run e)"
  unfolding cancelled_run_def by (intro obeys_basic stop)

lemma run_agent_ends:
  assumes loop: "\<And>started. triple P (run_loop e started) (\<lambda>_. Q) (\<lambda>_. Q)"
    and P: "\<And>s s'. P s \<Longrightarrow> R s s' \<Longrightarrow> P s'" and Q: "\<And>s s'. Q s \<Longrightarrow> R s s' \<Longrightarrow> Q s'"
    and weaker: "\<And>s. P s \<Longrightarrow> Q s" and fresh: "\<And>d. P (fresh_state d)"
    and run: "run_agent e = (r, s)"
  shows "Q s"
proof -
  have first: "triple P (bind m f) (\<lambda>_. Q) (\<lambda>_. Q)" if "obeys R m" "\<And>a. triple P (f a) (\<lambda>_. Q) (\<lambda>_. Q)"
    for m :: "'b run_prog" and f :: "'b \<Rightarrow> 'c run_prog"
    by (rule triple_bind [where Q' = "\<lambda>_. P"], rule triple_obeys [OF that(1)]) (auto intro: P weaker that(2))
  have keep: "obeys R m \<Longrightarrow> triple Q m (\<lambda>_. Q) (\<lambda>_. Q)" for m :: "'b run_prog"
    by (erule triple_obeys) (auto intro: Q)
  have inner: "triple P (run_inner e started) (\<lambda>_. Q) (\<lambda>_. Q)" for started
    unfolding run_inner_def seq_def
    by (intro first triple_try [OF loop] keep obeys_loop_failed obeys_modify history obeys_emit) simp
  have caught: "triple P (try_catch (bind (run_inner e started) (\<lambda>res. ret (Inr res))) (\<lambda>x. ret (Inl x))) (\<lambda>_. Q) (\<lambda>_. Q)" for started
    by (intro triple_try [OF triple_bind [OF inner]] keep obeys_ret)
  have early: "triple P (throw x) (\<lambda>_. Q) (\<lambda>_. Q)" for x :: run_exc
    by (intro triple_throw weaker)
  have split: "triple P m (\<lambda>_. Q) (\<lambda>_. Q) \<Longrightarrow> triple P k (\<lambda>_. Q) (\<lambda>_. Q) \<Longrightarrow> triple P (if b then m else k) (\<lambda>_. Q) (\<lambda>_. Q)"
    for b and m k :: "agent_result run_prog" by simp
  have "triple P (await_run e started) (\<lambda>_. Q) (\<lambda>_. Q)" for started
    unfolding await_run_def seq_def
    by (intro first split early triple_bind [OF caught] keep obeys_basic obeys_clock)
  then have "triple P (try_catch (await_run e started)
      (\<lambda>x. if x = XCancelled then cancelled_run e else if x = XDeadline then deadline_result e else throw x)) (\<lambda>_. Q) (\<lambda>_. Q)" for started
    by (rule triple_try) (intro keep obeys_basic obeys_cancelled_run obeys_deadline_result)
  then show ?thesis using fresh run unfolding run_agent_def Let_def by (rule triple_end)
qed

end

locale run_order = frame_order R e + pass_order R e for R e +
  assumes begins: "R s (s\<lparr>rt_iterations := i, ds_iterations := i\<rparr>)"
begin

lemma obeys_loop_body: "obeys R (loop_body e started)"
  unfolding loop_body_def begin_iteration_def
  by (intro obeys_basic obeys_expired obeys_ends_run obeys_stops obeys_modify begins obeys_emit obeys_call_model) simp

lemma obeys_run_loop: "obeys R (run_loop e started)"
proof -
  have "e' = e \<Longrightarrow> R s (snd (run_loop e' started s))" for e' s
  proof (induction e' started s rule: run_loop.induct)
    case (1 e' started s)
    show ?case
    proof (cases "rt_iterations s < rb_max_iterations (rn_budget e')")
      case True
      obtain r s' where b: "loop_body e' started s = (r, s')" by (cases "loop_body e' started s")
      with obeysD [OF obeys_loop_body] 1(2) have "R s s'" by simp
      with 1(1) [OF True b [symmetric]] 1(2) b True show ?thesis
        by (subst run_loop.simps) (auto split: sum.splits option.splits intro: onward)
    next
      case False
      with 1(2) obeys_finalize_run [of started ITERATION_BUDGET_EXHAUSTED] show ?thesis
        by (subst run_loop.simps) (simp add: obeys_def)
    qed
  qed
  then show ?thesis by (simp add: obeys_def)
qed

lemma obeys_run_inner: "obeys R (run_inner e started)"
  unfolding run_inner_def
  by (intro obeys_basic obeys_modify history obeys_emit obeys_run_loop obeys_loop_failed) simp_all

lemma obeys_await_run: "obeys R (await_run e started)"
  unfolding await_run_def by (intro obeys_basic obeys_clock obeys_run_inner)

lemma run_agent_obeys: "run_agent e = (r, s) \<Longrightarrow> R (fresh_state (rn_clock e 0 + rb_max_seconds (rn_budget e))) s"
  unfolding run_agent_def Let_def
  by (erule obeysD [rotated]) (intro obeys_basic obeys_await_run obeys_cancelled_run obeys_deadline_result)

end

end
