(* ===== verification/Agent_Demo.thy ===== *)
theory Agent_Demo
  imports Agent_Run
begin

text \<open>
  A run under the default policy: the model asks for a mail to be sent, the owner approves, the
  tool runs, and the model completes.
\<close>

definition demo_budget :: runtime_budget where
  "demo_budget =
     \<lparr>rb_max_iterations = 3, rb_max_tool_calls = 2, rb_max_tokens = 1000, rb_max_seconds = 300,
      rb_max_tool_result_chars = 12000, rb_final_synthesis_tokens = 2048, rb_max_structured_retries = 1,
      rb_max_context_tokens = 200000, rb_context_output_reserve_tokens = 4096\<rparr>"

definition demo_mail :: raw_call where
  "demo_mail = \<lparr>rc_id = Some ''c1'', rc_name = Some ''send_mail'', rc_arguments = Some (VDict [(KStr ''to'', VStr ''ann'')])\<rparr>"

definition demo_response :: "string option \<Rightarrow> raw_call list \<Rightarrow> model_response" where
  "demo_response content calls =
     \<lparr>rs_content = content, rs_tool_calls = calls,
      rs_usage = \<lparr>tu_input_tokens = 10, tu_output_tokens = 5, tu_cache_read = None, tu_cache_write = None\<rparr>,
      rs_stop_reason = None, rs_actual_provider = None, rs_actual_model = None\<rparr>"

definition demo_digest :: string where
  "demo_digest = replicate 64 (CHR ''a'')"

definition demo_agent :: runtime_env where
  "demo_agent =
     \<lparr>rn_budget = demo_budget, rn_policy_mode = True, rn_policy_aware = True, rn_authorizer = PreparatoryAuthorizer,
      rn_approval_timeout = 30, rn_has_hook = False, rn_requires_approval = (\<lambda>_. False), rn_has_recorder = True,
      rn_has_capture = False, rn_compliance = None, rn_reflection_enabled = False,
      rn_capabilities = Some (text_only\<lparr>pc_native_tools := True\<rparr>),
      rn_tools = [\<lparr>td_name = ''send_mail'', td_description = [], td_input_schema = VDict []\<rparr>],
      rn_messages = [text_message RUser ''write to ann''], rn_contract = None, rn_required = None,
      rn_sha256 = (\<lambda>_. demo_digest), rn_image_ok = (\<lambda>_. True), rn_clock = (\<lambda>_. 0),
      rn_emit = (\<lambda>_ _. Returned ()),
      rn_complete = (\<lambda>_ messages. Returned
        (if length messages = 1 then demo_response None [demo_mail] else demo_response (Some ''sent'') [])),
      rn_execute = (\<lambda>_ _. Returned [(KStr ''ok'', VBool True)]),
      rn_policy_request = (\<lambda>_ c. Some \<lparr>rq_tool_name = tc_name c, rq_resources = [], rq_risk_classes = {WRITE},
        rq_legacy_requires_approval = False\<rparr>),
      rn_observe = (\<lambda>_ c. Some c),
      rn_evaluate = (\<lambda>_ request. Some (evaluate_policy default_policy_engine request)),
      rn_prepare = (\<lambda>_ _. Returned ()), rn_request = (\<lambda>_ q. q),
      rn_authorize = (\<lambda>_ q. Returned (Some \<lparr>ao_approved = True, ao_tool_call_id = aq_tool_call_id q,
        ao_tool_name = aq_tool_name q, ao_arguments_hash = aq_arguments_hash q, ao_reason_code = ''owner_approved''\<rparr>)),
      rn_withdraw = (\<lambda>_ _. Returned ()), rn_hook = (\<lambda>_ _. Returned False),
      rn_reflect = (\<lambda>_ t. Returned (t, no_usage)), rn_capture = (\<lambda>_ _. None), rn_record = (\<lambda>_ _. Returned ()),
      rn_resume = (\<lambda>_. Returned ()), rn_deadline_fired = (\<lambda>_. False), rn_grace_over = (\<lambda>_. False)\<rparr>"

text \<open>The state after some steps that only added to the trace.\<close>

definition adv :: "nat \<Rightarrow> action list \<Rightarrow> runtime_state \<Rightarrow> runtime_state" where
  "adv k as s = s\<lparr>rt_step := rt_step s + k, rt_trace := as @ rt_trace s\<rparr>"

lemma adv_adv [simp]: "adv k as (adv k' as' s) = adv (k' + k) (as @ as') s"
  by (simp add: adv_def)

lemma adv_fields [simp]:
  "rt_trace (adv k as s) = as @ rt_trace s" "rt_history (adv k as s) = rt_history s"
  "rt_iterations (adv k as s) = rt_iterations s" "rt_calls (adv k as s) = rt_calls s"
  "rt_seen (adv k as s) = rt_seen s" "rt_usage (adv k as s) = rt_usage s" "rt_content (adv k as s) = rt_content s"
  "rt_structured (adv k as s) = rt_structured s" "ds_deadline (adv k as s) = ds_deadline s"
  "ds_terminal_started (adv k as s) = ds_terminal_started s" "ds_task (adv k as s) = ds_task s"
  by (simp_all add: adv_def)

lemma adv_updates [simp]:
  "rt_history_update f (adv k as s) = adv k as (rt_history_update f s)"
  "rt_calls_update f2 (adv k as s) = adv k as (rt_calls_update f2 s)"
  "rt_seen_update g (adv k as s) = adv k as (rt_seen_update g s)"
  by (simp_all add: adv_def)

lemma demo_clock [simp]: "clock demo_agent s = (Inr 0, adv 1 [] s)"
  by (simp add: clock_def ask_def demo_agent_def adv_def)

lemma demo_log [simp]: "log_action a s = (Inr (), adv 0 [a] s)"
  by (simp add: log_action_def modify_def adv_def)

lemma demo_ask: "(\<And>n. f n = v) \<Longrightarrow> ask f s = (Inr v, adv 1 [] s)"
  by (simp add: ask_def adv_def)

definition demo_arguments :: json where
  "demo_arguments = JObj [(''to'', JStr ''ann'')]"

definition demo_tool_call :: tool_call where
  "demo_tool_call = \<lparr>tc_id = ''c1'', tc_name = ''send_mail'', tc_arguments = of_json demo_arguments\<rparr>"

definition demo_native :: native_binding where
  "demo_native = \<lparr>nb_tool_call_id = ''c1'', nb_tool_name = ''send_mail'', nb_arguments_hash = demo_digest,
     nb_arguments_json = dumps demo_arguments\<rparr>"

definition demo_copies :: call_copies where
  "demo_copies = \<lparr>cc_binding = demo_native, cc_history_call = demo_tool_call, cc_execution_call = demo_tool_call\<rparr>"

definition demo_policy_request :: policy_request where
  "demo_policy_request =
     \<lparr>rq_tool_name = ''send_mail'', rq_resources = [], rq_risk_classes = {WRITE}, rq_legacy_requires_approval = False\<rparr>"

definition demo_decision :: policy_decision where
  "demo_decision = evaluate_policy default_policy_engine demo_policy_request"

definition demo_bound :: execution_binding where
  "demo_bound = bind_decision demo_native demo_policy_request demo_decision"

lemma demo_facts:
  "snapshot_provider_tool_calls (\<lambda>_. demo_digest) True [demo_mail] = Inr [demo_copies]"
  "binding_matches (\<lambda>_. demo_digest) demo_native demo_tool_call"
  "pd_action demo_decision = ASK" "pd_risk_classes demo_decision = {WRITE}"
  "auth_request_ok (authorization_request demo_bound)"
  "bound_arguments demo_bound = Some demo_arguments"
  "SAFE_CODE ''owner_approved''"
  "canonical_tool False ''send_mail'' = Some ''send_mail''"
  by code_simp+

lemma demo_env:
  "rn_sha256 demo_agent = (\<lambda>_. demo_digest)" "rn_policy_aware demo_agent" "rn_policy_mode demo_agent"
  "rn_authorizer demo_agent = PreparatoryAuthorizer" "rn_approval_timeout demo_agent = 30" "rn_budget demo_agent = demo_budget"
  "rn_observe demo_agent n c = Some c" "rn_evaluate demo_agent n request = Some (evaluate_policy default_policy_engine request)"
  "rn_prepare demo_agent n q = Returned ()" "rn_request demo_agent n q = q" "rn_withdraw demo_agent n q = Returned ()"
  "rn_policy_request demo_agent n demo_tool_call = Some demo_policy_request"
  "rn_authorize demo_agent n q = Returned (Some \<lparr>ao_approved = True, ao_tool_call_id = aq_tool_call_id q,
     ao_tool_name = aq_tool_name q, ao_arguments_hash = aq_arguments_hash q, ao_reason_code = ''owner_approved''\<rparr>)"
  "rn_execute demo_agent n c = Returned [(KStr ''ok'', VBool True)]" "rn_emit demo_agent n ev = Returned ()"
  by (simp_all add: demo_agent_def demo_tool_call_def demo_policy_request_def)

lemma demo_bound_fields:
  "xb_tool_call_id demo_bound = ''c1''" "xb_tool_name demo_bound = ''send_mail''" "xb_arguments_hash demo_bound = demo_digest"
  "xb_request demo_bound = demo_policy_request" "rq_tool_name demo_policy_request = ''send_mail''"
  "rq_risk_classes demo_policy_request = {WRITE}" "nb_tool_name demo_native = ''send_mail''"
  by (simp_all add: demo_bound_def bind_decision_def demo_native_def demo_policy_request_def)

text \<open>The operations of the run that only add to the trace.\<close>

definition quietly :: "'a run_prog \<Rightarrow> 'a \<Rightarrow> runtime_state \<Rightarrow> bool" where
  "quietly m a s = (\<exists>k tr. m s = (Inr a, adv k tr s))"

lemma quietlyE: "quietly m a s \<Longrightarrow> (\<And>k tr. m s = (Inr a, adv k tr s) \<Longrightarrow> thesis) \<Longrightarrow> thesis"
  by (auto simp: quietly_def)

lemmas prog_simps = seq_def bind_def ret_def settle_def try_catch_def try_finally_def

lemma bind_ret: "bind (ret a) f = f a"
  by (simp add: bind_def ret_def)

lemma bind_run: "m s = (Inr a, s') \<Longrightarrow> bind m f s = f a s'"
  by (simp add: bind_def)

lemma seq_run: "m s = (Inr a, s') \<Longrightarrow> seq m k s = k s'"
  by (simp add: seq_def bind_def)

lemma demo_expired: "expired demo_agent 0 s = (Inr False, adv 1 [] s)"
  by (simp add: expired_def bind_def ret_def demo_agent_def [THEN arg_cong [where f = rn_budget]] demo_budget_def)

lemma demo_emit_usage:
  "ds_deadline s = 300 \<Longrightarrow> emit_usage demo_agent k i d u s = (Inr (), adv 2 [Emitted (new_agent_event k i d u)] s)"
  by (simp add: emit_usage_def Let_def prog_simps reads_def demo_ask demo_env eval_nat_numeral)

lemma demo_emit [simp]:
  "ds_deadline s = 300 \<Longrightarrow> emit demo_agent k d s = (Inr (), adv 2 [Emitted (new_agent_event k (rt_iterations s) d no_usage)] s)"
  by (simp add: emit_def bind_def reads_def demo_emit_usage)

lemma demo_withdraw: "withdraw demo_agent q s = (Inr (), adv 1 [Withdrawn q] s)"
  by (simp add: withdraw_def demo_env prog_simps demo_ask)

lemma demo_enforce_ask: "ds_deadline s = 300 \<Longrightarrow> quietly (enforce_ask demo_agent 0 demo_native demo_bound) (Inr demo_bound) s"
  unfolding quietly_def enforce_ask_def prepare_approval_def request_approval_def await_authorization_def decide_outcome_def
    reread_def expired_def suppress_exception_def
  by (simp add: demo_env demo_facts prog_simps demo_ask demo_withdraw Let_def demo_budget_def outcome_binds_def binds_def) blast

lemma demo_enforce_policy:
  "ds_deadline s = 300 \<Longrightarrow> quietly (enforce_policy demo_agent 0 demo_tool_call demo_native) (Inr demo_bound) s"
proof -
  assume d: "ds_deadline s = 300"
  define s1 where "s1 = adv 5 [Emitted (new_agent_event POLICY_DECIDED (rt_iterations s) (policy_data demo_native demo_decision) no_usage),
    Decided demo_native demo_policy_request demo_decision, AskedPolicy demo_tool_call] s"
  have "quietly (enforce_ask demo_agent 0 demo_native demo_bound) (Inr demo_bound) s1"
    by (rule demo_enforce_ask) (simp add: s1_def d)
  then obtain k tr where ask: "enforce_ask demo_agent 0 demo_native demo_bound s1 = (Inr (Inr demo_bound), adv k tr s1)"
    by (rule quietlyE)
  have "enforce_policy demo_agent 0 demo_tool_call demo_native s = enforce_ask demo_agent 0 demo_native demo_bound s1"
    unfolding enforce_policy_def evaluate_request_def enforce_decision_def ask_policy_request_def observe_def s1_def
    by (simp add: demo_env demo_facts demo_bound_fields prog_simps demo_ask d demo_decision_def [symmetric] demo_bound_def [symmetric]
        eval_nat_numeral)
  then show ?thesis using ask by (auto simp: quietly_def s1_def)
qed

lemma demo_prepare: "quietly (prepare_policy_execution_call demo_agent demo_tool_call demo_bound) (Some demo_tool_call) s"
proof -
  have v: "verified (\<lambda>_. demo_digest) demo_bound demo_tool_call" "canonical_arguments_snapshot (tc_arguments demo_tool_call) \<noteq> None"
    "canonical_tool False (tc_name demo_tool_call) = Some (tc_name demo_tool_call)"
    "canonical_arguments_hash (\<lambda>_. demo_digest) (of_json demo_arguments) = Some demo_digest"
    by code_simp+
  have c: "\<lparr>tc_id = xb_tool_call_id demo_bound, tc_name = xb_tool_name demo_bound, tc_arguments = of_json demo_arguments\<rparr> = demo_tool_call"
    by (simp add: demo_bound_fields demo_tool_call_def)
  show ?thesis unfolding quietly_def prepare_policy_execution_call_def observe_def ask_policy_request_def
    by (simp add: demo_env demo_facts prog_simps demo_ask v c Let_def) (simp add: demo_bound_fields, blast)
qed

lemma demo_authorize_call:
  "ds_deadline s = 300 \<Longrightarrow> quietly (authorize_call demo_agent 0 demo_tool_call demo_native) (Inr (demo_tool_call, demo_bound)) s"
proof -
  assume d: "ds_deadline s = 300"
  obtain ev where emit: "emit demo_agent TOOL_CALL_REQUESTED
      [(''id'', VStr (nb_tool_call_id demo_native)), (''name'', VStr (nb_tool_name demo_native)),
       (''arguments_hash'', VStr (nb_arguments_hash demo_native))] s = (Inr (), adv 2 [ev] s)"
    using demo_emit [OF d] by blast
  obtain k tr where enforce: "enforce_policy demo_agent 0 demo_tool_call demo_native (adv 2 [ev] s) = (Inr (Inr demo_bound), adv k tr (adv 2 [ev] s))"
    using demo_enforce_policy [of "adv 2 [ev] s"] d by (auto elim: quietlyE)
  obtain k' tr' where prepare: "prepare_policy_execution_call demo_agent demo_tool_call demo_bound (adv k tr (adv 2 [ev] s))
      = (Inr (Some demo_tool_call), adv k' tr' (adv k tr (adv 2 [ev] s)))"
    by (rule quietlyE [OF demo_prepare])
  show ?thesis unfolding quietly_def authorize_call_def seq_def bind_def
    using emit enforce prepare by (simp add: ret_def del: adv_adv) (simp, blast)
qed

subsection \<open>The tool runs\<close>

definition grows :: "runtime_state \<Rightarrow> runtime_state \<Rightarrow> bool" where
  "grows s s' = (set (rt_trace s) \<subseteq> set (rt_trace s'))"

interpretation growth_stop: terminal_order grows e for e
  by unfold_locales (auto simp: grows_def)

interpretation growth: run_order grows e for e
  by unfold_locales (auto simp: grows_def intro: growth_stop.obeys_stop_run growth_stop.obeys_resume_task)

definition reaches :: "action \<Rightarrow> 'a run_prog \<Rightarrow> runtime_state \<Rightarrow> bool" where
  "reaches x m s = (x \<in> set (rt_trace (snd (m s))))"

lemma reaches_after: "m s = (Inr a, s') \<Longrightarrow> reaches x (f a) s' \<Longrightarrow> reaches x (bind m f) s"
  by (simp add: reaches_def bind_def)

lemma reaches_seq_after: "m s = (Inr a, s') \<Longrightarrow> reaches x k s' \<Longrightarrow> reaches x (seq m k) s"
  by (simp add: reaches_def seq_def bind_def)

lemma reaches_first: "reaches x m s \<Longrightarrow> (\<And>a. obeys grows (f a)) \<Longrightarrow> reaches x (bind m f) s"
  unfolding reaches_def bind_def obeys_def grows_def by (auto split: prod.splits sum.splits) (metis snd_conv subsetD)

lemma reaches_seq_first: "reaches x m s \<Longrightarrow> obeys grows k \<Longrightarrow> reaches x (seq m k) s"
  unfolding seq_def by (rule reaches_first)

lemma reaches_reads: "reaches x (f (g s)) s \<Longrightarrow> reaches x (bind (reads g) f) s"
  by (simp add: reaches_def bind_reads)

lemma reaches_else: "\<not> b \<Longrightarrow> reaches x n s \<Longrightarrow> reaches x (if b then m else n) s"
  by simp

lemma reaches_try: "reaches x m s \<Longrightarrow> (\<And>y. obeys grows (h y)) \<Longrightarrow> reaches x (try_catch m h) s"
  unfolding reaches_def try_catch_def obeys_def grows_def by (auto split: prod.splits sum.splits) (metis snd_conv subsetD)

lemma demo_dispatch_reaches: "reaches (Executed c) (dispatch_tool demo_agent 0 c binding) s"
proof -
  have run: "reaches (Executed c) (execute_tool demo_agent c) s'" for s'
    by (simp add: reaches_def execute_tool_def seq_def bind_def ask_def)
  have "reaches (Executed c) (within_deadline demo_agent 0 (execute_tool demo_agent c)) s"
    unfolding within_deadline_def await_before_deadline_def
    by (rule reaches_after [OF demo_clock])
      (auto simp: demo_env demo_budget_def intro!: reaches_seq_after [OF demo_clock] reaches_first run
        growth_stop.obeys_basic growth_stop.obeys_clock)
  then show ?thesis unfolding dispatch_tool_def
    by (auto intro!: reaches_first reaches_try growth_stop.obeys_basic growth_stop.obeys_tool_failed growth_stop.obeys_tool_returned)
qed

lemma demo_batch_reaches:
  assumes "ds_deadline s = 300" "rt_seen s = {}" "rt_calls s = []"
  shows "reaches (Executed demo_tool_call) (dispatch_policy demo_agent 0 [demo_copies]) s"
proof -
  obtain key where key: "call_key demo_tool_call = Some key"
    by (auto simp: call_key_def demo_tool_call_def py_dumps_of_json)
  have novel: "novel_calls (rt_seen s) (map cc_execution_call [demo_copies]) = Some 1"
    by (simp add: demo_copies_def key assms)
  obtain k tr where auth: "authorize_call demo_agent 0 demo_tool_call demo_native s = (Inr (Inr (demo_tool_call, demo_bound)), adv k tr s)"
    using demo_authorize_call [OF assms(1)] by (auto elim: quietlyE)
  have "\<exists>s'. prepare_policy_batch demo_agent 0 [demo_copies] s = (Inr (Inr [Some (demo_tool_call, demo_bound)]), s')"
    unfolding prepare_policy_batch_def
    by (simp add: bind_reads bind_def [of "prepare_calls _ _ _ _"] demo_copies_def key assms(2))
      (simp add: bind_def auth ret_def seq_modify)
  then obtain s' where batch: "prepare_policy_batch demo_agent 0 [demo_copies] s = (Inr (Inr [Some (demo_tool_call, demo_bound)]), s')" ..
  have "reaches (Executed demo_tool_call) (dispatch_prepared demo_agent 0 [Some (demo_tool_call, demo_bound)]) s'"
    by (simp add: reaches_seq_first demo_dispatch_reaches growth_stop.obeys_ret)
  then have "reaches (Executed demo_tool_call) (seq (dispatch_prepared demo_agent 0 [Some (demo_tool_call, demo_bound)]) (ret None)) s'"
    by (rule reaches_seq_first) (rule growth_stop.obeys_ret)
  moreover have "dispatch_policy demo_agent 0 [demo_copies] s
      = seq (dispatch_prepared demo_agent 0 [Some (demo_tool_call, demo_bound)]) (ret None) s'"
    unfolding dispatch_policy_def bind_reads id_apply novel option.case
    by (simp add: bind_run batch assms(3) demo_env demo_budget_def del: dispatch_prepared.simps)
  ultimately show ?thesis by (simp only: reaches_def)
qed

lemma demo_pass_reaches:
  assumes "ds_deadline s = 300" "rt_seen s = {}" "rt_calls s = []" "rt_usage s = no_usage"
    "rt_history s = [text_message RUser ''write to ann'']"
  shows "reaches (Executed demo_tool_call) (loop_body demo_agent 0) s"
proof -
  let ?resp = "demo_response None [demo_mail]"
  have env: "rn_messages demo_agent = rt_history s" "rn_contract demo_agent = None" "rn_reflection_enabled demo_agent = False"
    "rn_complete demo_agent n (snapshot_history (rt_history s)) = Returned ?resp" for n
    by (simp_all add: demo_agent_def assms snapshot_history_def text_message_def)
  have facts: "capabilities_missing demo_agent = []"
    "(case estimate_request_input_tokens (rn_image_ok demo_agent) [text_message RUser ''write to ann''] (rn_tools demo_agent) None of
       None \<Rightarrow> False | Some n \<Rightarrow> n \<le> 195904)"
    "usage_valid (rs_usage ?resp)" "provider_stop (rs_stop_reason ?resp) True = None" "response_text ?resp = []"
    "total_tokens (add_usage no_usage (rs_usage ?resp)) \<le> 1000"
    by code_simp+
  obtain n where est: "estimate_request_input_tokens (rn_image_ok demo_agent) (rt_history s) (rn_tools demo_agent) None = Some n" "n \<le> 195904"
    using facts(2) assms(5) by (auto split: option.splits)
  have publish: "reaches (Executed demo_tool_call) (publish_response demo_agent 0 [] [demo_copies]) t"
    if "ds_deadline t = 300" "rt_seen t = {}" "rt_calls t = []" "rt_usage t = add_usage no_usage (rs_usage ?resp)" for t
  proof -
    have "reaches (Executed demo_tool_call) (run_tools demo_agent 0 [] [demo_copies]) t"
      unfolding run_tools_def
      by (auto simp: demo_env append_history_def modify_def that intro!: reaches_seq_after demo_batch_reaches)
    with that facts(6) show ?thesis
      by (simp add: publish_response_def reaches_def seq_ret bind_reads demo_env demo_budget_def)
  qed
  have accept: "reaches (Executed demo_tool_call) (accept_response demo_agent 0 ?resp [demo_copies]) t"
    if "ds_deadline t = 300" "rt_seen t = {}" "rt_calls t = []" "rt_usage t = add_usage no_usage (rs_usage ?resp)" for t
    using publish [OF that] facts
    by (simp add: accept_response_def check_structured_def reflect_response_def reaches_def seq_ret bind_ret env comply_response_def)
  have receive: "reaches (Executed demo_tool_call) (receive_response demo_agent 0 ?resp) t"
    if "ds_deadline t = 300" "rt_seen t = {}" "rt_calls t = []" "rt_usage t = no_usage" for t
  proof -
    have cs: "snapshot_provider_tool_calls (rn_sha256 demo_agent) (rn_policy_mode demo_agent) (rs_tool_calls ?resp) = Inr [demo_copies]"
      by (simp only: demo_env demo_response_def demo_facts model_response.simps)
    let ?u = "t\<lparr>rt_usage := add_usage no_usage (rs_usage ?resp), ds_usage := Some (add_usage no_usage (rs_usage ?resp))\<rparr>"
    let ?ev = "Emitted (new_agent_event MODEL_RESPONSE (rt_iterations t) (response_data ?resp) (rs_usage ?resp))"
    have "receive_response demo_agent 0 ?resp t = accept_response demo_agent 0 ?resp [demo_copies] (adv 3 [?ev, Received ?resp] ?u)"
      unfolding receive_response_def Let_def cs sum.case
      using that facts(3)
      by (simp add: seq_run bind_run [OF demo_expired] seq_modify emit_response_def bind_reads demo_emit_usage) (simp add: adv_def eval_nat_numeral)
    with accept [of "adv 3 [?ev, Received ?resp] ?u"] that show ?thesis by (simp add: reaches_def)
  qed
  have request: "\<exists>k tr. request_model demo_agent 0 t = (Inr (Inr ?resp), adv k tr t)"
    if "rt_history t = rt_history s" for t
    using that env(4)
    by (simp add: request_model_def within_deadline_def await_before_deadline_def complete_model_def prog_simps bind_reads reads_def
        demo_env demo_budget_def demo_ask Let_def) blast
  have call: "reaches (Executed demo_tool_call) (call_model demo_agent 0) t"
    if "ds_deadline t = 300" "rt_seen t = {}" "rt_calls t = []" "rt_usage t = no_usage" "rt_history t = rt_history s" for t
  proof -
    obtain k tr where "request_model demo_agent 0 t = (Inr (Inr ?resp), adv k tr t)" using request \<open>rt_history t = _\<close> by blast
    then have "call_model demo_agent 0 t = receive_response demo_agent 0 ?resp (adv k tr t)"
      using est that(5) by (simp add: call_model_def bind_reads env bind_run demo_env demo_budget_def)
    with receive [of "adv k tr t"] that show ?thesis by (simp add: reaches_def)
  qed
  let ?t = "s\<lparr>rt_iterations := rt_iterations s + 1, ds_iterations := rt_iterations s + 1\<rparr>"
  let ?ev = "Emitted (new_agent_event ITERATION_STARTED (rt_iterations s + 1) [] no_usage)"
  have "loop_body demo_agent 0 s = call_model demo_agent 0 (adv 3 [?ev] ?t)"
    using assms(1) by (simp add: loop_body_def bind_run [OF demo_expired] facts(1) begin_iteration_def seq_modify)
      (subst seq_run [OF demo_emit]; simp add: adv_def eval_nat_numeral)
  with call [of "adv 3 [?ev] ?t"] assms show ?thesis by (simp add: reaches_def)
qed

lemma reaches_loop:
  assumes "reaches x (loop_body e started) s" "rt_iterations s < rb_max_iterations (rn_budget e)"
  shows "reaches x (run_loop e started) s"
proof -
  obtain r s' where b: "loop_body e started s = (r, s')" by (cases "loop_body e started s")
  with assms(1) have x: "x \<in> set (rt_trace s')" by (simp add: reaches_def)
  have "grows s' (snd (run_loop e started s'))" using growth.obeys_run_loop by (simp add: obeys_def)
  with x b assms(2) show ?thesis unfolding reaches_def
    by (subst run_loop.simps) (auto simp: grows_def split: sum.splits option.splits)
qed

lemma demo_inner_reaches:
  assumes "s = adv k [] (fresh_state 300)"
  shows "reaches (Executed demo_tool_call) (run_inner demo_agent 0) s"
proof -
  let ?s = "s\<lparr>rt_history := snapshot_history (rn_messages demo_agent)\<rparr>"
  have history: "snapshot_history (rn_messages demo_agent) = [text_message RUser ''write to ann'']"
    by (simp add: demo_agent_def snapshot_history_def text_message_def)
  let ?t = "adv 2 [Emitted (new_agent_event RUN_STARTED (rt_iterations ?s) [] no_usage)] ?s"
  have "reaches (Executed demo_tool_call) (try_catch (run_loop demo_agent 0) (loop_failed demo_agent)) ?t"
  proof (intro reaches_try reaches_loop demo_pass_reaches)
    show "obeys grows (loop_failed demo_agent y)" for y by (rule growth.obeys_loop_failed)
  qed (simp_all add: assms history fresh_state_def demo_env demo_budget_def)
  moreover have "run_inner demo_agent 0 s = try_catch (run_loop demo_agent 0) (loop_failed demo_agent) ?t"
    unfolding run_inner_def seq_modify by (rule seq_run, rule demo_emit) (simp add: assms fresh_state_def)
  ultimately show ?thesis by (simp add: reaches_def)
qed

lemma demo_await_reaches: "reaches (Executed demo_tool_call) (await_run demo_agent 0) (fresh_state 300)"
proof -
  have inner: "reaches (Executed demo_tool_call) (run_inner demo_agent 0) (adv 1 [] (adv 1 [] (fresh_state 300)))"
    by (rule demo_inner_reaches) (simp del: One_nat_def)
  have deadline: "ds_deadline (fresh_state d) = d" for d by (simp add: fresh_state_def)
  show ?thesis unfolding await_run_def
    by (rule reaches_after [OF demo_clock], rule reaches_reads, rule reaches_else, simp add: deadline,
        rule reaches_seq_after [OF demo_clock])
      (intro reaches_first reaches_try inner growth_stop.obeys_basic growth_stop.obeys_clock)
qed

lemma demo_reaches: "Executed demo_tool_call \<in> set (rt_trace (snd (run_agent demo_agent)))"
proof -
  have "reaches (Executed demo_tool_call)
      (try_catch (await_run demo_agent 0)
        (\<lambda>x. if x = XCancelled then cancelled_run demo_agent else if x = XDeadline then deadline_result demo_agent else throw x))
      (fresh_state 300)"
    by (intro reaches_try demo_await_reaches growth_stop.obeys_basic growth.obeys_cancelled_run growth.obeys_deadline_result)
  then show ?thesis
    by (simp add: reaches_def run_agent_def Let_def demo_agent_def [THEN arg_cong [where f = rn_clock]] demo_env demo_budget_def)
qed

end
