(* ===== verification/Agent_Terminal.thy ===== *)
theory Agent_Terminal
  imports Agent_Demo
begin

text \<open>
  How a run ends. The first \<open>_stop\<close> fixes the outcome, the terminal task persists it once, and every
  later \<open>_stop\<close>, the deadline and a cancellation included, reports the same outcome.
\<close>

fun is_stop :: "action \<Rightarrow> bool" where
  "is_stop (Emitted ev) = (ae_kind ev = RUN_STOPPED)"
| "is_stop _ = False"

definition stops :: "runtime_state \<Rightarrow> action list" where
  "stops s = filter is_stop (rt_trace s)"

lemma quiet_not_stop: "quiet e a \<Longrightarrow> \<not> is_stop a"
  by (cases a) auto

subsection \<open>The terminal task\<close>

text \<open>The stages that are left of a task that has not emitted yet.\<close>

definition ends_emitting :: "stage list \<Rightarrow> bool" where
  "ends_emitting sts = (\<exists>xs. sts = xs @ [EmitStopped] \<and> EmitStopped \<notin> set xs)"

lemma ends_emitting_Nil [simp]: "\<not> ends_emitting []"
  by (simp add: ends_emitting_def)

lemma ends_emitting_Cons:
  "ends_emitting (st # sts) = (if st = EmitStopped then sts = [] else ends_emitting sts)"
proof
  assume "ends_emitting (st # sts)"
  then obtain xs where xs: "st # sts = xs @ [EmitStopped]" "EmitStopped \<notin> set xs" unfolding ends_emitting_def by blast
  then show "if st = EmitStopped then sts = [] else ends_emitting sts"
    unfolding ends_emitting_def by (cases xs) auto
next
  assume "if st = EmitStopped then sts = [] else ends_emitting sts"
  then show "ends_emitting (st # sts)"
    unfolding ends_emitting_def by (cases "st = EmitStopped") (auto intro: exI [of _ "[]"] exI [of _ "st # _"])
qed

lemma stages_end: "ends_emitting (stages e record_result)"
  unfolding ends_emitting_def stages_def
  by (rule exI [of _ "(if rn_has_capture e then [Capture] else []) @ (if record_result \<and> rn_has_recorder e then [RecordResult] else [])"]) auto

text \<open>What a task has emitted when it stands at \<open>t\<close>.\<close>

definition emitted_at :: "terminal_args \<Rightarrow> terminal_task \<Rightarrow> action list \<Rightarrow> bool" where
  "emitted_at a t emitted =
     (case t of
        TaskPending st rest a' \<Rightarrow>
          a' = a \<and> (if st = EmitStopped then rest = [] \<and> emitted = [Emitted (stopped_event a)]
                     else emitted = [] \<and> ends_emitting rest)
      | TaskDone r \<Rightarrow> (emitted = [] \<and> r \<noteq> None) \<or> emitted = [Emitted (stopped_event a)])"

lemma emitted_at_cases: "emitted_at a t emitted \<Longrightarrow> emitted = [] \<or> emitted = [Emitted (stopped_event a)]"
  by (cases t) (auto simp: emitted_at_def split: if_splits)

text \<open>The fields of the deadline state that a task leaves alone.\<close>

definition same_outcome :: "runtime_state \<Rightarrow> runtime_state \<Rightarrow> bool" where
  "same_outcome s s' =
     (ds_terminal_started s' = ds_terminal_started s \<and> ds_terminal_reason s' = ds_terminal_reason s
      \<and> ds_terminal_error s' = ds_terminal_error s \<and> ds_content s' = ds_content s)"

lemma same_outcome_refl [simp]: "same_outcome s s"
  by (simp add: same_outcome_def)

lemma same_outcome_trans: "same_outcome s s' \<Longrightarrow> same_outcome s' s'' \<Longrightarrow> same_outcome s s''"
  by (simp add: same_outcome_def)

text \<open>Nothing counts as persisted before the event was emitted.\<close>

definition persist_ok :: "runtime_state \<Rightarrow> bool" where
  "persist_ok s = (ds_terminal_persisted s \<longrightarrow> stops s \<noteq> [])"

lemma perform_effect:
  "\<exists>r s'. perform e a st s = (Inr r, s') \<and> same_outcome s s' \<and> ds_task s' = ds_task s
     \<and> ds_terminal_persisted s' = ds_terminal_persisted s
     \<and> stops s' = (if st = EmitStopped then [Emitted (stopped_event a)] else []) @ stops s"
  by (cases st)
    (auto simp: perform_def seq_def bind_def log_action_def modify_def ask_def ret_def same_outcome_def stops_def)

lemma stage_done_effect:
  "\<exists>s'. stage_done st s = (Inr (), s') \<and> same_outcome s s' \<and> ds_task s' = ds_task s \<and> stops s' = stops s
     \<and> (ds_terminal_persisted s' \<longrightarrow> st = EmitStopped \<or> ds_terminal_persisted s)"
  by (auto simp: stage_done_def modify_def ret_def same_outcome_def stops_def)

lemma run_stages_effect:
  assumes "sts = [] \<or> ends_emitting sts"
  shows "\<exists>t s' emitted. run_stages e a sts s = (Inr t, s') \<and> same_outcome s s' \<and> ds_task s' = ds_task s
     \<and> stops s' = emitted @ stops s \<and> (persist_ok s \<longrightarrow> persist_ok s') \<and> (if sts = [] then t = TaskDone None \<and> emitted = [] else emitted_at a t emitted)"
  using assms
proof (induction sts arbitrary: s)
  case Nil
  then show ?case by (auto simp: ret_def)
next
  case (Cons st sts)
  then have ends: "if st = EmitStopped then sts = [] else ends_emitting sts" by (simp add: ends_emitting_Cons)
  obtain r s1 where p: "perform e a st s = (Inr r, s1)" "same_outcome s s1" "ds_task s1 = ds_task s"
    "ds_terminal_persisted s1 = ds_terminal_persisted s"
    "stops s1 = (if st = EmitStopped then [Emitted (stopped_event a)] else []) @ stops s"
    using perform_effect by blast
  then have k1: "persist_ok s \<longrightarrow> persist_ok s1" by (simp add: persist_ok_def)
  show ?case
  proof (cases r)
    case (Returned u)
    obtain s2 where d: "stage_done st s1 = (Inr (), s2)" "same_outcome s1 s2" "ds_task s2 = ds_task s1" "stops s2 = stops s1"
      "ds_terminal_persisted s2 \<longrightarrow> st = EmitStopped \<or> ds_terminal_persisted s1"
      using stage_done_effect by blast
    have "sts = [] \<or> ends_emitting sts" using ends by (auto split: if_splits)
    from Cons.IH [OF this, of s2] obtain t s' emitted where rest: "run_stages e a sts s2 = (Inr t, s')"
      "same_outcome s2 s'" "ds_task s' = ds_task s2" "stops s' = emitted @ stops s2" "persist_ok s2 \<longrightarrow> persist_ok s'"
      "if sts = [] then t = TaskDone None \<and> emitted = [] else emitted_at a t emitted" by blast
    have run: "run_stages e a (st # sts) s = (Inr t, s')" using p d rest Returned by (simp add: bind_def seq_def)
    moreover have "same_outcome s s'" using p d rest by (blast intro: same_outcome_trans)
    moreover have "ds_task s' = ds_task s" using p d rest by simp
    moreover have "emitted_at a t (emitted @ (if st = EmitStopped then [Emitted (stopped_event a)] else []))"
      using rest(6) ends by (cases "st = EmitStopped"; cases "sts = []") (simp_all add: emitted_at_def [of a "TaskDone None"])
    moreover have "persist_ok s \<longrightarrow> persist_ok s'"
      using k1 p(5) d(4,5) rest(5) by (auto simp: persist_ok_def)
    ultimately show ?thesis using p d rest
      by (intro exI [of _ t] exI [of _ s'] exI [of _ "emitted @ (if st = EmitStopped then [Emitted (stopped_event a)] else [])"]) simp
  next
    case (Threw x)
    then have "run_stages e a (st # sts) s = (Inr (TaskDone (Some x)), s1)" using p by (simp add: bind_def ret_def)
    with p k1 show ?thesis
      by (intro exI [of _ "TaskDone (Some x)"] exI [of _ s1]) (auto simp: emitted_at_def)
  next
    case NotDone
    then have "run_stages e a (st # sts) s = (Inr (TaskPending st sts a), s1)" using p by (simp add: bind_def ret_def)
    with p k1 ends show ?thesis
      by (intro exI [of _ "TaskPending st sts a"] exI [of _ s1]) (auto simp: emitted_at_def split: if_splits)
  qed
qed

subsection \<open>The outcome of a run\<close>

definition tells :: "terminal_args \<Rightarrow> runtime_state \<Rightarrow> bool" where
  "tells a s = (ds_terminal_reason s = Some (ta_reason a) \<and> ds_terminal_error s = ta_error a \<and> ds_content s = ta_content a)"

definition terminal_ok :: "runtime_state \<Rightarrow> bool" where
  "terminal_ok s =
     (persist_ok s
      \<and> (case ds_task s of
           None \<Rightarrow> \<not> ds_terminal_started s \<and> stops s = []
         | Some t \<Rightarrow> ds_terminal_started s \<and> (\<exists>a. tells a s \<and> emitted_at a t (stops s))))"

definition keeps_terminal :: "runtime_state \<Rightarrow> runtime_state \<Rightarrow> bool" where
  "keeps_terminal s s' = (terminal_ok s \<longrightarrow> terminal_ok s')"

lemma tells_same: "same_outcome s s' \<Longrightarrow> tells a s' = tells a s"
  by (simp add: tells_def same_outcome_def)

lemma terminal_ok_frame:
  assumes "same_outcome s s'" "ds_task s' = ds_task s" "stops s' = stops s"
    "ds_terminal_persisted s' = ds_terminal_persisted s \<or> stops s \<noteq> []"
  shows "terminal_ok s' = terminal_ok s"
  using assms tells_same [OF assms(1)] by (auto simp: terminal_ok_def persist_ok_def same_outcome_def split: option.splits)

lemma resume_task_terminal: "terminal_ok s \<Longrightarrow> \<exists>s'. resume_task e s = (Inr (), s') \<and> terminal_ok s' \<and> same_outcome s s' \<and> (ds_task s \<noteq> None \<longrightarrow> ds_task s' \<noteq> None)"
proof (cases "ds_task s")
  case (Some t)
  assume ok: "terminal_ok s"
  show ?thesis
  proof (cases t)
    case (TaskDone r)
    with Some ok show ?thesis by (auto simp: resume_task_def bind_def reads_def ret_def)
  next
    case (TaskPending st rest a)
    with Some ok have started: "ds_terminal_started s" "tells a s" "emitted_at a t (stops s)" "persist_ok s"
      by (auto simp: terminal_ok_def emitted_at_def)
    let ?s1 = "s\<lparr>rt_step := Suc (rt_step s)\<rparr>"
    show ?thesis
    proof (cases "rn_resume e (rt_step s)")
      case (Returned u)
      obtain s2 where d: "stage_done st ?s1 = (Inr (), s2)" "same_outcome ?s1 s2" "ds_task s2 = ds_task ?s1" "stops s2 = stops ?s1"
        "ds_terminal_persisted s2 \<longrightarrow> st = EmitStopped \<or> ds_terminal_persisted ?s1"
        using stage_done_effect by blast
      have "rest = [] \<or> ends_emitting rest" using started TaskPending by (auto simp: emitted_at_def split: if_splits)
      from run_stages_effect [OF this, of e a s2] obtain t' s3 emitted where r: "run_stages e a rest s2 = (Inr t', s3)"
        "same_outcome s2 s3" "stops s3 = emitted @ stops s2" "persist_ok s2 \<longrightarrow> persist_ok s3"
        "if rest = [] then t' = TaskDone None \<and> emitted = [] else emitted_at a t' emitted" by blast
      let ?s4 = "s3\<lparr>ds_task := Some t'\<rparr>"
      have run: "resume_task e s = (Inr (), ?s4)"
        using Some TaskPending Returned d r
        by (simp add: resume_task_def bind_def reads_def ask_def seq_def set_task_def modify_def)
      have same: "same_outcome s ?s4" using d r by (simp add: same_outcome_def)
      have st1: "stops ?s4 = emitted @ stops s" using d r by (simp add: stops_def)
      have pending: "if st = EmitStopped then rest = [] \<and> stops s = [Emitted (stopped_event a)] else stops s = [] \<and> ends_emitting rest"
        using started(3) TaskPending by (simp add: emitted_at_def)
      have "emitted_at a t' (stops ?s4)"
        using r(5) pending unfolding st1
        by (cases "st = EmitStopped"; cases "rest = []") (simp_all add: emitted_at_def [of a "TaskDone None"])
      moreover have "persist_ok ?s4"
        using started(4) d(4,5) r(4) pending by (auto simp: persist_ok_def stops_def split: if_splits)
      ultimately have "terminal_ok ?s4"
        using same started tells_same [OF same] by (auto simp: terminal_ok_def same_outcome_def)
      with run same show ?thesis by auto
    next
      case (Threw x)
      let ?s2 = "?s1\<lparr>ds_task := Some (TaskDone (Some x))\<rparr>"
      have "resume_task e s = (Inr (), ?s2)"
        using Some TaskPending Threw by (simp add: resume_task_def bind_def reads_def ask_def set_task_def modify_def)
      moreover have "terminal_ok ?s2" using started TaskPending
        by (auto simp: terminal_ok_def emitted_at_def tells_def stops_def persist_ok_def split: if_splits)
      ultimately show ?thesis by (auto simp: same_outcome_def)
    next
      case NotDone
      have "resume_task e s = (Inr (), ?s1)"
        using Some TaskPending NotDone by (simp add: resume_task_def bind_def reads_def ask_def ret_def)
      moreover have "terminal_ok ?s1" using ok terminal_ok_frame [of s ?s1] by (simp add: same_outcome_def stops_def)
      ultimately show ?thesis using Some by (auto simp: same_outcome_def)
    qed
  qed
qed (auto simp: resume_task_def bind_def reads_def ret_def)

text \<open>A stop that returns reports the outcome that the task has persisted.\<close>

definition reported :: "agent_result \<Rightarrow> runtime_state \<Rightarrow> bool" where
  "reported res s =
     (ds_task s = Some (TaskDone None) \<and> ds_terminal_reason s = Some (ar_stop_reason res)
      \<and> ds_terminal_error s = ar_error res \<and> ds_content s = ar_content res)"

lemma shield_effect: "\<exists>r. shield s = (r, s) \<and> (\<forall>u. r = Inr u \<longrightarrow> ds_task s = Some (TaskDone None))"
  unfolding shield_def bind_def reads_def
  by (auto simp: ret_def throw_def split: option.splits terminal_task.splits)

lemma stop_run_terminal:
  assumes ok: "terminal_ok s"
    and run: "stop_run e reason text iterations records u error v record_result s = (r, s')"
  shows "terminal_ok s' \<and> (\<forall>res. r = Inr res \<longrightarrow> reported res s')
    \<and> (\<not> ds_terminal_started s \<longrightarrow> ds_terminal_reason s' = Some reason)"
proof -
  define s1 where "s1 = (if ds_terminal_started s then s else
    s\<lparr>ds_terminal_started := True, ds_terminal_reason := Some reason, ds_terminal_error := error, ds_structured := v,
      ds_content := comply e text, ds_iterations := iterations, ds_calls := records, ds_usage := Some u\<rparr>)"
  define res where "res = terminal_result reason s1 u"
  define a where "a = \<lparr>ta_reason = ar_stop_reason res, ta_content = ar_content res, ta_iterations = ar_iterations res,
    ta_usage = ar_usage res, ta_error = ar_error res\<rparr>"
  define m where "m = (case ds_task s1 of None \<Rightarrow> bind (run_stages e a (stages e record_result)) set_task | Some _ \<Rightarrow> resume_task e)"
  have "\<exists>s2. m s1 = (Inr (), s2) \<and> terminal_ok s2 \<and> same_outcome s1 s2 \<and> ds_task s2 \<noteq> None"
  proof (cases "ds_task s1")
    case None
    then have fresh: "\<not> ds_terminal_started s" "stops s = []" "persist_ok s" using ok by (auto simp: s1_def terminal_ok_def split: if_splits)
    then have s1: "ds_terminal_started s1" "stops s1 = []" "tells a s1" "persist_ok s1"
      by (simp_all add: s1_def a_def res_def terminal_result_def tells_def stops_def persist_ok_def)
    have "stages e record_result \<noteq> []" by (simp add: stages_def)
    with run_stages_effect [of "stages e record_result" e a s1] obtain t s2 emitted where
      r: "run_stages e a (stages e record_result) s1 = (Inr t, s2)" "same_outcome s1 s2"
        "stops s2 = emitted @ stops s1" "emitted_at a t emitted" "persist_ok s2"
      using stages_end s1(4) by auto
    let ?s3 = "s2\<lparr>ds_task := Some t\<rparr>"
    have same: "same_outcome s1 ?s3" using r by (simp add: same_outcome_def)
    have "stops ?s3 = emitted" using r s1 by (simp add: stops_def)
    with same s1 r have "terminal_ok ?s3"
      using tells_same [OF same] by (auto simp: terminal_ok_def same_outcome_def persist_ok_def stops_def)
    moreover have "m s1 = (Inr (), ?s3)" using None r by (simp add: m_def bind_def set_task_def modify_def)
    ultimately show ?thesis using same by auto
  next
    case (Some t)
    then have "ds_terminal_started s" using ok by (auto simp: s1_def terminal_ok_def split: if_splits)
    then have "terminal_ok s1" using ok by (simp add: s1_def)
    with Some resume_task_terminal [of s1 e] show ?thesis by (auto simp: m_def)
  qed
  then obtain s2 where s2: "m s1 = (Inr (), s2)" "terminal_ok s2" "same_outcome s1 s2" "ds_task s2 \<noteq> None" by blast
  obtain k where sh: "shield s2 = (k, s2)" "\<And>w. k = Inr w \<Longrightarrow> ds_task s2 = Some (TaskDone None)"
    using shield_effect by blast
  have chain: "stop_run e reason text iterations records u error v record_result s =
    seq m (seq shield (seq (modify (\<lambda>s. s\<lparr>ds_terminal_persisted := True\<rparr>)) (ret res))) s1"
    unfolding stop_run_def start_terminal_def m_def a_def res_def s1_def
    by (cases "ds_terminal_started s")
      (simp_all only: seq_bind_reads bind_reads if_True if_False seq_modify seq_ret Let_def)
  have eq: "stop_run e reason text iterations records u error v record_result s =
    (case k of Inl x \<Rightarrow> (Inl x, s2) | Inr _ \<Rightarrow> (Inr res, s2\<lparr>ds_terminal_persisted := True\<rparr>))"
    unfolding chain using s2(1) sh(1) by (auto simp: seq_def bind_def modify_def ret_def split: sum.splits)
  have ok': "terminal_ok (s2\<lparr>ds_terminal_persisted := True\<rparr>)" if "k = Inr w" for w
    using s2(2) sh(2) [OF that] terminal_ok_frame [of s2 "s2\<lparr>ds_terminal_persisted := True\<rparr>"]
    by (auto simp: same_outcome_def stops_def terminal_ok_def emitted_at_def)
  have rep: "reported res (s2\<lparr>ds_terminal_persisted := True\<rparr>)" if k: "k = Inr w" for w
  proof -
    have "ds_terminal_started s1" by (simp add: s1_def)
    obtain b where "tells b s2" using s2(2) sh(2) [OF k] by (auto simp: terminal_ok_def)
    then have "ds_terminal_reason s1 = Some (ta_reason b)" using s2(3) by (simp add: tells_def same_outcome_def)
    with sh(2) [OF k] s2(3) show ?thesis
      by (simp add: reported_def res_def terminal_result_def same_outcome_def)
  qed
  have "\<not> ds_terminal_started s \<Longrightarrow> ds_terminal_reason s2 = Some reason" using s2(3) by (simp add: s1_def same_outcome_def)
  then show ?thesis using run eq s2(2) ok' rep by (auto split: sum.splits)
qed

interpretation ends: run_order keeps_terminal e for e
proof unfold_locales
  show "obeys keeps_terminal (stop_run e reason body iterations records u error v record_result)"
    for reason body iterations records u error v record_result
    unfolding obeys_def keeps_terminal_def by (metis stop_run_terminal surjective_pairing)
  show "obeys keeps_terminal (resume_task e)"
    unfolding obeys_def keeps_terminal_def using resume_task_terminal [of _ e] by (metis snd_conv)
qed (auto simp: keeps_terminal_def same_outcome_def stops_def quiet_not_stop elim!: terminal_ok_frame [THEN iffD2, rotated -1])

lemma run_agent_terminal: "run_agent e = (r, s) \<Longrightarrow> terminal_ok s"
  using ends.run_agent_obeys [of e r s] by (simp add: keeps_terminal_def terminal_ok_def fresh_state_def stops_def persist_ok_def)

subsection \<open>What a run that returns has reported\<close>

text \<open>An operation whose results satisfy \<open>P\<close>, from a state with a sound terminal task.\<close>

definition reports :: "('a \<Rightarrow> runtime_state \<Rightarrow> bool) \<Rightarrow> 'a run_prog \<Rightarrow> bool" where
  "reports P m = triple terminal_ok m P (\<lambda>_. terminal_ok)"

lemma reports_bind: "obeys keeps_terminal m \<Longrightarrow> (\<And>a. reports P (f a)) \<Longrightarrow> reports P (bind m f)"
  unfolding reports_def
  by (rule triple_bind [where Q' = "\<lambda>_. terminal_ok"]) (erule triple_obeys, auto simp: keeps_terminal_def)

lemma reports_seq: "obeys keeps_terminal m \<Longrightarrow> reports P k \<Longrightarrow> reports P (seq m k)"
  unfolding seq_def by (rule reports_bind)

lemma reports_try: "reports P m \<Longrightarrow> (\<And>x. reports P (h x)) \<Longrightarrow> reports P (try_catch m h)"
  unfolding reports_def by (rule triple_try)

lemma reports_throw: "reports P (throw x)"
  unfolding reports_def by (rule triple_throw)

lemma reports_if: "reports P m \<Longrightarrow> reports P k \<Longrightarrow> reports P (if b then m else k)"
  by simp

lemma reports_let: "(\<And>a. reports P (f a)) \<Longrightarrow> reports P (let a = v in f a)"
  by (simp add: Let_def)

lemma reports_option: "reports P m \<Longrightarrow> (\<And>a. reports P (f a)) \<Longrightarrow> reports P (case v of None \<Rightarrow> m | Some a \<Rightarrow> f a)"
  by (simp split: option.splits)

lemma reports_sum: "(\<And>a. reports P (f a)) \<Longrightarrow> (\<And>b. reports P (g b)) \<Longrightarrow> reports P (case v of Inl a \<Rightarrow> f a | Inr b \<Rightarrow> g b)"
  by (simp split: sum.splits)

lemma reports_prod: "(\<And>a b. reports P (f a b)) \<Longrightarrow> reports P (case v of (a, b) \<Rightarrow> f a b)"
  by (simp split: prod.splits)

lemma reports_exc:
  "(\<And>caps t. reports P (f caps t)) \<Longrightarrow> reports P g \<Longrightarrow> reports P (case x of XUnsupported caps t \<Rightarrow> f caps t | _ \<Rightarrow> g)"
  by (simp split: run_exc.splits)

lemmas reports_rules = reports_bind reports_seq reports_try reports_throw reports_if reports_let reports_option reports_sum
  reports_prod reports_exc

lemmas keeps_rules = ends.obeys_basic ends.obeys_emit ends.obeys_expired ends.obeys_clock ends.obeys_within_deadline
  ends.obeys_complete_model ends.obeys_emit_response ends.obeys_modify

lemma reports_stop_run: "reports reported (stop_run e reason body iterations records u error v record_result)"
  unfolding reports_def
proof (rule tripleI)
  fix s
  assume ok: "terminal_ok s"
  obtain r s' where run: "stop_run e reason body iterations records u error v record_result s = (r, s')"
    by (cases "stop_run e reason body iterations records u error v record_result s")
  from stop_run_terminal [OF ok run] run
  show "case stop_run e reason body iterations records u error v record_result s of
      (Inl x, s') \<Rightarrow> terminal_ok s' | (Inr a, s') \<Rightarrow> reported a s'"
    by (simp split: sum.splits)
qed

lemma reports_stop_now: "reports reported (stop_now e reason error v)"
  unfolding stop_now_def by (intro reports_rules keeps_rules reports_stop_run)

lemma reports_stop_final: "reports reported (stop_final e reason error v)"
  unfolding stop_final_def by (intro reports_rules keeps_rules reports_stop_run)

lemma reports_budget_error: "(\<And>r t v. reports reported (f r t v)) \<Longrightarrow> reports reported (stop_for_budget_error e f reason code)"
  unfolding stop_for_budget_error_def by (intro reports_rules keeps_rules) simp

lemma reports_reject: "(\<And>r t v. reports reported (f r t v)) \<Longrightarrow> reports reported (reject_provider_capabilities e f missing)"
  unfolding reject_provider_capabilities_def by (intro reports_rules keeps_rules) simp

lemmas reports_stops = reports_stop_now reports_stop_final reports_budget_error reports_reject

lemma reports_accept_synthesis: "reports reported (accept_synthesis e reason resp)"
  unfolding accept_synthesis_def finish_synthesis_def
  by (intro reports_rules reports_stops keeps_rules ends.final_content) simp_all

lemma reports_final_synthesis: "reports reported (final_synthesis e started reason)"
  unfolding final_synthesis_def by (intro reports_rules reports_accept_synthesis keeps_rules ends.final_usage)

lemma reports_finalize_run: "reports reported (finalize_run e started reason)"
  unfolding finalize_run_def
  by (intro reports_rules reports_stops reports_final_synthesis keeps_rules ends.onward [OF ends.final_content ends.final_usage])

text \<open>A pass that ends the run.\<close>

definition reported_end :: "agent_result option \<Rightarrow> runtime_state \<Rightarrow> bool" where
  "reported_end r s = (case r of None \<Rightarrow> terminal_ok s | Some res \<Rightarrow> reported res s)"

lemma reports_none: "reports reported_end (ret None)"
  unfolding reports_def by (rule triple_ret) (simp add: reported_end_def)

lemma reports_ends_run: "reports reported m \<Longrightarrow> reports reported_end (ends_run m)"
  unfolding reports_def ends_run_def by (rule triple_bind, assumption) (auto simp: reported_end_def intro: triple_ret)

lemma reports_dispatch_legacy: "reports reported_end (dispatch_legacy e started cs)"
proof (induction cs)
  case (Cons c cs)
  show ?case unfolding dispatch_legacy.simps
    by (intro reports_rules reports_ends_run reports_finalize_run keeps_rules ends.seen ends.obeys_legacy_approval
        ends.obeys_dispatch_tool Cons.IH) simp_all
qed (simp add: reports_none)

lemma reports_dispatch_policy: "reports reported_end (dispatch_policy e started copies)"
  unfolding dispatch_policy_def
  by (intro reports_rules reports_none reports_ends_run reports_finalize_run reports_stops keeps_rules
      ends.obeys_prepare_policy_batch ends.obeys_dispatch_prepared) simp

lemma reports_publish_response: "reports reported_end (publish_response e started body copies)"
  unfolding publish_response_def run_tools_def
  by (intro reports_rules reports_ends_run reports_finalize_run reports_stops reports_dispatch_policy reports_dispatch_legacy
      keeps_rules ends.content) simp

lemma reports_reject_structured: "reports reported_end (reject_structured e started c code)"
  unfolding reject_structured_def
  by (intro reports_rules reports_none reports_ends_run reports_stops keeps_rules ends.obeys_can_retry ends.retries) simp

lemma reports_check_structured: "reports reported_end (check_structured e started body copies)"
  unfolding check_structured_def
  by (auto split: list.splits option.splits sum.splits
      intro!: reports_seq keeps_rules ends.structured reports_reject_structured reports_publish_response)

lemma reports_accept_response: "reports reported_end (accept_response e started resp copies)"
  unfolding accept_response_def
  by (intro reports_rules reports_ends_run reports_stops keeps_rules ends.content ends.obeys_reflect_response reports_check_structured)

lemma reports_refuse_snapshot: "reports reported_end (refuse_snapshot e call_id name)"
  unfolding refuse_snapshot_def
  by (intro reports_rules reports_ends_run reports_stops keeps_rules ends.obeys_emit_policy_failure ends.obeys_record_denial) simp

lemma reports_receive_response: "reports reported_end (receive_response e started resp)"
  unfolding receive_response_def
  by (intro reports_rules reports_refuse_snapshot reports_accept_response keeps_rules)
    (auto simp: Let_def intro: ends.onward [OF ends.usage ends.counted_usage])

lemma reports_request_model:
  "reports (\<lambda>r s. case r of Inl res \<Rightarrow> reported res s | Inr resp \<Rightarrow> terminal_ok s) (request_model e started)"
proof -
  have answered: "reports (\<lambda>r s. case r of Inl res \<Rightarrow> reported res s | Inr resp \<Rightarrow> terminal_ok s) (ret (Inr resp))" for resp
    unfolding reports_def by (rule triple_ret) simp
  have stopped: "reports reported m \<Longrightarrow>
    reports (\<lambda>r s. case r of Inl res \<Rightarrow> reported res s | Inr resp \<Rightarrow> terminal_ok s) (bind m (\<lambda>res. ret (Inl res)))" for m
    unfolding reports_def by (rule triple_bind, assumption) (auto intro: triple_ret)
  have handler: "reports reported (case budget_stop x of
      Some r \<Rightarrow> stop_for_budget_error e (stop_now e) r (exc_text x)
    | None \<Rightarrow> (case x of
        XUnsupported caps t \<Rightarrow> reject_provider_capabilities e (stop_now e) (safe_missing_capability_names caps)
      | _ \<Rightarrow> stop_now e PROVIDER_ERROR (Some ''provider_call_failed'') VNone))" for x
    by (intro reports_rules reports_stops)
  show ?thesis unfolding request_model_def
    by (rule reports_bind [OF ends.obeys_reads], rule reports_try, rule reports_bind)
      (auto intro!: answered stopped handler reports_throw keeps_rules)
qed

lemma reports_call_model: "reports reported_end (call_model e started)"
proof -
  have go_on: "triple (\<lambda>s. case r of Inl res \<Rightarrow> reported res s | Inr resp \<Rightarrow> terminal_ok s)
    (case r of Inl res \<Rightarrow> ret (Some res) | Inr resp \<Rightarrow> receive_response e started resp) reported_end (\<lambda>_. terminal_ok)" for r
    using reports_receive_response by (auto simp: reports_def reported_end_def split: sum.splits intro!: triple_ret)
  have "reports reported_end (bind (request_model e started) (\<lambda>r.
    case r of Inl res \<Rightarrow> ret (Some res) | Inr resp \<Rightarrow> receive_response e started resp))"
    using reports_request_model go_on unfolding reports_def by (rule triple_bind)
  then show ?thesis unfolding call_model_def
    by (intro reports_bind [OF ends.obeys_reads] reports_option reports_throw reports_if reports_ends_run reports_stops)
qed

lemma reports_loop_body: "reports reported_end (loop_body e started)"
  unfolding loop_body_def begin_iteration_def
  by (intro reports_rules reports_ends_run reports_stops reports_call_model keeps_rules ends.begins) simp

lemma reports_run_loop: "reports reported (run_loop e started)"
  unfolding reports_def
proof (rule tripleI)
  fix s
  assume "terminal_ok s"
  then show "case run_loop e started s of (Inl x, s') \<Rightarrow> terminal_ok s' | (Inr a, s') \<Rightarrow> reported a s'"
  proof (induction e started s rule: run_loop.induct)
    case (1 e started s)
    show ?case
    proof (cases "rt_iterations s < rb_max_iterations (rn_budget e)")
      case True
      obtain r s' where b: "loop_body e started s = (r, s')" by (cases "loop_body e started s")
      have "case (r, s') of (Inl x, s') \<Rightarrow> terminal_ok s' | (Inr a, s') \<Rightarrow> reported_end a s'"
        using reports_loop_body [of e started] 1(2) b unfolding reports_def triple_def by metis
      with 1(1) [OF True b [symmetric]] b True show ?thesis
        by (subst run_loop.simps) (auto simp: reported_end_def split: sum.splits option.splits)
    next
      case False
      with 1(2) reports_finalize_run [of e started ITERATION_BUDGET_EXHAUSTED] show ?thesis
        by (subst run_loop.simps) (simp add: reports_def triple_def)
    qed
  qed
qed

lemma reports_run_inner: "reports reported (run_inner e started)"
  unfolding run_inner_def loop_failed_def
  by (intro reports_rules keeps_rules ends.history reports_run_loop)
    (auto split: run_exc.splits option.splits intro!: reports_throw reports_stops)

text \<open>The reason that is reported is the one that was emitted, if any was.\<close>

definition consistent :: "agent_result \<Rightarrow> runtime_state \<Rightarrow> bool" where
  "consistent res s =
     (terminal_ok s \<and> (ds_terminal_reason s = Some (ar_stop_reason res) \<or> stops s = [])
      \<and> (ar_error res = None \<longrightarrow> stops s \<noteq> []))"

lemma reported_consistent: "terminal_ok s \<Longrightarrow> reported res s \<Longrightarrow> consistent res s"
  by (auto simp: consistent_def reported_def terminal_ok_def emitted_at_def)

lemma consistent_step: "consistent res (s\<lparr>rt_step := n\<rparr>) = consistent res s"
  using terminal_ok_frame [of s "s\<lparr>rt_step := n\<rparr>"] by (simp add: consistent_def same_outcome_def stops_def)

lemma await_run_consistent: "triple terminal_ok (await_run e started) consistent (\<lambda>_. terminal_ok)"
proof -
  let ?ran = "\<lambda>r s. terminal_ok s \<and> (\<forall>res. r = Inr res \<longrightarrow> reported res s)"
  have inner: "triple terminal_ok (run_inner e started) (\<lambda>res s. reported res s \<and> terminal_ok s) (\<lambda>x s. terminal_ok s \<and> terminal_ok s)"
    using reports_run_inner unfolding reports_def
    by (rule triple_strengthen) (rule ends.obeys_run_inner, simp add: keeps_terminal_def)
  have "triple terminal_ok (bind (run_inner e started) (\<lambda>res. ret (Inr res))) ?ran (\<lambda>_. terminal_ok)"
    by (rule triple_bind [where Q' = "\<lambda>res s. reported res s \<and> terminal_ok s"], rule triple_conseq [OF inner])
      (auto intro!: triple_ret)
  then have ran: "triple terminal_ok (try_catch (bind (run_inner e started) (\<lambda>res. ret (Inr res))) (\<lambda>x. ret (Inl x))) ?ran (\<lambda>_. terminal_ok)"
    by (rule triple_try) (auto intro!: triple_ret)
  have quiet_ok: "terminal_ok (s\<lparr>rt_step := n\<rparr>) = terminal_ok s" for s n
    by (rule terminal_ok_frame) (simp_all add: same_outcome_def stops_def)
  have finish: "triple (?ran r) (case r of
      Inl x \<Rightarrow> if x = XCancelled
        then bind (ask (rn_deadline_fired e)) (\<lambda>fired. throw (if fired then XDeadline else XCancelled))
        else bind (clock e) (\<lambda>late. throw (if late \<ge> deadline then XDeadline else x))
    | Inr res \<Rightarrow> bind (clock e) (\<lambda>late. if late \<ge> deadline then throw XDeadline else ret res))
    consistent (\<lambda>_. terminal_ok)" for r deadline
    by (rule tripleI) (auto simp: bind_def ask_def clock_def throw_def ret_def quiet_ok consistent_step
        intro: reported_consistent split: sum.splits)
  have rest: "triple terminal_ok (seq (clock e)
    (bind (try_catch (bind (run_inner e started) (\<lambda>res. ret (Inr res))) (\<lambda>x. ret (Inl x))) (\<lambda>r.
     case r of
       Inl x \<Rightarrow> if x = XCancelled
         then bind (ask (rn_deadline_fired e)) (\<lambda>fired. throw (if fired then XDeadline else XCancelled))
         else bind (clock e) (\<lambda>late. throw (if late \<ge> deadline then XDeadline else x))
     | Inr res \<Rightarrow> bind (clock e) (\<lambda>late. if late \<ge> deadline then throw XDeadline else ret res)))) consistent (\<lambda>_. terminal_ok)" for deadline
    by (rule triple_seq [where Q' = terminal_ok], rule triple_obeys [OF ends.obeys_clock])
      (auto simp: keeps_terminal_def intro: triple_bind [OF ran finish])
  show ?thesis
    using rest unfolding await_run_def reports_def [symmetric]
    by (intro reports_bind [OF ends.obeys_clock] reports_bind [OF ends.obeys_reads] reports_if reports_throw)
qed

lemma deadline_result_consistent: "triple terminal_ok (deadline_result e) consistent (\<lambda>_. terminal_ok)"
proof (rule tripleI)
  fix s
  assume ok: "terminal_ok s"
  let ?post = "case deadline_result e s of (Inl x, s') \<Rightarrow> terminal_ok s' | (Inr a, s') \<Rightarrow> consistent a s'"
  show ?post
  proof (cases "ds_terminal_started s")
    case True
    obtain s1 where s1: "resume_task e s = (Inr (), s1)" "terminal_ok s1" "same_outcome s s1"
      using resume_task_terminal [OF ok] by blast
    obtain s2 where s2: "resume_task e s1 = (Inr (), s2)" "terminal_ok s2" "same_outcome s1 s2"
      using resume_task_terminal [OF s1(2)] by blast
    have "ds_terminal_started s2" using True s1 s2 by (simp add: same_outcome_def)
    with s2(2) have "consistent (terminal_reported s2) s2"
      by (auto simp: consistent_def terminal_reported_def terminal_result_def Let_def terminal_ok_def tells_def persist_ok_def
          split: option.splits if_splits)
    with True s1(1) s2(1) show ?thesis by (simp add: deadline_result_def bind_def seq_def reads_def)
  next
    case False
    let ?open = "\<lambda>s. terminal_ok s \<and> (ds_terminal_started s \<longrightarrow> ds_terminal_reason s = Some TIME_BUDGET_EXHAUSTED)"
    have handler: "consistent (indeterminate_result t) t" if "?open t" for t
      using that by (auto simp: consistent_def indeterminate_result_def terminal_ok_def split: option.splits)
    have step: "?open (t\<lparr>rt_step := n\<rparr>) = ?open t" for t n
      using terminal_ok_frame [of t "t\<lparr>rt_step := n\<rparr>"] by (simp add: same_outcome_def stops_def)
    let ?s1 = "s\<lparr>rt_step := Suc (rt_step s)\<rparr>"
    have ok1: "terminal_ok ?s1" "\<not> ds_terminal_started ?s1" using ok False step [of "Suc (rt_step s)" s] by auto
    obtain r s2 where run: "stop_run e TIME_BUDGET_EXHAUSTED (ds_content ?s1) (ds_iterations ?s1) (ds_calls ?s1)
      (case ds_usage ?s1 of Some u \<Rightarrow> u | None \<Rightarrow> no_usage) (Some ''deadline_exceeded'') VNone True ?s1 = (r, s2)"
      by (metis surj_pair)
    from stop_run_terminal [OF ok1(1) run] ok1(2) have s2: "?open s2" "\<And>res. r = Inr res \<Longrightarrow> consistent res s2"
      by (auto intro: reported_consistent)
    have s2': "?open (s2\<lparr>rt_step := n\<rparr>)" for n using s2(1) step [of n s2] by blast
    have over: "?open ?s1" using ok1 by simp
    show ?thesis
      using False run handler [OF over] handler [OF s2(1)] handler [OF s2'] s2(2)
      unfolding deadline_result_def
      by (cases r) (auto simp: bind_def ask_def reads_def throw_def ret_def try_catch_def consistent_step)
  qed
qed

lemma run_agent_consistent: "run_agent e = (Inr res, s) \<Longrightarrow> consistent res s"
proof -
  have "triple terminal_ok (try_catch (await_run e (rn_clock e 0))
      (\<lambda>x. if x = XCancelled then cancelled_run e else if x = XDeadline then deadline_result e else throw x))
    consistent (\<lambda>_. terminal_ok)"
  proof (rule triple_try [OF await_run_consistent])
    fix x
    have "reports consistent (cancelled_run e)"
      unfolding cancelled_run_def by (intro reports_rules ends.obeys_reads ends.stop)
    then show "triple terminal_ok (if x = XCancelled then cancelled_run e else if x = XDeadline then deadline_result e else throw x)
      consistent (\<lambda>_. terminal_ok)"
      using deadline_result_consistent by (simp add: reports_def triple_throw)
  qed
  moreover have "terminal_ok (fresh_state d)" for d
    by (simp add: terminal_ok_def fresh_state_def stops_def persist_ok_def)
  ultimately show "run_agent e = (Inr res, s) \<Longrightarrow> consistent res s"
    unfolding run_agent_def Let_def by (blast intro: tripleD)
qed


text \<open>A run whose provider cannot call tools: it is refused before its first model call.\<close>

lemma refused_run:
  "case run_agent (demo_agent\<lparr>rn_capabilities := None\<rparr>) of
     (Inr res, s) \<Rightarrow> ar_stop_reason res = PROVIDER_CAPABILITY_UNSUPPORTED \<and> list_ex is_stop (rt_trace s)
   | _ \<Rightarrow> False"
  by code_simp


end
