(* ===== verification/Agent_Authorization.thy ===== *)
theory Agent_Authorization
  imports Agent_Demo
begin

text \<open>
  What runs in policy mode. A tool is executed only after the policy decided on exactly that
  call, and after an approval of exactly that call when the policy asks for one; and what is
  executed is what the model's response asked for, whatever the tools, the authorizer or the
  event sink do to the objects they are shown.
\<close>

subsection \<open>Everything but tool calls\<close>

definition unexecuted :: "runtime_state \<Rightarrow> runtime_state \<Rightarrow> bool" where
  "unexecuted s s' = (\<exists>t. rt_trace s' = t @ rt_trace s \<and> (\<forall>c. Executed c \<notin> set t))"

lemma unexecuted_same: "rt_trace s' = rt_trace s \<Longrightarrow> unexecuted s s'"
  unfolding unexecuted_def by (rule exI [of _ "[]"]) simp

lemma unexecuted_log: "(\<And>c. a \<noteq> Executed c) \<Longrightarrow> unexecuted s (s\<lparr>rt_trace := a # rt_trace s\<rparr>)"
  unfolding unexecuted_def by (rule exI [of _ "[a]"]) auto

lemma unexecuted_trans: "unexecuted s s' \<Longrightarrow> unexecuted s' s'' \<Longrightarrow> unexecuted s s''"
  unfolding unexecuted_def by (metis Un_iff append.assoc set_append)

interpretation idle_stop: terminal_order unexecuted e for e
proof unfold_locales
  show "unexecuted s s' \<Longrightarrow> unexecuted s' s'' \<Longrightarrow> unexecuted s s''" for s s' s'' by (rule unexecuted_trans)
qed (auto intro: unexecuted_same intro!: unexecuted_log)

interpretation idle: model_order unexecuted e for e
  by unfold_locales (auto intro: unexecuted_same intro!: unexecuted_log idle_stop.obeys_stop_run)

lemma unexecuted_mem: "unexecuted s s' \<Longrightarrow> a \<in> set (rt_trace s) \<Longrightarrow> a \<in> set (rt_trace s')"
  by (auto simp: unexecuted_def)

text \<open>A fact about the trace that more entries do not end.\<close>

definition lasting :: "(action list \<Rightarrow> bool) \<Rightarrow> bool" where
  "lasting X = (\<forall>t t'. X t \<longrightarrow> X (t' @ t))"

lemma lasting_onward: "lasting X \<Longrightarrow> unexecuted s s' \<Longrightarrow> X (rt_trace s) \<Longrightarrow> X (rt_trace s')"
  by (auto simp: lasting_def unexecuted_def)

subsection \<open>Grants\<close>

definition approved :: "action list \<Rightarrow> string \<Rightarrow> string \<Rightarrow> string \<Rightarrow> bool" where
  "approved tr call_id name hash =
     (\<exists>q out. Authorized q (Returned (Some out)) \<in> set tr \<and> ao_approved out
        \<and> ao_tool_call_id out = call_id \<and> ao_tool_name out = name \<and> ao_arguments_hash out = hash)"

definition permitted :: "native_binding \<Rightarrow> execution_binding \<Rightarrow> action list \<Rightarrow> bool" where
  "permitted nb b tr =
     (\<exists>request d. Decided nb request d \<in> set tr \<and> b = bind_decision nb request d \<and> rq_tool_name request = nb_tool_name nb
        \<and> (pd_action d = ALLOW
           \<or> pd_action d = ASK \<and> approved tr (nb_tool_call_id nb) (nb_tool_name nb) (nb_arguments_hash nb)))"

lemma lasting_permitted: "lasting (permitted nb b)"
  unfolding lasting_def permitted_def approved_def by (metis Un_iff set_append)

text \<open>An operation whose success gives \<open>X\<close>.\<close>

definition secures :: "('b \<Rightarrow> action list \<Rightarrow> bool) \<Rightarrow> (runtime_state \<Rightarrow> bool) \<Rightarrow> ('a + 'b) run_prog \<Rightarrow> bool" where
  "secures X P m = triple P m (\<lambda>r s. \<forall>b. r = Inr b \<longrightarrow> X b (rt_trace s)) (\<lambda>_ _. True)"

lemma secures_refusal: "secures X P (bind m (\<lambda>_. ret (Inl reason)))"
  unfolding secures_def triple_def by (auto simp: bind_def ret_def split: prod.splits sum.splits)

lemma secures_seq_refusal: "secures X P k \<Longrightarrow> (\<And>s. P s) \<Longrightarrow> secures X P (seq m k)"
  unfolding secures_def triple_def seq_def by (auto simp: bind_def split: prod.splits sum.splits)

lemma secures_weaken: "secures X (\<lambda>_. True) m \<Longrightarrow> secures X P m"
  unfolding secures_def triple_def by auto

lemma secures_deny: "secures X P (deny e nb reason_code reason)"
  unfolding deny_def seq_def by (rule secures_refusal)

lemma secures_refuse_approval: "secures X P (refuse_approval e nb reason_code reason)"
  unfolding refuse_approval_def by (rule secures_weaken) (intro secures_seq_refusal secures_deny, simp)

lemma secures_refuse_policy: "secures X P (refuse_policy e nb reason_code)"
  unfolding refuse_policy_def seq_def
  by (rule secures_weaken) (fold seq_def, rule secures_seq_refusal, simp_all only: seq_def, rule secures_refusal)

lemmas secures_refusals = secures_deny secures_refuse_approval secures_refuse_policy

lemma secures_Inl: "secures X P (ret (Inl reason))"
  unfolding secures_def by (rule triple_ret) simp

lemma secures_throw: "secures X P (throw x)"
  unfolding secures_def by (rule triple_throw) simp

lemma secures_Inr: "(\<And>s. P s \<Longrightarrow> X b (rt_trace s)) \<Longrightarrow> secures X P (ret (Inr b))"
  unfolding secures_def by (rule triple_ret) simp

lemma secures_if: "(c \<Longrightarrow> secures X P m) \<Longrightarrow> (\<not> c \<Longrightarrow> secures X P k) \<Longrightarrow> secures X P (if c then m else k)"
  by simp

text \<open>Operations that execute nothing come before without loss of a lasting fact.\<close>

lemma secures_bind:
  assumes "obeys unexecuted m" "lasting Y" "\<And>a. secures X (\<lambda>s. Y (rt_trace s)) (f a)"
  shows "secures X (\<lambda>s. Y (rt_trace s)) (bind m f)"
  unfolding secures_def
  by (rule triple_bind [where Q' = "\<lambda>_ s. Y (rt_trace s)"], rule triple_obeys [OF assms(1)])
    (auto intro: lasting_onward [OF assms(2)] assms(3) [unfolded secures_def])

lemma secures_seq:
  assumes "obeys unexecuted m" "lasting Y" "secures X (\<lambda>s. Y (rt_trace s)) k"
  shows "secures X (\<lambda>s. Y (rt_trace s)) (seq m k)"
  using assms unfolding seq_def by (intro secures_bind)

lemma lasting_mem: "lasting (\<lambda>tr. a \<in> set tr)"
  by (simp add: lasting_def)

lemma lasting_conj: "lasting X \<Longrightarrow> lasting Y \<Longrightarrow> lasting (\<lambda>tr. X tr \<and> Y tr)"
  by (simp add: lasting_def)

lemma secures_log:
  assumes "lasting Y" "secures X (\<lambda>s. Y (rt_trace s) \<and> a \<in> set (rt_trace s)) k"
  shows "secures X (\<lambda>s. Y (rt_trace s)) (seq (log_action a) k)"
  unfolding secures_def log_action_def
proof (rule triple_seq [where Q' = "\<lambda>s. Y (rt_trace s) \<and> a \<in> set (rt_trace s)"], rule triple_modify)
  fix s
  assume "Y (rt_trace s)"
  with assms(1) have "Y ([a] @ rt_trace s)" unfolding lasting_def by blast
  then show "Y (rt_trace (s\<lparr>rt_trace := a # rt_trace s\<rparr>)) \<and> a \<in> set (rt_trace (s\<lparr>rt_trace := a # rt_trace s\<rparr>))" by simp
qed (rule assms(2) [unfolded secures_def])

lemma secures_keep: "obeys unexecuted m \<Longrightarrow> lasting Y \<Longrightarrow> secures (\<lambda>_. Y) (\<lambda>s. Y (rt_trace s)) m"
  unfolding secures_def
  by (rule triple_conseq [OF triple_obeys [where R = unexecuted and P = "\<lambda>s. Y (rt_trace s)" and Q = "\<lambda>s. Y (rt_trace s)" and E = "\<lambda>_. True"]])
    (auto intro: lasting_onward)

lemma secures_chain:
  assumes "secures Z P m" "\<And>b. secures X (\<lambda>s. Z b (rt_trace s)) (f b)"
  shows "secures X P (bind m (\<lambda>r. case r of Inl reason \<Rightarrow> ret (Inl reason) | Inr b \<Rightarrow> f b))"
  unfolding secures_def
proof (rule triple_bind [OF assms(1) [unfolded secures_def]])
  fix r
  show "triple (\<lambda>s. \<forall>b. r = Inr b \<longrightarrow> Z b (rt_trace s)) (case r of Inl reason \<Rightarrow> ret (Inl reason) | Inr b \<Rightarrow> f b)
    (\<lambda>r s. \<forall>b. r = Inr b \<longrightarrow> X b (rt_trace s)) (\<lambda>_ _. True)"
    using assms(2) [unfolded secures_def] by (cases r) (simp_all add: triple_ret)
qed

lemma secures_try: "secures X P m \<Longrightarrow> (\<And>x. secures X (\<lambda>_. True) (h x)) \<Longrightarrow> secures X P (try_catch m h)"
  unfolding secures_def by (rule triple_try)

lemma secures_finally:
  assumes "secures X P m" "obeys unexecuted c" "\<And>b. lasting (X b)"
  shows "secures X P (try_finally m c)"
  unfolding secures_def
proof (rule tripleI)
  fix s
  assume P: "P s"
  obtain r s1 where m: "m s = (r, s1)" by (cases "m s")
  obtain k s2 where c: "c s1 = (k, s2)" by (cases "c s1")
  from obeysD [OF assms(2) c] have "unexecuted s1 s2" .
  moreover have "X b (rt_trace s1)" if "r = Inr (Inr b)" for b
    using tripleD [OF assms(1) [unfolded secures_def] P] m that by blast
  ultimately show "case try_finally m c s of (Inl x, s') \<Rightarrow> True | (Inr a, s') \<Rightarrow> \<forall>b. a = Inr b \<longrightarrow> X b (rt_trace s')"
    using m c lasting_onward [OF assms(3)] by (auto simp: try_finally_def split: sum.splits)
qed

lemma secures_answer:
  "(\<And>a. r = Returned a \<Longrightarrow> secures X P (f a)) \<Longrightarrow> (\<And>x. secures X P (g x)) \<Longrightarrow> secures X P h
   \<Longrightarrow> secures X P (case r of Returned a \<Rightarrow> f a | Threw x \<Rightarrow> g x | NotDone \<Rightarrow> h)"
  by (simp split: answer.splits)

subsection \<open>Enforcing the policy\<close>

definition answered :: "action \<Rightarrow> auth_outcome option \<Rightarrow> action list \<Rightarrow> bool" where
  "answered a r tr = (a \<in> set tr \<and> (\<exists>q. Authorized q (Returned r) \<in> set tr))"

lemma lasting_answered: "lasting (answered a r)"
  by (auto simp: lasting_def answered_def)

lemma secures_await_authorization:
  "secures (answered a) (\<lambda>s. a \<in> set (rt_trace s)) (await_authorization e nb q)"
  unfolding await_authorization_def
proof (rule secures_bind [where Y = "\<lambda>tr. a \<in> set tr"])
  show "obeys unexecuted (if rn_authorizer e = PreparatoryAuthorizer then reread e q else ret q)"
    by (intro idle_stop.obeys_basic idle_stop.obeys_reread)
next
  fix q'
  show "secures (answered a) (\<lambda>s. a \<in> set (rt_trace s))
    (try_finally
       (try_catch
          (bind (ask (\<lambda>n. rn_authorize e n q')) (\<lambda>r.
           seq (log_action (Authorized q' r))
           (case r of
              NotDone \<Rightarrow> refuse_approval e nb ''approval_timeout'' APPROVAL_TIMEOUT
            | Threw x \<Rightarrow> throw x
            | Returned out \<Rightarrow> ret (Inr out))))
          (\<lambda>x. if x = XCancelled then throw x
               else refuse_approval e nb ''approval_unavailable'' APPROVAL_UNAVAILABLE))
       (suppress_exception (withdraw e q)))"
    by (intro secures_finally secures_try secures_bind [where Y = "\<lambda>tr. a \<in> set tr"] secures_log [where Y = "\<lambda>tr. a \<in> set tr"]
        secures_answer secures_if secures_throw secures_refusals secures_Inr lasting_mem lasting_answered
        idle_stop.obeys_ask idle_stop.obeys_suppress idle_stop.obeys_withdraw)
      (auto simp: answered_def)
qed (rule lasting_mem)

lemma secures_decide_outcome:
  assumes "pd_action d = ASK" "rq_tool_name request = nb_tool_name nb"
  shows "secures (permitted nb) (\<lambda>s. answered (Decided nb request d) r (rt_trace s))
    (decide_outcome e nb (bind_decision nb request d) (authorization_request (bind_decision nb request d)) r)"
  unfolding decide_outcome_def
proof (rule secures_bind [OF idle_stop.obeys_reread lasting_answered])
  fix q'
  let ?q = "authorization_request (bind_decision nb request d)"
  show "secures (permitted nb) (\<lambda>s. answered (Decided nb request d) r (rt_trace s))
    (case r of
       None \<Rightarrow> refuse_approval e nb ''approval_binding_mismatch'' APPROVAL_UNAVAILABLE
     | Some out \<Rightarrow>
         if \<not> outcome_binds ?q q' out
         then refuse_approval e nb ''approval_binding_mismatch'' APPROVAL_UNAVAILABLE
         else
           seq (emit e APPROVAL_DECIDED
                  [(''id'', VStr (ao_tool_call_id out)), (''name'', VStr (ao_tool_name out)),
                   (''arguments_hash'', VStr (ao_arguments_hash out)),
                   (''approved'', VBool (ao_approved out)), (''reason_code'', VStr (ao_reason_code out))])
           (if ao_approved out then ret (Inr (bind_decision nb request d))
            else deny e nb (ao_reason_code out) POLICY_DENIED))"
  proof (cases r)
    case (Some out)
    have "permitted nb (bind_decision nb request d) tr"
      if "outcome_binds ?q q' out" "ao_approved out" "answered (Decided nb request d) r tr" for tr
    proof -
      have "approved tr (nb_tool_call_id nb) (nb_tool_name nb) (nb_arguments_hash nb)"
        using that Some unfolding approved_def answered_def
        by (auto simp: outcome_binds_def binds_def authorization_request_def bind_decision_def)
      with that assms show ?thesis unfolding permitted_def answered_def by blast
    qed
    then show ?thesis unfolding Some option.case
      by (intro secures_if secures_refusals secures_seq [where Y = "answered (Decided nb request d) (Some out)"]
          secures_Inr lasting_answered idle_stop.obeys_emit) (simp_all add: Some)
  qed (simp add: secures_refusals)
qed

lemma secures_request_approval:
  assumes "pd_action d = ASK" "rq_tool_name request = nb_tool_name nb"
  shows "secures (permitted nb) (\<lambda>s. Decided nb request d \<in> set (rt_trace s))
    (request_approval e started nb (bind_decision nb request d) (authorization_request (bind_decision nb request d)))"
  unfolding request_approval_def
  by (intro secures_seq [where Y = "\<lambda>tr. Decided nb request d \<in> set tr"]
      secures_bind [where Y = "\<lambda>tr. Decided nb request d \<in> set tr"] secures_if secures_refusals lasting_mem
      secures_chain [OF secures_await_authorization] secures_decide_outcome assms
      idle_stop.obeys_basic idle_stop.obeys_emit idle_stop.obeys_withdraw idle_stop.obeys_clock) simp_all

lemma secures_enforce_ask:
  assumes "pd_action d = ASK" "rq_tool_name request = nb_tool_name nb"
  shows "secures (permitted nb) (\<lambda>s. Decided nb request d \<in> set (rt_trace s))
    (enforce_ask e started nb (bind_decision nb request d))"
  unfolding enforce_ask_def Let_def
  by (intro secures_if secures_refusals secures_throw secures_request_approval assms
      secures_chain [OF secures_keep [where Y = "\<lambda>tr. Decided nb request d \<in> set tr"]] lasting_mem idle_stop.obeys_prepare_approval)

lemma secures_enforce_decision:
  assumes "rq_tool_name request = nb_tool_name nb"
  shows "secures (permitted nb) (\<lambda>s. Decided nb request d \<in> set (rt_trace s)) (enforce_decision e started nb request d)"
proof -
  have allowed: "pd_action d = ALLOW \<Longrightarrow> Decided nb request d \<in> set tr \<Longrightarrow> permitted nb (bind_decision nb request d) tr" for tr
    unfolding permitted_def using assms by blast
  have "secures (permitted nb) (\<lambda>s. Decided nb request d \<in> set (rt_trace s))
    (case pd_action d of
        ALLOW \<Rightarrow> ret (Inr (bind_decision nb request d))
      | DENY \<Rightarrow> deny e nb ''policy_denied'' POLICY_DENIED
      | ASK \<Rightarrow> enforce_ask e started nb (bind_decision nb request d))"
    using assms by (cases "pd_action d")
      (auto simp: secures_refusals intro!: secures_Inr secures_enforce_ask allowed)
  then show ?thesis unfolding enforce_decision_def
    by (intro secures_seq [where Y = "\<lambda>tr. Decided nb request d \<in> set tr"] lasting_mem idle_stop.obeys_emit) simp
qed

abbreviation anywhere :: "runtime_state \<Rightarrow> bool" where
  "anywhere s \<equiv> (\<lambda>_. True) (rt_trace s)"

lemma lasting_True: "lasting (\<lambda>_. True)"
  by (simp add: lasting_def)

lemma secures_option: "secures X P m \<Longrightarrow> (\<And>a. v = Some a \<Longrightarrow> secures X P (f a)) \<Longrightarrow> secures X P (case v of None \<Rightarrow> m | Some a \<Rightarrow> f a)"
  by (simp split: option.splits)

lemma secures_evaluate_request:
  assumes "rq_tool_name request = nb_tool_name nb"
  shows "secures (permitted nb) anywhere (evaluate_request e started nb request)"
proof -
  have decided: "secures (permitted nb) anywhere (seq (log_action (Decided nb request d)) (enforce_decision e started nb request d))" for d
    by (rule secures_log [OF lasting_True]) (simp add: secures_enforce_decision [OF assms])
  show ?thesis unfolding evaluate_request_def
    by (intro secures_bind [OF _ lasting_True] secures_option secures_if secures_refusals decided idle_stop.obeys_ask)
qed

lemma secures_enforce_policy: "secures (permitted nb) anywhere (enforce_policy e started call nb)"
  unfolding enforce_policy_def
  by (intro secures_bind [OF _ lasting_True] secures_option secures_if secures_refusals secures_evaluate_request
      idle_stop.obeys_ask_policy_request idle_stop.obeys_observe) simp

subsection \<open>Preparing a call\<close>

text \<open>The call that is dispatched for a binding.\<close>

definition dispatched :: "(string \<Rightarrow> string) \<Rightarrow> execution_binding \<Rightarrow> tool_call \<Rightarrow> bool" where
  "dispatched sha256 b c =
     (\<exists>j. bound_arguments b = Some j \<and> tc_id c = xb_tool_call_id b \<and> tc_name c = xb_tool_name b
        \<and> tc_arguments c = of_json j \<and> canonical_arguments_hash sha256 (of_json j) = Some (xb_arguments_hash b))"

lemma prepare_execution_dispatched:
  "prepare_policy_execution_call e call b s = (Inr (Some c), s') \<Longrightarrow> dispatched (rn_sha256 e) b c"
proof -
  have "triple (\<lambda>_. True) (prepare_policy_execution_call e call b) (\<lambda>r _. \<forall>c. r = Some c \<longrightarrow> dispatched (rn_sha256 e) b c) (\<lambda>_ _. True)"
    unfolding prepare_policy_execution_call_def Let_def triple_def dispatched_def
    by (auto simp: bind_def ret_def split: prod.splits sum.splits option.splits if_splits)
  then show "prepare_policy_execution_call e call b s = (Inr (Some c), s') \<Longrightarrow> dispatched (rn_sha256 e) b c"
    by (blast dest: tripleD)
qed

text \<open>What \<open>_prepare_policy_batch\<close> has established of a prepared call.\<close>

definition prepared_for :: "(string \<Rightarrow> string) \<Rightarrow> native_binding \<Rightarrow> tool_call \<times> execution_binding \<Rightarrow> action list \<Rightarrow> bool" where
  "prepared_for sha256 nb p tr = (permitted nb (snd p) tr \<and> dispatched sha256 (snd p) (fst p))"

lemma lasting_prepared: "lasting (prepared_for sha256 nb p)"
  using lasting_permitted [of nb "snd p"] by (auto simp: lasting_def prepared_for_def)

lemma secures_authorize_call: "secures (prepared_for (rn_sha256 e) nb) anywhere (authorize_call e started call nb)"
proof -
  have prepare: "secures (prepared_for (rn_sha256 e) nb) (\<lambda>s. permitted nb b (rt_trace s))
    (bind (prepare_policy_execution_call e call b) (\<lambda>prepared.
       case prepared of None \<Rightarrow> refuse_binding e b | Some execution \<Rightarrow> ret (Inr (execution, b))))" for b
    unfolding secures_def
  proof (rule triple_bind [where Q' = "\<lambda>r s. permitted nb b (rt_trace s) \<and> (\<forall>c. r = Some c \<longrightarrow> dispatched (rn_sha256 e) b c)"])
    show "triple (\<lambda>s. permitted nb b (rt_trace s)) (prepare_policy_execution_call e call b)
      (\<lambda>r s. permitted nb b (rt_trace s) \<and> (\<forall>c. r = Some c \<longrightarrow> dispatched (rn_sha256 e) b c)) (\<lambda>_ _. True)"
    proof (rule tripleI)
      fix s :: runtime_state
      assume p: "permitted nb b (rt_trace s)"
      obtain r s' where run: "prepare_policy_execution_call e call b s = (r, s')"
        by (cases "prepare_policy_execution_call e call b s")
      from lasting_onward [OF lasting_permitted obeysD [OF idle_stop.obeys_prepare_execution run] p]
      show "case prepare_policy_execution_call e call b s of (Inl x, s') \<Rightarrow> True
        | (Inr a, s') \<Rightarrow> permitted nb b (rt_trace s') \<and> (\<forall>c. a = Some c \<longrightarrow> dispatched (rn_sha256 e) b c)"
        using run prepare_execution_dispatched [of e call b s _ s'] by (simp split: sum.splits)
    qed
  next
    fix r
    have "secures (prepared_for (rn_sha256 e) nb) P (refuse_binding e b)" for P
      unfolding refuse_binding_def by (intro secures_if secures_refusals)
    then show "triple (\<lambda>s. permitted nb b (rt_trace s) \<and> (\<forall>c. r = Some c \<longrightarrow> dispatched (rn_sha256 e) b c))
      (case r of None \<Rightarrow> refuse_binding e b | Some execution \<Rightarrow> ret (Inr (execution, b)))
      (\<lambda>r s. \<forall>p. r = Inr p \<longrightarrow> prepared_for (rn_sha256 e) nb p (rt_trace s)) (\<lambda>_ _. True)"
      by (cases r) (auto simp: secures_def prepared_for_def intro!: triple_ret)
  qed
  show ?thesis unfolding authorize_call_def
    by (intro secures_seq [OF _ lasting_True] secures_chain [OF secures_enforce_policy] prepare idle_stop.obeys_emit) simp
qed

text \<open>A prepared call of a batch belongs to one of the batch's calls.\<close>

definition batch_ok :: "(string \<Rightarrow> string) \<Rightarrow> (tool_call \<times> native_binding) list \<Rightarrow> (tool_call \<times> execution_binding) option list \<Rightarrow> action list \<Rightarrow> bool" where
  "batch_ok sha256 cs prepared tr =
     (\<forall>p. Some p \<in> set prepared \<longrightarrow> (\<exists>(call, nb) \<in> set cs. prepared_for sha256 nb p tr))"

lemma lasting_batch: "lasting (batch_ok sha256 cs prepared)"
  using lasting_prepared unfolding lasting_def batch_ok_def by fast

lemma batch_ok_None: "batch_ok sha256 cs prepared tr \<Longrightarrow> batch_ok sha256 (c # cs) (None # prepared) tr"
  unfolding batch_ok_def by auto

lemma batch_ok_Some:
  "prepared_for sha256 nb p tr \<Longrightarrow> batch_ok sha256 cs prepared tr \<Longrightarrow> batch_ok sha256 ((call, nb) # cs) (Some p # prepared) tr"
  unfolding batch_ok_def by auto

lemma secures_prepare_calls:
  "secures (\<lambda>r. batch_ok (rn_sha256 e) cs (fst r)) anywhere (prepare_calls e started seen cs)"
proof (induction cs arbitrary: seen)
  case Nil
  show ?case by (simp add: secures_Inr batch_ok_def)
next
  case (Cons c cs)
  obtain call nb where c: "c = (call, nb)" by (cases c)
  have more: "secures (\<lambda>r. batch_ok (rn_sha256 e) (c # cs) (fst r)) (\<lambda>s. prepared_ok (rt_trace s))
    (bind (prepare_calls e started seen' cs) (\<lambda>r. ret (map_sum id (apfst (Cons p)) r)))"
    if "lasting prepared_ok" "\<And>tr prepared. prepared_ok tr \<Longrightarrow> batch_ok (rn_sha256 e) cs prepared tr \<Longrightarrow> batch_ok (rn_sha256 e) (c # cs) (p # prepared) tr"
    for seen' p prepared_ok
    unfolding secures_def
  proof (rule triple_bind [where Q' = "\<lambda>r s. prepared_ok (rt_trace s) \<and> (\<forall>b. r = Inr b \<longrightarrow> batch_ok (rn_sha256 e) cs (fst b) (rt_trace s))"])
    have ih: "triple (\<lambda>s. prepared_ok (rt_trace s)) (prepare_calls e started seen' cs)
      (\<lambda>r s. \<forall>b. r = Inr b \<longrightarrow> batch_ok (rn_sha256 e) cs (fst b) (rt_trace s)) (\<lambda>_ _. True)"
      by (rule triple_conseq [OF Cons.IH [unfolded secures_def]]) simp_all
    show "triple (\<lambda>s. prepared_ok (rt_trace s)) (prepare_calls e started seen' cs)
      (\<lambda>r s. prepared_ok (rt_trace s) \<and> (\<forall>b. r = Inr b \<longrightarrow> batch_ok (rn_sha256 e) cs (fst b) (rt_trace s))) (\<lambda>_ _. True)"
      by (rule triple_conseq [OF triple_strengthen [OF ih idle_stop.obeys_prepare_calls, where F = "\<lambda>s. prepared_ok (rt_trace s)"]])
        (auto intro: lasting_onward [OF that(1)])
  next
    fix r :: "agent_stop + (tool_call \<times> execution_binding) option list \<times> string set"
    show "triple (\<lambda>s. prepared_ok (rt_trace s) \<and> (\<forall>b. r = Inr b \<longrightarrow> batch_ok (rn_sha256 e) cs (fst b) (rt_trace s)))
      (ret (map_sum id (apfst (Cons p)) r)) (\<lambda>r s. \<forall>b. r = Inr b \<longrightarrow> batch_ok (rn_sha256 e) (c # cs) (fst b) (rt_trace s)) (\<lambda>_ _. True)"
      by (cases r) (auto intro!: triple_ret that(2))
  qed
  show ?case
  proof (cases "call_key call")
    case None
    then show ?thesis by (simp add: c secures_throw)
  next
    case (Some key)
    have dup: "secures (\<lambda>r. batch_ok (rn_sha256 e) (c # cs) (fst r)) anywhere
      (bind (prepare_calls e started seen cs) (\<lambda>r. ret (map_sum id (apfst (Cons None)) r)))"
      by (rule more [OF lasting_True]) (rule batch_ok_None)
    have novel: "secures (\<lambda>r. batch_ok (rn_sha256 e) (c # cs) (fst r)) (\<lambda>s. prepared_for (rn_sha256 e) nb p (rt_trace s))
      (bind (prepare_calls e started (insert key seen) cs) (\<lambda>r. ret (map_sum id (apfst (Cons (Some p))) r)))" for p
      by (rule more [OF lasting_prepared]) (simp add: c batch_ok_Some)
    show ?thesis
      using secures_seq [OF idle_stop.obeys_append_history lasting_True dup] secures_chain [OF secures_authorize_call novel] Some
      by (simp add: c)
  qed
qed

subsection \<open>What may run\<close>

text \<open>The policy decided on this call, and an approval of this call was given where the policy asks for one.\<close>

definition granted :: "(string \<Rightarrow> string) \<Rightarrow> action list \<Rightarrow> tool_call \<Rightarrow> bool" where
  "granted sha256 tr c =
     (\<exists>nb request d. Decided nb request d \<in> set tr
        \<and> nb_tool_call_id nb = tc_id c \<and> nb_tool_name nb = tc_name c \<and> rq_tool_name request = tc_name c
        \<and> canonical_arguments_hash sha256 (tc_arguments c) = Some (nb_arguments_hash nb)
        \<and> (pd_action d = ALLOW \<or> pd_action d = ASK \<and> approved tr (tc_id c) (tc_name c) (nb_arguments_hash nb)))"

text \<open>The model's response holds this call, with these arguments up to the order of keys.\<close>

definition asked_for :: "action list \<Rightarrow> tool_call \<Rightarrow> bool" where
  "asked_for tr c =
     (\<exists>resp raw v j. Received resp \<in> set tr \<and> raw \<in> set (rs_tool_calls resp)
        \<and> rc_id raw = Some (tc_id c) \<and> rc_name raw = Some (tc_name c) \<and> rc_arguments raw = Some v
        \<and> canonical_arguments_snapshot v = Some j \<and> (py_ok v \<longrightarrow> tc_arguments c = of_json (in_order j)))"

definition authorized_call :: "runtime_env \<Rightarrow> action list \<Rightarrow> tool_call \<Rightarrow> bool" where
  "authorized_call e tr c = (granted (rn_sha256 e) tr c \<and> asked_for tr c)"

lemma lasting_authorized: "lasting (\<lambda>tr. authorized_call e tr c)"
  unfolding lasting_def authorized_call_def granted_def asked_for_def approved_def by (metis Un_iff set_append)

text \<open>Every executed call was authorized at the time.\<close>

fun safe_trace :: "runtime_env \<Rightarrow> action list \<Rightarrow> bool" where
  "safe_trace e [] = True"
| "safe_trace e (a # tr) = ((case a of Executed c \<Rightarrow> authorized_call e tr c | _ \<Rightarrow> True) \<and> safe_trace e tr)"

lemma safe_trace_append: "(\<And>c. Executed c \<notin> set t) \<Longrightarrow> safe_trace e (t @ tr) = safe_trace e tr"
  by (induction t) (auto split: action.splits)

lemma safe_onward: "unexecuted s s' \<Longrightarrow> safe_trace e (rt_trace s') = safe_trace e (rt_trace s)"
  by (auto simp: unexecuted_def safe_trace_append)

lemma safe_trace_split: "safe_trace e (t1 @ Executed c # t2) \<Longrightarrow> authorized_call e t2 c"
  by (induction t1) auto

subsection \<open>Dispatching a batch\<close>

lemma policy_copies_binding:
  assumes "snapshot_call sha256 True raw = Inr cc"
  obtains v j where "rc_id raw = Some (nb_tool_call_id (cc_binding cc))" "rc_name raw = Some (nb_tool_name (cc_binding cc))"
    "rc_arguments raw = Some v" "canonical_arguments_snapshot v = Some j" "nb_arguments_json (cc_binding cc) = dumps j"
  using assms
  by (auto simp: snapshot_call_def policy_copies_def native_copies_def Let_def split: option.splits if_splits)

lemma snapshot_calls_from:
  "snapshot_provider_tool_calls sha256 policy raws = Inr cs \<Longrightarrow> cc \<in> set cs
   \<Longrightarrow> \<exists>raw \<in> set raws. snapshot_call sha256 policy raw = Inr cc"
proof (induction raws arbitrary: cs)
  case (Cons raw raws)
  then show ?case
    by (cases "snapshot_provider_tool_calls sha256 policy raws"; cases "snapshot_call sha256 policy raw") auto
qed simp

lemma bound_arguments_dumps:
  assumes "py_ok v" "canonical_arguments_snapshot v = Some j" "xb_arguments_json b = dumps j"
  shows "bound_arguments b = Some (in_order j)"
proof -
  from assms(2) obtain kvs where j: "canonical_json_value v = Some j" "j = JObj kvs" by (auto simp: snapshot_cases)
  from canonical_ok [OF assms(1) j(1)] have "loads (dumps j) = Some (in_order j)" by (rule loads_dumps)
  moreover have "canonical_arguments_snapshot (of_json (in_order j)) = Some (in_order j)"
    using canonical_of_json [of "in_order j"] j(2) unfolding snapshot_cases by simp
  ultimately show ?thesis using assms(3) by (simp add: bound_arguments_def)
qed

lemma batch_authorized:
  assumes batch: "batch_ok (rn_sha256 e) (map (\<lambda>c. (cc_execution_call c, cc_binding c)) copies) prepared tr"
    and copies: "snapshot_provider_tool_calls (rn_sha256 e) True (rs_tool_calls resp) = Inr copies"
    and resp: "Received resp \<in> set tr"
    and p: "Some (c, b) \<in> set prepared"
  shows "authorized_call e tr c"
proof -
  from batch p obtain cc where cc: "cc \<in> set copies" and pf: "prepared_for (rn_sha256 e) (cc_binding cc) (c, b) tr"
    unfolding batch_ok_def by fastforce
  define nb where "nb = cc_binding cc"
  from pf obtain request d where d: "Decided nb request d \<in> set tr" "b = bind_decision nb request d"
    "rq_tool_name request = nb_tool_name nb"
    "pd_action d = ALLOW \<or> pd_action d = ASK \<and> approved tr (nb_tool_call_id nb) (nb_tool_name nb) (nb_arguments_hash nb)"
    unfolding prepared_for_def permitted_def nb_def by auto
  from pf obtain k where k: "bound_arguments b = Some k" "tc_id c = xb_tool_call_id b" "tc_name c = xb_tool_name b"
    "tc_arguments c = of_json k" "canonical_arguments_hash (rn_sha256 e) (of_json k) = Some (xb_arguments_hash b)"
    unfolding prepared_for_def dispatched_def by auto
  have b: "xb_tool_call_id b = nb_tool_call_id nb" "xb_tool_name b = nb_tool_name nb"
    "xb_arguments_hash b = nb_arguments_hash nb" "xb_arguments_json b = nb_arguments_json nb"
    using d(2) by (simp_all add: bind_decision_def)
  have "granted (rn_sha256 e) tr c" unfolding granted_def using d k b by metis
  moreover have "asked_for tr c"
  proof -
    from snapshot_calls_from [OF copies cc] obtain raw where raw: "raw \<in> set (rs_tool_calls resp)"
      "snapshot_call (rn_sha256 e) True raw = Inr cc" by blast
    from raw(2) obtain v j where v: "rc_id raw = Some (nb_tool_call_id nb)" "rc_name raw = Some (nb_tool_name nb)"
      "rc_arguments raw = Some v" "canonical_arguments_snapshot v = Some j" "nb_arguments_json nb = dumps j"
      unfolding nb_def by (rule policy_copies_binding)
    have "py_ok v \<Longrightarrow> tc_arguments c = of_json (in_order j)"
      using bound_arguments_dumps [of v j b] v b k by simp
    with resp raw(1) v k b show ?thesis unfolding asked_for_def by metis
  qed
  ultimately show ?thesis by (simp add: authorized_call_def)
qed

text \<open>Dispatching authorized calls keeps the trace safe, wherever it ends.\<close>

definition runs_only :: "runtime_env \<Rightarrow> (tool_call \<Rightarrow> bool) \<Rightarrow> runtime_state \<Rightarrow> runtime_state \<Rightarrow> bool" where
  "runs_only e A s s' =
     (safe_trace e (rt_trace s) \<and> (\<forall>c. A c \<longrightarrow> authorized_call e (rt_trace s) c)
      \<longrightarrow> safe_trace e (rt_trace s') \<and> (\<forall>c. A c \<longrightarrow> authorized_call e (rt_trace s') c))"

lemma unexecuted_runs_only: "unexecuted s s' \<Longrightarrow> runs_only e A s s'"
  unfolding runs_only_def using safe_onward lasting_onward [OF lasting_authorized] by metis

interpretation run_batch: tool_order "runs_only e A" e' A for e A e'
proof unfold_locales
  have more: "authorized_call e tr c \<Longrightarrow> authorized_call e (a # tr) c" for tr a c
    using lasting_authorized [of e c] unfolding lasting_def by (metis append_Cons append_Nil)
  show "runs_only e A s (s\<lparr>rt_trace := Executed call # rt_trace s\<rparr>)" if "A call" for s call
    using that more unfolding runs_only_def by simp
  show "runs_only e A s s" for s by (simp add: runs_only_def)
  show "runs_only e A s s' \<Longrightarrow> runs_only e A s' s'' \<Longrightarrow> runs_only e A s s''" for s s' s'' by (simp add: runs_only_def)
qed (auto intro!: unexecuted_runs_only unexecuted_same unexecuted_log)

text \<open>Operations that leave a safe trace safe, from a state in which \<open>Y\<close> holds.\<close>

definition guarded :: "runtime_env \<Rightarrow> (action list \<Rightarrow> bool) \<Rightarrow> 'a run_prog \<Rightarrow> bool" where
  "guarded e Y m =
     triple (\<lambda>s. safe_trace e (rt_trace s) \<and> Y (rt_trace s)) m
       (\<lambda>_ s. safe_trace e (rt_trace s)) (\<lambda>_ s. safe_trace e (rt_trace s))"

lemma guarded_idle: "obeys unexecuted m \<Longrightarrow> guarded e Y m"
  unfolding guarded_def by (erule triple_obeys) (auto simp: safe_onward)

lemma guarded_bind: "obeys unexecuted m \<Longrightarrow> lasting Y \<Longrightarrow> (\<And>a. guarded e Y (f a)) \<Longrightarrow> guarded e Y (bind m f)"
  unfolding guarded_def
  by (rule triple_bind [where Q' = "\<lambda>_ s. safe_trace e (rt_trace s) \<and> Y (rt_trace s)"], erule triple_obeys)
    (auto simp: safe_onward intro: lasting_onward)

lemma guarded_seq: "obeys unexecuted m \<Longrightarrow> lasting Y \<Longrightarrow> guarded e Y k \<Longrightarrow> guarded e Y (seq m k)"
  unfolding seq_def by (rule guarded_bind)

lemma guarded_log:
  assumes "lasting Y" "\<And>c. a \<noteq> Executed c" "guarded e (\<lambda>tr. Y tr \<and> a \<in> set tr) k"
  shows "guarded e Y (seq (log_action a) k)"
  unfolding guarded_def log_action_def
proof (rule triple_seq [where Q' = "\<lambda>s. safe_trace e (rt_trace s) \<and> Y (rt_trace s) \<and> a \<in> set (rt_trace s)"], rule triple_modify)
  fix s
  assume s: "safe_trace e (rt_trace s) \<and> Y (rt_trace s)"
  with assms(1) have "Y ([a] @ rt_trace s)" unfolding lasting_def by blast
  moreover have "safe_trace e ([a] @ rt_trace s)" using s assms(2) by (subst safe_trace_append) auto
  ultimately show "safe_trace e (rt_trace (s\<lparr>rt_trace := a # rt_trace s\<rparr>)) \<and> Y (rt_trace (s\<lparr>rt_trace := a # rt_trace s\<rparr>))
      \<and> a \<in> set (rt_trace (s\<lparr>rt_trace := a # rt_trace s\<rparr>))" by simp
qed (rule assms(3) [unfolded guarded_def])

lemma guarded_if: "(b \<Longrightarrow> guarded e Y m) \<Longrightarrow> (\<not> b \<Longrightarrow> guarded e Y k) \<Longrightarrow> guarded e Y (if b then m else k)"
  by simp

lemma guarded_option: "guarded e Y m \<Longrightarrow> (\<And>a. guarded e Y (f a)) \<Longrightarrow> guarded e Y (case v of None \<Rightarrow> m | Some a \<Rightarrow> f a)"
  by (simp split: option.splits)

lemmas guarded_rules = guarded_bind guarded_seq guarded_if guarded_option

lemmas idle_rules = idle_stop.obeys_basic idle_stop.obeys_emit idle_stop.obeys_expired idle_stop.obeys_modify
  idle.obeys_ends_run idle.obeys_finalize_run idle.obeys_stops

lemma guarded_dispatch_policy:
  assumes copies: "snapshot_provider_tool_calls (rn_sha256 e) True (rs_tool_calls resp) = Inr copies"
  shows "guarded e (\<lambda>tr. Received resp \<in> set tr) (dispatch_policy e started copies)"
proof -
  let ?Y = "\<lambda>tr. Received resp \<in> set tr"
  have batch: "guarded e ?Y (bind (prepare_policy_batch e started copies) (\<lambda>r.
       case r of
         Inl reason \<Rightarrow> ends_run (stop_now e reason None VNone)
       | Inr prepared \<Rightarrow> seq (dispatch_prepared e started prepared) (ret None)))"
    unfolding guarded_def
  proof (rule triple_bind [where Q' = "\<lambda>r s. safe_trace e (rt_trace s) \<and> (\<forall>prepared. r = Inr prepared \<longrightarrow>
      (\<forall>c b. Some (c, b) \<in> set prepared \<longrightarrow> authorized_call e (rt_trace s) c))"])
    have secured: "secures (\<lambda>prepared. batch_ok (rn_sha256 e) (map (\<lambda>c. (cc_execution_call c, cc_binding c)) copies) prepared)
      anywhere (prepare_policy_batch e started copies)"
    proof -
      have set_seen: "secures (\<lambda>prepared. batch_ok (rn_sha256 e) cs prepared) (\<lambda>s. batch_ok (rn_sha256 e) cs (fst r) (rt_trace s))
        (case r of (prepared, seen') \<Rightarrow> seq (modify (\<lambda>s. s\<lparr>rt_seen := rt_seen s \<union> seen'\<rparr>)) (ret (Inr prepared)))" for cs r
        by (cases r) (auto intro!: secures_seq [OF _ lasting_batch] secures_Inr idle_stop.obeys_modify unexecuted_same)
      show ?thesis unfolding prepare_policy_batch_def
        by (rule secures_bind [OF idle_stop.obeys_reads lasting_True], rule secures_chain [OF secures_prepare_calls set_seen])
    qed
    have "triple (\<lambda>s. safe_trace e (rt_trace s) \<and> ?Y (rt_trace s)) (prepare_policy_batch e started copies)
      (\<lambda>r s. \<forall>b. r = Inr b \<longrightarrow> batch_ok (rn_sha256 e) (map (\<lambda>c. (cc_execution_call c, cc_binding c)) copies) b (rt_trace s)) (\<lambda>_ _. True)"
      by (rule triple_conseq [OF secured [unfolded secures_def]]) auto
    note strong = triple_strengthen [OF this idle.obeys_prepare_policy_batch, where F = "\<lambda>s. safe_trace e (rt_trace s) \<and> ?Y (rt_trace s)"]
    show "triple (\<lambda>s. safe_trace e (rt_trace s) \<and> ?Y (rt_trace s)) (prepare_policy_batch e started copies)
      (\<lambda>r s. safe_trace e (rt_trace s) \<and> (\<forall>prepared. r = Inr prepared \<longrightarrow>
         (\<forall>c b. Some (c, b) \<in> set prepared \<longrightarrow> authorized_call e (rt_trace s) c))) (\<lambda>_ s. safe_trace e (rt_trace s))"
      by (rule triple_conseq [OF strong]) (auto simp: safe_onward intro: unexecuted_mem batch_authorized [OF _ copies])
  next
    fix r
    have run: "triple (\<lambda>s. safe_trace e (rt_trace s) \<and> (\<forall>c b. Some (c, b) \<in> set prepared \<longrightarrow> authorized_call e (rt_trace s) c))
      (seq (dispatch_prepared e started prepared) (ret None)) (\<lambda>_ s. safe_trace e (rt_trace s)) (\<lambda>_ s. safe_trace e (rt_trace s))" for prepared
    proof (rule triple_obeys [where R = "runs_only e (\<lambda>c. \<exists>b. Some (c, b) \<in> set prepared)"])
      show "obeys (runs_only e (\<lambda>c. \<exists>b. Some (c, b) \<in> set prepared)) (seq (dispatch_prepared e started prepared) (ret None))"
        by (intro run_batch.obeys_seq run_batch.obeys_dispatch_prepared run_batch.obeys_ret) blast
    qed (auto simp: runs_only_def)
    show "triple (\<lambda>s. safe_trace e (rt_trace s) \<and> (\<forall>prepared. r = Inr prepared \<longrightarrow>
         (\<forall>c b. Some (c, b) \<in> set prepared \<longrightarrow> authorized_call e (rt_trace s) c)))
      (case r of Inl reason \<Rightarrow> ends_run (stop_now e reason None VNone)
       | Inr prepared \<Rightarrow> seq (dispatch_prepared e started prepared) (ret None))
      (\<lambda>_ s. safe_trace e (rt_trace s)) (\<lambda>_ s. safe_trace e (rt_trace s))"
    proof (cases r)
      case (Inl reason)
      have "guarded e (\<lambda>_. True) (ends_run (stop_now e reason None VNone))" by (intro guarded_idle idle_rules)
      then show ?thesis by (simp add: Inl guarded_def)
    qed (use run in simp)
  qed
  have refused: "guarded e ?Y (seq (append_history ms) (ends_run (finalize_run e started reason)))" for ms reason
    by (intro guarded_idle idle_rules)
  show ?thesis unfolding dispatch_policy_def
    by (intro guarded_rules lasting_mem batch refused guarded_idle idle_rules)
qed

subsection \<open>A run in policy mode\<close>

lemma guarded_publish_response:
  assumes "rn_policy_mode e" "snapshot_provider_tool_calls (rn_sha256 e) True (rs_tool_calls resp) = Inr copies"
  shows "guarded e (\<lambda>tr. Received resp \<in> set tr) (publish_response e started body copies)"
  unfolding publish_response_def run_tools_def
  by (intro guarded_rules guarded_dispatch_policy [OF assms(2)] lasting_mem)
    (auto simp: assms(1) intro!: guarded_idle idle_rules idle.content)

lemma guarded_accept_response:
  assumes "rn_policy_mode e" "snapshot_provider_tool_calls (rn_sha256 e) True (rs_tool_calls resp) = Inr copies"
  shows "guarded e (\<lambda>tr. Received resp \<in> set tr) (accept_response e started resp copies)"
proof -
  note publish = guarded_publish_response [OF assms]
  note reject = guarded_idle [OF idle.obeys_reject_structured]
  have keep: "guarded e (\<lambda>tr. Received resp \<in> set tr)
      (seq (modify (\<lambda>s. s\<lparr>rt_structured := v\<rparr>)) (publish_response e started body copies))" for v body
    by (intro guarded_seq lasting_mem publish idle_stop.obeys_modify idle.structured)
  have check: "guarded e (\<lambda>tr. Received resp \<in> set tr) (check_structured e started body copies)" for body
    using publish keep reject unfolding check_structured_def by (auto split: list.splits option.splits sum.splits)
  show ?thesis unfolding accept_response_def
    by (intro guarded_rules lasting_mem check) (intro guarded_idle idle_rules idle.content idle.obeys_reflect_response)+
qed

lemma guarded_receive_response:
  assumes "rn_policy_mode e"
  shows "guarded e (\<lambda>_. True) (receive_response e started resp)"
proof -
  let ?Y = "\<lambda>tr. Received resp \<in> set tr"
  have count: "obeys unexecuted (modify (\<lambda>s. let u = add_usage (rt_usage s) (rs_usage resp) in s\<lparr>rt_usage := u, ds_usage := Some u\<rparr>))"
    by (rule idle_stop.obeys_modify) (simp add: Let_def unexecuted_same)
  have go_on: "guarded e ?Y (case snapshot_provider_tool_calls (rn_sha256 e) (rn_policy_mode e) (rs_tool_calls resp) of
      Inl (call_id, name) \<Rightarrow> refuse_snapshot e call_id name | Inr cs \<Rightarrow> accept_response e started resp cs)"
    using guarded_accept_response [OF assms] assms
    by (auto split: sum.splits intro!: guarded_idle idle.obeys_refuse_snapshot)
  have "guarded e ?Y (bind (expired e started) (\<lambda>over.
      if over then throw (XTimeout [])
      else if \<not> usage_valid (rs_usage resp) then throw (XRaised ''ValueError'' [])
      else
        seq (modify (\<lambda>s. let u = add_usage (rt_usage s) (rs_usage resp) in s\<lparr>rt_usage := u, ds_usage := Some u\<rparr>))
        (seq (emit_response e resp)
         (case snapshot_provider_tool_calls (rn_sha256 e) (rn_policy_mode e) (rs_tool_calls resp) of
            Inl (call_id, name) \<Rightarrow> refuse_snapshot e call_id name
          | Inr cs \<Rightarrow> accept_response e started resp cs))))"
    by (intro guarded_bind guarded_seq guarded_if lasting_mem go_on idle_stop.obeys_expired count idle.obeys_emit_response
        guarded_idle [OF idle_stop.obeys_throw])
  then show ?thesis unfolding receive_response_def Let_def [of "snapshot_provider_tool_calls _ _ _"]
    by (intro guarded_log [OF lasting_True]) simp_all
qed

lemma guarded_loop_body:
  assumes "rn_policy_mode e"
  shows "guarded e (\<lambda>_. True) (loop_body e started)"
proof -
  have begins: "obeys unexecuted begin_iteration"
    unfolding begin_iteration_def by (rule idle_stop.obeys_modify) (simp add: unexecuted_same)
  have go_on: "guarded e (\<lambda>_. True) (case r of Inl res \<Rightarrow> ret (Some res) | Inr resp \<Rightarrow> receive_response e started resp)" for r
    using guarded_receive_response [OF assms] by (cases r) (auto intro: guarded_idle idle_stop.obeys_ret)
  have "guarded e (\<lambda>_. True) (call_model e started)"
    unfolding call_model_def
    by (intro guarded_bind [OF idle_stop.obeys_reads lasting_True] guarded_option guarded_if
        guarded_bind [OF idle.obeys_request_model lasting_True] go_on guarded_idle idle_rules)
  then show ?thesis unfolding loop_body_def
    by (intro guarded_bind [OF idle_stop.obeys_expired lasting_True] guarded_if guarded_seq [OF begins lasting_True]
        guarded_seq [OF _ lasting_True] idle_stop.obeys_emit) (auto intro!: guarded_idle idle_rules)
qed

lemma guarded_run_loop:
  assumes "rn_policy_mode e"
  shows "guarded e (\<lambda>_. True) (run_loop e started)"
proof -
  have "e' = e \<Longrightarrow> safe_trace e (rt_trace s) \<Longrightarrow> safe_trace e (rt_trace (snd (run_loop e' started s)))" for e' s
  proof (induction e' started s rule: run_loop.induct)
    case (1 e' started s)
    show ?case
    proof (cases "rt_iterations s < rb_max_iterations (rn_budget e')")
      case True
      obtain r s' where b: "loop_body e' started s = (r, s')" by (cases "loop_body e' started s")
      have "safe_trace e (rt_trace s')"
        using guarded_loop_body [OF assms, of started] 1(2,3) b by (cases r) (auto simp: guarded_def dest: tripleD tripleE)
      with 1(1) [OF True b [symmetric]] 1(2) b True show ?thesis
        by (subst run_loop.simps) (auto split: sum.splits option.splits)
    next
      case False
      obtain r s' where b: "finalize_run e' started ITERATION_BUDGET_EXHAUSTED s = (r, s')"
        by (cases "finalize_run e' started ITERATION_BUDGET_EXHAUSTED s")
      from obeysD [OF idle.obeys_finalize_run b] 1(3) False b show ?thesis
        by (subst run_loop.simps) (simp add: safe_onward)
    qed
  qed
  then show ?thesis unfolding guarded_def by (intro tripleI) (auto split: prod.splits sum.splits, (metis snd_conv)+)
qed

interpretation idle_frame: frame_order unexecuted e for e
  by unfold_locales (rule idle_stop.obeys_resume_task)

lemma run_agent_safe:
  assumes "rn_policy_mode e" "run_agent e = (r, s)"
  shows "safe_trace e (rt_trace s)"
proof (rule idle_frame.run_agent_ends [OF _ _ _ _ _ assms(2)])
  show "triple (\<lambda>s. safe_trace e (rt_trace s)) (run_loop e started) (\<lambda>_ s. safe_trace e (rt_trace s)) (\<lambda>_ s. safe_trace e (rt_trace s))" for started
    using guarded_run_loop [OF assms(1)] by (simp add: guarded_def)
qed (auto simp: safe_onward fresh_state_def)

text \<open>
  C1: in policy mode, whatever the model, the tools, the authorizer and the event sink do, every
  tool call that is executed had before it a decision of the policy engine on exactly that call
  (its id, its tool and the hash of its arguments) which allows it, or which asks and was
  followed by an approval of exactly that call; and it is a call that the model's response held,
  with the arguments the response had when it arrived.
\<close>

theorem executed_calls_are_authorized:
  assumes "rn_policy_mode e" "run_agent e = (r, s)" "rt_trace s = later @ Executed c # earlier"
  shows "granted (rn_sha256 e) earlier c \<and> asked_for earlier c"
  using safe_trace_split [of e later c earlier] run_agent_safe [OF assms(1,2)] assms(3)
  by (simp add: authorized_call_def)

theorem executed_calls_are_authorized_witness:
  "\<exists>r s later earlier. run_agent demo_agent = (r, s) \<and> rt_trace s = later @ Executed demo_tool_call # earlier
     \<and> granted (\<lambda>_. demo_digest) earlier demo_tool_call \<and> asked_for earlier demo_tool_call"
proof -
  obtain r s where run: "run_agent demo_agent = (r, s)" by (cases "run_agent demo_agent")
  with demo_reaches have "Executed demo_tool_call \<in> set (rt_trace s)" by simp
  then obtain later earlier where "rt_trace s = later @ Executed demo_tool_call # earlier" by (auto dest: split_list)
  with executed_calls_are_authorized [OF demo_env(3) run] run show ?thesis unfolding demo_env by blast
qed

subsection \<open>Under the default policy\<close>

text \<open>Every decision in the trace is one the policy engine gave on that request.\<close>

definition authentic :: "runtime_env \<Rightarrow> action list \<Rightarrow> bool" where
  "authentic e tr = (\<forall>nb request d. Decided nb request d \<in> set tr \<longrightarrow> (\<exists>n. rn_evaluate e n request = Some d))"

lemma authentic_Cons: "authentic e (a # tr) = (authentic e [a] \<and> authentic e tr)"
  unfolding authentic_def by auto

lemma authentic_one: "authentic e [a] = (case a of Decided nb request d \<Rightarrow> \<exists>n. rn_evaluate e n request = Some d | _ \<Rightarrow> True)"
  unfolding authentic_def by (auto split: action.splits)

lemma quiet_authentic: "quiet e a \<Longrightarrow> authentic e [a]"
  by (cases a) (auto simp: authentic_one)

lemma closing_authentic: "closing a \<Longrightarrow> authentic e [a]"
  by (cases a) (auto simp: authentic_one)

definition stays_authentic :: "runtime_env \<Rightarrow> runtime_state \<Rightarrow> runtime_state \<Rightarrow> bool" where
  "stays_authentic e s s' = (authentic e (rt_trace s) \<longrightarrow> authentic e (rt_trace s'))"

interpretation decides_stop: terminal_order "stays_authentic e" e for e
  by unfold_locales (auto simp: stays_authentic_def authentic_Cons [of e _ "rt_trace _"] quiet_authentic closing_authentic)

interpretation decides: run_order "stays_authentic e" e for e
  by unfold_locales
    (auto simp: stays_authentic_def authentic_Cons [of e _ "rt_trace _"] authentic_one
      intro: decides_stop.obeys_stop_run decides_stop.obeys_resume_task)

lemma default_policy_allows:
  assumes "pd_action (evaluate_policy default_policy_engine request) = ALLOW"
  shows "rq_risk_classes request \<in> {{READ}, {NETWORK}}"
proof -
  let ?ms = "filter (rule_matches request) (pe_rules default_policy_engine)"
  have risks: "rq_risk_classes request \<noteq> {}" using assms evaluate_unclassified by force
  have ms: "?ms \<noteq> []"
    using assms evaluate_unmatched [OF risks] by (auto simp: default_policy_engine_def split: if_splits)
  have "winner ?ms \<in> set ?ms" "pr_action (winner ?ms) = ALLOW"
    using winner_props(1) [OF ms] evaluate_matched(1) [OF risks ms] assms by simp_all
  then have "winner ?ms = reads_rule \<or> winner ?ms = web_search_rule" "rule_matches request (winner ?ms)"
    by (auto simp: default_policy_engine_def default_policy_rules_def default_rule_facts)
  then show ?thesis using risks by (auto simp: rule_matches_def default_rule_facts)
qed

text \<open>
  C5: a run under the default policy executes a call only when the request derived for it is a
  pure read or pure network access, or when the authorizer approved exactly that call: no call
  that writes, executes, reads secrets, has external side effects or combines risks runs without
  an approval bound to its id, tool and arguments.
\<close>

theorem side_effects_need_approval:
  assumes "rn_policy_mode e" "\<And>n request. rn_evaluate e n request = Some (evaluate_policy default_policy_engine request)"
    "run_agent e = (r, s)" "rt_trace s = later @ Executed c # earlier"
  shows "\<exists>nb request. Decided nb request (evaluate_policy default_policy_engine request) \<in> set earlier
    \<and> nb_tool_call_id nb = tc_id c \<and> nb_tool_name nb = tc_name c \<and> rq_tool_name request = tc_name c
    \<and> canonical_arguments_hash (rn_sha256 e) (tc_arguments c) = Some (nb_arguments_hash nb)
    \<and> (rq_risk_classes request \<in> {{READ}, {NETWORK}} \<or> approved earlier (tc_id c) (tc_name c) (nb_arguments_hash nb))"
proof -
  have "granted (rn_sha256 e) earlier c"
    using safe_trace_split [of e later c earlier] run_agent_safe [OF assms(1,3)] assms(4) by (simp add: authorized_call_def)
  then obtain nb request d where g: "Decided nb request d \<in> set earlier"
    "nb_tool_call_id nb = tc_id c" "nb_tool_name nb = tc_name c" "rq_tool_name request = tc_name c"
    "canonical_arguments_hash (rn_sha256 e) (tc_arguments c) = Some (nb_arguments_hash nb)"
    "pd_action d = ALLOW \<or> pd_action d = ASK \<and> approved earlier (tc_id c) (tc_name c) (nb_arguments_hash nb)"
    unfolding granted_def by blast
  have "authentic e (rt_trace s)"
    using decides.run_agent_obeys [OF assms(3)] by (simp add: stays_authentic_def fresh_state_def authentic_def)
  with g(1) assms(2,4) have d: "d = evaluate_policy default_policy_engine request" by (auto simp: authentic_def)
  with g(6) default_policy_allows [of request]
  have "rq_risk_classes request \<in> {{READ}, {NETWORK}} \<or> approved earlier (tc_id c) (tc_name c) (nb_arguments_hash nb)" by blast
  with g(1-5) d show ?thesis by blast
qed

theorem side_effects_need_approval_witness:
  "\<exists>r s later earlier. run_agent demo_agent = (r, s) \<and> rt_trace s = later @ Executed demo_tool_call # earlier
     \<and> (\<exists>nb request. Decided nb request (evaluate_policy default_policy_engine request) \<in> set earlier
          \<and> nb_tool_call_id nb = ''c1'')"
proof -
  obtain r s where run: "run_agent demo_agent = (r, s)" by (cases "run_agent demo_agent")
  with demo_reaches have "Executed demo_tool_call \<in> set (rt_trace s)" by simp
  then obtain later earlier where tr: "rt_trace s = later @ Executed demo_tool_call # earlier" by (auto dest: split_list)
  have "tc_id demo_tool_call = ''c1''" by (simp add: demo_tool_call_def)
  with side_effects_need_approval [OF demo_env(3) demo_env(8) run tr] run tr show ?thesis by fastforce
qed

end
