(* ===== verification/Agent_Bounds.thy ===== *)
theory Agent_Bounds
  imports Agent_Demo
begin

text \<open>
  What a run may spend. At the head of the loop no more tools have run than there are records of
  calls, and no more model calls were made than there were iterations; the synthesis that ends a
  run may make one more. \<open>spare e n\<close> says this with room for \<open>n\<close> further tool calls.
\<close>

definition is_executed :: "action \<Rightarrow> bool" where
  "is_executed a = (case a of Executed c \<Rightarrow> True | _ \<Rightarrow> False)"

definition is_model_call :: "action \<Rightarrow> bool" where
  "is_model_call a = (case a of CalledModel ms ts n \<Rightarrow> True | _ \<Rightarrow> False)"

definition executed :: "runtime_state \<Rightarrow> int" where
  "executed s = int (length (filter is_executed (rt_trace s)))"

definition model_calls :: "runtime_state \<Rightarrow> int" where
  "model_calls s = int (length (filter is_model_call (rt_trace s)))"

definition frugal :: "runtime_state \<Rightarrow> runtime_state \<Rightarrow> bool" where
  "frugal s s' =
     (executed s' = executed s \<and> model_calls s' = model_calls s
      \<and> length (rt_calls s) \<le> length (rt_calls s') \<and> rt_iterations s' = rt_iterations s)"

lemma quiet_spends_nothing: "quiet e a \<Longrightarrow> \<not> is_executed a \<and> \<not> is_model_call a"
  by (cases a) (auto simp: is_executed_def is_model_call_def)

lemma closing_spends_nothing: "closing a \<Longrightarrow> \<not> is_executed a \<and> \<not> is_model_call a"
  by (cases a) (auto simp: is_executed_def is_model_call_def)

lemmas spend_defs = frugal_def executed_def model_calls_def

interpretation thrift: terminal_order frugal e for e
  by unfold_locales (auto simp: spend_defs quiet_spends_nothing closing_spends_nothing)

interpretation thrift_stop: stop_order frugal e for e
  by unfold_locales (auto simp: spend_defs intro: thrift.obeys_stop_run)

interpretation thrift_frame: frame_order frugal e for e
  by unfold_locales (rule thrift.obeys_resume_task)

definition bounded :: "runtime_env \<Rightarrow> runtime_state \<Rightarrow> bool" where
  "bounded e s =
     (executed s \<le> rb_max_tool_calls (rn_budget e) \<and> model_calls s \<le> rb_max_iterations (rn_budget e) + 1
      \<and> rt_iterations s \<le> rb_max_iterations (rn_budget e))"

definition spare_but :: "runtime_env \<Rightarrow> int \<Rightarrow> int \<Rightarrow> int \<Rightarrow> runtime_state \<Rightarrow> bool" where
  "spare_but e n missing calls s =
     (0 \<le> n \<and> executed s \<le> int (length (rt_calls s)) + missing
      \<and> executed s + n \<le> rb_max_tool_calls (rn_budget e) \<and> model_calls s + calls \<le> rt_iterations s
      \<and> rt_iterations s \<le> rb_max_iterations (rn_budget e))"

abbreviation spare :: "runtime_env \<Rightarrow> int \<Rightarrow> runtime_state \<Rightarrow> bool" where
  "spare e n \<equiv> spare_but e n 0 0"

lemma spare_frugal: "spare_but e n m k s \<Longrightarrow> frugal s s' \<Longrightarrow> spare_but e n m k s'"
  by (auto simp: spare_but_def frugal_def)

lemma bounded_frugal: "bounded e s \<Longrightarrow> frugal s s' \<Longrightarrow> bounded e s'"
  by (auto simp: bounded_def frugal_def)

lemma spare_bounded: "spare_but e n m k s \<Longrightarrow> 0 \<le> k + 1 \<Longrightarrow> bounded e s"
  by (auto simp: bounded_def spare_but_def)

lemma spare_less: "spare_but e n m k s \<Longrightarrow> 0 \<le> n' \<Longrightarrow> n' \<le> n \<Longrightarrow> k' \<le> k \<Longrightarrow> spare_but e n' m k' s"
  by (auto simp: spare_but_def)

subsection \<open>Programs that end within the bounds\<close>

definition costs :: "runtime_env \<Rightarrow> (runtime_state \<Rightarrow> bool) \<Rightarrow> 'a run_prog \<Rightarrow> ('a \<Rightarrow> runtime_state \<Rightarrow> bool) \<Rightarrow> bool" where
  "costs e P m Q = triple P m Q (\<lambda>_. bounded e)"

lemma costs_frugal: "obeys frugal m \<Longrightarrow> costs e (spare_but e n d 0) m (\<lambda>_. spare_but e n d 0)"
  unfolding costs_def by (erule triple_obeys) (auto intro: spare_frugal spare_bounded)

lemma costs_ended: "obeys frugal m \<Longrightarrow> costs e (bounded e) m (\<lambda>_. bounded e)"
  unfolding costs_def by (erule triple_obeys) (auto intro: bounded_frugal)

lemma costs_bind: "costs e P m Q' \<Longrightarrow> (\<And>a. costs e (Q' a) (f a) Q) \<Longrightarrow> costs e P (bind m f) Q"
  unfolding costs_def by (rule triple_bind)

lemma costs_seq: "costs e P m (\<lambda>_. Q') \<Longrightarrow> costs e Q' k Q \<Longrightarrow> costs e P (seq m k) Q"
  unfolding costs_def by (rule triple_seq)

lemma costs_after:
  "obeys frugal m \<Longrightarrow> (\<And>a. costs e (spare_but e n d 0) (f a) Q) \<Longrightarrow> costs e (spare_but e n d 0) (bind m f) Q"
  by (rule costs_bind [OF costs_frugal])

lemma costs_then:
  "obeys frugal m \<Longrightarrow> costs e (spare_but e n d 0) k Q \<Longrightarrow> costs e (spare_but e n d 0) (seq m k) Q"
  unfolding seq_def by (rule costs_after)

lemma costs_if: "(b \<Longrightarrow> costs e P m Q) \<Longrightarrow> (\<not> b \<Longrightarrow> costs e P k Q) \<Longrightarrow> costs e P (if b then m else k) Q"
  by simp

lemma costs_option: "costs e P m Q \<Longrightarrow> (\<And>a. costs e P (f a) Q) \<Longrightarrow> costs e P (case v of None \<Rightarrow> m | Some a \<Rightarrow> f a) Q"
  by (simp split: option.splits)

lemma costs_throw: "costs e (spare_but e n d 0) (throw x) Q"
  unfolding costs_def by (rule triple_throw) (simp add: spare_bounded)

lemma costs_conseq:
  "costs e P' m Q' \<Longrightarrow> (\<And>s. P s \<Longrightarrow> P' s) \<Longrightarrow> (\<And>a s. Q' a s \<Longrightarrow> Q a s) \<Longrightarrow> costs e P m Q"
  unfolding costs_def by (erule triple_conseq)

lemma triple_within:
  assumes "triple P m (\<lambda>_. Q) (\<lambda>_. Q)" and P: "\<And>s s'. P s \<Longrightarrow> frugal s s' \<Longrightarrow> P s'"
    and Q: "\<And>s s'. Q s \<Longrightarrow> frugal s s' \<Longrightarrow> Q s'" and weaker: "\<And>s. P s \<Longrightarrow> Q s"
  shows "triple P (within_deadline e started m) (\<lambda>_. Q) (\<lambda>_. Q)"
proof -
  have clock: "triple P (clock e) (\<lambda>_. P) (\<lambda>_. Q)"
    by (rule triple_obeys [OF thrift.obeys_clock]) (auto intro: P weaker)
  have keep: "triple Q k (\<lambda>_. Q) (\<lambda>_. Q)" if "obeys frugal k" for k :: "'a run_prog"
    using that by (rule triple_obeys) (auto intro: Q)
  have split: "triple P (throw x) (\<lambda>_. Q) (\<lambda>_. Q)" "triple P k (\<lambda>_. Q) (\<lambda>_. Q) \<Longrightarrow> triple P (if b then throw x else k) (\<lambda>_. Q) (\<lambda>_. Q)"
    for x b and k :: "'a run_prog" by (auto intro!: triple_throw weaker)
  show ?thesis unfolding within_deadline_def await_before_deadline_def seq_def
    by (intro triple_bind [OF clock] split(2) triple_bind [OF assms(1)] keep thrift.obeys_basic thrift.obeys_clock)
qed

subsection \<open>Tool calls\<close>

lemma costs_execute_tool:
  "triple (spare e (n + 1)) (within_deadline e started (execute_tool e call)) (\<lambda>_. spare_but e n 1 0) (\<lambda>_. spare_but e n 1 0)"
  if "0 \<le> n"
proof (rule triple_within)
  show "triple (spare e (n + 1)) (execute_tool e call) (\<lambda>_. spare_but e n 1 0) (\<lambda>_. spare_but e n 1 0)"
    using that by (simp add: triple_def execute_tool_def seq_def bind_def log_action_def modify_def ask_def spare_but_def
        executed_def model_calls_def is_executed_def is_model_call_def)
qed (auto intro: spare_frugal, insert that, auto simp: spare_but_def)

lemma costs_append_record: "costs e (spare_but e n 1 0) (append_record r) (\<lambda>_. spare e n)"
  unfolding append_record_def costs_def
  by (auto split: option.splits intro!: triple_throw triple_modify spare_bounded)
    (auto simp: spare_but_def executed_def model_calls_def bounded_def)

lemma costs_tool_failed: "costs e (spare_but e n 1 0) (tool_failed e call binding x) (\<lambda>_. spare e n)"
  unfolding tool_failed_def Let_def
  by (intro costs_seq [OF costs_append_record] costs_frugal thrift.obeys_basic thrift.obeys_emit) simp

lemma costs_tool_returned: "costs e (spare_but e n 1 0) (tool_returned e call binding output) (\<lambda>_. spare e n)"
  unfolding tool_returned_def Let_def
  by (intro costs_option costs_throw costs_seq [OF costs_append_record] costs_frugal thrift.obeys_basic thrift.obeys_emit
      thrift.obeys_progress_chunks) simp

lemma costs_dispatch_tool:
  assumes "0 \<le> n"
  shows "costs e (spare e (n + 1)) (dispatch_tool e started call binding) (\<lambda>_. spare e n)"
proof -
  let ?W = "spare_but e n 1 0"
  have "triple (spare e (n + 1))
      (try_catch (bind (within_deadline e started (execute_tool e call)) (\<lambda>output. ret (Inr output)))
        (\<lambda>x. if x = XDeadline \<or> x = XCancelled then throw x else ret (Inl x))) (\<lambda>_. ?W) (\<lambda>_. ?W)"
    by (rule triple_try, rule triple_bind [OF costs_execute_tool [OF assms]]) (auto intro: triple_ret triple_throw)
  then have "costs e (spare e (n + 1))
      (try_catch (bind (within_deadline e started (execute_tool e call)) (\<lambda>output. ret (Inr output)))
        (\<lambda>x. if x = XDeadline \<or> x = XCancelled then throw x else ret (Inl x))) (\<lambda>_. ?W)"
    unfolding costs_def by (rule triple_conseq) (auto intro: spare_bounded)
  moreover have "costs e ?W (case r of Inl x \<Rightarrow> tool_failed e call binding x | Inr output \<Rightarrow> tool_returned e call binding output) (\<lambda>_. spare e n)" for r
    by (cases r) (simp_all add: costs_tool_failed costs_tool_returned)
  ultimately show ?thesis unfolding dispatch_tool_def by (rule costs_bind)
qed

definition dispatches :: "'a option list \<Rightarrow> nat" where
  "dispatches ps = length (filter (\<lambda>p. p \<noteq> None) ps)"

lemma dispatches_simps [simp]:
  "dispatches [] = 0" "dispatches (None # ps) = dispatches ps" "dispatches (Some p # ps) = Suc (dispatches ps)"
  by (simp_all add: dispatches_def)

lemma costs_dispatch_prepared: "costs e (spare e (int (dispatches ps))) (dispatch_prepared e started ps) (\<lambda>_. spare e 0)"
proof (induction e started ps rule: dispatch_prepared.induct)
  case (1 e started)
  then show ?case by (simp add: costs_def triple_ret)
next
  case (3 e started call b rest)
  have "costs e (spare e (int (dispatches rest) + 1)) (dispatch_tool e started call (Some b)) (\<lambda>_. spare e (int (dispatches rest)))"
    by (rule costs_dispatch_tool) simp
  then show ?case using 3 by (simp add: costs_seq add.commute)
qed simp

lemma prepare_calls_novel:
  "prepare_calls e started seen cs s = (Inr (Inr (ps, seen')), s') \<Longrightarrow> novel_calls seen (map fst cs) = Some (dispatches ps)"
proof (induction e started seen cs arbitrary: s s' ps seen' rule: prepare_calls.induct)
  case (1 e started seen)
  then show ?case by (simp add: ret_def)
next
  case (2 e started seen call nb rest)
  then obtain key where key: "call_key call = Some key" by (auto simp: throw_def split: option.splits)
  show ?case
  proof (cases "key \<in> seen")
    case True
    from 2(3) key True obtain t r where "prepare_calls e started seen rest t = (Inr r, s')"
      "map_sum id (apfst (Cons None)) r = Inr (ps, seen')"
      by (auto simp: seq_def bind_def ret_def split: prod.splits sum.splits)
    then obtain ps' where "prepare_calls e started seen rest t = (Inr (Inr (ps', seen')), s')" "ps = None # ps'"
      by (cases r) auto
    with 2(1) [OF key True] show ?thesis by (simp add: key True)
  next
    case False
    from 2(3) key False obtain t r p where "prepare_calls e started (insert key seen) rest t = (Inr r, s')"
      "map_sum id (apfst (Cons (Some p))) r = Inr (ps, seen')"
      by (auto simp: bind_def ret_def split: prod.splits sum.splits)
    then obtain ps' where "prepare_calls e started (insert key seen) rest t = (Inr (Inr (ps', seen')), s')" "ps = Some p # ps'"
      by (cases r) auto
    with 2(2) [OF key False] show ?thesis by (simp add: key False)
  qed
qed

text \<open>A pass that does not end the run leaves the state as the next one needs it.\<close>

definition goes_on :: "runtime_env \<Rightarrow> 'a option \<Rightarrow> runtime_state \<Rightarrow> bool" where
  "goes_on e r s = (bounded e s \<and> (r = None \<longrightarrow> spare e 0 s))"

lemma costs_continue: "costs e (spare e n) (ret None) (goes_on e)"
  unfolding costs_def by (rule triple_ret) (auto simp: goes_on_def bounded_def spare_but_def)

lemma costs_ends_run: "costs e P m (\<lambda>_. bounded e) \<Longrightarrow> costs e P (ends_run m) (goes_on e)"
  unfolding ends_run_def by (erule costs_bind) (simp add: costs_def triple_ret goes_on_def)

lemma costs_finish: "obeys frugal m \<Longrightarrow> costs e (spare_but e n d 0) (ends_run m) (goes_on e)"
  by (rule costs_ends_run, erule costs_conseq [OF costs_frugal]) (auto intro: spare_bounded)

lemma costs_complete_model:
  assumes "\<And>s. P s \<Longrightarrow> Q s" "\<And>s s'. P s \<Longrightarrow> frugal s s' \<Longrightarrow> P s'" "\<And>s s'. Q s \<Longrightarrow> frugal s s' \<Longrightarrow> Q s'"
    "\<And>s ms. P s \<Longrightarrow> Q (s\<lparr>rt_trace := CalledModel ms tools n # rt_trace s, rt_step := Suc (rt_step s)\<rparr>)"
  shows "triple P (within_deadline e started (complete_model e tools n)) (\<lambda>_. Q) (\<lambda>_. Q)"
  by (rule triple_within)
    (auto simp: triple_def complete_model_def seq_def bind_def reads_def log_action_def modify_def ask_def Let_def intro: assms)

lemma costs_finalize_run: "costs e (spare e 0) (finalize_run e started reason) (\<lambda>_. bounded e)"
proof -
  have model: "triple (spare e 0) (within_deadline e started (complete_model e tools n)) (\<lambda>_. bounded e) (\<lambda>_. bounded e)" for tools n
    by (rule costs_complete_model) (auto intro: spare_bounded spare_frugal bounded_frugal,
      auto simp: spare_but_def bounded_def executed_def model_calls_def is_executed_def is_model_call_def)
  have "costs e (spare e 0) (final_synthesis e started reason) (\<lambda>_. bounded e)"
    unfolding final_synthesis_def
    by (rule costs_bind, unfold costs_def, rule model, fold costs_def)
      (intro costs_ended thrift.obeys_basic thrift.obeys_modify thrift_stop.final_usage thrift_stop.obeys_emit_response
        thrift_stop.obeys_accept_synthesis)
  then have synthesis: "costs e (spare e 0) (try_catch (final_synthesis e started reason) h) (\<lambda>_. bounded e)"
    if "\<And>x. obeys frugal (h x)" for h
    unfolding costs_def by (rule triple_try) (rule costs_ended [OF that, unfolded costs_def])
  have early: "obeys frugal m \<Longrightarrow> costs e (spare e 0) m (\<lambda>_. bounded e)" for m :: "agent_result run_prog"
    by (erule costs_conseq [OF costs_frugal]) (auto intro: spare_bounded)
  have "obeys frugal (modify (\<lambda>s. s\<lparr>rt_final_content := rt_content s, rt_final_usage := rt_usage s\<rparr>))"
    by (rule thrift.obeys_modify) (simp add: spend_defs)
  then show ?thesis unfolding finalize_run_def
    by (intro costs_after costs_then costs_if synthesis early thrift.obeys_expired thrift.obeys_append_history
        thrift_stop.obeys_stops thrift.obeys_basic thrift_stop.obeys_exc)
qed

lemma costs_dispatch_policy: "costs e (spare e 0) (dispatch_policy e started copies) (goes_on e)"
proof -
  have batch: "costs e (\<lambda>s. spare e (int n) s \<and> rt_seen s = seen) (prepare_policy_batch e started copies)
      (\<lambda>r s. spare e (int n) s \<and> (\<forall>ps. r = Inr ps \<longrightarrow> dispatches ps = n))"
    if "novel_calls seen (map cc_execution_call copies) = Some n" for n seen
    unfolding costs_def
  proof (rule tripleI)
    fix s
    assume s: "spare e (int n) s \<and> rt_seen s = seen"
    obtain r s' where run: "prepare_policy_batch e started copies s = (r, s')" by (cases "prepare_policy_batch e started copies s")
    have kept: "spare e (int n) s'"
      using obeysD [OF thrift_stop.obeys_prepare_policy_batch run] s spare_frugal by blast
    have "dispatches ps = n" if ps: "r = Inr (Inr ps)" for ps
    proof -
      from run ps s obtain seen' t where "prepare_calls e started seen (map (\<lambda>c. (cc_execution_call c, cc_binding c)) copies) s
          = (Inr (Inr (ps, seen')), t)"
        by (auto simp: prepare_policy_batch_def bind_def reads_def seq_def modify_def ret_def split: prod.splits sum.splits)
      from prepare_calls_novel [OF this] \<open>novel_calls _ _ = _\<close> show ?thesis by (simp add: comp_def)
    qed
    with run kept show "case prepare_policy_batch e started copies s of (Inl x, s') \<Rightarrow> bounded e s'
      | (Inr r, s') \<Rightarrow> spare e (int n) s' \<and> (\<forall>ps. r = Inr ps \<longrightarrow> dispatches ps = n)"
      by (auto simp: spare_bounded split: sum.splits)
  qed
  have rest: "costs e (\<lambda>s. spare e (int n) s \<and> (\<forall>ps. r = Inr ps \<longrightarrow> dispatches ps = n))
      (case r of Inl reason \<Rightarrow> ends_run (stop_now e reason None VNone)
       | Inr prepared \<Rightarrow> seq (dispatch_prepared e started prepared) (ret None)) (goes_on e)" for r n
  proof (cases r)
    case (Inl reason)
    then show ?thesis
      by (auto intro: costs_conseq [OF costs_finish [OF thrift_stop.obeys_stop_now]])
  next
    case (Inr ps)
    then show ?thesis
      by (auto intro: costs_conseq [OF costs_seq [OF costs_dispatch_prepared costs_continue]])
  qed
  show ?thesis unfolding dispatch_policy_def costs_def
  proof (rule triple_bind_reads, fold costs_def)
    fix a
    have stop: "costs e (spare e 0) (seq (append_history ms) (ends_run (finalize_run e started reason))) (goes_on e)" for ms reason
      by (intro costs_then costs_ends_run costs_finalize_run thrift.obeys_append_history)
    show "costs e (\<lambda>s. spare e 0 s \<and> id s = a)
      (case novel_calls (rt_seen a) (map cc_execution_call copies) of
         None \<Rightarrow> throw (XRaised ''TypeError'' [])
       | Some novel \<Rightarrow>
           if int (length (rt_calls a)) + int novel > rb_max_tool_calls (rn_budget e)
           then seq (append_history (unexecuted_messages (map cc_execution_call copies) (stop_value TOOL_BUDGET_EXHAUSTED)))
                (ends_run (finalize_run e started TOOL_BUDGET_EXHAUSTED))
           else
             bind (prepare_policy_batch e started copies) (\<lambda>r.
             case r of
               Inl reason \<Rightarrow> ends_run (stop_now e reason None VNone)
             | Inr prepared \<Rightarrow> seq (dispatch_prepared e started prepared) (ret None))) (goes_on e)"
    proof (cases "novel_calls (rt_seen a) (map cc_execution_call copies)")
      case None
      then show ?thesis by (auto intro: costs_conseq [OF costs_throw])
    next
      case (Some n)
      have "costs e (\<lambda>s. spare e (int n) s \<and> rt_seen s = rt_seen a) (bind (prepare_policy_batch e started copies) (\<lambda>r.
             case r of
               Inl reason \<Rightarrow> ends_run (stop_now e reason None VNone)
             | Inr prepared \<Rightarrow> seq (dispatch_prepared e started prepared) (ret None))) (goes_on e)"
        by (rule costs_bind [OF batch [OF Some] rest])
      then show ?thesis
        by (auto simp: Some intro!: costs_if costs_conseq [OF stop] elim!: costs_conseq) (auto simp: spare_but_def)
    qed
  qed
qed

lemma costs_dispatch_legacy: "costs e (spare e 0) (dispatch_legacy e started cs) (goes_on e)"
proof (induction cs)
  case Nil
  then show ?case by (simp add: costs_continue)
next
  case (Cons call rest)
  have stop: "costs e (spare e 0) (seq (append_history ms) (ends_run (finalize_run e started reason))) (goes_on e)" for ms reason
    by (intro costs_then costs_ends_run costs_finalize_run thrift.obeys_append_history)
  have skip: "costs e (spare e 1) (dispatch_legacy e started rest) (goes_on e)"
    by (rule costs_conseq [OF Cons.IH]) (auto intro: spare_less)
  have tool: "costs e (spare e 1) (seq (dispatch_tool e started call' None) (dispatch_legacy e started rest)) (goes_on e)" for call'
    using costs_seq [OF costs_dispatch_tool [of 0] Cons.IH] by simp
  have run: "costs e (spare e 1)
      (case call_key call of
         None \<Rightarrow> throw (XRaised ''TypeError'' [])
       | Some key \<Rightarrow>
           bind (reads rt_seen) (\<lambda>seen.
           if key \<in> seen
           then seq (append_history [duplicate_message call]) (dispatch_legacy e started rest)
           else
             seq (modify (\<lambda>s. s\<lparr>rt_seen := insert key (rt_seen s)\<rparr>))
             (seq (emit e TOOL_CALL_REQUESTED (call_fields call))
             (bind (legacy_approval e call) (\<lambda>r.
              seq (case r of None \<Rightarrow> ret () | Some call' \<Rightarrow> dispatch_tool e started call' None)
              (dispatch_legacy e started rest)))))) (goes_on e)"
  proof -
    have "costs e (spare e 1) (seq (case r of None \<Rightarrow> ret () | Some call' \<Rightarrow> dispatch_tool e started call' None)
        (dispatch_legacy e started rest)) (goes_on e)" for r
      by (cases r) (auto simp: tool intro: costs_then skip thrift.obeys_ret)
    then have "costs e (spare e 1) (bind (legacy_approval e call) (\<lambda>r.
        seq (case r of None \<Rightarrow> ret () | Some call' \<Rightarrow> dispatch_tool e started call' None) (dispatch_legacy e started rest))) (goes_on e)"
      by (intro costs_after thrift.obeys_legacy_approval)
    moreover have "costs e (spare e 1) (seq (append_history ms) (dispatch_legacy e started rest)) (goes_on e)" for ms
      by (intro costs_then skip thrift.obeys_append_history)
    ultimately show ?thesis
      by (intro costs_option costs_throw costs_if costs_after [OF thrift.obeys_reads] costs_then [OF thrift.obeys_modify]
          costs_then [OF thrift.obeys_emit] thrift_stop.seen) simp_all
  qed
  have room: "costs e (\<lambda>s. spare e 0 s \<and> rt_calls s = calls) m (goes_on e)"
    if "\<not> int (length calls) \<ge> rb_max_tool_calls (rn_budget e)" "costs e (spare e 1) m (goes_on e)" for calls and m :: "agent_result option run_prog"
    using that(2) by (rule costs_conseq) (use that(1) in \<open>auto simp: spare_but_def\<close>)
  show ?case unfolding dispatch_legacy.simps costs_def
    by (rule triple_bind_reads, fold costs_def) (auto intro: costs_conseq [OF stop] room [OF _ run])
qed

lemma costs_publish_response: "costs e (spare e 0) (publish_response e started body copies) (goes_on e)"
proof -
  have tools: "costs e (spare e 0) (run_tools e started body copies) (goes_on e)"
    unfolding run_tools_def by (intro costs_then costs_if costs_dispatch_policy costs_dispatch_legacy thrift.obeys_append_history)
  show ?thesis unfolding publish_response_def
    by (intro costs_then costs_after costs_if costs_ends_run [OF costs_finalize_run] costs_finish tools thrift_stop.obeys_stop_now
        thrift.obeys_basic thrift.obeys_modify thrift_stop.content thrift.obeys_emit) simp
qed

lemma costs_reject_structured: "costs e (spare e 0) (reject_structured e started c code) (goes_on e)"
  unfolding reject_structured_def
  by (intro costs_after costs_then costs_if costs_continue costs_finish thrift_stop.obeys_stop_now thrift.obeys_basic
      thrift.obeys_emit thrift_stop.obeys_can_retry thrift.obeys_modify thrift_stop.retries) simp

lemma costs_check_structured: "costs e (spare e 0) (check_structured e started body copies) (goes_on e)"
  unfolding check_structured_def
  by (auto split: list.splits option.splits sum.splits
      intro!: costs_then costs_reject_structured costs_publish_response thrift.obeys_modify thrift_stop.structured)

lemma costs_accept_response: "costs e (spare e 0) (accept_response e started resp copies) (goes_on e)"
  unfolding accept_response_def
  by (intro costs_option costs_then costs_after costs_finish costs_check_structured thrift_stop.obeys_stop_now
      thrift.obeys_basic thrift.obeys_modify thrift_stop.content thrift_stop.obeys_reflect_response)

lemma costs_receive_response: "costs e (spare e 0) (receive_response e started resp) (goes_on e)"
proof -
  have count: "obeys frugal (modify (\<lambda>s. let u = add_usage (rt_usage s) (rs_usage resp) in s\<lparr>rt_usage := u, ds_usage := Some u\<rparr>))"
    unfolding Let_def by (rule thrift.obeys_modify) (simp add: spend_defs)
  have refuse: "costs e (spare e 0) (refuse_snapshot e call_id name) (goes_on e)" for call_id name
    unfolding refuse_snapshot_def
    by (intro costs_then costs_finish thrift_stop.obeys_stop_now thrift.obeys_emit thrift.obeys_emit_policy_failure
        thrift.obeys_record_denial) simp
  have "costs e (spare e 0) (case cs of Inl (call_id, name) \<Rightarrow> refuse_snapshot e call_id name
      | Inr cs \<Rightarrow> accept_response e started resp cs) (goes_on e)" for cs
    by (auto split: sum.splits prod.splits intro: refuse costs_accept_response)
  then show ?thesis unfolding receive_response_def Let_def
    by (intro costs_then costs_after costs_if costs_throw thrift.obeys_log thrift.obeys_expired count [unfolded Let_def]
        thrift_stop.obeys_emit_response) simp_all
qed

text \<open>The model call of a pass spends the iteration that was just counted.\<close>

abbreviation begun :: "runtime_env \<Rightarrow> runtime_state \<Rightarrow> bool" where
  "begun e \<equiv> spare_but e 0 0 1"

lemma begun_spare: "begun e s \<Longrightarrow> spare e 0 s"
  by (auto simp: spare_but_def)

lemma costs_request_model: "triple (begun e) (request_model e started) (\<lambda>_. spare e 0) (\<lambda>_. spare e 0)"
proof -
  have model: "triple (begun e) (within_deadline e started (complete_model e tools n)) (\<lambda>_. spare e 0) (\<lambda>_. spare e 0)" for tools n
    by (rule costs_complete_model) (auto intro: begun_spare spare_frugal,
      auto simp: spare_but_def executed_def model_calls_def is_executed_def is_model_call_def)
  have handler: "triple (spare e 0) m (\<lambda>_. spare e 0) (\<lambda>_. spare e 0)" if "obeys frugal m" for m :: "(agent_result + model_response) run_prog"
    using that by (rule triple_obeys) (auto intro: spare_frugal)
  show ?thesis unfolding request_model_def
    by (rule triple_bind_reads, rule triple_try, rule triple_bind [OF triple_conseq [OF model]], simp, assumption, assumption)
      (intro handler thrift.obeys_basic thrift_stop.obeys_stops thrift_stop.obeys_exc)+
qed

lemma costs_call_model: "costs e (begun e) (call_model e started) (goes_on e)"
proof -
  have ask: "costs e (begun e) (bind (request_model e started) (\<lambda>r.
      case r of Inl res \<Rightarrow> ret (Some res) | Inr resp \<Rightarrow> receive_response e started resp)) (goes_on e)"
  proof (rule costs_bind)
    show "costs e (begun e) (request_model e started) (\<lambda>_. spare e 0)"
      unfolding costs_def by (rule triple_conseq [OF costs_request_model]) (auto intro: spare_bounded)
    show "costs e (spare e 0) (case r of Inl res \<Rightarrow> ret (Some res) | Inr resp \<Rightarrow> receive_response e started resp) (goes_on e)" for r
      using costs_receive_response by (cases r) (auto simp: costs_def goes_on_def spare_bounded intro!: triple_ret)
  qed
  have early: "costs e (begun e) m (goes_on e)" if "costs e (spare e 0) m (goes_on e)" for m :: "agent_result option run_prog"
    using that by (rule costs_conseq) (auto intro: begun_spare)
  show ?thesis unfolding call_model_def costs_def
    by (rule triple_bind_reads, fold costs_def, rule costs_conseq [where P' = "begun e" and Q' = "goes_on e"])
      (intro costs_option costs_if ask early [OF costs_throw] early [OF costs_finish] thrift_stop.obeys_stop_now, simp_all)
qed

lemma costs_loop_body:
  "costs e (\<lambda>s. spare e 0 s \<and> rt_iterations s < rb_max_iterations (rn_budget e)) (loop_body e started) (goes_on e)"
proof -
  let ?P = "\<lambda>s. spare e 0 s \<and> rt_iterations s < rb_max_iterations (rn_budget e)"
  have first: "costs e ?P (expired e started) (\<lambda>_. ?P)"
    unfolding costs_def by (rule triple_obeys [OF thrift.obeys_expired]) (auto intro: spare_frugal simp: frugal_def bounded_def spare_but_def)
  have begins: "costs e ?P begin_iteration (\<lambda>_. begun e)"
    unfolding costs_def begin_iteration_def
    by (rule triple_modify) (auto simp: spare_but_def executed_def model_calls_def)
  have emits: "costs e (begun e) (emit e ITERATION_STARTED []) (\<lambda>_. begun e)"
    unfolding costs_def by (rule triple_obeys [OF thrift.obeys_emit]) (auto intro: spare_frugal spare_bounded)
  have stops: "costs e ?P (ends_run m) (goes_on e)" if "obeys frugal m" for m
    by (rule costs_conseq [OF costs_finish [OF that]]) auto
  show ?thesis unfolding loop_body_def
    by (intro costs_bind [OF first] costs_if stops thrift_stop.obeys_stops costs_seq [OF begins] costs_seq [OF emits] costs_call_model)
qed

lemma costs_run_loop: "costs e (spare e 0) (run_loop e started) (\<lambda>_. bounded e)"
  unfolding costs_def
proof (rule tripleI)
  have "e' = e \<Longrightarrow> spare e s0 s \<Longrightarrow> s0 = 0 \<Longrightarrow> bounded e (snd (run_loop e' started s))" for e' s s0
  proof (induction e' started s rule: run_loop.induct)
    case (1 e' started s)
    show ?case
    proof (cases "rt_iterations s < rb_max_iterations (rn_budget e')")
      case True
      obtain r s' where b: "loop_body e' started s = (r, s')" by (cases "loop_body e' started s")
      have end_: "case r of Inl x \<Rightarrow> bounded e s' | Inr r \<Rightarrow> goes_on e r s'"
        using costs_loop_body [of e started] 1(2,3,4) True b by (auto simp: costs_def split: sum.splits dest: tripleD tripleE)
      with 1(1) [OF True b [symmetric]] 1(2,4) b True show ?thesis
        by (subst run_loop.simps) (auto simp: goes_on_def split: sum.splits option.splits)
    next
      case False
      obtain r s' where b: "finalize_run e' started ITERATION_BUDGET_EXHAUSTED s = (r, s')"
        by (cases "finalize_run e' started ITERATION_BUDGET_EXHAUSTED s")
      have "bounded e s'"
        by (rule triple_end [OF costs_finalize_run [unfolded costs_def]]) (use 1(2,3,4) b in auto)
      with 1(2) False b show ?thesis by (subst run_loop.simps) simp
    qed
  qed
  then show "spare e 0 s \<Longrightarrow> case run_loop e started s of (Inl x, s') \<Rightarrow> bounded e s' | (Inr a, s') \<Rightarrow> bounded e s'" for s
    by (auto split: prod.splits sum.splits) (metis snd_conv)+
qed



end
