(* ===== verification/Graduated_Permissions.thy ===== *)
theory Graduated_Permissions
  imports Runtime_Values
begin

text \<open>
  The graduated permission evaluator (\<open>security/graduated_permissions.py\<close>): seven modes, the
  protected paths and commands, and the transformation of the mode after denials. The message of
  a decision is which message it is; the arguments of a call are a tree of Python values.
\<close>

datatype permission_mode =
  ALLOW_ALL | AUTO_APPROVE_SAFE | ASK_UNKNOWN | ASK_ALL | AUTO_DENY_UNSAFE | DENY_ALL | PLAN_ONLY

datatype risk_level = SAFE | LOW | MEDIUM | HIGH | CRITICAL

fun mode_value :: "permission_mode \<Rightarrow> nat" where
  "mode_value ALLOW_ALL = 0"
| "mode_value AUTO_APPROVE_SAFE = 1"
| "mode_value ASK_UNKNOWN = 2"
| "mode_value ASK_ALL = 3"
| "mode_value AUTO_DENY_UNSAFE = 4"
| "mode_value DENY_ALL = 5"
| "mode_value PLAN_ONLY = 6"

fun risk_value :: "risk_level \<Rightarrow> nat" where
  "risk_value SAFE = 0"
| "risk_value LOW = 1"
| "risk_value MEDIUM = 2"
| "risk_value HIGH = 3"
| "risk_value CRITICAL = 4"

text \<open>Members of an \<open>IntEnum\<close> compare by their values.\<close>

lemma mode_value_inject: "mode_value m = mode_value m' \<Longrightarrow> m = m'"
  by (cases m; cases m'; simp)

lemma risk_value_inject: "risk_value r = risk_value r' \<Longrightarrow> r = r'"
  by (cases r; cases r'; simp)

instantiation permission_mode :: linorder
begin

definition less_eq_permission_mode :: "permission_mode \<Rightarrow> permission_mode \<Rightarrow> bool" where
  "less_eq_permission_mode m m' = (mode_value m \<le> mode_value m')"

definition less_permission_mode :: "permission_mode \<Rightarrow> permission_mode \<Rightarrow> bool" where
  "less_permission_mode m m' = (mode_value m < mode_value m')"

instance
  by standard (auto simp: less_eq_permission_mode_def less_permission_mode_def intro: mode_value_inject)

end

instantiation risk_level :: linorder
begin

definition less_eq_risk_level :: "risk_level \<Rightarrow> risk_level \<Rightarrow> bool" where
  "less_eq_risk_level r r' = (risk_value r \<le> risk_value r')"

definition less_risk_level :: "risk_level \<Rightarrow> risk_level \<Rightarrow> bool" where
  "less_risk_level r r' = (risk_value r < risk_value r')"

instance
  by standard (auto simp: less_eq_risk_level_def less_risk_level_def intro: risk_value_inject)

end

lemmas mode_order = less_eq_permission_mode_def less_permission_mode_def
lemmas risk_order = less_eq_risk_level_def less_risk_level_def

datatype permission_reason =
    ProtectedPath string
  | ProtectedCommand string
  | AllowAllMode
  | DenyAllMode
  | PlanOnlyMode
  | SafeOperation
  | KnownSafeOperation
  | RiskRequiresApproval risk_level
  | AskAllMode
  | ConfirmationRequired
  | AutoDenied risk_level

record permission_decision =
  gp_allowed :: bool
  gp_requires_approval :: bool
  gp_reason :: permission_reason
  gp_mode_used :: permission_mode
  gp_risk_level :: risk_level

record denial_record =
  dr_tool_name :: string
  dr_risk_level :: risk_level
  dr_timestamp :: int
  dr_reason :: string

definition PROTECTED_PATHS :: "string list" where
  "PROTECTED_PATHS =
     [''.env'', ''.env.local'', ''.env.production'', ''.git/config'', ''.git/hooks'', ''.ssh'', ''/etc/passwd'',
      ''/etc/shadow'', ''/etc/sudoers'', ''node_modules/.cache'', ''id_rsa'', ''id_ed25519'']"

definition PROTECTED_COMMANDS :: "string list" where
  "PROTECTED_COMMANDS =
     [''rm -rf'', ''drop table'', ''drop database'', ''format'', ''mkfs'', ''dd if='', ''chmod 777'', ''curl | sh'',
      ''curl | bash'', ''wget | sh'', ''eval('', ''> /dev/sd'', ''shutdown'', ''reboot'', ''kill -9'']"

record evaluator =
  ge_mode :: permission_mode
  ge_denial_threshold :: int
  ge_downgrade_window :: int
  ge_denials :: "denial_record list"
  ge_denial_counts :: "string \<Rightarrow> int"
  ge_mode_history :: "(int \<times> permission_mode \<times> string) list"

definition new_evaluator :: "int \<Rightarrow> permission_mode \<Rightarrow> int \<Rightarrow> int \<Rightarrow> evaluator" where
  "new_evaluator now mode threshold window =
     \<lparr>ge_mode = mode, ge_denial_threshold = threshold, ge_downgrade_window = window, ge_denials = [],
      ge_denial_counts = (\<lambda>_. 0), ge_mode_history = [(now, mode, ''initial'')]\<rparr>"

fun flatten_string_values :: "pyval \<Rightarrow> nat \<Rightarrow> string list" where
  "flatten_string_values obj 0 = []"
| "flatten_string_values (VStr s) (Suc depth) = [s]"
| "flatten_string_values (VDict kvs) (Suc depth) = concat (map (\<lambda>(k, v). flatten_string_values v depth) kvs)"
| "flatten_string_values (VList vs) (Suc depth) = concat (map (\<lambda>v. flatten_string_values v depth) vs)"
| "flatten_string_values (VTuple vs) (Suc depth) = concat (map (\<lambda>v. flatten_string_values v depth) vs)"
| "flatten_string_values obj (Suc depth) = []"

definition decided :: "evaluator \<Rightarrow> risk_level \<Rightarrow> bool \<Rightarrow> bool \<Rightarrow> permission_reason \<Rightarrow> permission_decision" where
  "decided ev risk allowed approval reason =
     \<lparr>gp_allowed = allowed, gp_requires_approval = approval, gp_reason = reason, gp_mode_used = ge_mode ev,
      gp_risk_level = risk\<rparr>"

definition evaluate_mode :: "evaluator \<Rightarrow> risk_level \<Rightarrow> permission_decision" where
  "evaluate_mode ev risk =
     (case ge_mode ev of
        ALLOW_ALL \<Rightarrow> decided ev risk True False AllowAllMode
      | DENY_ALL \<Rightarrow> decided ev risk False False DenyAllMode
      | PLAN_ONLY \<Rightarrow> decided ev risk False True PlanOnlyMode
      | AUTO_APPROVE_SAFE \<Rightarrow>
          if risk \<le> SAFE then decided ev risk True False SafeOperation
          else decided ev risk False True (RiskRequiresApproval risk)
      | ASK_UNKNOWN \<Rightarrow>
          if risk \<le> LOW then decided ev risk True False KnownSafeOperation
          else decided ev risk False True (RiskRequiresApproval risk)
      | ASK_ALL \<Rightarrow> decided ev risk False True AskAllMode
      | AUTO_DENY_UNSAFE \<Rightarrow>
          if risk \<le> SAFE then decided ev risk False True ConfirmationRequired
          else decided ev risk False False (AutoDenied risk))"

text \<open>
  \<open>str(args.get(key, ""))\<close>, with \<open>str_of\<close> what \<open>str\<close> writes of an object that is no string, and
  \<open>order\<close> the iteration order of the set of protected commands.
\<close>

definition path_text :: "(pyval \<Rightarrow> string) \<Rightarrow> (py_key \<times> pyval) list \<Rightarrow> string \<Rightarrow> string" where
  "path_text str_of args key =
     (case map_of args (KStr key) of None \<Rightarrow> [] | Some (VStr s) \<Rightarrow> s | Some v \<Rightarrow> str_of v)"

definition protected_path :: "string \<Rightarrow> bool" where
  "protected_path p = (p \<noteq> [] \<and> list_ex (\<lambda>protected. infix_of protected p) PROTECTED_PATHS)"

definition path_keys :: "string list" where
  "path_keys = [''path'', ''file_path'', ''directory'', ''target'']"

fun first_command :: "string list \<Rightarrow> string list \<Rightarrow> string option" where
  "first_command order [] = None"
| "first_command order (s # ss) =
     (case List.find (\<lambda>cmd. infix_of cmd (str_lower s)) order of
        Some cmd \<Rightarrow> Some cmd
      | None \<Rightarrow> first_command order ss)"

definition evaluate_permission ::
  "(pyval \<Rightarrow> string) \<Rightarrow> string list \<Rightarrow> evaluator \<Rightarrow> risk_level \<Rightarrow> (py_key \<times> pyval) list \<Rightarrow> permission_decision" where
  "evaluate_permission str_of order ev risk args =
     (case List.find protected_path (map (path_text str_of args) path_keys) of
        Some p \<Rightarrow> decided ev risk False True (ProtectedPath p)
      | None \<Rightarrow>
          (case first_command order (flatten_string_values (VDict args) 5) of
             Some cmd \<Rightarrow> decided ev risk False True (ProtectedCommand cmd)
           | None \<Rightarrow> evaluate_mode ev risk))"

definition next_mode :: "permission_mode \<Rightarrow> permission_mode" where
  "next_mode m = (case m of ALLOW_ALL \<Rightarrow> AUTO_APPROVE_SAFE | AUTO_APPROVE_SAFE \<Rightarrow> ASK_UNKNOWN | ASK_UNKNOWN \<Rightarrow> ASK_ALL | _ \<Rightarrow> m)"

definition check_mode_transformation :: "int \<Rightarrow> evaluator \<Rightarrow> evaluator" where
  "check_mode_transformation now ev =
     (let recent = filter (\<lambda>d. now - dr_timestamp d < ge_downgrade_window ev) (ge_denials ev) in
      if int (length recent) \<ge> ge_denial_threshold ev \<and> ge_mode ev < ASK_ALL
      then ev\<lparr>ge_mode := next_mode (ge_mode ev),
              ge_mode_history := ge_mode_history ev
                @ [(now, next_mode (ge_mode ev), ''auto-downgrade after '' @ show_int (int (length recent)) @ '' denials'')]\<rparr>
      else ev)"

definition record_permission_denial :: "int \<Rightarrow> int \<Rightarrow> string \<Rightarrow> risk_level \<Rightarrow> string \<Rightarrow> evaluator \<Rightarrow> evaluator" where
  "record_permission_denial now now' tool risk reason ev =
     check_mode_transformation now'
       (ev\<lparr>ge_denials := ge_denials ev @ [\<lparr>dr_tool_name = tool, dr_risk_level = risk, dr_timestamp = now, dr_reason = reason\<rparr>],
           ge_denial_counts := (ge_denial_counts ev)(tool := ge_denial_counts ev tool + 1)\<rparr>)"

definition reset_denials :: "evaluator \<Rightarrow> evaluator" where
  "reset_denials ev = ev\<lparr>ge_denials := [], ge_denial_counts := (\<lambda>_. 0)\<rparr>"

definition set_mode :: "int \<Rightarrow> permission_mode \<Rightarrow> string \<Rightarrow> evaluator \<Rightarrow> evaluator" where
  "set_mode now mode reason ev = ev\<lparr>ge_mode := mode, ge_mode_history := ge_mode_history ev @ [(now, mode, reason)]\<rparr>"

subsection \<open>Protected paths and commands\<close>

lemma first_command_None: "first_command order ss = None \<longleftrightarrow> (\<forall>s \<in> set ss. \<forall>cmd \<in> set order. \<not> infix_of cmd (str_lower s))"
  by (induction ss) (auto simp: find_None_iff find_Some_iff split: option.splits)

text \<open>The arguments hold a protected path under one of the four keys, or a protected command in a string at most four containers deep.\<close>

definition touches_protected :: "(pyval \<Rightarrow> string) \<Rightarrow> (py_key \<times> pyval) list \<Rightarrow> bool" where
  "touches_protected str_of args =
     ((\<exists>key \<in> set path_keys. protected_path (path_text str_of args key))
      \<or> (\<exists>s \<in> set (flatten_string_values (VDict args) 5). \<exists>cmd \<in> set PROTECTED_COMMANDS. infix_of cmd (str_lower s)))"

lemma evaluate_permission_cases:
  assumes "set order = set PROTECTED_COMMANDS"
  shows "\<not> touches_protected str_of args \<Longrightarrow> evaluate_permission str_of order ev risk args = evaluate_mode ev risk"
    "touches_protected str_of args \<Longrightarrow>
      \<not> gp_allowed (evaluate_permission str_of order ev risk args) \<and> gp_requires_approval (evaluate_permission str_of order ev risk args)"
proof -
  let ?ps = "map (path_text str_of args) path_keys" and ?ss = "flatten_string_values (VDict args) 5"
  have "List.find protected_path ?ps = None \<longleftrightarrow> (\<forall>key \<in> set path_keys. \<not> protected_path (path_text str_of args key))"
    by (auto simp: find_None_iff)
  moreover have "first_command order ?ss = None \<longleftrightarrow> (\<forall>s \<in> set ?ss. \<forall>cmd \<in> set PROTECTED_COMMANDS. \<not> infix_of cmd (str_lower s))"
    by (simp add: first_command_None assms del: flatten_string_values.simps)
  ultimately show "\<not> touches_protected str_of args \<Longrightarrow> evaluate_permission str_of order ev risk args = evaluate_mode ev risk"
    "touches_protected str_of args \<Longrightarrow>
      \<not> gp_allowed (evaluate_permission str_of order ev risk args) \<and> gp_requires_approval (evaluate_permission str_of order ev risk args)"
    unfolding touches_protected_def evaluate_permission_def
    by (auto simp: decided_def split: option.splits)
qed

subsection \<open>Denials\<close>

datatype denial_event =
    Denial int int string risk_level string
  | ResetDenials

fun after_event :: "denial_event \<Rightarrow> evaluator \<Rightarrow> evaluator" where
  "after_event (Denial now now' tool risk reason) ev = record_permission_denial now now' tool risk reason ev"
| "after_event ResetDenials ev = reset_denials ev"

lemma next_mode_tightens: "m < ASK_ALL \<Longrightarrow> mode_value (next_mode m) = Suc (mode_value m)"
  by (cases m) (simp_all add: next_mode_def mode_order)

lemma transformation_mode:
  "ge_mode (check_mode_transformation now ev) \<in> {ge_mode ev, next_mode (ge_mode ev)}
   \<and> (\<not> ge_mode ev < ASK_ALL \<longrightarrow> ge_mode (check_mode_transformation now ev) = ge_mode ev)"
  by (simp add: check_mode_transformation_def Let_def)

text \<open>
  Denials in the window: the mode tightens by one step with each denial from the
  \<open>denial_threshold\<close>-th on, until \<open>ASK_ALL\<close>.
\<close>

definition all_recent :: "int \<Rightarrow> evaluator \<Rightarrow> bool" where
  "all_recent now ev = (\<forall>d \<in> set (ge_denials ev). now - dr_timestamp d < ge_downgrade_window ev)"

lemma denial_in_window:
  assumes "all_recent now' ev" "now' - now < ge_downgrade_window ev"
  shows "ge_denials (record_permission_denial now now' tool risk reason ev) =
      ge_denials ev @ [\<lparr>dr_tool_name = tool, dr_risk_level = risk, dr_timestamp = now, dr_reason = reason\<rparr>]"
    "ge_mode (record_permission_denial now now' tool risk reason ev) =
      (if int (length (ge_denials ev)) + 1 \<ge> ge_denial_threshold ev \<and> ge_mode ev < ASK_ALL then next_mode (ge_mode ev) else ge_mode ev)"
    "ge_downgrade_window (record_permission_denial now now' tool risk reason ev) = ge_downgrade_window ev"
    "ge_denial_threshold (record_permission_denial now now' tool risk reason ev) = ge_denial_threshold ev"
proof -
  have "filter (\<lambda>d. now' - dr_timestamp d < ge_downgrade_window ev) (ge_denials ev) = ge_denials ev"
    using assms(1) by (simp add: all_recent_def)
  then show "ge_denials (record_permission_denial now now' tool risk reason ev) =
      ge_denials ev @ [\<lparr>dr_tool_name = tool, dr_risk_level = risk, dr_timestamp = now, dr_reason = reason\<rparr>]"
    "ge_mode (record_permission_denial now now' tool risk reason ev) =
      (if int (length (ge_denials ev)) + 1 \<ge> ge_denial_threshold ev \<and> ge_mode ev < ASK_ALL then next_mode (ge_mode ev) else ge_mode ev)"
    "ge_downgrade_window (record_permission_denial now now' tool risk reason ev) = ge_downgrade_window ev"
    "ge_denial_threshold (record_permission_denial now now' tool risk reason ev) = ge_denial_threshold ev"
    using assms(2) by (simp_all add: record_permission_denial_def check_mode_transformation_def Let_def)
qed

text \<open>A burst of denials at times \<open>ts\<close>, each within the window of every later check.\<close>

fun burst :: "(int \<times> string \<times> risk_level) list \<Rightarrow> evaluator \<Rightarrow> evaluator" where
  "burst [] ev = ev"
| "burst ((now, tool, risk) # ts) ev = burst ts (record_permission_denial now now tool risk ''denied'' ev)"

lemma burst_mode:
  assumes "\<And>t t'. t \<in> fst ` set ts \<Longrightarrow> t' \<in> fst ` set ts \<union> dr_timestamp ` set (ge_denials ev) \<Longrightarrow> t - t' < ge_downgrade_window ev"
  shows "mode_value (ge_mode (burst ts ev)) \<ge>
    min 3 (mode_value (ge_mode ev) + nat (int (length (ge_denials ev)) + int (length ts) + 1 - max (ge_denial_threshold ev) (int (length (ge_denials ev)) + 1)))"
  using assms
proof (induction ts ev rule: burst.induct)
  case (2 now tool risk ts ev)
  let ?ev = "record_permission_denial now now tool risk ''denied'' ev"
  have recent: "all_recent now ev" "now - now < ge_downgrade_window ev"
    using 2(2) [of now] 2(2) [of now now] by (auto simp: all_recent_def)
  note step = denial_in_window [OF this, of tool risk "''denied''"]
  have window: "t - t' < ge_downgrade_window ?ev"
    if "t \<in> fst ` set ts" "t' \<in> fst ` set ts \<union> dr_timestamp ` set (ge_denials ?ev)" for t t'
    using that 2(2) [of t t'] by (auto simp: step)
  have m: "mode_value (ge_mode ?ev) =
      (if int (length (ge_denials ev)) + 1 \<ge> ge_denial_threshold ev \<and> mode_value (ge_mode ev) < 3
       then Suc (mode_value (ge_mode ev)) else mode_value (ge_mode ev))"
    using next_mode_tightens [of "ge_mode ev"] by (simp add: step(2) mode_order)
  have len: "int (length (ge_denials ?ev)) = int (length (ge_denials ev)) + 1" by (simp add: step(1))
  have bound: "min 3 (a + nat (n + int (Suc k) + 1 - max T (n + 1))) \<le> w"
    if "min 3 ((if n + 1 \<ge> T \<and> a < 3 then Suc a else a) + nat (n + 1 + int k + 1 - max T (n + 1 + 1))) \<le> w"
    for n T :: int and a k w :: nat
    using that by (cases "n + 1 \<ge> T") (auto simp: max_def split: if_splits)
  from 2(1) [OF window] have "min 3 ((if int (length (ge_denials ev)) + 1 \<ge> ge_denial_threshold ev \<and> mode_value (ge_mode ev) < 3
        then Suc (mode_value (ge_mode ev)) else mode_value (ge_mode ev))
      + nat (int (length (ge_denials ev)) + 1 + int (length ts) + 1 - max (ge_denial_threshold ev) (int (length (ge_denials ev)) + 1 + 1)))
    \<le> mode_value (ge_mode (burst ts ?ev))"
    unfolding step(4) len m .
  from bound [OF this] show ?case by simp
qed simp

lemma strict_modes_allow_nothing: "ASK_ALL \<le> ge_mode ev \<Longrightarrow> \<not> gp_allowed (evaluate_mode ev risk)"
  by (cases "ge_mode ev") (auto simp: evaluate_mode_def decided_def mode_order)

text \<open>
  Repeated denials end in a mode that approves nothing by itself: after \<open>denial_threshold + 2\<close>
  denials within the window, from whatever mode, no call of any risk is allowed without approval.
\<close>

theorem denials_end_auto_approval:
  assumes "set order = set PROTECTED_COMMANDS" "ge_denial_threshold ev \<le> int (length ts) - 2" "3 \<le> length ts"
    "\<And>t t'. t \<in> fst ` set ts \<Longrightarrow> t' \<in> fst ` set ts \<union> dr_timestamp ` set (ge_denials ev) \<Longrightarrow> t - t' < ge_downgrade_window ev"
  shows "\<not> gp_allowed (evaluate_permission str_of order (burst ts ev) risk args)"
proof -
  have "3 \<le> nat (int (length (ge_denials ev)) + int (length ts) + 1 - max (ge_denial_threshold ev) (int (length (ge_denials ev)) + 1))"
    using assms(2,3) by (auto simp: max_def)
  with burst_mode [of ts ev, OF assms(4)] have "ASK_ALL \<le> ge_mode (burst ts ev)" by (simp add: mode_order)
  then show ?thesis
    using evaluate_permission_cases [OF assms(1), of str_of args "burst ts ev" risk] strict_modes_allow_nothing by metis
qed

theorem denials_end_auto_approval_witness:
  "\<not> gp_allowed (evaluate_permission (\<lambda>_. []) PROTECTED_COMMANDS
      (burst [(1, ''rm'', HIGH), (2, ''rm'', HIGH), (3, ''rm'', HIGH), (4, ''rm'', HIGH), (5, ''rm'', HIGH)] (new_evaluator 0 ALLOW_ALL 3 300))
      SAFE [])"
  by (rule denials_end_auto_approval) (auto simp: new_evaluator_def)

text \<open>
  C40: one step of the transformation relaxes what it should tighten. From \<open>AUTO_APPROVE_SAFE\<close>, in
  which an operation of low risk needs approval, the third denial leads to \<open>ASK_UNKNOWN\<close>, in which
  the same operation is approved automatically; every other step allows no more than before.
\<close>

theorem downgrade_relaxes_low_risk:
  assumes "ge_mode (after_event x ev) \<noteq> ge_mode ev"
  shows "(gp_allowed (evaluate_mode (after_event x ev) risk) \<and> \<not> gp_allowed (evaluate_mode ev risk))
     = (ge_mode ev = AUTO_APPROVE_SAFE \<and> risk = LOW)"
proof -
  have stepped: "ge_mode (after_event x ev) = next_mode (ge_mode ev)" "ge_mode ev < ASK_ALL"
  proof -
    from assms obtain now now' tool risk reason where x: "x = Denial now now' tool risk reason"
      by (cases x) (auto simp: reset_denials_def)
    define ev' where "ev' = ev\<lparr>ge_denials := ge_denials ev @ [\<lparr>dr_tool_name = tool, dr_risk_level = risk, dr_timestamp = now, dr_reason = reason\<rparr>],
        ge_denial_counts := (ge_denial_counts ev)(tool := ge_denial_counts ev tool + 1)\<rparr>"
    have "after_event x ev = check_mode_transformation now' ev'" "ge_mode ev' = ge_mode ev"
      by (simp_all add: x record_permission_denial_def ev'_def)
    with transformation_mode [of now' ev'] assms
    show "ge_mode (after_event x ev) = next_mode (ge_mode ev)" "ge_mode ev < ASK_ALL" by auto
  qed
  then show ?thesis
    by (cases "ge_mode ev"; cases risk) (auto simp: evaluate_mode_def decided_def next_mode_def mode_order risk_order)
qed

theorem downgrade_relaxes_low_risk_witness:
  "\<exists>ev x. ge_mode ev = AUTO_APPROVE_SAFE \<and> \<not> gp_allowed (evaluate_mode ev LOW) \<and> gp_allowed (evaluate_mode (after_event x ev) LOW)"
proof -
  let ?ev = "record_permission_denial 2 2 ''rm'' HIGH ''no'' (record_permission_denial 1 1 ''rm'' HIGH ''no'' (new_evaluator 0 AUTO_APPROVE_SAFE 3 300))"
  let ?x = "Denial 3 3 ''rm'' HIGH ''no''"
  have mode: "ge_mode ?ev = AUTO_APPROVE_SAFE" "ge_mode (after_event ?x ?ev) = ASK_UNKNOWN"
    by (simp_all add: record_permission_denial_def check_mode_transformation_def new_evaluator_def next_mode_def mode_order)
  then have "ge_mode (after_event ?x ?ev) \<noteq> ge_mode ?ev" by (simp del: after_event.simps)
  from downgrade_relaxes_low_risk [OF this, of LOW] mode(1) show ?thesis by blast
qed

text \<open>
  A call that touches a protected path or command needs approval in every mode and never runs by
  itself; in \<open>DENY_ALL\<close> too, so that in lockdown exactly these calls can still be approved.
\<close>

lemma protected_calls_ask:
  assumes "set order = set PROTECTED_COMMANDS" "ge_mode ev = DENY_ALL"
  shows "gp_requires_approval (evaluate_permission str_of order ev risk args) = touches_protected str_of args"
proof -
  have "\<not> gp_requires_approval (evaluate_mode ev risk)" using assms(2) by (simp add: evaluate_mode_def decided_def)
  with evaluate_permission_cases [OF assms(1), of str_of args ev risk] show ?thesis by metis
qed

end
