(* ===== verification/Delegation_Envelope.thy ===== *)
theory Delegation_Envelope
  imports Json_Reader Sql_Table
begin

text \<open>
  Signed delegation envelopes (\<open>delegation/envelope.py\<close>): the envelope and its validation, its
  canonical payload, issuing, and the one-time consumption against the table of nonces
  (\<open>services/db_store.py\<close>, \<open>DelegationNonceRow\<close>). HMAC-SHA-256 in URL-safe base 64 is a parameter \<open>mac\<close> of
  a key and a message, SHA-256 a parameter \<open>sha256\<close>. A float of a budget is its \<open>repr\<close>.
\<close>

datatype budget_number = BInt int | BFloat string

record envelope =
  en_parent_run_id :: string
  en_child_run_id :: string
  en_owner_id :: string
  en_project_id :: string
  en_context_hash :: string
  en_budget :: "(string \<times> budget_number) list"
  en_schema_version :: int
  en_issued_at :: int
  en_nonce :: string
  en_key_version :: int
  en_signature :: string

definition BUDGET_KEYS :: "string list" where
  "BUDGET_KEYS = [''input_tokens'', ''output_tokens'', ''retries'', ''timeout_seconds'', ''cost_nusd'', ''max_tool_result_chars'']"

definition ENVELOPE_SAFE :: "string \<Rightarrow> bool" where
  "ENVELOPE_SAFE s = (SAFE_ID s \<and> length s \<le> 255)"

definition url_char :: "char \<Rightarrow> bool" where
  "url_char c = (ascii_alnum c \<or> c = CHR ''_'' \<or> c = CHR ''-'')"

definition NONCE :: "string \<Rightarrow> bool" where
  "NONCE s = (8 \<le> length s \<and> length s \<le> 255 \<and> list_all url_char s)"

definition SIGNATURE :: "string \<Rightarrow> bool" where
  "SIGNATURE s = (length s = 43 \<and> list_all url_char s)"

text \<open>A finite float above zero, by its \<open>repr\<close>.\<close>

definition positive_float :: "string \<Rightarrow> bool" where
  "positive_float r = (float_text r \<and> hd r \<noteq> CHR ''-'' \<and> r \<noteq> ''0.0'')"

definition budget_entry_ok :: "string \<Rightarrow> budget_number \<Rightarrow> bool" where
  "budget_entry_ok key v =
     (key \<in> set BUDGET_KEYS
      \<and> (if key = ''timeout_seconds'' then (case v of BInt n \<Rightarrow> 0 < n | BFloat r \<Rightarrow> positive_float r)
         else
           (case v of
              BInt n \<Rightarrow> 0 \<le> n \<and> (key \<in> {''input_tokens'', ''output_tokens'', ''max_tool_result_chars''} \<longrightarrow> 1 \<le> n)
            | BFloat r \<Rightarrow> False)))"

definition envelope_ok :: "envelope \<Rightarrow> bool" where
  "envelope_ok en =
     (ENVELOPE_SAFE (en_parent_run_id en) \<and> ENVELOPE_SAFE (en_child_run_id en) \<and> ENVELOPE_SAFE (en_owner_id en)
      \<and> ENVELOPE_SAFE (en_project_id en) \<and> NONCE (en_nonce en) \<and> HASH (en_context_hash en)
      \<and> en_schema_version en = 1 \<and> 1 \<le> en_issued_at en \<and> 1 \<le> en_key_version en \<and> en_key_version en \<le> 255
      \<and> (en_signature en \<noteq> [] \<longrightarrow> SIGNATURE (en_signature en))
      \<and> en_budget en \<noteq> [] \<and> length (en_budget en) \<le> 6 \<and> sorted_wrt (<) (map fst (en_budget en))
      \<and> list_all (\<lambda>(key, v). budget_entry_ok key v) (en_budget en))"

fun number_json :: "budget_number \<Rightarrow> json" where
  "number_json (BInt n) = JInt n"
| "number_json (BFloat r) = JFloat r"

definition budget_json :: "(string \<times> budget_number) list \<Rightarrow> json" where
  "budget_json budget = JObj (map (\<lambda>(key, v). (key, number_json v)) budget)"

definition payload_json :: "envelope \<Rightarrow> json" where
  "payload_json en =
     JObj [(''parent_run_id'', JStr (en_parent_run_id en)), (''child_run_id'', JStr (en_child_run_id en)),
           (''owner_id'', JStr (en_owner_id en)), (''project_id'', JStr (en_project_id en)),
           (''context_hash'', JStr (en_context_hash en)), (''budget'', budget_json (en_budget en)),
           (''schema_version'', JInt (en_schema_version en)), (''issued_at'', JInt (en_issued_at en)),
           (''nonce'', JStr (en_nonce en)), (''key_version'', JInt (en_key_version en))]"

definition unsigned_payload :: "envelope \<Rightarrow> string" where
  "unsigned_payload en = dumps_ascii (payload_json en)"

definition ENVELOPE_DOMAIN :: string where
  "ENVELOPE_DOMAIN = ''cogentrex.delegation-envelope.v1'' @ [CHR 0x00]"

type_synonym mac_function = "string \<Rightarrow> string \<Rightarrow> string"

definition envelope_signature :: "mac_function \<Rightarrow> envelope \<Rightarrow> string \<Rightarrow> string" where
  "envelope_signature mac en key = mac key (ENVELOPE_DOMAIN @ unsigned_payload en)"

text \<open>The key of a version, with \<open>hmac\<close> the keyed hash of the library.\<close>

definition KEY_DOMAIN :: string where
  "KEY_DOMAIN = ''cogentrex.delegation-key.v1'' @ [CHR 0x00]"

definition derive_delegation_hmac_key :: "(string \<Rightarrow> string \<Rightarrow> string) \<Rightarrow> string \<Rightarrow> int \<Rightarrow> string option" where
  "derive_delegation_hmac_key hmac secret version =
     (if secret = [] \<or> \<not> (1 \<le> version \<and> version \<le> 255) then None
      else Some (hmac secret (KEY_DOMAIN @ [char_of (nat version)])))"

record envelope_service =
  es_keys :: "int \<rightharpoonup> string"
  es_active :: int
  es_max_age :: int
  es_future_skew :: int

text \<open>The construction of a service; \<open>versions\<close> are the keys of the dictionary.\<close>

definition make_envelope_service :: "int list \<Rightarrow> (int \<rightharpoonup> string) \<Rightarrow> int \<Rightarrow> int \<Rightarrow> int \<Rightarrow> envelope_service option" where
  "make_envelope_service versions keys active max_age skew =
     (if versions \<noteq> [] \<and> keys active \<noteq> None
         \<and> list_all (\<lambda>v. 1 \<le> v \<and> v \<le> 255 \<and> (case keys v of None \<Rightarrow> False | Some k \<Rightarrow> 32 \<le> length k)) versions
         \<and> distinct (map keys versions) \<and> 1 \<le> max_age \<and> max_age \<le> 86400 \<and> 0 \<le> skew \<and> skew \<le> 300
      then Some \<lparr>es_keys = keys, es_active = active, es_max_age = max_age, es_future_skew = skew\<rparr> else None)"

datatype envelope_error = EnvelopeInvalid | InvalidDelegationEnvelope

definition issue_envelope ::
  "mac_function \<Rightarrow> envelope_service \<Rightarrow> string \<Rightarrow> string \<Rightarrow> string \<Rightarrow> string \<Rightarrow> string \<Rightarrow> (string \<times> budget_number) list
     \<Rightarrow> int \<Rightarrow> string \<Rightarrow> envelope_error + envelope" where
  "issue_envelope mac sv parent child owner project context_hash budget now nonce =
     (let en = \<lparr>en_parent_run_id = parent, en_child_run_id = child, en_owner_id = owner, en_project_id = project,
                en_context_hash = context_hash, en_budget = sort_key fst budget, en_schema_version = 1,
                en_issued_at = now, en_nonce = nonce, en_key_version = es_active sv, en_signature = []\<rparr> in
      case es_keys sv (es_active sv) of
        None \<Rightarrow> Inl EnvelopeInvalid
      | Some key \<Rightarrow>
          if envelope_ok en then
            (let signed = en\<lparr>en_signature := envelope_signature mac en key\<rparr> in
             if envelope_ok signed then Inr signed else Inl EnvelopeInvalid)
          else Inl EnvelopeInvalid)"

record nonce_row =
  nr_nonce :: string
  nr_key_version :: int
  nr_owner_id :: string
  nr_project_id :: string
  nr_parent_run_id :: string
  nr_child_run_id :: string
  nr_signature_hash :: string
  nr_issued_at :: int
  nr_received_at :: int

record delegation_scope =
  sc_owner_id :: string
  sc_project_id :: string
  sc_parent_run_id :: string
  sc_child_run_id :: string
  sc_context_hash :: string

definition authentic_envelope :: "mac_function \<Rightarrow> envelope_service \<Rightarrow> envelope \<Rightarrow> bool" where
  "authentic_envelope mac sv en =
     (case es_keys sv (en_key_version en) of
        None \<Rightarrow> False
      | Some key \<Rightarrow> envelope_signature mac en key = en_signature en)"

definition fresh_envelope :: "envelope_service \<Rightarrow> int \<Rightarrow> envelope \<Rightarrow> bool" where
  "fresh_envelope sv current en =
     (current - es_max_age sv \<le> en_issued_at en \<and> en_issued_at en \<le> current + es_future_skew sv)"

definition in_scope :: "delegation_scope \<Rightarrow> envelope \<Rightarrow> bool" where
  "in_scope sc en =
     (en_owner_id en = sc_owner_id sc \<and> en_project_id en = sc_project_id sc \<and> en_parent_run_id en = sc_parent_run_id sc
      \<and> en_child_run_id en = sc_child_run_id sc \<and> en_context_hash en = sc_context_hash sc)"

definition receipt :: "(string \<Rightarrow> string) \<Rightarrow> int \<Rightarrow> envelope \<Rightarrow> nonce_row" where
  "receipt sha256 current en =
     \<lparr>nr_nonce = en_nonce en, nr_key_version = en_key_version en, nr_owner_id = en_owner_id en,
      nr_project_id = en_project_id en, nr_parent_run_id = en_parent_run_id en, nr_child_run_id = en_child_run_id en,
      nr_signature_hash = sha256 (en_signature en), nr_issued_at = en_issued_at en, nr_received_at = current\<rparr>"

text \<open>One transaction: stale receipts are removed and the receipt is inserted under its primary key; a clash rolls both back.\<close>

definition verify_and_consume ::
  "mac_function \<Rightarrow> (string \<Rightarrow> string) \<Rightarrow> envelope_service \<Rightarrow> int \<Rightarrow> delegation_scope \<Rightarrow> envelope \<Rightarrow> nonce_row list
     \<Rightarrow> nonce_row list \<times> (envelope_error + unit)" where
  "verify_and_consume mac sha256 sv current sc en rows =
     (if \<not> authentic_envelope mac sv en \<or> \<not> fresh_envelope sv current en \<or> \<not> in_scope sc en
      then (rows, Inl InvalidDelegationEnvelope)
      else
        (let kept = filter (\<lambda>r. \<not> nr_issued_at r < current - es_max_age sv - es_future_skew sv) rows in
         case insert_unique (\<lambda>r r'. nr_nonce r = nr_nonce r') (receipt sha256 current en) kept of
           None \<Rightarrow> (rows, Inl InvalidDelegationEnvelope)
         | Some rows' \<Rightarrow> (rows', Inr ())))"

subsection \<open>An envelope is consumed once\<close>

text \<open>The envelopes accepted in a sequence of verifications, each with the time on its clock.\<close>

fun accepted_envelopes ::
  "mac_function \<Rightarrow> (string \<Rightarrow> string) \<Rightarrow> envelope_service \<Rightarrow> (int \<times> delegation_scope \<times> envelope) list \<Rightarrow> nonce_row list
     \<Rightarrow> envelope list" where
  "accepted_envelopes mac sha256 sv [] rows = []"
| "accepted_envelopes mac sha256 sv ((current, sc, en) # ops) rows =
     (case verify_and_consume mac sha256 sv current sc en rows of
        (rows', Inl _) \<Rightarrow> accepted_envelopes mac sha256 sv ops rows'
      | (rows', Inr _) \<Rightarrow> en # accepted_envelopes mac sha256 sv ops rows')"

lemma consumed:
  assumes "verify_and_consume mac sha256 sv current sc en rows = (rows', Inr u)"
  shows "fresh_envelope sv current en" "authentic_envelope mac sv en" "in_scope sc en"
    "\<forall>r \<in> set rows. nr_nonce r = en_nonce en \<longrightarrow> nr_issued_at r < current - es_max_age sv - es_future_skew sv"
    "rows' = filter (\<lambda>r. \<not> nr_issued_at r < current - es_max_age sv - es_future_skew sv) rows @ [receipt sha256 current en]"
proof -
  have ok: "authentic_envelope mac sv en \<and> fresh_envelope sv current en \<and> in_scope sc en
    \<and> \<not> list_ex (\<lambda>r'. en_nonce en = nr_nonce r') (filter (\<lambda>r. \<not> nr_issued_at r < current - es_max_age sv - es_future_skew sv) rows)
    \<and> rows' = filter (\<lambda>r. \<not> nr_issued_at r < current - es_max_age sv - es_future_skew sv) rows @ [receipt sha256 current en]"
    using assms by (auto simp: verify_and_consume_def insert_unique_def Let_def receipt_def split: if_splits)
  then show "fresh_envelope sv current en" "authentic_envelope mac sv en" "in_scope sc en"
    "rows' = filter (\<lambda>r. \<not> nr_issued_at r < current - es_max_age sv - es_future_skew sv) rows @ [receipt sha256 current en]"
    by blast+
  show "\<forall>r \<in> set rows. nr_nonce r = en_nonce en \<longrightarrow> nr_issued_at r < current - es_max_age sv - es_future_skew sv"
    using ok by (auto simp: list_ex_iff)
qed

lemma rejected: "verify_and_consume mac sha256 sv current sc en rows = (rows', Inl x) \<Longrightarrow> rows' = rows"
  by (auto simp: verify_and_consume_def Let_def split: if_splits option.splits)

text \<open>The receipt of a nonce is there, or so old that no envelope of its time is fresh any more.\<close>

definition remembered :: "envelope_service \<Rightarrow> (int \<Rightarrow> bool) \<Rightarrow> nonce_row list \<Rightarrow> envelope \<Rightarrow> bool" where
  "remembered sv past rows a =
     ((\<exists>r \<in> set rows. nr_nonce r = en_nonce a \<and> nr_issued_at r = en_issued_at a)
      \<or> (\<exists>t. past t \<and> en_issued_at a < t - es_max_age sv - es_future_skew sv))"

lemma remembered_later:
  assumes "remembered sv past rows a"
    "verify_and_consume mac sha256 sv current sc en rows = (rows', r)"
  shows "remembered sv (\<lambda>t. past t \<or> t = current) rows' a"
proof (cases r)
  case (Inl x)
  with assms rejected show ?thesis by (fastforce simp: remembered_def)
next
  case (Inr u)
  with assms(2) have "rows' = filter (\<lambda>r. \<not> nr_issued_at r < current - es_max_age sv - es_future_skew sv) rows @ [receipt sha256 current en]"
    using consumed(5) by blast
  with assms(1) show ?thesis by (force simp: remembered_def)
qed

lemma accepted_after:
  assumes "remembered sv past rows a" "\<And>t t'. past t \<Longrightarrow> t' \<in> fst ` set ops \<Longrightarrow> t \<le> t' + es_future_skew sv"
    "sorted_wrt (\<lambda>t t'. t \<le> t' + es_future_skew sv) (map fst ops)" "0 \<le> es_future_skew sv"
    "b \<in> set (accepted_envelopes mac sha256 sv ops rows)" "en_nonce a = en_nonce b"
  shows "en_issued_at a < en_issued_at b"
  using assms
proof (induction mac sha256 sv ops rows arbitrary: past rule: accepted_envelopes.induct)
  case (2 mac sha256 sv current sc en ops rows)
  obtain rows' r where step: "verify_and_consume mac sha256 sv current sc en rows = (rows', r)"
    by (cases "verify_and_consume mac sha256 sv current sc en rows")
  have later: "remembered sv (\<lambda>t. past t \<or> t = current) rows' a" by (rule remembered_later [OF "2.prems"(1) step])
  have clocks: "t \<le> t' + es_future_skew sv" if "past t \<or> t = current" "t' \<in> fst ` set ops" for t t'
    using that "2.prems"(2,3) by auto
  have sorted: "sorted_wrt (\<lambda>t t'. t \<le> t' + es_future_skew sv) (map fst ops)" using "2.prems"(3) by simp
  show ?case
  proof (cases r)
    case (Inl x)
    with "2.IH"(1) [OF step [symmetric]] later clocks sorted "2.prems"(4-6) step show ?thesis by simp
  next
    case (Inr u)
    show ?thesis
    proof (cases "b \<in> set (accepted_envelopes mac sha256 sv ops rows')")
      case True
      with "2.IH"(2) [OF step [symmetric] Inr] later clocks sorted "2.prems"(4,6) show ?thesis by blast
    next
      case False
      with "2.prems"(5) step Inr have b: "b = en" by simp
      note ok = consumed [OF step [unfolded Inr]]
      from "2.prems"(1) ok(4) "2.prems"(6) b
      have "(\<exists>t. (past t \<or> t = current) \<and> en_issued_at a < t - es_max_age sv - es_future_skew sv)"
        unfolding remembered_def by metis
      then obtain t where "past t \<or> t = current" "en_issued_at a < t - es_max_age sv - es_future_skew sv" by blast
      moreover have "t \<le> current + es_future_skew sv" using calculation(1) "2.prems"(2,4) by auto
      ultimately have "en_issued_at a < current - es_max_age sv" by linarith
      with ok(1) b show ?thesis by (simp add: fresh_envelope_def)
    qed
  qed
qed simp

text \<open>
  C11: no envelope is consumed twice. In any sequence of verifications, by any processes with
  clocks that go back by at most the tolerated skew, and although old receipts are deleted on the
  way, of two accepted envelopes with the same nonce the later one was issued later: the same
  envelope is never accepted again.
\<close>

theorem envelope_consumed_once:
  assumes "sorted_wrt (\<lambda>t t'. t \<le> t' + es_future_skew sv) (map fst ops)" "0 \<le> es_future_skew sv"
  shows "sorted_wrt (\<lambda>a b. en_nonce a = en_nonce b \<longrightarrow> en_issued_at a < en_issued_at b) (accepted_envelopes mac sha256 sv ops rows)
    \<and> distinct (accepted_envelopes mac sha256 sv ops rows)"
proof -
  have order: "sorted_wrt (\<lambda>a b. en_nonce a = en_nonce b \<longrightarrow> en_issued_at a < en_issued_at b) (accepted_envelopes mac sha256 sv ops rows)"
    using assms
  proof (induction mac sha256 sv ops rows rule: accepted_envelopes.induct)
    case (2 mac sha256 sv current sc en ops rows)
    obtain rows' r where step: "verify_and_consume mac sha256 sv current sc en rows = (rows', r)"
      by (cases "verify_and_consume mac sha256 sv current sc en rows")
    show ?case
    proof (cases r)
      case (Inl x)
      with 2 step show ?thesis by simp
    next
      case (Inr u)
      have "remembered sv (\<lambda>t. t = current) rows' en"
        using consumed(5) [OF step [unfolded Inr]] by (simp add: remembered_def receipt_def)
      then have "en_issued_at en < en_issued_at b"
        if "b \<in> set (accepted_envelopes mac sha256 sv ops rows')" "en_nonce en = en_nonce b" for b
        using accepted_after [of sv "\<lambda>t. t = current" rows' en ops b mac sha256] that 2(3,4) by auto
      with 2(2) [OF step [symmetric] Inr] 2(3,4) step Inr show ?thesis by simp
    qed
  qed simp
  moreover have "distinct xs" if "sorted_wrt (\<lambda>a b. en_nonce a = en_nonce b \<longrightarrow> en_issued_at a < en_issued_at b) xs" for xs :: "envelope list"
    using that by (induction xs) auto
  ultimately show ?thesis by blast
qed

theorem envelope_consumed_once_witness:
  "\<exists>sv ops. length (accepted_envelopes (\<lambda>k m. replicate 43 (CHR ''a'')) id sv ops []) = 1 \<and> length ops = 2
     \<and> distinct (accepted_envelopes (\<lambda>k m. replicate 43 (CHR ''a'')) id sv ops [])"
proof -
  let ?mac = "\<lambda>(k::string) (m::string). replicate 43 (CHR ''a'')"
  let ?sv = "\<lparr>es_keys = [1 \<mapsto> replicate 32 (CHR ''k'')], es_active = 1, es_max_age = 300, es_future_skew = 30\<rparr>"
  let ?en = "\<lparr>en_parent_run_id = ''p'', en_child_run_id = ''c'', en_owner_id = ''o'', en_project_id = ''q'', en_context_hash = ''h'',
    en_budget = [(''retries'', BInt 0)], en_schema_version = 1, en_issued_at = 1000, en_nonce = ''nonce-0001'', en_key_version = 1,
    en_signature = replicate 43 (CHR ''a'')\<rparr>"
  let ?sc = "\<lparr>sc_owner_id = ''o'', sc_project_id = ''q'', sc_parent_run_id = ''p'', sc_child_run_id = ''c'', sc_context_hash = ''h''\<rparr>"
  let ?ops = "[(1010, ?sc, ?en), (1005, ?sc, ?en)]"
  have "length (accepted_envelopes ?mac id ?sv ?ops []) = 1"
    by (simp add: verify_and_consume_def authentic_envelope_def envelope_signature_def fresh_envelope_def in_scope_def
        insert_unique_def receipt_def Let_def)
  moreover have "distinct (accepted_envelopes ?mac id ?sv ?ops [])"
    by (rule conjunct2 [OF envelope_consumed_once]) simp_all
  ultimately show ?thesis by (intro exI [of _ ?sv] exI [of _ ?ops]) simp
qed

subsection \<open>The payload determines the envelope\<close>

definition ascii_text :: "string \<Rightarrow> bool" where
  "ascii_text s = list_all (\<lambda>c. of_char c < (127 :: nat)) s"

lemma ascii_text_simps [simp]:
  "ascii_text []" "ascii_text (c # s) = (of_char c < (127 :: nat) \<and> ascii_text s)" "ascii_text (s @ s') = (ascii_text s \<and> ascii_text s')"
  by (simp_all add: ascii_text_def)

lemma ascii_only_ascii: "ascii_text s \<Longrightarrow> ascii_only s = s"
  by (induction s) (auto simp: ascii_only_def)

lemma ascii_join: "(\<And>x. x \<in> set xs \<Longrightarrow> ascii_text x) \<Longrightarrow> ascii_text sep \<Longrightarrow> ascii_text (join sep xs)"
  by (induction sep xs rule: join.induct) auto

lemma ascii_hex_digit: "n < 16 \<Longrightarrow> of_char (hex_digit n) < (127 :: nat)"
  by (auto simp: hex_digit_def of_char_of take_bit_nat_eq_self)

lemma ascii_quote: "ascii_text s \<Longrightarrow> ascii_text (json_quote s)"
proof -
  have "ascii_text (escape_char c)" if "of_char c < (127 :: nat)" for c
    using that ascii_hex_digit [of "of_char c div 16"] ascii_hex_digit [of "of_char c mod 16"]
    by (auto simp: escape_char_def less_mult_imp_div_less)
  then show "ascii_text s \<Longrightarrow> ascii_text (json_quote s)"
    by (induction s) (auto simp: json_quote_def)
qed

lemma ascii_alnum_text: "ascii_alnum c \<Longrightarrow> of_char c < (127 :: nat)"
  by (auto simp: ascii_alnum_def ascii_lower_def ascii_upper_def ascii_digit_def)

lemma ascii_digits: "list_all ascii_digit s \<Longrightarrow> ascii_text s"
  by (induction s) (auto simp: ascii_digit_def)

lemma ascii_ids:
  "ENVELOPE_SAFE s \<Longrightarrow> ascii_text s" "NONCE s \<Longrightarrow> ascii_text s" "HASH s \<Longrightarrow> ascii_text s" "float_text s \<Longrightarrow> ascii_text s"
  "ascii_text (show_int n)"
proof -
  show "ENVELOPE_SAFE s \<Longrightarrow> ascii_text s"
    by (auto simp: ENVELOPE_SAFE_def SAFE_ID_def ascii_text_def list_all_iff safe_id_char_def ascii_alnum_text split: list.splits)
  show "NONCE s \<Longrightarrow> ascii_text s"
    by (auto simp: NONCE_def ascii_text_def list_all_iff url_char_def dest!: bspec ascii_alnum_text)
  show "HASH s \<Longrightarrow> ascii_text s"
    by (auto simp: HASH_def ascii_text_def list_all_iff hex_lower_def ascii_digit_def dest!: bspec)
  show "float_text s \<Longrightarrow> ascii_text s"
    by (auto simp: float_text_def ascii_text_def list_all_iff number_char_def ascii_digit_def Let_def split: list.splits if_splits dest!: bspec)
  show "ascii_text (show_int n)"
    using show_nat_digits [THEN ascii_digits] by (simp add: show_int_def)
qed

lemma ascii_object:
  assumes "\<And>k v. (k, v) \<in> set kvs \<Longrightarrow> ascii_text k \<and> ascii_text (dumps v)"
  shows "ascii_text (dumps (JObj kvs))"
proof -
  let ?fields = "map (\<lambda>(k, v). json_quote k @ '':'' @ v) (sort_key fst (map (\<lambda>(k, v). (k, dumps v)) kvs))"
  have "ascii_text x" if "x \<in> set ?fields" for x
    using that assms ascii_quote by fastforce
  then have "ascii_text (join '','' ?fields)" by (rule ascii_join) simp_all
  then show ?thesis unfolding dumps.simps ascii_text_simps(3) by simp
qed

lemma budget_key_ascii: "key \<in> set BUDGET_KEYS \<Longrightarrow> ascii_text key"
proof -
  have "list_all ascii_text BUDGET_KEYS" by code_simp
  then show "key \<in> set BUDGET_KEYS \<Longrightarrow> ascii_text key" by (simp add: list_all_iff)
qed

lemma number_json_ok:
  assumes "budget_entry_ok key v"
  shows "json_ok (number_json v) \<and> ascii_text (dumps (number_json v)) \<and> ascii_text key"
proof -
  from assms have "ascii_text key" "\<And>r. v = BFloat r \<Longrightarrow> float_text r"
    by (auto simp: budget_entry_ok_def positive_float_def budget_key_ascii split: if_splits)
  then show ?thesis by (cases v) (auto simp: ascii_ids)
qed

lemma budget_ok:
  assumes "envelope_ok en"
  shows "json_ok (budget_json (en_budget en))" "ascii_text (dumps (budget_json (en_budget en)))"
    "in_order (budget_json (en_budget en)) = budget_json (en_budget en)"
proof -
  from assms have b: "sorted_wrt (<) (map fst (en_budget en))" "list_all (\<lambda>(key, v). budget_entry_ok key v) (en_budget en)"
    by (simp_all add: envelope_ok_def)
  have keys: "map fst (map (\<lambda>(key, v). (key, number_json v)) (en_budget en)) = map fst (en_budget en)" by auto
  show "json_ok (budget_json (en_budget en))"
    using b number_json_ok strict_sorted_iff [of "map fst (en_budget en)"]
    by (fastforce simp: budget_json_def list_all_iff comp_def split_beta)
  have "map (\<lambda>(k, v). (k, in_order v)) (map (\<lambda>(key, v). (key, number_json v)) (en_budget en))
      = map (\<lambda>(key, v). (key, number_json v)) (en_budget en)" (is "_ = ?xs")
  proof -
    have "in_order (number_json v) = number_json v" for v by (cases v) simp_all
    then show ?thesis by auto
  qed
  moreover have "sort_key fst ?xs = ?xs"
    using b(1) keys by (intro sort_key_id_if_sorted) (simp only: keys strict_sorted_imp_sorted)
  ultimately show "in_order (budget_json (en_budget en)) = budget_json (en_budget en)"
    by (simp only: budget_json_def in_order.simps)
  show "ascii_text (dumps (budget_json (en_budget en)))"
    unfolding budget_json_def using b(2) number_json_ok by (intro ascii_object) (fastforce simp: list_all_iff)
qed

lemma payload_ok:
  assumes "envelope_ok en"
  shows "json_ok (payload_json en)" "unsigned_payload en = dumps (payload_json en)"
proof -
  show "json_ok (payload_json en)" using budget_ok(1) [OF assms] by (simp add: payload_json_def)
  have fields: "ascii_text (en_parent_run_id en)" "ascii_text (en_child_run_id en)" "ascii_text (en_owner_id en)"
    "ascii_text (en_project_id en)" "ascii_text (en_nonce en)" "ascii_text (en_context_hash en)"
    using assms by (simp_all add: envelope_ok_def ascii_ids)
  have "ascii_text (dumps (payload_json en))"
    unfolding payload_json_def using fields budget_ok(2) [OF assms]
    by (intro ascii_object) (auto simp: ascii_ids ascii_quote)
  then show "unsigned_payload en = dumps (payload_json en)"
    by (simp add: unsigned_payload_def dumps_ascii_def ascii_only_ascii)
qed

lemma map_of_sort_key: "distinct (map fst xs) \<Longrightarrow> map_of (sort_key fst xs) = map_of xs"
  by (rule map_of_inject_set [THEN iffD2]) (simp_all add: distinct_map inj_on_def)

lemma payload_determines:
  assumes "envelope_ok a" "envelope_ok b" "unsigned_payload a = unsigned_payload b"
  shows "a = b\<lparr>en_signature := en_signature a\<rparr>"
proof -
  have "loads (dumps (payload_json a)) = loads (dumps (payload_json b))"
    using assms payload_ok(2) by metis
  then have same: "in_order (payload_json a) = in_order (payload_json b)"
    using payload_ok(1) assms(1,2) by (simp add: loads_dumps)
  define f where "f en = map (\<lambda>(k, v). (k, in_order v)) (case payload_json en of JObj kvs \<Rightarrow> kvs | _ \<Rightarrow> [])" for en
  have obj: "in_order (payload_json en) = JObj (sort_key fst (f en))" for en
    by (simp add: f_def payload_json_def)
  have dist: "distinct (map fst (f en))" for en by (simp add: f_def payload_json_def)
  have "map_of (f a) k = map_of (f b) k" for k
    using same map_of_sort_key [OF dist, of a] map_of_sort_key [OF dist, of b] by (simp add: obj)
  note at = this [of "''parent_run_id''"] this [of "''child_run_id''"] this [of "''owner_id''"] this [of "''project_id''"]
    this [of "''context_hash''"] this [of "''budget''"] this [of "''schema_version''"] this [of "''issued_at''"]
    this [of "''nonce''"] this [of "''key_version''"]
  have num: "number_json v = number_json w \<Longrightarrow> v = w" for v w by (cases v; cases w) simp_all
  have "budget_json (en_budget a) = budget_json (en_budget b)"
    using at(6) budget_ok(3) [OF assms(1)] budget_ok(3) [OF assms(2)] by (simp add: f_def payload_json_def)
  then have "map (\<lambda>(key, v). (key, number_json v)) (en_budget a) = map (\<lambda>(key, v). (key, number_json v)) (en_budget b)"
    by (simp add: budget_json_def)
  then have "en_budget a = en_budget b"
    by (rule map_injective) (auto simp: inj_on_def dest: num)
  with at show ?thesis by (simp add: f_def payload_json_def)
qed


definition demo_mac :: mac_function where
  "demo_mac k m = replicate 43 (CHR ''a'')"

definition demo_service :: envelope_service where
  "demo_service = \<lparr>es_keys = [1 \<mapsto> replicate 32 (CHR ''k'')], es_active = 1, es_max_age = 300, es_future_skew = 30\<rparr>"

definition demo_issued :: envelope where
  "demo_issued =
     \<lparr>en_parent_run_id = ''p'', en_child_run_id = ''c'', en_owner_id = ''o'', en_project_id = ''q'',
      en_context_hash = replicate 64 (CHR ''0''), en_budget = [(''output_tokens'', BInt 9), (''timeout_seconds'', BFloat ''1.5'')],
      en_schema_version = 1, en_issued_at = 1000, en_nonce = ''nonce-0001'', en_key_version = 1, en_signature = demo_mac [] []\<rparr>"

definition demo_scope :: delegation_scope where
  "demo_scope = \<lparr>sc_owner_id = ''o'', sc_project_id = ''q'', sc_parent_run_id = ''p'', sc_child_run_id = ''c'',
     sc_context_hash = replicate 64 (CHR ''0'')\<rparr>"

lemma demo_issue:
  "issue_envelope demo_mac demo_service ''p'' ''c'' ''o'' ''q'' (replicate 64 (CHR ''0''))
     [(''timeout_seconds'', BFloat ''1.5''), (''output_tokens'', BInt 9)] 1000 ''nonce-0001'' = Inr demo_issued"
  "envelope_ok demo_issued"
  by code_simp+


end
