(* ===== verification/Evidence_Verifier.thy ===== *)
theory Evidence_Verifier
  imports Runtime_Monad Runtime_Values Delegation_Envelope
begin

text \<open>
  The isolated evidence verifier (\<open>delegation/models.py\<close>, \<open>delegation/service.py\<close>): the bounded request,
  the parsing of a response into verdicts, the attempts within the token budget, and the terminal
  state that is fixed once and persisted by a task of its own.

  The collaborators answer by the number of the step: the monotonic clock, the run repository, the
  provider and the database of the envelope service may answer, raise or hang. An operation that
  hangs is left behind by the deadline or the cancellation around it (\<open>VGone\<close>): the handlers of
  the abandoned coroutine run after the caller has fixed the terminal state, which is all they
  would do. \<open>json.loads\<close> is a parameter. The monotonic clock counts milliseconds; a timeout is its value on that
  clock and its \<open>repr\<close>. What is only logged is left out.
\<close>

subsection \<open>The request\<close>

definition MAX_CLAIMS :: nat where "MAX_CLAIMS = 32"
definition MAX_EVIDENCE_SLICES :: nat where "MAX_EVIDENCE_SLICES = 32"
definition MAX_TEXT_CHARS :: nat where "MAX_TEXT_CHARS = 1000"
definition MAX_QUOTE_CHARS :: nat where "MAX_QUOTE_CHARS = 1000"

definition VERIFIER_ID :: "string \<Rightarrow> bool" where
  "VERIFIER_ID s = (SAFE_ID s \<and> length s \<le> 128)"

definition bounded_text :: "string \<Rightarrow> nat \<Rightarrow> bool" where
  "bounded_text s maximum = (s \<noteq> [] \<and> length s \<le> maximum)"

definition ids_ok :: "string list \<Rightarrow> bool" where
  "ids_ok ids = (list_all VERIFIER_ID ids \<and> length ids \<le> MAX_EVIDENCE_SLICES \<and> distinct ids)"

record evidence_slice =
  es_evidence_id :: string
  es_document_id :: string
  es_chunk_id :: string
  es_content_hash :: string
  es_quote :: string

definition slice_ok :: "evidence_slice \<Rightarrow> bool" where
  "slice_ok e = (VERIFIER_ID (es_evidence_id e) \<and> VERIFIER_ID (es_document_id e) \<and> VERIFIER_ID (es_chunk_id e)
     \<and> HASH (es_content_hash e) \<and> bounded_text (es_quote e) MAX_QUOTE_CHARS)"

record claim_input =
  ci_claim_id :: string
  ci_claim_hash :: string
  ci_text :: string
  ci_evidence_ids :: "string list"

definition claim_ok :: "claim_input \<Rightarrow> bool" where
  "claim_ok c = (VERIFIER_ID (ci_claim_id c) \<and> HASH (ci_claim_hash c) \<and> bounded_text (ci_text c) MAX_TEXT_CHARS
     \<and> ids_ok (ci_evidence_ids c))"

record verification_budget =
  vb_input_tokens :: int
  vb_output_tokens :: int
  vb_timeout :: int
  vb_timeout_repr :: string
  vb_retries :: int

definition verification_budget_ok :: "verification_budget \<Rightarrow> bool" where
  "verification_budget_ok b =
     (1 \<le> vb_input_tokens b \<and> vb_input_tokens b \<le> 32768 \<and> 1 \<le> vb_output_tokens b \<and> vb_output_tokens b \<le> 8192
      \<and> 100 \<le> vb_timeout b \<and> vb_timeout b \<le> 60000 \<and> positive_float (vb_timeout_repr b) \<and> (vb_retries b = 0 \<or> vb_retries b = 1))"

record child_request =
  cr_child_id :: string
  cr_parent_run_id :: string
  cr_user_id :: string
  cr_project_id :: string
  cr_policy_id :: string
  cr_model :: string
  cr_claims :: "claim_input list"
  cr_evidence :: "evidence_slice list"
  cr_budget :: verification_budget

definition request_ok :: "child_request \<Rightarrow> bool" where
  "request_ok rq =
     (VERIFIER_ID (cr_child_id rq) \<and> VERIFIER_ID (cr_parent_run_id rq) \<and> VERIFIER_ID (cr_user_id rq)
      \<and> VERIFIER_ID (cr_project_id rq) \<and> VERIFIER_ID (cr_policy_id rq) \<and> VERIFIER_ID (cr_model rq)
      \<and> cr_claims rq \<noteq> [] \<and> length (cr_claims rq) \<le> MAX_CLAIMS
      \<and> cr_evidence rq \<noteq> [] \<and> length (cr_evidence rq) \<le> MAX_EVIDENCE_SLICES
      \<and> list_all claim_ok (cr_claims rq) \<and> list_all slice_ok (cr_evidence rq) \<and> verification_budget_ok (cr_budget rq)
      \<and> distinct (map ci_claim_id (cr_claims rq)) \<and> distinct (map es_evidence_id (cr_evidence rq))
      \<and> list_all (\<lambda>c. set (ci_evidence_ids c) \<subseteq> set (map es_evidence_id (cr_evidence rq))) (cr_claims rq))"

datatype verdict_status = SUPPORTED | REJECTED | ESCALATE

datatype verification_reason =
    EVIDENCE_SUPPORTS | EVIDENCE_CONTRADICTS | INSUFFICIENT_EVIDENCE | INVALID_CITATION | BUDGET_EXCEEDED
  | TIMEOUT_REASON | PROVIDER_ERROR_REASON | MALFORMED_RESPONSE

definition status_text :: "verdict_status \<Rightarrow> string" where
  "status_text st = (case st of SUPPORTED \<Rightarrow> ''supported'' | REJECTED \<Rightarrow> ''rejected'' | ESCALATE \<Rightarrow> ''escalate'')"

definition reason_text :: "verification_reason \<Rightarrow> string" where
  "reason_text r =
     (case r of
        EVIDENCE_SUPPORTS \<Rightarrow> ''evidence_supports'' | EVIDENCE_CONTRADICTS \<Rightarrow> ''evidence_contradicts''
      | INSUFFICIENT_EVIDENCE \<Rightarrow> ''insufficient_evidence'' | INVALID_CITATION \<Rightarrow> ''invalid_citation''
      | BUDGET_EXCEEDED \<Rightarrow> ''budget_exceeded'' | TIMEOUT_REASON \<Rightarrow> ''timeout'' | PROVIDER_ERROR_REASON \<Rightarrow> ''provider_error''
      | MALFORMED_RESPONSE \<Rightarrow> ''malformed_response'')"

definition status_of :: "string \<Rightarrow> verdict_status option" where
  "status_of t = List.find (\<lambda>st. status_text st = t) [SUPPORTED, REJECTED, ESCALATE]"

definition reason_of :: "string \<Rightarrow> verification_reason option" where
  "reason_of t = List.find (\<lambda>r. reason_text r = t)
     [EVIDENCE_SUPPORTS, EVIDENCE_CONTRADICTS, INSUFFICIENT_EVIDENCE, INVALID_CITATION, BUDGET_EXCEEDED, TIMEOUT_REASON,
      PROVIDER_ERROR_REASON, MALFORMED_RESPONSE]"

text \<open>A confidence is its JSON number. A \<open>repr\<close> is that of a float from 0 to 1 by its form.\<close>

definition unit_float :: "string \<Rightarrow> bool" where
  "unit_float r = (float_text r \<and> (r = ''1.0'' \<or> r = ''-0.0'' \<or> startswith r ''0.'' \<or> (hd r \<noteq> CHR ''-'' \<and> infix_of ''e-'' r)))"

text \<open>\<open>float(n)\<close> raises \<open>OverflowError\<close> from here on, which the parser does not expect.\<close>

definition float_overflow :: "json \<Rightarrow> bool" where
  "float_overflow v = (case v of JInt n \<Rightarrow> \<bar>n\<bar> \<ge> 2 ^ 1024 - 2 ^ 970 | _ \<Rightarrow> False)"

definition confidence_ok :: "json \<Rightarrow> bool" where
  "confidence_ok v = (case v of JInt n \<Rightarrow> 0 \<le> n \<and> n \<le> 1 | JFloat r \<Rightarrow> unit_float r | _ \<Rightarrow> False)"

record claim_verdict =
  cv_claim_id :: string
  cv_status :: verdict_status
  cv_reason :: verification_reason
  cv_confidence :: json
  cv_evidence_ids :: "string list"

datatype child_status = COMPLETED_CHILD | ESCALATED_CHILD | FAILED_CHILD | TIMEOUT_CHILD | CANCELLED_CHILD

definition child_status_text :: "child_status \<Rightarrow> string" where
  "child_status_text st =
     (case st of COMPLETED_CHILD \<Rightarrow> ''completed'' | ESCALATED_CHILD \<Rightarrow> ''escalated'' | FAILED_CHILD \<Rightarrow> ''failed''
      | TIMEOUT_CHILD \<Rightarrow> ''timeout'' | CANCELLED_CHILD \<Rightarrow> ''cancelled'')"

record child_result =
  cx_child_id :: string
  cx_parent_run_id :: string
  cx_status :: child_status
  cx_usage :: token_usage
  cx_latency :: int
  cx_verdicts :: "claim_verdict list"

definition child_result_ok :: "child_result \<Rightarrow> bool" where
  "child_result_ok res =
     (VERIFIER_ID (cx_child_id res) \<and> VERIFIER_ID (cx_parent_run_id res) \<and> 0 \<le> cx_latency res
      \<and> length (cx_verdicts res) \<le> MAX_CLAIMS \<and> distinct (map cv_claim_id (cx_verdicts res)))"

subsection \<open>Messages and verdicts\<close>

text \<open>\<open>VTimeout\<close> and \<open>VDeadline\<close> are subclasses of \<open>OSError\<close>, which \<open>VOSError\<close> stands for with \<open>TransientVerifierError\<close>.\<close>

datatype verifier_exc =
    VDeadline | VTimeout | VOSError | VMalformed | VBudget | VDecode | VInvalidEnvelope | VCancelled | VGone | VError

definition verifier_prompt :: string where
  "verifier_prompt =
     ''You are an isolated evidence verifier.'' @ [CHR 0x0A]
     @ ''Use only the claims and evidence in the user JSON. Do not use outside knowledge.'' @ [CHR 0x0A]
     @ ''Return JSON with exactly one top-level key, '' @ [CHR 0x22] @ ''verdicts'' @ [CHR 0x22] @ ''. Each verdict must contain exactly'' @ [CHR 0x0A]
     @ ''claim_id, status, reason_code, confidence, evidence_ids. status is supported, rejected, or'' @ [CHR 0x0A]
     @ ''escalate. reason_code is evidence_supports, evidence_contradicts, insufficient_evidence, or'' @ [CHR 0x0A]
     @ ''invalid_citation. Include every claim exactly once and cite only supplied evidence IDs.''"

definition claim_json :: "claim_input \<Rightarrow> json" where
  "claim_json c = JObj [(''claim_id'', JStr (ci_claim_id c)), (''claim_hash'', JStr (ci_claim_hash c)), (''text'', JStr (ci_text c)),
     (''evidence_ids'', JList (map JStr (ci_evidence_ids c)))]"

definition slice_json :: "evidence_slice \<Rightarrow> json" where
  "slice_json e = JObj [(''evidence_id'', JStr (es_evidence_id e)), (''document_id'', JStr (es_document_id e)),
     (''chunk_id'', JStr (es_chunk_id e)), (''content_hash'', JStr (es_content_hash e)), (''quote'', JStr (es_quote e))]"

definition verifier_messages :: "child_request \<Rightarrow> message list" where
  "verifier_messages rq =
     [text_message RSystem verifier_prompt,
      text_message RUser (dumps (JObj [(''claims'', JList (map claim_json (cr_claims rq))),
        (''evidence'', JList (map slice_json (cr_evidence rq)))]))]"

definition estimate_input_tokens :: "message list \<Rightarrow> int" where
  "estimate_input_tokens messages = sum_list (map (\<lambda>m. (utf8_length (mg_content m) + 3) div 4 + 8) messages)"

definition text_items :: "json \<Rightarrow> string list option" where
  "text_items v = (case v of JList vs \<Rightarrow> those (map (\<lambda>x. case x of JStr s \<Rightarrow> Some s | _ \<Rightarrow> None) vs) | _ \<Rightarrow> None)"

definition verdict_keys :: "string list" where
  "verdict_keys = [''claim_id'', ''status'', ''reason_code'', ''confidence'', ''evidence_ids'']"

definition make_verdict ::
  "string \<Rightarrow> verdict_status option \<Rightarrow> verification_reason option \<Rightarrow> json \<Rightarrow> string list \<Rightarrow> verifier_exc + claim_verdict" where
  "make_verdict claim_id st reason confidence ids =
     (case (st, reason) of
        (Some st', Some reason') \<Rightarrow>
          if \<not> VERIFIER_ID claim_id then Inl VMalformed
          else if float_overflow confidence then Inl VError
          else if confidence_ok confidence \<and> ids_ok ids
          then Inr \<lparr>cv_claim_id = claim_id, cv_status = st', cv_reason = reason', cv_confidence = confidence,
                    cv_evidence_ids = ids\<rparr>
          else Inl VMalformed
      | _ \<Rightarrow> Inl VMalformed)"

definition verdict_of :: "json \<Rightarrow> verifier_exc + claim_verdict" where
  "verdict_of raw =
     (case raw of
        JObj kvs \<Rightarrow>
          if set (map fst kvs) \<noteq> set verdict_keys then Inl VMalformed
          else
            (case (map_of kvs ''claim_id'', map_of kvs ''status'', map_of kvs ''reason_code'', map_of kvs ''confidence'',
                   Option.bind (map_of kvs ''evidence_ids'') text_items) of
               (Some (JStr claim_id), Some (JStr st), Some (JStr reason), Some confidence, Some ids) \<Rightarrow>
                 make_verdict claim_id (status_of st) (reason_of reason) confidence ids
             | _ \<Rightarrow> Inl VMalformed)
      | _ \<Rightarrow> Inl VMalformed)"

fun verdicts_of :: "json list \<Rightarrow> verifier_exc + claim_verdict list" where
  "verdicts_of [] = Inr []"
| "verdicts_of (raw # raws) =
     (case verdict_of raw of
        Inl x \<Rightarrow> Inl x
      | Inr v \<Rightarrow> map_sum id (Cons v) (verdicts_of raws))"

definition consistent_verdict :: "claim_verdict \<Rightarrow> bool" where
  "consistent_verdict v =
     (case cv_status v of
        SUPPORTED \<Rightarrow> cv_reason v = EVIDENCE_SUPPORTS \<and> cv_evidence_ids v \<noteq> []
      | REJECTED \<Rightarrow> cv_reason v = EVIDENCE_CONTRADICTS
      | ESCALATE \<Rightarrow> cv_reason v = INSUFFICIENT_EVIDENCE \<or> cv_reason v = INVALID_CITATION)"

definition claim_evidence :: "child_request \<Rightarrow> string \<Rightarrow> string set" where
  "claim_evidence rq claim_id =
     (case List.find (\<lambda>c. ci_claim_id c = claim_id) (cr_claims rq) of None \<Rightarrow> {} | Some c \<Rightarrow> set (ci_evidence_ids c))"

record verifier_response =
  vr_content :: "string option"
  vr_has_tool_calls :: bool
  vr_usage :: token_usage

text \<open>\<open>_parse_response\<close>; \<open>loads\<close> is \<open>json.loads\<close> with its exception.\<close>

definition parse_response ::
  "(string \<Rightarrow> verifier_exc + json) \<Rightarrow> verifier_response \<Rightarrow> child_request \<Rightarrow> verifier_exc + claim_verdict list" where
  "parse_response json_loads resp rq =
     (case vr_content resp of
        None \<Rightarrow> Inl VMalformed
      | Some content \<Rightarrow>
          if vr_has_tool_calls resp then Inl VMalformed
          else
            (case json_loads content of
               Inl x \<Rightarrow> Inl (if x = VDecode then VMalformed else x)
             | Inr (JObj [(key, JList raws)]) \<Rightarrow>
                 if key \<noteq> ''verdicts'' then Inl VMalformed
                 else
                   (case verdicts_of raws of
                      Inl x \<Rightarrow> Inl x
                    | Inr verdicts \<Rightarrow>
                        (let expected = set (map ci_claim_id (cr_claims rq));
                             allowed = set (map es_evidence_id (cr_evidence rq)) in
                         if length verdicts \<noteq> card expected \<or> set (map cv_claim_id verdicts) \<noteq> expected
                            \<or> \<not> list_all (\<lambda>v. set (cv_evidence_ids v) \<subseteq> allowed) verdicts
                            \<or> \<not> list_all (\<lambda>v. set (cv_evidence_ids v) \<subseteq> claim_evidence rq (cv_claim_id v)) verdicts
                            \<or> \<not> list_all consistent_verdict verdicts
                         then Inl VMalformed else Inr verdicts))
             | Inr _ \<Rightarrow> Inl VMalformed))"

definition fail_closed :: "child_request \<Rightarrow> verification_reason \<Rightarrow> claim_verdict list" where
  "fail_closed rq reason =
     map (\<lambda>c. \<lparr>cv_claim_id = ci_claim_id c, cv_status = ESCALATE, cv_reason = reason, cv_confidence = JFloat ''0.0'',
               cv_evidence_ids = []\<rparr>) (cr_claims rq)"

definition verifier_context :: "child_request \<Rightarrow> json" where
  "verifier_context rq =
     JObj [(''policy_id'', JStr (cr_policy_id rq)), (''model'', JStr (cr_model rq)),
           (''claims'', JList (map claim_json (cr_claims rq))), (''evidence'', JList (map slice_json (cr_evidence rq)))]"

definition context_digest :: "(string \<Rightarrow> string) \<Rightarrow> json \<Rightarrow> string" where
  "context_digest sha256 v = sha256 (dumps_ascii v)"

definition verifier_budget :: "child_request \<Rightarrow> (string \<times> budget_number) list" where
  "verifier_budget rq =
     [(''input_tokens'', BInt (vb_input_tokens (cr_budget rq))), (''output_tokens'', BInt (vb_output_tokens (cr_budget rq))),
      (''retries'', BInt (vb_retries (cr_budget rq))), (''timeout_seconds'', BFloat (vb_timeout_repr (cr_budget rq)))]"

text \<open>\<open>==\<close> of dictionaries of numbers; an integer equals the float with its value.\<close>

fun number_eq :: "budget_number \<Rightarrow> budget_number \<Rightarrow> bool" where
  "number_eq (BInt m) (BInt n) = (m = n)"
| "number_eq (BFloat r) (BFloat r') = (r = r')"
| "number_eq (BInt n) (BFloat r) = (r = show_int n @ ''.0'')"
| "number_eq (BFloat r) (BInt n) = (r = show_int n @ ''.0'')"

definition budgets_equal :: "(string \<times> budget_number) list \<Rightarrow> (string \<times> budget_number) list \<Rightarrow> bool" where
  "budgets_equal b b' =
     (set (map fst b) = set (map fst b')
      \<and> list_all (\<lambda>k. case (map_of b k, map_of b' k) of (Some v, Some w) \<Rightarrow> number_eq v w | _ \<Rightarrow> False) (map fst b))"

definition issue_verifier_delegation ::
  "mac_function \<Rightarrow> (string \<Rightarrow> string) \<Rightarrow> envelope_service \<Rightarrow> child_request \<Rightarrow> int \<Rightarrow> string \<Rightarrow> envelope_error + envelope" where
  "issue_verifier_delegation mac sha256 sv rq now nonce =
     issue_envelope mac sv (cr_parent_run_id rq) (cr_child_id rq) (cr_user_id rq) (cr_project_id rq)
       (context_digest sha256 (verifier_context rq)) (verifier_budget rq) now nonce"

subsection \<open>The child's process\<close>

datatype 'a reply = Done 'a | Failed verifier_exc | Hangs

datatype verifier_action =
    Consumed envelope
  | EnsuredChild
  | AppendedEvent event_kind int "(string \<times> pyval) list" token_usage
  | AskedProvider "message list" int
  | FinalizedMetadata int

datatype persist_stage = AppendCompleted | AppendStopped | FinalizeMetadata

record persist_args =
  pa_attempts :: int
  pa_payload :: "(string \<times> pyval) list"
  pa_status :: child_status
  pa_usage :: token_usage
  pa_latency :: int

datatype persist_task = PersistPending "persist_stage list" persist_args | PersistDone "verifier_exc option"

record verifier_state =
  vs_step :: nat
  vs_trace :: "verifier_action list"
  vs_nonces :: "nonce_row list"
  vs_usage :: token_usage
  vs_attempts :: int
  vs_messages :: "message list"
  vt_started :: bool
  vt_persisted :: bool
  vt_result :: "child_result option"
  vt_task :: "persist_task option"

type_synonym 'a vprog = "(verifier_state, verifier_exc, 'a) prog"

text \<open>
  \<open>ve_envelopes\<close> is the envelope service when one is configured, \<open>ve_database\<close> what the database of
  receipts does before its commit, and \<open>ve_deadline_fired\<close> whether it was the outer deadline that left
  a hanging operation behind, \<open>ve_inner_fired\<close> the same of the deadline around the attempts;
  \<open>ve_late\<close> is what a stage of the terminal task that hangs does while it is waited for again, and
  \<open>ve_factory\<close> the exception the provider's factory raises, if it does.
\<close>

record verifier_env =
  ve_envelopes :: "envelope_service option"
  ve_mac :: mac_function
  ve_sha256 :: "string \<Rightarrow> string"
  ve_loads :: "string \<Rightarrow> verifier_exc + json"
  ve_clock :: "nat \<Rightarrow> int"
  ve_wall :: "nat \<Rightarrow> int"
  ve_database :: "nat \<Rightarrow> unit reply"
  ve_ensure :: "nat \<Rightarrow> unit reply"
  ve_append :: "nat \<Rightarrow> unit reply"
  ve_finalize :: "nat \<Rightarrow> unit reply"
  ve_late :: "nat \<Rightarrow> unit reply"
  ve_factory :: "verifier_exc option"
  ve_provider :: "nat \<Rightarrow> message list \<Rightarrow> int \<Rightarrow> verifier_response reply"
  ve_deadline_fired :: "nat \<Rightarrow> bool"
  ve_inner_fired :: "nat \<Rightarrow> bool"

definition vask :: "(nat \<Rightarrow> 'a) \<Rightarrow> 'a vprog" where
  "vask f = (\<lambda>s. (Inr (f (vs_step s)), s\<lparr>vs_step := Suc (vs_step s)\<rparr>))"

definition vlog :: "verifier_action \<Rightarrow> unit vprog" where
  "vlog a = modify (\<lambda>s. s\<lparr>vs_trace := a # vs_trace s\<rparr>)"

definition vawait :: "(nat \<Rightarrow> 'a reply) \<Rightarrow> 'a vprog" where
  "vawait f = bind (vask f) (\<lambda>r. case r of Done a \<Rightarrow> ret a | Failed x \<Rightarrow> throw x | Hangs \<Rightarrow> throw VGone)"

definition vclock :: "verifier_env \<Rightarrow> int vprog" where
  "vclock e = vask (ve_clock e)"

definition check_deadline :: "verifier_env \<Rightarrow> child_request \<Rightarrow> int \<Rightarrow> unit vprog" where
  "check_deadline e rq started =
     bind (vclock e) (\<lambda>now. if now \<ge> started + vb_timeout (cr_budget rq) then throw VDeadline else ret ())"

definition append_child_event :: "verifier_env \<Rightarrow> event_kind \<Rightarrow> int \<Rightarrow> (string \<times> pyval) list \<Rightarrow> token_usage \<Rightarrow> unit vprog" where
  "append_child_event e kind iteration payload u = seq (vlog (AppendedEvent kind iteration payload u)) (vawait (ve_append e))"

definition request_payload :: "child_request \<Rightarrow> int \<Rightarrow> (string \<times> pyval) list" where
  "request_payload rq estimate =
     [(''child_id'', VStr (cr_child_id rq)), (''parent_run_id'', VStr (cr_parent_run_id rq)), (''user_id'', VStr (cr_user_id rq)),
      (''project_id'', VStr (cr_project_id rq)), (''policy_id'', VStr (cr_policy_id rq)),
      (''claim_ids'', VList (map (VStr \<circ> ci_claim_id) (cr_claims rq))),
      (''claim_hashes'', VList (map (VStr \<circ> ci_claim_hash) (cr_claims rq))),
      (''evidence_ids'', VList (map (VStr \<circ> es_evidence_id) (cr_evidence rq))),
      (''content_hashes'', VList (map (VStr \<circ> es_content_hash) (cr_evidence rq))),
      (''claim_count'', VInt (int (length (cr_claims rq)))), (''evidence_count'', VInt (int (length (cr_evidence rq)))),
      (''status'', VStr ''requested''), (''input_tokens'', VInt estimate),
      (''output_tokens'', VInt (vb_output_tokens (cr_budget rq)))]"

text \<open>\<open>{**payload, ...}\<close>: a key that is there keeps its place.\<close>

definition override :: "(string \<times> pyval) list \<Rightarrow> (string \<times> pyval) list \<Rightarrow> (string \<times> pyval) list" where
  "override base extra =
     map (\<lambda>(k, v). (k, case map_of extra k of Some w \<Rightarrow> w | None \<Rightarrow> v)) base
     @ filter (\<lambda>(k, v). k \<notin> set (map fst base)) extra"

definition count_status :: "verdict_status \<Rightarrow> claim_verdict list \<Rightarrow> int" where
  "count_status st vs = int (length (filter (\<lambda>v. cv_status v = st) vs))"

definition terminal_payload ::
  "child_request \<Rightarrow> child_status \<Rightarrow> claim_verdict list \<Rightarrow> token_usage \<Rightarrow> verification_reason option \<Rightarrow> (string \<times> pyval) list" where
  "terminal_payload rq st vs u reason =
     override (request_payload rq (estimate_input_tokens (verifier_messages rq)))
       [(''status'', VStr (child_status_text st)),
        (''reason_code'', case reason of None \<Rightarrow> VNone | Some r \<Rightarrow> VStr (reason_text r)),
        (''reason_codes'', VList (map VStr (remdups (sort (map (reason_text \<circ> cv_reason) vs))))),
        (''supported_count'', VInt (count_status SUPPORTED vs)), (''rejected_count'', VInt (count_status REJECTED vs)),
        (''escalated_count'', VInt (count_status ESCALATE vs)), (''input_tokens'', VInt (tu_input_tokens u)),
        (''output_tokens'', VInt (tu_output_tokens u)), (''total_tokens'', VInt (total_tokens u))]"

subsection \<open>The terminal task\<close>

definition perform_stage :: "verifier_env \<Rightarrow> persist_args \<Rightarrow> persist_stage \<Rightarrow> unit reply vprog" where
  "perform_stage e a st =
     (case st of
        AppendCompleted \<Rightarrow>
          seq (vlog (AppendedEvent DELEGATION_COMPLETED (pa_attempts a) (pa_payload a) (pa_usage a))) (vask (ve_append e))
      | AppendStopped \<Rightarrow>
          seq (vlog (AppendedEvent RUN_STOPPED (pa_attempts a)
                 [(''reason'', VStr (child_status_text (pa_status a))), (''error'', VBool (pa_status a \<noteq> COMPLETED_CHILD))] (pa_usage a)))
          (vask (ve_append e))
      | FinalizeMetadata \<Rightarrow> seq (vlog (FinalizedMetadata (pa_latency a))) (vask (ve_finalize e)))"

text \<open>The task up to its end or to a stage that hangs; the hanging stage is done when it answers later.\<close>

fun run_persist :: "verifier_env \<Rightarrow> persist_args \<Rightarrow> persist_stage list \<Rightarrow> persist_task vprog" where
  "run_persist e a [] = seq (modify (\<lambda>s. s\<lparr>vt_persisted := True\<rparr>)) (ret (PersistDone None))"
| "run_persist e a (st # rest) =
     bind (perform_stage e a st) (\<lambda>r.
     case r of
       Done _ \<Rightarrow> run_persist e a rest
     | Failed x \<Rightarrow> ret (PersistDone (Some x))
     | Hangs \<Rightarrow> ret (PersistPending rest a))"

definition set_persist_task :: "persist_task \<Rightarrow> unit vprog" where
  "set_persist_task k = modify (\<lambda>s. s\<lparr>vt_task := Some k\<rparr>)"

definition resume_persist :: "verifier_env \<Rightarrow> unit vprog" where
  "resume_persist e =
     bind (reads vt_task) (\<lambda>k.
     case k of
       Some (PersistPending rest a) \<Rightarrow>
         bind (vask (ve_late e)) (\<lambda>r.
         case r of
           Done _ \<Rightarrow> bind (run_persist e a rest) set_persist_task
         | Failed x \<Rightarrow> set_persist_task (PersistDone (Some x))
         | Hangs \<Rightarrow> ret ())
     | _ \<Rightarrow> ret ())"

definition shield_persist :: "unit vprog" where
  "shield_persist =
     bind (reads vt_task) (\<lambda>k.
     case k of
       Some (PersistDone (Some x)) \<Rightarrow> throw x
     | Some (PersistPending rest a) \<Rightarrow> throw VGone
     | _ \<Rightarrow> ret ())"

text \<open>\<open>_finish\<close>: the first one fixes the result, every other one awaits and returns it.\<close>

definition finish_child ::
  "verifier_env \<Rightarrow> child_request \<Rightarrow> child_status \<Rightarrow> claim_verdict list \<Rightarrow> int \<Rightarrow> verification_reason option \<Rightarrow> int
     \<Rightarrow> token_usage \<Rightarrow> child_result vprog" where
  "finish_child e rq st vs started reason attempts u =
     bind (vclock e) (\<lambda>now.
     let res = \<lparr>cx_child_id = cr_child_id rq, cx_parent_run_id = cr_parent_run_id rq, cx_status = st, cx_usage = u,
                cx_latency = now - started, cx_verdicts = vs\<rparr> in
     if \<not> child_result_ok res then throw VError
     else
       bind (reads id) (\<lambda>s.
       if vt_started s
       then
         (case vt_result s of
            None \<Rightarrow> throw VError
          | Some res' \<Rightarrow> seq shield_persist (ret res'))
       else
         seq (modify (\<lambda>s. s\<lparr>vt_started := True, vt_result := Some res\<rparr>))
         (seq (bind (run_persist e \<lparr>pa_attempts = attempts, pa_payload = terminal_payload rq st vs u reason, pa_status = st,
                                    pa_usage = u, pa_latency = cx_latency res\<rparr> [AppendCompleted, AppendStopped, FinalizeMetadata])
                 set_persist_task)
         (seq shield_persist (ret res)))))"

definition fail_child :: "verifier_env \<Rightarrow> child_request \<Rightarrow> int \<Rightarrow> child_status \<Rightarrow> verification_reason \<Rightarrow> child_result vprog" where
  "fail_child e rq started st reason =
     bind (reads id) (\<lambda>s. finish_child e rq st (fail_closed rq reason) started (Some reason) (vs_attempts s) (vs_usage s))"

subsection \<open>Attempts\<close>

definition retryable :: "verifier_exc \<Rightarrow> bool" where
  "retryable x = (x \<in> {VDeadline, VTimeout, VOSError})"

definition retry_prompt :: message where
  "retry_prompt = text_message RUser
     ''The prior verifier response was invalid. Return one JSON object with only the verdicts array and the exact required fields; include no prose or markdown.''"

definition over_budget :: "child_request \<Rightarrow> token_usage \<Rightarrow> bool" where
  "over_budget rq u =
     (tu_input_tokens u > vb_input_tokens (cr_budget rq) \<or> tu_output_tokens u > vb_output_tokens (cr_budget rq)
      \<or> total_tokens u > vb_input_tokens (cr_budget rq) + vb_output_tokens (cr_budget rq))"

text \<open>\<open>None\<close> is another round of the loop.\<close>

definition retry_unless_spent :: "child_request \<Rightarrow> verifier_exc \<Rightarrow> message list \<Rightarrow> claim_verdict list option vprog" where
  "retry_unless_spent rq x ms =
     bind (reads vs_attempts) (\<lambda>attempts.
     if attempts > vb_retries (cr_budget rq) then throw x
     else seq (modify (\<lambda>s. s\<lparr>vs_messages := vs_messages s @ ms\<rparr>)) (ret None))"

definition receive_verdicts :: "verifier_env \<Rightarrow> child_request \<Rightarrow> verifier_response \<Rightarrow> claim_verdict list option vprog" where
  "receive_verdicts e rq resp =
     bind (reads vs_usage) (\<lambda>u0.
     let u = add_usage u0 (vr_usage resp) in
     if \<not> usage_valid u then throw VError
     else
       seq (modify (\<lambda>s. s\<lparr>vs_usage := u\<rparr>))
       (if over_budget rq u then throw VBudget
        else
          (case parse_response (ve_loads e) resp rq of
             Inr vs \<Rightarrow> ret (Some vs)
           | Inl x \<Rightarrow> if x = VMalformed then retry_unless_spent rq x [retry_prompt] else throw x)))"

definition attempt :: "verifier_env \<Rightarrow> child_request \<Rightarrow> claim_verdict list option vprog" where
  "attempt e rq =
     bind (reads id) (\<lambda>s.
     let estimate = estimate_input_tokens (vs_messages s);
         remaining_input = vb_input_tokens (cr_budget rq) - tu_input_tokens (vs_usage s);
         remaining_output = vb_output_tokens (cr_budget rq) - tu_output_tokens (vs_usage s) in
     if remaining_input < estimate \<or> remaining_output \<le> 0
        \<or> total_tokens (vs_usage s) + estimate > vb_input_tokens (cr_budget rq) + vb_output_tokens (cr_budget rq)
     then throw VBudget
     else
       seq (modify (\<lambda>s. s\<lparr>vs_attempts := vs_attempts s + 1\<rparr>))
       (try_catch
          (seq (vlog (AskedProvider (vs_messages s) remaining_output))
           (bind (vawait (\<lambda>n. ve_provider e n (vs_messages s) remaining_output)) (receive_verdicts e rq)))
          (\<lambda>x. if retryable x then retry_unless_spent rq x [] else throw x)))"

text \<open>A round that is followed by another has counted an attempt, and not the last one.\<close>

lemma triple_log: "(\<And>s. P s \<Longrightarrow> Q () (s\<lparr>vs_trace := a # vs_trace s\<rparr>)) \<Longrightarrow> triple P (vlog a) Q E"
  unfolding vlog_def by (rule triple_modify)

lemma triple_ask: "(\<And>s. P s \<Longrightarrow> Q (f (vs_step s)) (s\<lparr>vs_step := Suc (vs_step s)\<rparr>)) \<Longrightarrow> triple P (vask f) Q E"
  by (simp add: triple_def vask_def)

lemma triple_await:
  assumes "\<And>s. P s \<Longrightarrow> P (s\<lparr>vs_step := Suc (vs_step s)\<rparr>)" "\<And>a s. P s \<Longrightarrow> Q a s" "\<And>x s. P s \<Longrightarrow> E x s"
  shows "triple P (vawait f) Q E"
  using assms by (auto simp: triple_def vawait_def vask_def prog_defs split: reply.splits)

lemma triple_retry:
  assumes "\<And>s. P s \<Longrightarrow> vs_attempts s \<le> vb_retries (cr_budget rq) \<Longrightarrow> Q None (s\<lparr>vs_messages := vs_messages s @ ms\<rparr>)"
    "\<And>s. P s \<Longrightarrow> E x s"
  shows "triple P (retry_unless_spent rq x ms) Q E"
  using assms by (auto simp: triple_def retry_unless_spent_def prog_defs)

lemma triple_receive:
  assumes "\<And>s u. P s \<Longrightarrow> P (s\<lparr>vs_usage := u\<rparr>)"
    "\<And>s vs. P s \<Longrightarrow> \<not> over_budget rq (vs_usage s) \<Longrightarrow> parse_response (ve_loads e) resp rq = Inr vs \<Longrightarrow> Q (Some vs) s"
    "\<And>s. P s \<Longrightarrow> vs_attempts s \<le> vb_retries (cr_budget rq) \<Longrightarrow> Q None (s\<lparr>vs_messages := vs_messages s @ [retry_prompt]\<rparr>)"
    "\<And>x s. P s \<Longrightarrow> E x s"
  shows "triple P (receive_verdicts e rq resp) Q E"
proof (rule tripleI)
  fix s assume P: "P s"
  let ?s = "s\<lparr>vs_usage := add_usage (vs_usage s) (vr_usage resp)\<rparr>"
  have P': "P ?s" by (rule assms(1) [OF P])
  show "case receive_verdicts e rq resp s of (Inl x, s') \<Rightarrow> E x s' | (Inr a, s') \<Rightarrow> Q a s'"
    using assms(2-4) [OF P'] assms(4) [OF P]
    by (auto simp: receive_verdicts_def retry_unless_spent_def Let_def bind_reads seq_modify prog_defs(1,2) split: sum.splits)
qed

lemma triple_attempt:
  assumes reads: "\<And>s f. P n s \<Longrightarrow> P n (s\<lparr>vs_step := f\<rparr>)" "\<And>s u. P n s \<Longrightarrow> P n (s\<lparr>vs_usage := u\<rparr>)"
      "\<And>s ms. P n s \<Longrightarrow> P n (s\<lparr>vs_messages := ms\<rparr>)" "\<And>s. P n s \<Longrightarrow> vs_attempts s = n"
    and asks: "\<And>s ms k. P0 s \<Longrightarrow> P n (s\<lparr>vs_attempts := vs_attempts s + 1, vs_trace := AskedProvider ms k # vs_trace s\<rparr>)"
    and ends: "\<And>x s. P0 s \<Longrightarrow> E x s" "\<And>x s. P n s \<Longrightarrow> E x s"
      "\<And>s vs resp. P n s \<Longrightarrow> \<not> over_budget rq (vs_usage s) \<Longrightarrow> parse_response (ve_loads e) resp rq = Inr vs \<Longrightarrow> Q (Some vs) s"
      "\<And>s. P n s \<Longrightarrow> n \<le> vb_retries (cr_budget rq) \<Longrightarrow> Q None s"
  shows "triple P0 (attempt e rq) Q E"
  unfolding attempt_def Let_def
proof (rule triple_bind_reads)
  fix s0 :: verifier_state
  let ?k = "vb_output_tokens (cr_budget rq) - tu_output_tokens (vs_usage s0)"
  let ?ask = "seq (vlog (AskedProvider (vs_messages s0) ?k))
    (bind (vawait (\<lambda>j. ve_provider e j (vs_messages s0) ?k)) (receive_verdicts e rq))"
  have "triple (P n) (receive_verdicts e rq resp) Q (\<lambda>_. P n)" for resp
    by (rule triple_receive) (use reads ends in auto)
  then have "triple (P n) (bind (vawait (\<lambda>j. ve_provider e j (vs_messages s0) ?k)) (receive_verdicts e rq)) Q (\<lambda>_. P n)"
    by (rule triple_bind [rotated]) (rule triple_await, use reads in auto)
  then have "triple (\<lambda>s. P n (s\<lparr>vs_trace := AskedProvider (vs_messages s0) ?k # vs_trace s\<rparr>)) ?ask Q (\<lambda>_. P n)"
    by (rule triple_seq [rotated]) (rule triple_log)
  moreover have "triple (P n) (if retryable x then retry_unless_spent rq x [] else throw x) Q E" for x
    using triple_retry [of "P n" rq Q "[]" E x] triple_throw [of "P n" E x Q] reads ends by simp
  ultimately have "triple (\<lambda>s. P n (s\<lparr>vs_trace := AskedProvider (vs_messages s0) ?k # vs_trace s\<rparr>))
    (try_catch ?ask (\<lambda>x. if retryable x then retry_unless_spent rq x [] else throw x)) Q E"
    by (rule triple_try)
  then have "triple P0 (seq (modify (\<lambda>s. s\<lparr>vs_attempts := vs_attempts s + 1\<rparr>))
    (try_catch ?ask (\<lambda>x. if retryable x then retry_unless_spent rq x [] else throw x))) Q E"
    by (rule triple_seq [rotated]) (rule triple_modify, use asks in simp)
  moreover have "triple P0 (throw VBudget) Q E" by (rule triple_throw) (rule ends(1))
  ultimately show "triple (\<lambda>s. P0 s \<and> id s = s0)
    (if vb_input_tokens (cr_budget rq) - tu_input_tokens (vs_usage s0) < estimate_input_tokens (vs_messages s0) \<or> ?k \<le> 0
        \<or> vb_input_tokens (cr_budget rq) + vb_output_tokens (cr_budget rq) < total_tokens (vs_usage s0) + estimate_input_tokens (vs_messages s0)
     then throw VBudget
     else seq (modify (\<lambda>s. s\<lparr>vs_attempts := vs_attempts s + 1\<rparr>))
       (try_catch ?ask (\<lambda>x. if retryable x then retry_unless_spent rq x [] else throw x))) Q E"
    by (auto intro: triple_conseq)
qed

lemma attempt_another_round:
  assumes "attempt e rq s = (Inr None, s')"
  shows "vs_attempts s' = vs_attempts s + 1 \<and> vs_attempts s' \<le> vb_retries (cr_budget rq)"
proof -
  have "triple (\<lambda>t. vs_attempts t = vs_attempts s) (attempt e rq)
    (\<lambda>r t. r = None \<longrightarrow> vs_attempts t = vs_attempts s + 1 \<and> vs_attempts t \<le> vb_retries (cr_budget rq)) (\<lambda>_ _. True)"
    by (rule triple_attempt [where n = "vs_attempts s + 1" and P = "\<lambda>n t. vs_attempts t = n"]) auto
  from tripleD [OF this _ assms] show ?thesis by simp
qed

function execute_child :: "verifier_env \<Rightarrow> child_request \<Rightarrow> claim_verdict list vprog" where
  "execute_child e rq s =
     (case attempt e rq s of
        (Inl x, s') \<Rightarrow> (Inl x, s')
      | (Inr (Some vs), s') \<Rightarrow> (Inr vs, s')
      | (Inr None, s') \<Rightarrow> execute_child e rq s')"
  by pat_completeness auto
termination
  by (relation "measure (\<lambda>(e, rq, s). nat (vb_retries (cr_budget rq) - vs_attempts s))")
    (auto dest!: sym [of "(_, _)"] attempt_another_round)

declare execute_child.simps [simp del]

subsection \<open>The child within its deadline\<close>

text \<open>
  \<open>await_before_deadline\<close>: an operation past its deadline is not started, one that hangs is left
  behind when the deadline fires, and a late result or exception is dropped for the deadline's own.
\<close>

definition await_child :: "verifier_env \<Rightarrow> (nat \<Rightarrow> bool) \<Rightarrow> verifier_exc \<Rightarrow> 'a vprog \<Rightarrow> int \<Rightarrow> 'a vprog" where
  "await_child e fired cancelled operation deadline =
     bind (vclock e) (\<lambda>now.
     if deadline - now \<le> 0 then throw VDeadline
     else
       seq (vclock e)
       (\<lambda>s. case operation s of
          (Inl VGone, s') \<Rightarrow> bind (vask fired) (\<lambda>b. throw (if b then VDeadline else cancelled)) s'
        | (r, s') \<Rightarrow> bind (vclock e) (\<lambda>late. if late \<ge> deadline then throw VDeadline else (\<lambda>s. (r, s))) s'))"

definition verifier_scope :: "verifier_env \<Rightarrow> child_request \<Rightarrow> delegation_scope" where
  "verifier_scope e rq =
     \<lparr>sc_owner_id = cr_user_id rq, sc_project_id = cr_project_id rq, sc_parent_run_id = cr_parent_run_id rq,
      sc_child_run_id = cr_child_id rq, sc_context_hash = context_digest (ve_sha256 e) (verifier_context rq)\<rparr>"

text \<open>\<open>verify_and_consume\<close> opens its session only for an envelope that is authentic, fresh and in scope.\<close>

definition consume_envelope :: "verifier_env \<Rightarrow> child_request \<Rightarrow> envelope_service \<Rightarrow> envelope \<Rightarrow> unit vprog" where
  "consume_envelope e rq sv en =
     bind (vask (ve_wall e)) (\<lambda>current.
     seq (if authentic_envelope (ve_mac e) sv en \<and> fresh_envelope sv current en \<and> in_scope (verifier_scope e rq) en
          then vawait (ve_database e) else ret ())
     (bind (reads vs_nonces) (\<lambda>rows.
     case verify_and_consume (ve_mac e) (ve_sha256 e) sv current (verifier_scope e rq) en rows of
       (rows', Inl _) \<Rightarrow> throw VInvalidEnvelope
     | (rows', Inr _) \<Rightarrow> seq (modify (\<lambda>s. s\<lparr>vs_nonces := rows'\<rparr>)) (vlog (Consumed en)))))"

definition admit_child :: "verifier_env \<Rightarrow> child_request \<Rightarrow> envelope option \<Rightarrow> int \<Rightarrow> unit vprog" where
  "admit_child e rq envelope started =
     (case ve_envelopes e of
        None \<Rightarrow> ret ()
      | Some sv \<Rightarrow>
          (case envelope of
             None \<Rightarrow> throw VInvalidEnvelope
           | Some en \<Rightarrow>
               if \<not> budgets_equal (en_budget en) (verifier_budget rq) then throw VInvalidEnvelope
               else seq (consume_envelope e rq sv en) (check_deadline e rq started)))"

text \<open>What the clauses around the attempts do with an exception; \<open>VGone\<close> is the coroutine left behind.\<close>

definition child_failed :: "verifier_env \<Rightarrow> child_request \<Rightarrow> int \<Rightarrow> verifier_exc \<Rightarrow> child_result vprog" where
  "child_failed e rq started x =
     (case x of
        VGone \<Rightarrow> throw VGone
      | VCancelled \<Rightarrow> seq (fail_child e rq started CANCELLED_CHILD PROVIDER_ERROR_REASON) (throw VCancelled)
      | VDeadline \<Rightarrow> fail_child e rq started TIMEOUT_CHILD TIMEOUT_REASON
      | VTimeout \<Rightarrow> fail_child e rq started TIMEOUT_CHILD TIMEOUT_REASON
      | VMalformed \<Rightarrow> fail_child e rq started FAILED_CHILD MALFORMED_RESPONSE
      | VBudget \<Rightarrow> fail_child e rq started FAILED_CHILD BUDGET_EXCEEDED
      | _ \<Rightarrow> fail_child e rq started FAILED_CHILD PROVIDER_ERROR_REASON)"

definition child_completed :: "verifier_env \<Rightarrow> child_request \<Rightarrow> int \<Rightarrow> claim_verdict list \<Rightarrow> child_result vprog" where
  "child_completed e rq started vs =
     bind (reads id) (\<lambda>s. finish_child e rq COMPLETED_CHILD vs started None (vs_attempts s) (vs_usage s))"

definition verify_admitted :: "verifier_env \<Rightarrow> child_request \<Rightarrow> int \<Rightarrow> child_result vprog" where
  "verify_admitted e rq started =
     (let messages = verifier_messages rq; estimate = estimate_input_tokens messages in
      seq (seq (vlog EnsuredChild) (vawait (ve_ensure e)))
      (seq (check_deadline e rq started)
      (seq (case ve_factory e of Some x \<Rightarrow> throw x | None \<Rightarrow> ret ())
      (seq (append_child_event e DELEGATION_REQUESTED 0 (request_payload rq estimate) no_usage)
      (seq (check_deadline e rq started)
      (if estimate > vb_input_tokens (cr_budget rq) then fail_child e rq started FAILED_CHILD BUDGET_EXCEEDED
       else
         seq (modify (\<lambda>s. s\<lparr>vs_messages := messages\<rparr>))
         (\<lambda>s. case await_child e (ve_inner_fired e) VGone (execute_child e rq)
                      (started + vb_timeout (cr_budget rq)) s of
            (Inl x, s') \<Rightarrow> child_failed e rq started x s'
          | (Inr vs, s') \<Rightarrow> child_completed e rq started vs s')))))))"

definition verify_inner :: "verifier_env \<Rightarrow> child_request \<Rightarrow> envelope option \<Rightarrow> int \<Rightarrow> child_result vprog" where
  "verify_inner e rq envelope started = seq (admit_child e rq envelope started) (verify_admitted e rq started)"

definition TERMINAL_CLEANUP :: int where "TERMINAL_CLEANUP = 125"

definition bounded_finish :: "verifier_env \<Rightarrow> child_request \<Rightarrow> child_status \<Rightarrow> verification_reason \<Rightarrow> int \<Rightarrow> unit vprog" where
  "bounded_finish e rq st reason started =
     bind (reads vt_started) (\<lambda>b.
     if b then seq (resume_persist e) (resume_persist e)
     else
       bind (vclock e) (\<lambda>now.
       try_catch
         (seq (await_child e (ve_deadline_fired e) VCancelled
                 (finish_child e rq st (fail_closed rq reason) started (Some reason) 0 no_usage) (now + TERMINAL_CLEANUP))
          (ret ()))
         (\<lambda>x. ret ())))"

definition fresh_timeout :: "verifier_env \<Rightarrow> child_request \<Rightarrow> int \<Rightarrow> child_result vprog" where
  "fresh_timeout e rq started =
     bind (vclock e) (\<lambda>now.
     let res = \<lparr>cx_child_id = cr_child_id rq, cx_parent_run_id = cr_parent_run_id rq, cx_status = TIMEOUT_CHILD,
                cx_usage = no_usage, cx_latency = now - started, cx_verdicts = fail_closed rq TIMEOUT_REASON\<rparr> in
     if child_result_ok res then ret res else throw VError)"

definition child_timed_out :: "verifier_env \<Rightarrow> child_request \<Rightarrow> int \<Rightarrow> child_result vprog" where
  "child_timed_out e rq started =
     bind (reads vt_started) (\<lambda>b.
     seq (if b then bounded_finish e rq TIMEOUT_CHILD TIMEOUT_REASON started else ret ())
     (bind (reads vt_result) (\<lambda>res.
     case if b then res else None of
       Some r \<Rightarrow> ret r
     | None \<Rightarrow>
         seq (bounded_finish e rq TIMEOUT_CHILD TIMEOUT_REASON started)
         (bind (reads vt_result) (\<lambda>res. case res of Some r \<Rightarrow> ret r | None \<Rightarrow> fresh_timeout e rq started)))))"

definition child_cancelled :: "verifier_env \<Rightarrow> child_request \<Rightarrow> int \<Rightarrow> child_result vprog" where
  "child_cancelled e rq started =
     bind (reads vt_started) (\<lambda>b.
     seq (if b then ret () else bounded_finish e rq CANCELLED_CHILD PROVIDER_ERROR_REASON started) (throw VCancelled))"

definition verify_child :: "verifier_env \<Rightarrow> child_request \<Rightarrow> envelope option \<Rightarrow> child_result vprog" where
  "verify_child e rq envelope =
     bind (vclock e) (\<lambda>started.
     try_catch
       (await_child e (ve_deadline_fired e) VCancelled (verify_inner e rq envelope started)
          (started + vb_timeout (cr_budget rq)))
       (\<lambda>x. case x of
          VDeadline \<Rightarrow> child_timed_out e rq started
        | VCancelled \<Rightarrow> child_cancelled e rq started
        | _ \<Rightarrow> throw x))"

text \<open>The state a call begins with; \<open>rows\<close> are the receipts in the database.\<close>

definition new_child :: "nonce_row list \<Rightarrow> verifier_state" where
  "new_child rows =
     \<lparr>vs_step = 0, vs_trace = [], vs_nonces = rows, vs_usage = no_usage, vs_attempts = 0, vs_messages = [],
      vt_started = False, vt_persisted = False, vt_result = None, vt_task = None\<rparr>"

end
