(* ===== verification/Verifier_Safety.thy ===== *)
theory Verifier_Safety
  imports Evidence_Verifier
begin

text \<open>
  What a call of the evidence verifier does in every environment: its verdicts fail closed, its
  attempts stay within the budget, no provider is asked before an envelope for exactly this request
  has been consumed, and one terminal record is written, for the result that is returned. The four
  theorems rest on one invariant of the child's state.
\<close>

subsection \<open>Sound results\<close>

definition sound_verdict :: "child_request \<Rightarrow> claim_verdict \<Rightarrow> bool" where
  "sound_verdict rq v =
     (set (cv_evidence_ids v) \<subseteq> claim_evidence rq (cv_claim_id v) \<and> (cv_status v = SUPPORTED \<longrightarrow> cv_evidence_ids v \<noteq> []))"

definition sound_ending :: "child_request \<Rightarrow> child_status \<Rightarrow> claim_verdict list \<Rightarrow> token_usage \<Rightarrow> bool" where
  "sound_ending rq st vs u =
     (set (map cv_claim_id vs) = set (map ci_claim_id (cr_claims rq)) \<and> list_all (sound_verdict rq) vs
      \<and> (if st = COMPLETED_CHILD then \<not> over_budget rq u
         else list_all (\<lambda>v. cv_status v = ESCALATE \<and> cv_evidence_ids v = []) vs))"

definition sound_result :: "child_request \<Rightarrow> child_result \<Rightarrow> bool" where
  "sound_result rq res =
     (cx_child_id res = cr_child_id rq \<and> cx_parent_run_id res = cr_parent_run_id rq
      \<and> distinct (map cv_claim_id (cx_verdicts res)) \<and> sound_ending rq (cx_status res) (cx_verdicts res) (cx_usage res))"

lemma parsed_sound:
  assumes "parse_response json_loads resp rq = Inr vs" "\<not> over_budget rq u"
  shows "sound_ending rq COMPLETED_CHILD vs u"
proof -
  from assms(1) have "set (map cv_claim_id vs) = set (map ci_claim_id (cr_claims rq))"
    "list_all (\<lambda>v. set (cv_evidence_ids v) \<subseteq> claim_evidence rq (cv_claim_id v)) vs" "list_all consistent_verdict vs"
    unfolding parse_response_def
    by (auto simp: Let_def split: option.splits if_splits sum.splits json.splits list.splits prod.splits)
  then show ?thesis using assms(2)
    by (auto simp: sound_ending_def sound_verdict_def consistent_verdict_def list_all_iff split: verdict_status.splits)
qed

lemma fail_closed_sound: "st \<noteq> COMPLETED_CHILD \<Longrightarrow> sound_ending rq st (fail_closed rq reason) u"
  by (auto simp: sound_ending_def sound_verdict_def fail_closed_def list_all_iff)

subsection \<open>The trace\<close>

fun asks_provider :: "verifier_action \<Rightarrow> bool" where
  "asks_provider (AskedProvider ms k) = True"
| "asks_provider _ = False"

definition asked :: "verifier_action list \<Rightarrow> int" where
  "asked tr = int (length (filter asks_provider tr))"

text \<open>The envelope of a \<open>Consumed\<close> action authorizes this request: its scope, its context and its budget.\<close>

fun admits :: "verifier_env \<Rightarrow> child_request \<Rightarrow> verifier_action \<Rightarrow> bool" where
  "admits e rq (Consumed en) =
     ((case ve_envelopes e of None \<Rightarrow> False | Some sv \<Rightarrow> authentic_envelope (ve_mac e) sv en)
      \<and> in_scope (verifier_scope e rq) en \<and> budgets_equal (en_budget en) (verifier_budget rq))"
| "admits e rq _ = False"

definition envelope_seen :: "verifier_env \<Rightarrow> child_request \<Rightarrow> verifier_action list \<Rightarrow> bool" where
  "envelope_seen e rq tr = (ve_envelopes e = None \<or> list_ex (admits e rq) tr)"

fun asked_when_admitted :: "verifier_env \<Rightarrow> child_request \<Rightarrow> verifier_action list \<Rightarrow> bool" where
  "asked_when_admitted e rq [] = True"
| "asked_when_admitted e rq (a # tr) = ((asks_provider a \<longrightarrow> envelope_seen e rq tr) \<and> asked_when_admitted e rq tr)"

definition terminal_stages :: "persist_stage list" where
  "terminal_stages = [AppendCompleted, AppendStopped, FinalizeMetadata]"

fun stage_of :: "verifier_action \<Rightarrow> persist_stage list" where
  "stage_of (AppendedEvent k i pl u) =
     (if k = DELEGATION_COMPLETED then [AppendCompleted] else if k = RUN_STOPPED then [AppendStopped] else [])"
| "stage_of (FinalizedMetadata l) = [FinalizeMetadata]"
| "stage_of _ = []"

definition stages_logged :: "verifier_action list \<Rightarrow> persist_stage list" where
  "stages_logged tr = concat (map stage_of (rev tr))"

text \<open>The terminal actions are about this result.\<close>

fun records_result :: "child_request \<Rightarrow> child_result \<Rightarrow> verifier_action \<Rightarrow> bool" where
  "records_result rq res (AppendedEvent k i pl u) =
     ((k = DELEGATION_COMPLETED \<longrightarrow> u = cx_usage res
         \<and> (\<exists>reason. pl = terminal_payload rq (cx_status res) (cx_verdicts res) (cx_usage res) reason))
      \<and> (k = RUN_STOPPED \<longrightarrow> u = cx_usage res
         \<and> pl = [(''reason'', VStr (child_status_text (cx_status res))), (''error'', VBool (cx_status res \<noteq> COMPLETED_CHILD))]))"
| "records_result rq res (FinalizedMetadata l) = (l = cx_latency res)"
| "records_result rq res _ = True"

definition args_for :: "child_request \<Rightarrow> child_result \<Rightarrow> persist_args \<Rightarrow> bool" where
  "args_for rq res a =
     (pa_status a = cx_status res \<and> pa_usage a = cx_usage res \<and> pa_latency a = cx_latency res
      \<and> (\<exists>reason. pa_payload a = terminal_payload rq (cx_status res) (cx_verdicts res) (cx_usage res) reason))"

lemma trace_simps [simp]:
  "asked [] = 0" "asked (a # tr) = (if asks_provider a then asked tr + 1 else asked tr)"
  "stages_logged [] = []" "stages_logged (a # tr) = stages_logged tr @ stage_of a"
  "envelope_seen e rq (a # tr) = (admits e rq a \<or> envelope_seen e rq tr)"
  by (auto simp: asked_def stages_logged_def envelope_seen_def)

lemma no_stage_records: "stages_logged tr = [] \<Longrightarrow> list_all (records_result rq res) tr"
proof (induction tr)
  case (Cons a tr)
  then show ?case by (cases a) (auto split: if_splits)
qed simp

subsection \<open>The invariant\<close>

definition core_inv :: "verifier_env \<Rightarrow> child_request \<Rightarrow> verifier_state \<Rightarrow> bool" where
  "core_inv e rq s =
     (asked (vs_trace s) = vs_attempts s \<and> vs_attempts s \<le> max 1 (vb_retries (cr_budget rq) + 1)
      \<and> asked_when_admitted e rq (vs_trace s))"

text \<open>The stages that are still to be performed: those of the task where it is pending.\<close>

definition recorded :: "child_request \<Rightarrow> child_result \<Rightarrow> persist_task option \<Rightarrow> verifier_state \<Rightarrow> bool" where
  "recorded rq res k s =
     (vt_started s \<and> vt_result s = Some res \<and> sound_result rq res \<and> list_all (records_result rq res) (vs_trace s)
      \<and> (\<exists>rest. stages_logged (vs_trace s) @ rest = terminal_stages \<and> (vt_persisted s \<longrightarrow> rest = [])
           \<and> (case k of Some (PersistPending rest' a) \<Rightarrow> rest' = rest \<and> args_for rq res a | _ \<Rightarrow> True)))"

definition unfinished :: "verifier_state \<Rightarrow> bool" where
  "unfinished s =
     (\<not> vt_started s \<and> \<not> vt_persisted s \<and> vt_result s = None \<and> vt_task s = None \<and> stages_logged (vs_trace s) = [])"

definition child_inv :: "verifier_env \<Rightarrow> child_request \<Rightarrow> verifier_state \<Rightarrow> bool" where
  "child_inv e rq s =
     (core_inv e rq s \<and> (case vt_result s of None \<Rightarrow> unfinished s | Some res \<Rightarrow> recorded rq res (vt_task s) s))"

lemma inv_step [simp]:
  "core_inv e rq (s\<lparr>vs_step := n\<rparr>) = core_inv e rq s" "recorded rq res k (s\<lparr>vs_step := n\<rparr>) = recorded rq res k s"
  "unfinished (s\<lparr>vs_step := n\<rparr>) = unfinished s" "child_inv e rq (s\<lparr>vs_step := n\<rparr>) = child_inv e rq s"
  by (simp_all add: core_inv_def recorded_def unfinished_def child_inv_def split: option.split)

lemma child_inv_new: "child_inv e rq (new_child rows)"
  by (simp add: child_inv_def core_inv_def unfinished_def new_child_def)

lemma unfinished_inv: "core_inv e rq s \<Longrightarrow> unfinished s \<Longrightarrow> child_inv e rq s"
  by (simp add: child_inv_def unfinished_def)

lemma recorded_inv: "core_inv e rq s \<Longrightarrow> recorded rq res (vt_task s) s \<Longrightarrow> child_inv e rq s"
  by (auto simp: child_inv_def recorded_def)

lemma not_started_inv: "child_inv e rq s \<Longrightarrow> \<not> vt_started s \<Longrightarrow> core_inv e rq s \<and> unfinished s"
  by (auto simp: child_inv_def recorded_def split: option.splits)

lemma started_inv: "child_inv e rq s \<Longrightarrow> vt_started s \<Longrightarrow> \<exists>res. vt_result s = Some res \<and> core_inv e rq s \<and> recorded rq res (vt_task s) s"
  by (auto simp: child_inv_def unfinished_def split: option.splits)

lemma result_sound: "child_inv e rq s \<Longrightarrow> vt_result s = Some res \<Longrightarrow> sound_result rq res"
  by (simp add: child_inv_def recorded_def)


subsection \<open>The terminal task\<close>

definition to_do :: "verifier_env \<Rightarrow> child_request \<Rightarrow> child_result \<Rightarrow> persist_args \<Rightarrow> persist_stage list \<Rightarrow> verifier_state \<Rightarrow> bool" where
  "to_do e rq res a rest s =
     (core_inv e rq s \<and> args_for rq res a \<and> recorded rq res (Some (PersistPending rest a)) s)"

definition done_with :: "verifier_env \<Rightarrow> child_request \<Rightarrow> child_result \<Rightarrow> persist_task \<Rightarrow> verifier_state \<Rightarrow> bool" where
  "done_with e rq res k s = (core_inv e rq s \<and> recorded rq res (Some k) s)"

lemma to_do_done: "to_do e rq res a rest s \<Longrightarrow> done_with e rq res (PersistPending rest a) s \<and> done_with e rq res (PersistDone x) s"
  by (auto simp: to_do_def done_with_def recorded_def)

lemma to_do_log:
  assumes "to_do e rq res a (st # rest) s" "records_result rq res act" "stage_of act = [st]"
  shows "to_do e rq res a rest (s\<lparr>vs_trace := act # vs_trace s\<rparr>)"
proof -
  from assms(3) have "\<not> asks_provider act" by (cases act) auto
  with assms show ?thesis by (auto simp: to_do_def recorded_def core_inv_def)
qed

lemma triple_stage: "triple (to_do e rq res a (st # rest)) (perform_stage e a st) (\<lambda>_. to_do e rq res a rest) E"
proof -
  have log: "triple (to_do e rq res a (st' # rest)) (seq (vlog act) (vask f)) (\<lambda>_. to_do e rq res a rest) E"
    if "args_for rq res a \<Longrightarrow> records_result rq res act" "stage_of act = [st']" for act st' and f :: "nat \<Rightarrow> unit reply"
    by (rule triple_seq [OF triple_log triple_ask]) (use that to_do_log in \<open>auto simp: to_do_def\<close>)
  show ?thesis
  proof (cases st)
    case AppendCompleted
    then show ?thesis by (simp add: perform_stage_def) (rule log, auto simp: args_for_def)
  next
    case AppendStopped
    then show ?thesis by (simp add: perform_stage_def) (rule log, auto simp: args_for_def)
  next
    case FinalizeMetadata
    then show ?thesis by (simp add: perform_stage_def) (rule log, auto simp: args_for_def)
  qed
qed

lemma triple_persist: "triple (to_do e rq res a rest) (run_persist e a rest) (done_with e rq res) E"
proof (induction rest)
  case Nil
  show ?case
    by (auto simp: triple_def prog_defs to_do_def done_with_def recorded_def core_inv_def)
next
  case (Cons st rest)
  have "triple (to_do e rq res a rest)
    (case r of Done _ \<Rightarrow> run_persist e a rest | Failed x \<Rightarrow> ret (PersistDone (Some x)) | Hangs \<Rightarrow> ret (PersistPending rest a))
    (done_with e rq res) E" for r :: "unit reply"
    using Cons.IH to_do_done by (cases r) (auto intro: triple_ret)
  then show ?case unfolding run_persist.simps by (rule triple_bind [OF triple_stage])
qed

lemma triple_set_task:
  "triple (done_with e rq res k) (set_persist_task k) (\<lambda>_ s. child_inv e rq s \<and> vt_result s = Some res) E"
  unfolding set_persist_task_def
  by (rule triple_modify) (auto simp: done_with_def recorded_def core_inv_def child_inv_def)

lemma triple_resume:
  "triple (\<lambda>s. child_inv e rq s \<and> vt_result s = Some res) (resume_persist e) (\<lambda>_ s. child_inv e rq s \<and> vt_result s = Some res) E"
  unfolding resume_persist_def
proof (rule triple_bind_reads)
  fix k
  let ?P = "\<lambda>s. child_inv e rq s \<and> vt_result s = Some res"
  show "triple (\<lambda>s. ?P s \<and> vt_task s = k)
    (case k of
       Some (PersistPending rest a) \<Rightarrow>
         bind (vask (ve_late e)) (\<lambda>r. case r of
           Done _ \<Rightarrow> bind (run_persist e a rest) set_persist_task
         | Failed x \<Rightarrow> set_persist_task (PersistDone (Some x)) | Hangs \<Rightarrow> ret ())
     | _ \<Rightarrow> ret ()) (\<lambda>_. ?P) E"
  proof (cases "\<exists>rest a. k = Some (PersistPending rest a)")
    case False
    then show ?thesis by (auto intro: triple_ret split: option.split persist_task.split)
  next
    case True
    then obtain rest a where k: "k = Some (PersistPending rest a)" by blast
    let ?T = "\<lambda>s. ?P s \<and> to_do e rq res a rest s"
    have "triple ?T (case r of Done _ \<Rightarrow> bind (run_persist e a rest) set_persist_task
        | Failed x \<Rightarrow> set_persist_task (PersistDone (Some x)) | Hangs \<Rightarrow> ret ()) (\<lambda>_. ?P) E" for r :: "unit reply"
    proof (cases r)
      case (Done u)
      have "triple (to_do e rq res a rest) (bind (run_persist e a rest) set_persist_task) (\<lambda>_. ?P) E"
        by (rule triple_bind [OF triple_persist triple_set_task])
      then have "triple ?T (bind (run_persist e a rest) set_persist_task) (\<lambda>_. ?P) E" by (rule triple_pre) simp
      with Done show ?thesis by simp
    next
      case (Failed x)
      have "triple ?T (set_persist_task (PersistDone (Some x))) (\<lambda>_. ?P) E"
        by (rule triple_pre [OF triple_set_task]) (use to_do_done in blast)
      with Failed show ?thesis by simp
    next
      case Hangs
      then show ?thesis by (auto intro: triple_ret)
    qed
    moreover have "triple (\<lambda>s. ?P s \<and> vt_task s = k) (vask (ve_late e)) (\<lambda>_. ?T) E"
      by (rule triple_ask) (auto simp: k child_inv_def to_do_def recorded_def core_inv_def)
    ultimately show ?thesis unfolding k by (simp add: triple_bind)
  qed
qed

lemma triple_shield:
  assumes "\<And>s. P s \<Longrightarrow> Q () s" "\<And>x s. P s \<Longrightarrow> E x s"
  shows "triple P shield_persist Q E"
  using assms by (auto simp: triple_def shield_persist_def prog_defs split: option.splits persist_task.splits)

subsection \<open>The end of a child\<close>

lemma finished_sound:
  "sound_ending rq st vs u \<Longrightarrow> child_result_ok \<lparr>cx_child_id = cr_child_id rq, cx_parent_run_id = cr_parent_run_id rq,
     cx_status = st, cx_usage = u, cx_latency = l, cx_verdicts = vs\<rparr>
   \<Longrightarrow> sound_result rq \<lparr>cx_child_id = cr_child_id rq, cx_parent_run_id = cr_parent_run_id rq,
     cx_status = st, cx_usage = u, cx_latency = l, cx_verdicts = vs\<rparr>"
  by (simp add: sound_result_def child_result_ok_def)

lemma begin_record:
  assumes "core_inv e rq s" "unfinished s" "sound_result rq res" "args_for rq res a"
  shows "to_do e rq res a terminal_stages (s\<lparr>vt_started := True, vt_result := Some res\<rparr>)"
  using assms no_stage_records [of "vs_trace s" rq res] by (simp add: to_do_def recorded_def unfinished_def core_inv_def)

definition ended :: "verifier_env \<Rightarrow> child_request \<Rightarrow> child_result \<Rightarrow> verifier_state \<Rightarrow> bool" where
  "ended e rq res s = (child_inv e rq s \<and> vt_result s = Some res)"

lemma ended_sound: "ended e rq res s \<Longrightarrow> sound_result rq res"
  using result_sound by (auto simp: ended_def)

lemma triple_finish:
  assumes "sound_ending rq st vs u"
  shows "triple (child_inv e rq) (finish_child e rq st vs started reason attempts u) (ended e rq) (\<lambda>_. child_inv e rq)"
  unfolding finish_child_def Let_def
proof (rule triple_bind [where Q' = "\<lambda>_. child_inv e rq"], goal_cases)
  case 1
  show ?case unfolding vclock_def by (rule triple_ask) simp
next
  case (2 now)
  let ?res = "\<lparr>cx_child_id = cr_child_id rq, cx_parent_run_id = cr_parent_run_id rq, cx_status = st, cx_usage = u,
    cx_latency = now - started, cx_verdicts = vs\<rparr>"
  let ?a = "\<lparr>pa_attempts = attempts, pa_payload = terminal_payload rq st vs u reason, pa_status = st, pa_usage = u,
    pa_latency = cx_latency ?res\<rparr>"
  let ?persist = "bind (run_persist e ?a [AppendCompleted, AppendStopped, FinalizeMetadata]) set_persist_task"
  let ?first = "seq (modify (\<lambda>s. s\<lparr>vt_started := True, vt_result := Some ?res\<rparr>)) (seq ?persist (seq shield_persist (ret ?res)))"
  have again: "triple (ended e rq res) (seq shield_persist (ret res)) (ended e rq) (\<lambda>_. child_inv e rq)" for res
    by (rule triple_seq [OF triple_shield triple_ret]) (auto simp: ended_def)
  have first: "triple (\<lambda>s. child_inv e rq s \<and> \<not> vt_started s) ?first (ended e rq) (\<lambda>_. child_inv e rq)" if "child_result_ok ?res"
  proof -
    have "triple (to_do e rq ?res ?a terminal_stages) ?persist (\<lambda>_. ended e rq ?res) (\<lambda>_. child_inv e rq)"
      unfolding ended_def terminal_stages_def by (rule triple_bind [OF triple_persist triple_set_task])
    from triple_seq [OF this again]
    have "triple (to_do e rq ?res ?a terminal_stages) (seq ?persist (seq shield_persist (ret ?res))) (ended e rq) (\<lambda>_. child_inv e rq)" .
    moreover have "triple (\<lambda>s. child_inv e rq s \<and> \<not> vt_started s) (modify (\<lambda>s. s\<lparr>vt_started := True, vt_result := Some ?res\<rparr>))
      (\<lambda>_. to_do e rq ?res ?a terminal_stages) (\<lambda>_. child_inv e rq)"
    proof (rule triple_modify)
      fix s assume "child_inv e rq s \<and> \<not> vt_started s"
      then have "core_inv e rq s" "unfinished s" using not_started_inv by blast+
      then show "to_do e rq ?res ?a terminal_stages (s\<lparr>vt_started := True, vt_result := Some ?res\<rparr>)"
        by (rule begin_record [OF _ _ finished_sound [OF assms that]]) (auto simp: args_for_def)
    qed
    ultimately show ?thesis by (rule triple_seq [rotated])
  qed
  have "triple (\<lambda>s. child_inv e rq s \<and> id s = s0)
    (if vt_started s0 then (case vt_result s0 of None \<Rightarrow> throw VError | Some res' \<Rightarrow> seq shield_persist (ret res')) else ?first)
    (ended e rq) (\<lambda>_. child_inv e rq)" if "child_result_ok ?res" for s0
  proof (cases "vt_started s0")
    case True
    then show ?thesis
      by (auto intro!: triple_throw triple_pre [OF again] simp: ended_def split: option.split)
  next
    case False
    have "triple (\<lambda>s. child_inv e rq s \<and> id s = s0) ?first (ended e rq) (\<lambda>_. child_inv e rq)"
      by (rule triple_pre [OF first [OF that]]) (use False in auto)
    then show ?thesis by (simp only: False if_False)
  qed
  then have "triple (child_inv e rq) (bind (reads id) (\<lambda>s0.
      if vt_started s0 then (case vt_result s0 of None \<Rightarrow> throw VError | Some res' \<Rightarrow> seq shield_persist (ret res')) else ?first))
    (ended e rq) (\<lambda>_. child_inv e rq)" if "child_result_ok ?res"
    using that by (blast intro: triple_bind_reads)
  moreover have "triple (child_inv e rq) (throw VError) (ended e rq) (\<lambda>_. child_inv e rq)" by (rule triple_throw)
  ultimately show ?case by (intro triple_if) (simp_all only: not_not)
qed

lemma triple_fail:
  "st \<noteq> COMPLETED_CHILD \<Longrightarrow> triple (child_inv e rq) (fail_child e rq started st reason) (ended e rq) (\<lambda>_. child_inv e rq)"
  unfolding fail_child_def by (rule triple_bind_reads) (rule triple_pre [OF triple_finish], auto simp: fail_closed_sound)

lemma triple_child_failed: "triple (child_inv e rq) (child_failed e rq started x) (ended e rq) (\<lambda>_. child_inv e rq)"
proof -
  have "triple (child_inv e rq) (seq (fail_child e rq started CANCELLED_CHILD PROVIDER_ERROR_REASON) (throw VCancelled)) (ended e rq)
    (\<lambda>_. child_inv e rq)"
    unfolding seq_def by (rule triple_bind [OF triple_fail triple_throw]) (auto simp: ended_def)
  then show ?thesis unfolding child_failed_def by (cases x) (auto intro: triple_fail triple_throw)
qed

lemma triple_deadline:
  assumes op: "triple P operation Q (\<lambda>_. I)" and ends: "\<And>s. P s \<Longrightarrow> I s" "\<And>a s. Q a s \<Longrightarrow> I s"
    and steps: "\<And>s n. P s \<Longrightarrow> P (s\<lparr>vs_step := n\<rparr>)" "\<And>a s n. Q a s \<Longrightarrow> Q a (s\<lparr>vs_step := n\<rparr>)" "\<And>s n. I s \<Longrightarrow> I (s\<lparr>vs_step := n\<rparr>)"
  shows "triple P (await_child e fired cancelled operation deadline) Q (\<lambda>_. I)"
proof (rule tripleI)
  fix s assume "P s"
  then have I: "I (s\<lparr>vs_step := Suc (vs_step s)\<rparr>)" and P: "P (s\<lparr>vs_step := Suc (Suc (vs_step s))\<rparr>)"
    using ends(1) steps(1) by blast+
  show "case await_child e fired cancelled operation deadline s of (Inl x, s') \<Rightarrow> I s' | (Inr a, s') \<Rightarrow> Q a s'"
  proof (cases "operation (s\<lparr>vs_step := Suc (Suc (vs_step s))\<rparr>)")
    case (Pair r s')
    show ?thesis
    proof (cases r)
      case (Inl x)
      with Pair have "I s'" using tripleE [OF op P] by blast
      with I steps(3) show ?thesis
        by (cases x) (simp_all add: await_child_def vclock_def vask_def prog_defs Pair Inl)
    next
      case (Inr a)
      with Pair have "Q a s'" using tripleD [OF op P] by blast
      with I steps ends(2) show ?thesis
        by (simp add: await_child_def vclock_def vask_def prog_defs Pair Inr)
    qed
  qed
qed

subsection \<open>The attempts\<close>

definition running :: "verifier_env \<Rightarrow> child_request \<Rightarrow> verifier_state \<Rightarrow> bool" where
  "running e rq s = (core_inv e rq s \<and> unfinished s)"

definition ready :: "verifier_env \<Rightarrow> child_request \<Rightarrow> verifier_state \<Rightarrow> bool" where
  "ready e rq s =
     (running e rq s \<and> envelope_seen e rq (vs_trace s) \<and> (vs_attempts s = 0 \<or> vs_attempts s \<le> vb_retries (cr_budget rq)))"

lemma running_simps [simp]:
  "running e rq (s\<lparr>vs_step := n\<rparr>) = running e rq s" "running e rq (s\<lparr>vs_usage := u\<rparr>) = running e rq s"
  "running e rq (s\<lparr>vs_messages := ms\<rparr>) = running e rq s" "running e rq (s\<lparr>vs_nonces := rows\<rparr>) = running e rq s"
  "ready e rq (s\<lparr>vs_step := n\<rparr>) = ready e rq s" "ready e rq (s\<lparr>vs_messages := ms\<rparr>) = ready e rq s"
  by (simp_all add: running_def ready_def core_inv_def unfinished_def)

lemma running_inv: "running e rq s \<Longrightarrow> child_inv e rq s"
  by (simp add: running_def unfinished_inv)

lemma triple_execute:
  "triple (ready e rq) (execute_child e rq) (\<lambda>vs s. running e rq s \<and> sound_ending rq COMPLETED_CHILD vs (vs_usage s)) (\<lambda>_. running e rq)"
proof (rule tripleI)
  fix s assume "ready e rq s"
  then show "case execute_child e rq s of (Inl x, s') \<Rightarrow> running e rq s'
    | (Inr vs, s') \<Rightarrow> running e rq s' \<and> sound_ending rq COMPLETED_CHILD vs (vs_usage s')"
  proof (induction e rq s rule: execute_child.induct)
    case (1 e rq s)
    let ?n = "vs_attempts s + 1"
    let ?P = "\<lambda>n t. running e rq t \<and> envelope_seen e rq (vs_trace t) \<and> vs_attempts t = n"
    let ?Q = "\<lambda>r t. case r of None \<Rightarrow> ready e rq t | Some vs \<Rightarrow> running e rq t \<and> sound_ending rq COMPLETED_CHILD vs (vs_usage t)"
    have "triple (\<lambda>t. ready e rq t \<and> vs_attempts t = vs_attempts s) (attempt e rq) ?Q (\<lambda>_. running e rq)"
      by (rule triple_attempt [where P = ?P and n = ?n])
        (auto simp: ready_def parsed_sound running_def core_inv_def unfinished_def)
    then have "case attempt e rq s of (Inl x, s') \<Rightarrow> running e rq s' | (Inr a, s') \<Rightarrow> ?Q a s'"
      using "1.prems" by (simp add: triple_def)
    with "1.IH" show ?case
      by (subst execute_child.simps) (auto split: prod.splits sum.splits option.splits)
  qed
qed

subsection \<open>The call\<close>

definition waiting :: "verifier_env \<Rightarrow> child_request \<Rightarrow> verifier_state \<Rightarrow> bool" where
  "waiting e rq s = (running e rq s \<and> vs_attempts s = 0)"

lemma waiting_simps [simp]:
  "waiting e rq (s\<lparr>vs_step := n\<rparr>) = waiting e rq s" "waiting e rq (s\<lparr>vs_nonces := rows\<rparr>) = waiting e rq s"
  by (simp_all add: waiting_def)

lemma triple_check_deadline:
  assumes "\<And>s n. P s \<Longrightarrow> P (s\<lparr>vs_step := n\<rparr>)" "\<And>s. P s \<Longrightarrow> running e rq s"
  shows "triple P (check_deadline e rq started) (\<lambda>_. P) (\<lambda>_. running e rq)"
  using assms by (auto simp: triple_def check_deadline_def vclock_def vask_def prog_defs)

lemma triple_consume:
  assumes "ve_envelopes e = Some sv" "budgets_equal (en_budget en) (verifier_budget rq)"
  shows "triple (waiting e rq) (consume_envelope e rq sv en) (\<lambda>_. ready e rq) (\<lambda>_. running e rq)"
  unfolding consume_envelope_def
proof (rule triple_bind [where Q' = "\<lambda>_. waiting e rq"], goal_cases)
  case 1
  show ?case by (rule triple_ask) simp
next
  case (2 current)
  have database: "triple (waiting e rq) (if b then vawait (ve_database e) else ret ()) (\<lambda>_. waiting e rq) (\<lambda>_. running e rq)" for b
    by (rule triple_if) (auto intro!: triple_await triple_ret simp: waiting_def)
  have "triple (\<lambda>s. waiting e rq s \<and> vs_nonces s = rows)
    (case verify_and_consume (ve_mac e) (ve_sha256 e) sv current (verifier_scope e rq) en rows of
       (rows', Inl _) \<Rightarrow> throw VInvalidEnvelope
     | (rows', Inr _) \<Rightarrow> seq (modify (\<lambda>s. s\<lparr>vs_nonces := rows'\<rparr>)) (vlog (Consumed en))) (\<lambda>_. ready e rq) (\<lambda>_. running e rq)" for rows
  proof (cases "verify_and_consume (ve_mac e) (ve_sha256 e) sv current (verifier_scope e rq) en rows")
    case (Pair rows' r)
    show ?thesis
    proof (cases r)
      case (Inl x)
      then show ?thesis by (simp add: Pair) (auto intro: triple_throw simp: waiting_def)
    next
      case (Inr u)
      note ok = consumed(2,3) [OF Pair [unfolded Inr]]
      have "triple (\<lambda>s. waiting e rq s \<and> vs_nonces s = rows) (seq (modify (\<lambda>s. s\<lparr>vs_nonces := rows'\<rparr>)) (vlog (Consumed en)))
        (\<lambda>_. ready e rq) (\<lambda>_. running e rq)"
        by (rule triple_seq [OF triple_modify [where Q = "\<lambda>_. waiting e rq"] triple_log])
          (auto simp: ok assms waiting_def ready_def running_def core_inv_def unfinished_def)
      then show ?thesis by (simp add: Pair Inr)
    qed
  qed
  then show ?case by (rule triple_seq [OF database triple_bind_reads])
qed

lemma triple_admit: "triple (waiting e rq) (admit_child e rq envelope started) (\<lambda>_. ready e rq) (\<lambda>_. running e rq)"
proof -
  have refuse: "triple (waiting e rq) (throw VInvalidEnvelope) (\<lambda>_. ready e rq) (\<lambda>_. running e rq)"
    by (rule triple_throw) (simp add: waiting_def)
  have "triple (waiting e rq) (seq (consume_envelope e rq sv en) (check_deadline e rq started)) (\<lambda>_. ready e rq) (\<lambda>_. running e rq)"
    if "ve_envelopes e = Some sv" "budgets_equal (en_budget en) (verifier_budget rq)" for sv en
    by (rule triple_seq [OF triple_consume [OF that] triple_check_deadline]) (auto simp: ready_def)
  with refuse show ?thesis unfolding admit_child_def
    by (auto intro!: triple_ret triple_if simp: waiting_def ready_def envelope_seen_def split: option.split)
qed

lemma triple_quiet_log:
  assumes "\<not> asks_provider a" "stage_of a = []"
  shows "triple (ready e rq) (seq (vlog a) (vawait f)) (\<lambda>_. ready e rq) (\<lambda>_. running e rq)"
  by (rule triple_seq [OF triple_log triple_await [where P = "ready e rq"]])
    (use assms in \<open>auto simp: ready_def running_def core_inv_def unfinished_def\<close>)

lemma triple_completed:
  "triple (\<lambda>s. running e rq s \<and> sound_ending rq COMPLETED_CHILD vs (vs_usage s)) (child_completed e rq started vs) (ended e rq)
     (\<lambda>_. child_inv e rq)"
  unfolding child_completed_def
proof (rule triple_bind_reads)
  fix s0
  show "triple (\<lambda>s. (running e rq s \<and> sound_ending rq COMPLETED_CHILD vs (vs_usage s)) \<and> id s = s0)
    (finish_child e rq COMPLETED_CHILD vs started None (vs_attempts s0) (vs_usage s0)) (ended e rq) (\<lambda>_. child_inv e rq)"
  proof (cases "sound_ending rq COMPLETED_CHILD vs (vs_usage s0)")
    case True
    show ?thesis by (rule triple_pre [OF triple_finish [OF True]]) (auto simp: running_inv)
  qed (auto simp: triple_def)
qed

lemma triple_attempts:
  "triple (ready e rq)
     (\<lambda>s. case await_child e (ve_inner_fired e) VGone (execute_child e rq) deadline s of
        (Inl x, s') \<Rightarrow> child_failed e rq started x s' | (Inr vs, s') \<Rightarrow> child_completed e rq started vs s')
     (ended e rq) (\<lambda>_. child_inv e rq)"
proof (rule tripleI)
  fix s assume s: "ready e rq s"
  have run: "triple (ready e rq) (await_child e (ve_inner_fired e) VGone (execute_child e rq) deadline)
    (\<lambda>vs s. running e rq s \<and> sound_ending rq COMPLETED_CHILD vs (vs_usage s)) (\<lambda>_. running e rq)"
    by (rule triple_deadline [OF triple_execute]) (auto simp: ready_def)
  show "case case await_child e (ve_inner_fired e) VGone (execute_child e rq) deadline s of
      (Inl x, s') \<Rightarrow> child_failed e rq started x s' | (Inr vs, s') \<Rightarrow> child_completed e rq started vs s' of
    (Inl x, s') \<Rightarrow> child_inv e rq s' | (Inr a, s') \<Rightarrow> ended e rq a s'"
  proof (cases "await_child e (ve_inner_fired e) VGone (execute_child e rq) deadline s")
    case (Pair r s')
    show ?thesis
    proof (cases r)
      case (Inl x)
      with tripleE [OF run s] Pair have "child_inv e rq s'" by (simp add: running_inv)
      with triple_child_failed [of e rq started x] show ?thesis by (simp add: Pair Inl triple_def)
    next
      case (Inr vs)
      with tripleD [OF run s] Pair have "running e rq s' \<and> sound_ending rq COMPLETED_CHILD vs (vs_usage s')" by blast
      with triple_completed [of e rq vs started] show ?thesis by (simp add: Pair Inr triple_def)
    qed
  qed
qed

lemma triple_verify_inner:
  "triple (waiting e rq) (verify_inner e rq envelope started) (ended e rq) (\<lambda>_. child_inv e rq)"
proof -
  have weaken: "triple P m Q (\<lambda>_. child_inv e rq)" if "triple P m Q (\<lambda>_. running e rq)" for P Q and m :: "'a vprog"
    using that by (rule triple_conseq) (auto simp: running_inv)
  have deadline: "triple (ready e rq) (check_deadline e rq started) (\<lambda>_. ready e rq) (\<lambda>_. running e rq)"
    by (rule triple_check_deadline) (auto simp: ready_def)
  have factory: "triple (ready e rq) (case ve_factory e of Some x \<Rightarrow> throw x | None \<Rightarrow> ret ()) (\<lambda>_. ready e rq) (\<lambda>_. running e rq)"
    by (auto intro!: triple_throw triple_ret simp: ready_def split: option.split)
  have over: "triple (ready e rq) (fail_child e rq started FAILED_CHILD BUDGET_EXCEEDED) (ended e rq) (\<lambda>_. child_inv e rq)"
    by (rule triple_pre [OF triple_fail]) (auto simp: ready_def running_inv)
  have attempts: "triple (ready e rq) (seq (modify (\<lambda>s. s\<lparr>vs_messages := verifier_messages rq\<rparr>))
      (\<lambda>s. case await_child e (ve_inner_fired e) VGone (execute_child e rq) (started + vb_timeout (cr_budget rq)) s of
         (Inl x, s') \<Rightarrow> child_failed e rq started x s' | (Inr vs, s') \<Rightarrow> child_completed e rq started vs s'))
    (ended e rq) (\<lambda>_. child_inv e rq)"
    by (rule triple_seq [OF triple_modify triple_attempts]) simp
  show ?thesis unfolding verify_inner_def verify_admitted_def append_child_event_def Let_def
    by (intro triple_seq [OF weaken [OF triple_admit]] triple_seq [OF weaken [OF triple_quiet_log]] triple_seq [OF weaken [OF deadline]]
        triple_seq [OF weaken [OF factory]] triple_if over attempts) simp_all
qed

lemma triple_resume_inv: "triple (child_inv e rq) (resume_persist e) (\<lambda>_. child_inv e rq) E"
proof (rule tripleI)
  fix s assume s: "child_inv e rq s"
  show "case resume_persist e s of (Inl x, s') \<Rightarrow> E x s' | (Inr a, s') \<Rightarrow> child_inv e rq s'"
  proof (cases "vt_result s")
    case None
    with s have "vt_task s = None" by (simp add: child_inv_def unfinished_def)
    with s show ?thesis by (simp add: resume_persist_def prog_defs)
  next
    case (Some res)
    with s have "child_inv e rq s \<and> vt_result s = Some res" by simp
    from triple_resume [of e rq res E, unfolded triple_def, rule_format, OF this] show ?thesis
      by (simp split: prod.splits sum.splits)
  qed
qed

lemma triple_bounded_finish:
  assumes "st \<noteq> COMPLETED_CHILD"
  shows "triple (child_inv e rq) (bounded_finish e rq st reason started) (\<lambda>_. child_inv e rq) (\<lambda>_. child_inv e rq)"
proof -
  have resume: "triple (child_inv e rq) (seq (resume_persist e) (resume_persist e)) (\<lambda>_. child_inv e rq) (\<lambda>_. child_inv e rq)"
    by (rule triple_seq [OF triple_resume_inv triple_resume_inv])
  have "triple (child_inv e rq) (await_child e (ve_deadline_fired e) VCancelled
    (finish_child e rq st (fail_closed rq reason) started (Some reason) 0 no_usage) deadline) (\<lambda>_. child_inv e rq) (\<lambda>_. child_inv e rq)"
    for deadline
    by (rule triple_deadline, rule triple_conseq [OF triple_finish [OF fail_closed_sound [OF assms]]]) (auto simp: ended_def)
  then have "triple (child_inv e rq) (try_catch
      (seq (await_child e (ve_deadline_fired e) VCancelled
         (finish_child e rq st (fail_closed rq reason) started (Some reason) 0 no_usage) deadline) (ret ()))
      (\<lambda>x. ret ())) (\<lambda>_. child_inv e rq) (\<lambda>_. child_inv e rq)" for deadline
    unfolding seq_def by (rule triple_try [OF triple_bind]) (auto intro: triple_ret)
  moreover have "triple (child_inv e rq) (vclock e) (\<lambda>_. child_inv e rq) (\<lambda>_. child_inv e rq)"
    unfolding vclock_def by (rule triple_ask) simp
  ultimately have "triple (child_inv e rq) (bind (vclock e) (\<lambda>now. try_catch
      (seq (await_child e (ve_deadline_fired e) VCancelled
         (finish_child e rq st (fail_closed rq reason) started (Some reason) 0 no_usage) (now + TERMINAL_CLEANUP)) (ret ()))
      (\<lambda>x. ret ()))) (\<lambda>_. child_inv e rq) (\<lambda>_. child_inv e rq)"
    by (blast intro: triple_bind)
  with resume show ?thesis unfolding bounded_finish_def
    by (intro triple_bind_reads_any triple_if)
qed

definition returns_soundly :: "verifier_env \<Rightarrow> child_request \<Rightarrow> child_result \<Rightarrow> verifier_state \<Rightarrow> bool" where
  "returns_soundly e rq res s = (child_inv e rq s \<and> sound_result rq res \<and> (vt_result s = Some res \<or> vt_result s = None))"

lemma ended_returns: "ended e rq res s \<Longrightarrow> returns_soundly e rq res s"
  using ended_sound by (auto simp: returns_soundly_def ended_def)

lemma triple_fresh_timeout:
  "triple (\<lambda>s. child_inv e rq s \<and> vt_result s = None) (fresh_timeout e rq started) (returns_soundly e rq) (\<lambda>_. child_inv e rq)"
  using finished_sound [OF fail_closed_sound [of TIMEOUT_CHILD rq TIMEOUT_REASON no_usage]]
  by (auto simp: triple_def fresh_timeout_def Let_def vclock_def vask_def prog_defs returns_soundly_def)

lemma triple_timed_out:
  "triple (child_inv e rq) (child_timed_out e rq started) (returns_soundly e rq) (\<lambda>_. child_inv e rq)"
proof -
  let ?bounded = "bounded_finish e rq TIMEOUT_CHILD TIMEOUT_REASON started"
  have finish: "triple (child_inv e rq) ?bounded (\<lambda>_. child_inv e rq) (\<lambda>_. child_inv e rq)"
    by (rule triple_bounded_finish) simp
  have found: "triple (\<lambda>s. child_inv e rq s \<and> vt_result s = Some res) (ret res) (returns_soundly e rq) (\<lambda>_. child_inv e rq)" for res
    by (rule triple_ret) (simp add: ended_returns ended_def)
  have "triple (\<lambda>s. child_inv e rq s \<and> vt_result s = r) (case r of Some res \<Rightarrow> ret res | None \<Rightarrow> fresh_timeout e rq started)
    (returns_soundly e rq) (\<lambda>_. child_inv e rq)" for r
    using found triple_fresh_timeout by (cases r) auto
  then have second: "triple (child_inv e rq)
    (seq ?bounded (bind (reads vt_result) (\<lambda>r. case r of Some res \<Rightarrow> ret res | None \<Rightarrow> fresh_timeout e rq started)))
    (returns_soundly e rq) (\<lambda>_. child_inv e rq)"
    by (blast intro: triple_seq [OF finish] triple_bind_reads)
  have "triple (\<lambda>s. child_inv e rq s \<and> vt_result s = r)
    (case if b then r else None of Some res \<Rightarrow> ret res
     | None \<Rightarrow> seq ?bounded (bind (reads vt_result) (\<lambda>r. case r of Some res \<Rightarrow> ret res | None \<Rightarrow> fresh_timeout e rq started)))
    (returns_soundly e rq) (\<lambda>_. child_inv e rq)" for r b
  proof (cases "if b then r else None")
    case None
    show ?thesis unfolding None option.case by (rule triple_pre [OF second]) simp
  next
    case (Some res)
    then have "r = Some res" by (simp split: if_splits)
    with Some show ?thesis using found by simp
  qed
  moreover have "triple (child_inv e rq) (if b then ?bounded else ret ()) (\<lambda>_. child_inv e rq) (\<lambda>_. child_inv e rq)" for b
    using finish by (auto intro: triple_ret)
  ultimately have "triple (child_inv e rq) (seq (if b then ?bounded else ret ()) (bind (reads vt_result) (\<lambda>r.
      case if b then r else None of Some res \<Rightarrow> ret res
      | None \<Rightarrow> seq ?bounded (bind (reads vt_result) (\<lambda>r. case r of Some res \<Rightarrow> ret res | None \<Rightarrow> fresh_timeout e rq started)))))
    (returns_soundly e rq) (\<lambda>_. child_inv e rq)" for b
    by (intro triple_seq [OF _ triple_bind_reads]) blast+
  then show ?thesis unfolding child_timed_out_def by (rule triple_bind_reads_any)
qed

lemma triple_cancelled: "triple (child_inv e rq) (child_cancelled e rq started) (returns_soundly e rq) (\<lambda>_. child_inv e rq)"
proof -
  have "triple (child_inv e rq) (if b then ret () else bounded_finish e rq CANCELLED_CHILD PROVIDER_ERROR_REASON started)
    (\<lambda>_. child_inv e rq) (\<lambda>_. child_inv e rq)" for b
    using triple_bounded_finish by (auto intro: triple_ret)
  then have "triple (child_inv e rq)
    (seq (if b then ret () else bounded_finish e rq CANCELLED_CHILD PROVIDER_ERROR_REASON started) (throw VCancelled))
    (returns_soundly e rq) (\<lambda>_. child_inv e rq)" for b
    by (blast intro: triple_seq triple_throw)
  then show ?thesis unfolding child_cancelled_def by (rule triple_bind_reads_any)
qed

lemma triple_verify_child:
  "triple (waiting e rq) (verify_child e rq envelope) (returns_soundly e rq) (\<lambda>_. child_inv e rq)"
proof -
  have "triple (waiting e rq) (verify_inner e rq envelope started) (returns_soundly e rq) (\<lambda>_. child_inv e rq)" for started
    by (rule triple_conseq [OF triple_verify_inner]) (auto simp: ended_returns)
  then have "triple (waiting e rq) (await_child e (ve_deadline_fired e) VCancelled (verify_inner e rq envelope started) deadline)
    (returns_soundly e rq) (\<lambda>_. child_inv e rq)" for started deadline
    by (rule triple_deadline) (auto simp: waiting_def running_inv returns_soundly_def)
  moreover have "triple (child_inv e rq) (case x of VDeadline \<Rightarrow> child_timed_out e rq started
      | VCancelled \<Rightarrow> child_cancelled e rq started | _ \<Rightarrow> throw x) (returns_soundly e rq) (\<lambda>_. child_inv e rq)" for x started
    using triple_timed_out triple_cancelled by (cases x) (auto intro: triple_throw)
  moreover have "triple (waiting e rq) (vclock e) (\<lambda>_. waiting e rq) (\<lambda>_. child_inv e rq)"
    unfolding vclock_def by (rule triple_ask) simp
  ultimately show ?thesis unfolding verify_child_def
    by (blast intro: triple_bind triple_try)
qed

lemma waiting_new: "waiting e rq (new_child rows)"
  by (simp add: waiting_def running_def core_inv_def unfinished_def new_child_def)

lemma call_keeps_inv: "verify_child e rq envelope (new_child rows) = (r, s) \<Longrightarrow> child_inv e rq s"
  using tripleD [OF triple_verify_child waiting_new] tripleE [OF triple_verify_child waiting_new]
  by (cases r) (auto simp: returns_soundly_def)

lemma call_returns:
  "verify_child e rq envelope (new_child rows) = (Inr res, s) \<Longrightarrow> sound_result rq res \<and> (vt_result s = Some res \<or> vt_result s = None)"
  using tripleD [OF triple_verify_child waiting_new] by (auto simp: returns_soundly_def)

subsection \<open>A call\<close>

text \<open>A first answer in prose, a second with the verdict, and an envelope issued for the request.\<close>

definition verifier_request :: child_request where
  "verifier_request =
     \<lparr>cr_child_id = ''c'', cr_parent_run_id = ''p'', cr_user_id = ''u'', cr_project_id = ''q'', cr_policy_id = ''strict'', cr_model = ''m'',
      cr_claims = [\<lparr>ci_claim_id = ''c1'', ci_claim_hash = replicate 64 (CHR ''0''), ci_text = ''It rains'', ci_evidence_ids = [''e1'']\<rparr>],
      cr_evidence = [\<lparr>es_evidence_id = ''e1'', es_document_id = ''d'', es_chunk_id = ''k'', es_content_hash = replicate 64 (CHR ''1''),
                      es_quote = ''rain''\<rparr>],
      cr_budget = \<lparr>vb_input_tokens = 4000, vb_output_tokens = 100, vb_timeout = 5000, vb_timeout_repr = ''5.0'', vb_retries = 1\<rparr>\<rparr>"

definition demo_verdict :: json where
  "demo_verdict = JObj [(''verdicts'', JList [JObj [(''claim_id'', JStr ''c1''), (''status'', JStr ''supported''),
     (''reason_code'', JStr ''evidence_supports''), (''confidence'', JFloat ''0.9''), (''evidence_ids'', JList [JStr ''e1''])]])]"

definition demo_tokens :: token_usage where
  "demo_tokens = \<lparr>tu_input_tokens = 200, tu_output_tokens = 20, tu_cache_read = None, tu_cache_write = None\<rparr>"

definition demo_child :: verifier_env where
  "demo_child =
     \<lparr>ve_envelopes = Some demo_service, ve_mac = demo_mac, ve_sha256 = (\<lambda>_. replicate 64 (CHR ''0'')),
      ve_loads = (\<lambda>t. if t = ''{}'' then Inr demo_verdict else Inl VDecode),
      ve_clock = (\<lambda>n. int n), ve_wall = (\<lambda>_. 1010), ve_database = (\<lambda>_. Done ()), ve_ensure = (\<lambda>_. Done ()),
      ve_append = (\<lambda>_. Done ()), ve_finalize = (\<lambda>_. Done ()), ve_late = (\<lambda>_. Hangs), ve_factory = None,
      ve_provider = (\<lambda>n ms k. Done \<lparr>vr_content = Some (if length ms = 2 then ''Yes.'' else ''{}''), vr_has_tool_calls = False,
                                     vr_usage = demo_tokens\<rparr>),
      ve_deadline_fired = (\<lambda>_. False), ve_inner_fired = (\<lambda>_. False)\<rparr>"

definition demo_envelope :: envelope where
  "demo_envelope =
     \<lparr>en_parent_run_id = ''p'', en_child_run_id = ''c'', en_owner_id = ''u'', en_project_id = ''q'',
      en_context_hash = replicate 64 (CHR ''0''), en_budget = verifier_budget verifier_request,
      en_schema_version = 1, en_issued_at = 1000, en_nonce = ''nonce-0001'', en_key_version = 1, en_signature = demo_mac [] []\<rparr>"

definition demo_admitted :: verifier_state where
  "demo_admitted =
     (new_child [receipt (ve_sha256 demo_child) 1010 demo_envelope])\<lparr>vs_step := 6, vs_trace := [Consumed demo_envelope]\<rparr>"

lemma demo_fields:
  "ve_envelopes demo_child = Some demo_service" "ve_mac demo_child = demo_mac" "ve_wall demo_child n = 1010"
  "ve_database demo_child n = Done ()" "ve_clock demo_child n = int n" "vb_timeout (cr_budget verifier_request) = 5000"
  "en_budget demo_envelope = verifier_budget verifier_request" "nr_nonce (receipt sha256 current en) = en_nonce en"
  by (simp_all add: demo_child_def verifier_request_def demo_envelope_def receipt_def)

lemma demo_admit:
  "admit_child demo_child verifier_request (Some demo_envelope) 0 ((new_child [])\<lparr>vs_step := 3\<rparr>) = (Inr (), demo_admitted)"
proof -
  have "budgets_equal (verifier_budget verifier_request) (verifier_budget verifier_request)" by code_simp
  moreover have "authentic_envelope demo_mac demo_service demo_envelope" "fresh_envelope demo_service 1010 demo_envelope"
    "in_scope (verifier_scope demo_child verifier_request) demo_envelope"
    by (simp_all add: authentic_envelope_def demo_service_def demo_envelope_def envelope_signature_def demo_mac_def fresh_envelope_def
        in_scope_def verifier_scope_def context_digest_def demo_child_def verifier_request_def)
  ultimately show ?thesis
    by (simp add: admit_child_def consume_envelope_def verify_and_consume_def insert_unique_def check_deadline_def vclock_def vask_def
        vawait_def vlog_def prog_defs demo_fields demo_admitted_def new_child_def)
qed

lemma demo_verifies:
  "case verify_admitted demo_child verifier_request 0 demo_admitted of
     (Inl x, s) \<Rightarrow> False
   | (Inr res, s) \<Rightarrow> cx_status res = COMPLETED_CHILD \<and> map cv_status (cx_verdicts res) = [SUPPORTED] \<and> vt_persisted s \<and> vs_step s < 100
       \<and> map asks_provider (vs_trace s) = [False, False, False, True, True, False, False, False]"
  by code_simp

lemma verifier_call:
  obtains res s where "verify_child demo_child verifier_request (Some demo_envelope) (new_child []) = (Inr res, s)"
    "cx_status res = COMPLETED_CHILD" "map cv_status (cx_verdicts res) = [SUPPORTED]" "vt_persisted s"
    "map asks_provider (vs_trace s) = [False, False, False, True, True, False, False, False]"
proof -
  obtain r s where run: "verify_admitted demo_child verifier_request 0 demo_admitted = (r, s)"
    by (cases "verify_admitted demo_child verifier_request 0 demo_admitted")
  with demo_verifies obtain res where r: "r = Inr res" by (cases r) simp_all
  note ok = demo_verifies [unfolded run r, simplified]
  have "verify_inner demo_child verifier_request (Some demo_envelope) 0 ((new_child [])\<lparr>vs_step := 3\<rparr>) = (Inr res, s)"
    by (simp add: verify_inner_def seq_def bind_def demo_admit run r)
  then have "verify_child demo_child verifier_request (Some demo_envelope) (new_child []) = (Inr res, s\<lparr>vs_step := Suc (vs_step s)\<rparr>)"
    using ok by (simp add: verify_child_def await_child_def vclock_def vask_def prog_defs demo_fields new_child_def numeral_3_eq_3)
  then show ?thesis by (rule that) (simp_all add: ok)
qed

lemma demo_request_ok: "request_ok verifier_request"
  by code_simp

subsection \<open>The verifier fails closed\<close>

text \<open>
  C9: the evidence verifier fails closed. Whatever the provider answers, and whenever a collaborator
  raises, hangs or is too late, a result the verifier returns has exactly one verdict for every claim of
  the request; a verdict cites only evidence that was delegated for its claim, and a supported one
  cites some; unless the child completed, every claim is escalated without evidence.
\<close>

theorem verdicts_fail_closed:
  assumes "verify_child e rq envelope (new_child rows) = (Inr res, s)"
  shows "distinct (map cv_claim_id (cx_verdicts res))
    \<and> set (map cv_claim_id (cx_verdicts res)) = set (map ci_claim_id (cr_claims rq))
    \<and> (\<forall>v \<in> set (cx_verdicts res). set (cv_evidence_ids v) \<subseteq> claim_evidence rq (cv_claim_id v)
         \<and> (cv_status v = SUPPORTED \<longrightarrow> cv_evidence_ids v \<noteq> []))
    \<and> (cx_status res \<noteq> COMPLETED_CHILD \<longrightarrow> (\<forall>v \<in> set (cx_verdicts res). cv_status v = ESCALATE \<and> cv_evidence_ids v = []))"
  using call_returns [OF assms] by (auto simp: sound_result_def sound_ending_def sound_verdict_def list_all_iff)

theorem verdicts_fail_closed_witness:
  "\<exists>e rq envelope res s. verify_child e rq envelope (new_child []) = (Inr res, s) \<and> map cv_status (cx_verdicts res) = [SUPPORTED]
     \<and> (\<forall>v \<in> set (cx_verdicts res). cv_evidence_ids v \<noteq> [])"
proof -
  obtain res s where call: "verify_child demo_child verifier_request (Some demo_envelope) (new_child []) = (Inr res, s)"
    "map cv_status (cx_verdicts res) = [SUPPORTED]" by (rule verifier_call)
  have "\<forall>v \<in> set (cx_verdicts res). cv_evidence_ids v \<noteq> []"
    using verdicts_fail_closed [OF call(1)] call(2) by auto
  with call show ?thesis by (intro exI conjI)
qed

subsection \<open>The budget\<close>

text \<open>
  C23: a verifier child stays within its budget. However the call ends, the provider has been asked at
  most once more than the retries of the budget, so at most twice; and a result of a completed
  child reports input and output tokens within the budget of the request.
\<close>

theorem child_within_budget:
  assumes "request_ok rq" "verify_child e rq envelope (new_child rows) = (r, s)"
  shows "asked (vs_trace s) \<le> vb_retries (cr_budget rq) + 1 \<and> asked (vs_trace s) \<le> 2
    \<and> (case r of
         Inl x \<Rightarrow> True
       | Inr res \<Rightarrow> cx_status res = COMPLETED_CHILD \<longrightarrow>
           tu_input_tokens (cx_usage res) \<le> vb_input_tokens (cr_budget rq) \<and> tu_output_tokens (cx_usage res) \<le> vb_output_tokens (cr_budget rq))"
proof -
  from assms(1) have "vb_retries (cr_budget rq) = 0 \<or> vb_retries (cr_budget rq) = 1"
    by (simp add: request_ok_def verification_budget_ok_def)
  with call_keeps_inv [OF assms(2)] have "asked (vs_trace s) \<le> vb_retries (cr_budget rq) + 1 \<and> asked (vs_trace s) \<le> 2"
    by (auto simp: child_inv_def core_inv_def)
  then show ?thesis using assms(2) call_returns [of e rq envelope rows _ s]
    by (auto simp: sound_result_def sound_ending_def over_budget_def split: sum.split)
qed

theorem child_within_budget_witness:
  "\<exists>e rq envelope res s. verify_child e rq envelope (new_child []) = (Inr res, s) \<and> asked (vs_trace s) = 2
     \<and> tu_output_tokens (cx_usage res) \<le> 100"
proof -
  obtain res s where call: "verify_child demo_child verifier_request (Some demo_envelope) (new_child []) = (Inr res, s)"
    "cx_status res = COMPLETED_CHILD"
    "map asks_provider (vs_trace s) = [False, False, False, True, True, False, False, False]" by (rule verifier_call)
  then have "length (filter id (map asks_provider (vs_trace s))) = 2" by simp
  then have "asked (vs_trace s) = 2" by (simp add: asked_def filter_map comp_def)
  moreover have "tu_output_tokens (cx_usage res) \<le> 100"
    using child_within_budget [OF demo_request_ok call(1)] call(2) by (simp add: verifier_request_def)
  ultimately show ?thesis using call(1) by (intro exI conjI)
qed

subsection \<open>The envelope before the provider\<close>

text \<open>
  C10: when an envelope service is configured, no provider is asked before a delegation has been
  consumed for exactly this request: earlier in the call an envelope was consumed that is
  authentic under the service's keys, names the request's owner, project, parent and child run, holds the digest of
  the request's context, and whose budget is that of the request.
\<close>

theorem provider_asked_after_consumption:
  assumes "ve_envelopes e = Some sv" "verify_child e rq envelope (new_child rows) = (r, s)"
    "vs_trace s = later @ AskedProvider ms k # earlier"
  shows "\<exists>en. Consumed en \<in> set earlier \<and> authentic_envelope (ve_mac e) sv en \<and> in_scope (verifier_scope e rq) en
    \<and> budgets_equal (en_budget en) (verifier_budget rq)"
proof -
  have suffix: "asked_when_admitted e rq (later @ tr) \<Longrightarrow> asked_when_admitted e rq tr" for tr
    by (induction later) auto
  from call_keeps_inv [OF assms(2)] have "asked_when_admitted e rq (vs_trace s)" by (simp add: child_inv_def core_inv_def)
  then have "envelope_seen e rq earlier" using suffix assms(3) by fastforce
  then obtain a where a: "a \<in> set earlier" "admits e rq a" using assms(1) by (auto simp: envelope_seen_def list_ex_iff)
  then obtain en where "a = Consumed en" using admits.elims(2) by blast
  with a assms(1) show ?thesis by auto
qed

theorem provider_asked_after_consumption_witness:
  "\<exists>e rq envelope res s en. verify_child e rq envelope (new_child []) = (Inr res, s) \<and> Consumed en \<in> set (vs_trace s)
     \<and> in_scope (verifier_scope e rq) en"
proof -
  obtain res s where call: "verify_child demo_child verifier_request (Some demo_envelope) (new_child []) = (Inr res, s)"
    "map asks_provider (vs_trace s) = [False, False, False, True, True, False, False, False]" by (rule verifier_call)
  from call(2) have "True \<in> set (map asks_provider (vs_trace s))" by simp
  then have "list_ex asks_provider (vs_trace s)" by (auto simp: list_ex_iff)
  then obtain later a earlier where tr: "vs_trace s = later @ a # earlier" "asks_provider a"
    by (auto simp: list_ex_iff dest: split_list)
  then obtain ms k where "a = AskedProvider ms k" using asks_provider.elims(2) by blast
  with tr have "vs_trace s = later @ AskedProvider ms k # earlier" by simp
  from provider_asked_after_consumption [OF demo_fields(1) call(1) this] obtain en
    where "Consumed en \<in> set earlier" "in_scope (verifier_scope demo_child verifier_request) en" by blast
  moreover from this tr have "Consumed en \<in> set (vs_trace s)" by simp
  ultimately show ?thesis using call(1) by (intro exI conjI)
qed

subsection \<open>The terminal record\<close>

text \<open>
  C24: a result is recorded once. The call performs the three terminal steps (the completed event, the
  stopped event, the run's metadata) in this order and each at most once, whatever its deadline and its
  collaborators do, and all three when the terminal state counts as persisted; what they record is the
  status, the verdicts, the usage and the latency of the very result that is returned.
\<close>

theorem terminal_recorded_once:
  assumes "verify_child e rq envelope (new_child rows) = (Inr res, s)"
  shows "(\<exists>rest. stages_logged (vs_trace s) @ rest = [AppendCompleted, AppendStopped, FinalizeMetadata] \<and> (vt_persisted s \<longrightarrow> rest = []))
    \<and> list_all (records_result rq res) (vs_trace s)"
proof (cases "vt_result s")
  case None
  with call_keeps_inv [OF assms] have "stages_logged (vs_trace s) = []" "\<not> vt_persisted s"
    by (simp_all add: child_inv_def unfinished_def)
  with no_stage_records [of "vs_trace s"] show ?thesis by simp
next
  case (Some res')
  with call_returns [OF assms] call_keeps_inv [OF assms] have "recorded rq res (vt_task s) s" by (simp add: child_inv_def)
  then show ?thesis unfolding recorded_def terminal_stages_def by blast
qed

theorem terminal_recorded_once_witness:
  "\<exists>e rq envelope res s. verify_child e rq envelope (new_child []) = (Inr res, s)
     \<and> stages_logged (vs_trace s) = [AppendCompleted, AppendStopped, FinalizeMetadata]"
proof -
  obtain res s where call: "verify_child demo_child verifier_request (Some demo_envelope) (new_child []) = (Inr res, s)" "vt_persisted s"
    by (rule verifier_call)
  then have "stages_logged (vs_trace s) = [AppendCompleted, AppendStopped, FinalizeMetadata]"
    using terminal_recorded_once [OF call(1)] by auto
  with call(1) show ?thesis by (intro exI conjI)
qed

end
