(* ===== verification/Structured_Output.thy ===== *)
theory Structured_Output
  imports Runtime_Values
begin

text \<open>
  Contracts for structured responses (\<open>runtime/structured_output.py\<close>): what a contract must satisfy
  and how a response is read, bounded and validated. \<open>json.loads\<close> without its hooks, the JSON Schema
  library and the validator of a contract are parameters; the two hooks are modelled.
\<close>

definition MAX_SCHEMA_BYTES :: int where "MAX_SCHEMA_BYTES = 32768"

datatype output_error = MalformedJson | SchemaMismatch | RecursionFailure

text \<open>\<open>json.loads\<close> raises a \<open>ValueError\<close>, or a \<open>RecursionError\<close> that the contract does not expect.\<close>

datatype loads_error = LoadsValueError | LoadsRecursion

fun object_without_duplicates :: "(string \<times> json) list \<Rightarrow> (string \<times> json) list \<Rightarrow> (string \<times> json) list option" where
  "object_without_duplicates [] value = Some value"
| "object_without_duplicates ((key, item) # pairs) value =
     (if key \<in> set (map fst value) then None else object_without_duplicates pairs (value @ [(key, item)]))"

definition json_constant :: "string \<Rightarrow> bool" where
  "json_constant r = (r = ''NaN'' \<or> r = ''Infinity'' \<or> r = ''-Infinity'')"

text \<open>The hooks, called from the inside out: constants are refused and objects rebuilt.\<close>

fun with_hooks :: "json \<Rightarrow> json option" where
  "with_hooks (JFloat r) = (if json_constant r then None else Some (JFloat r))"
| "with_hooks (JList vs) = map_option JList (those (map with_hooks vs))"
| "with_hooks (JObj kvs) =
     (case those (map (\<lambda>(k, v). map_option (Pair k) (with_hooks v)) kvs) of
        None \<Rightarrow> None
      | Some pairs \<Rightarrow> map_option JObj (object_without_duplicates pairs []))"
| "with_hooks v = Some v"

fun reject_remote_references :: "json \<Rightarrow> bool" where
  "reject_remote_references (JObj kvs) =
     ((case map_of kvs ''$ref'' of Some (JStr reference) \<Rightarrow> \<not> startswith reference ''#'' | _ \<Rightarrow> False)
      \<or> list_ex (\<lambda>(k, v). reject_remote_references v) kvs)"
| "reject_remote_references (JList vs) = list_ex reject_remote_references vs"
| "reject_remote_references _ = False"

subsection \<open>The bounds of a value\<close>

fun json_children :: "json \<Rightarrow> json list" where
  "json_children (JList vs) = vs"
| "json_children (JObj kvs) = map snd kvs"
| "json_children _ = []"

fun json_nodes :: "json \<Rightarrow> nat" where
  "json_nodes (JList vs) = Suc (sum_list (map json_nodes vs))"
| "json_nodes (JObj kvs) = Suc (sum_list (map (\<lambda>(k, v). json_nodes v) kvs))"
| "json_nodes _ = 1"

fun json_depth :: "json \<Rightarrow> nat" where
  "json_depth (JList vs) = Suc (foldr max (map json_depth vs) 0)"
| "json_depth (JObj kvs) = Suc (foldr max (map (\<lambda>(k, v). json_depth v) kvs) 0)"
| "json_depth _ = 1"

lemma nodes_children: "json_nodes v = Suc (sum_list (map json_nodes (json_children v)))"
  by (cases v) (simp_all add: comp_def case_prod_unfold)

lemma depth_children: "json_depth v = Suc (foldr max (map json_depth (json_children v)) 0)"
  by (cases v) (simp_all add: comp_def case_prod_unfold)

lemma nodes_decrease: "(\<Sum>item\<leftarrow>json_children v. json_nodes item) < json_nodes v"
  by (subst nodes_children) simp

text \<open>\<open>_validate_bounds\<close>; the top of the stack is the head of the list.\<close>

function bounds_loop :: "int \<Rightarrow> int \<Rightarrow> (json \<times> int) list \<Rightarrow> int \<Rightarrow> bool" where
  "bounds_loop max_depth max_nodes [] nodes = True"
| "bounds_loop max_depth max_nodes ((current, depth) # stack) nodes =
     (if nodes + 1 > max_nodes \<or> depth > max_depth then False
      else bounds_loop max_depth max_nodes (rev (map (\<lambda>item. (item, depth + 1)) (json_children current)) @ stack) (nodes + 1))"
  by pat_completeness auto
termination
  by (relation "measure (\<lambda>(d, m, stack, n). sum_list (map (json_nodes \<circ> fst) stack))")
    (simp_all add: rev_map [symmetric] comp_def nodes_decrease)

definition validate_bounds :: "json \<Rightarrow> int \<Rightarrow> int \<Rightarrow> bool" where
  "validate_bounds v max_depth max_nodes = bounds_loop max_depth max_nodes [(v, 1)] 0"

text \<open>The loop, with what is on the stack: it holds exactly when every value fits below its depth and all of them fit together.\<close>

lemma foldr_max_le: "foldr max xs (0 :: nat) \<le> n \<longleftrightarrow> (\<forall>x \<in> set xs. x \<le> n)"
  by (induction xs) auto

lemma depth_fits: "d + int (json_depth v) - 1 \<le> D \<longleftrightarrow> d \<le> D \<and> (\<forall>item \<in> set (json_children v). d + 1 + int (json_depth item) - 1 \<le> D)"
proof (cases "d \<le> D")
  case True
  have "d + int (json_depth v) - 1 \<le> D \<longleftrightarrow> foldr max (map json_depth (json_children v)) 0 \<le> nat (D - d)"
    using True by (subst depth_children) auto
  also have "\<dots> \<longleftrightarrow> (\<forall>item \<in> set (json_children v). json_depth item \<le> nat (D - d))"
    by (simp add: foldr_max_le)
  also have "\<dots> \<longleftrightarrow> (\<forall>item \<in> set (json_children v). d + 1 + int (json_depth item) - 1 \<le> D)"
    using True by (intro ball_cong) auto
  finally show ?thesis using True by simp
next
  case False
  then show ?thesis by (subst depth_children) auto
qed

lemma bounds_loop_exact:
  "bounds_loop D N stack n \<longleftrightarrow>
     (\<forall>(v, d) \<in> set stack. d + int (json_depth v) - 1 \<le> D) \<and> (stack = [] \<or> n + int (sum_list (map (json_nodes \<circ> fst) stack)) \<le> N)"
proof (induction D N stack n rule: bounds_loop.induct)
  case (2 D N v d stack n)
  let ?new = "rev (map (\<lambda>item. (item, d + 1)) (json_children v))"
  have nodes: "sum_list (map (json_nodes \<circ> fst) (?new @ stack)) + 1 = sum_list (map (json_nodes \<circ> fst) ((v, d) # stack))"
    by (simp add: nodes_children [of v] rev_map [symmetric] comp_def)
  have empty: "?new @ stack = [] \<Longrightarrow> json_nodes v = 1 \<and> stack = []"
    by (simp add: nodes_children [of v])
  have positive: "1 \<le> json_nodes v" "1 \<le> json_depth v"
    using nodes_children [of v] depth_children [of v] by simp_all
  show ?case
  proof (cases "n + 1 > N \<or> d > D")
    case True
    then show ?thesis using positive by auto
  next
    case False
    have "bounds_loop D N ((v, d) # stack) n = bounds_loop D N (?new @ stack) (n + 1)" using False by simp
    also have "\<dots> \<longleftrightarrow> (\<forall>(w, c) \<in> set (?new @ stack). c + int (json_depth w) - 1 \<le> D)
        \<and> (?new @ stack = [] \<or> n + 1 + int (sum_list (map (json_nodes \<circ> fst) (?new @ stack))) \<le> N)"
      by (rule 2) (use False in simp)
    also have "(?new @ stack = [] \<or> n + 1 + int (sum_list (map (json_nodes \<circ> fst) (?new @ stack))) \<le> N)
        \<longleftrightarrow> n + int (sum_list (map (json_nodes \<circ> fst) ((v, d) # stack))) \<le> N"
      using nodes empty False by (auto simp del: append_is_Nil_conv)
    also have "(\<forall>(w, c) \<in> set (?new @ stack). c + int (json_depth w) - 1 \<le> D)
        \<longleftrightarrow> (\<forall>(w, c) \<in> set ((v, d) # stack). c + int (json_depth w) - 1 \<le> D)"
      using depth_fits [of d v D] False by (simp add: ball_Un image_iff Ball_def) blast
    finally show ?thesis by simp
  qed
qed simp

subsection \<open>Contracts and responses\<close>

text \<open>\<open>ResponseContract.__post_init__\<close>; \<open>check_schema\<close> is the schema library's own check.\<close>

definition contract_ok :: "(json \<Rightarrow> bool) \<Rightarrow> response_contract \<Rightarrow> bool" where
  "contract_ok check_schema ct =
     (strip (ct_schema_id ct) \<noteq> [] \<and> strip (ct_schema_version ct) \<noteq> []
      \<and> (case ct_json_schema ct of JObj _ \<Rightarrow> True | _ \<Rightarrow> False)
      \<and> 1 \<le> ct_max_output_bytes ct \<and> ct_max_output_bytes ct \<le> 4194304
      \<and> 1 \<le> ct_max_depth ct \<and> ct_max_depth ct \<le> 128 \<and> 1 \<le> ct_max_nodes ct \<and> ct_max_nodes ct \<le> 100000
      \<and> utf8_length (dumps (ct_json_schema ct)) \<le> MAX_SCHEMA_BYTES
      \<and> \<not> reject_remote_references (ct_json_schema ct) \<and> check_schema (ct_json_schema ct))"

definition parse_and_validate ::
  "(string \<Rightarrow> loads_error + json) \<Rightarrow> (json \<Rightarrow> json \<Rightarrow> bool) \<Rightarrow> (json \<Rightarrow> 'v option) \<Rightarrow> response_contract \<Rightarrow> string
     \<Rightarrow> output_error + 'v" where
  "parse_and_validate json_loads matches validator ct t =
     (if utf8_length t > ct_max_output_bytes ct then Inl MalformedJson
      else
        (case json_loads t of
           Inl LoadsRecursion \<Rightarrow> Inl RecursionFailure
         | Inl LoadsValueError \<Rightarrow> Inl MalformedJson
         | Inr raw \<Rightarrow>
             (case with_hooks raw of
                None \<Rightarrow> Inl MalformedJson
              | Some v \<Rightarrow>
                  if \<not> validate_bounds v (ct_max_depth ct) (ct_max_nodes ct) then Inl MalformedJson
                  else if \<not> matches (ct_json_schema ct) v then Inl SchemaMismatch
                  else (case validator v of None \<Rightarrow> Inl SchemaMismatch | Some r \<Rightarrow> Inr r))))"

definition prompt_instruction :: "response_contract \<Rightarrow> string" where
  "prompt_instruction ct =
     ''Return exactly one JSON value matching this contract. Schema ID: '' @ ct_schema_id ct @ ''; version: '' @ ct_schema_version ct
     @ ''. JSON Schema: '' @ dumps (ct_json_schema ct)"

text \<open>What the hooks let through has no key twice in an object.\<close>

fun unique_keys :: "json \<Rightarrow> bool" where
  "unique_keys (JList vs) = list_all unique_keys vs"
| "unique_keys (JObj kvs) = (distinct (map fst kvs) \<and> list_all (\<lambda>(k, v). unique_keys v) kvs)"
| "unique_keys (JFloat r) = (\<not> json_constant r)"
| "unique_keys _ = True"

lemma without_duplicates_iff:
  "distinct (map fst dict) \<Longrightarrow> object_without_duplicates pairs dict =
     (if distinct (map fst (dict @ pairs)) then Some (dict @ pairs) else None)"
  by (induction pairs dict rule: object_without_duplicates.induct) auto

lemma those_checked: "those (map (\<lambda>x. if P x then Some (f x) else None) xs) = (if list_all P xs then Some (map f xs) else None)"
  by (induction xs) auto

lemma hooks_exact: "with_hooks v = (if unique_keys v then Some v else None)"
proof (induction v rule: with_hooks.induct)
  case (2 vs)
  then have "map with_hooks vs = map (\<lambda>v. if unique_keys v then Some (id v) else None) vs" by simp
  with those_checked [of unique_keys id vs] have "those (map with_hooks vs) = (if list_all unique_keys vs then Some (map id vs) else None)"
    by (simp only:)
  then show ?case by simp
next
  case (3 kvs)
  have "map (\<lambda>(k, v). map_option (Pair k) (with_hooks v)) kvs = map (\<lambda>kv. if unique_keys (snd kv) then Some (id kv) else None) kvs"
    using 3 by (auto simp: case_prod_unfold)
  with those_checked [of "\<lambda>kv. unique_keys (snd kv)" id kvs]
  have "those (map (\<lambda>(k, v). map_option (Pair k) (with_hooks v)) kvs) =
    (if list_all (\<lambda>kv. unique_keys (snd kv)) kvs then Some (map id kvs) else None)"
    by (simp only:)
  moreover have "list_all (\<lambda>(k, v). unique_keys v) kvs = list_all (\<lambda>kv. unique_keys (snd kv)) kvs" by (simp add: case_prod_unfold)
  ultimately show ?case by (simp add: without_duplicates_iff)
qed auto

text \<open>
  C28: a structured response is accepted exactly when it should be: its text is not longer than the
  contract allows and reads as a JSON value without constants and without a key twice in an object,
  which is at most as deep and has at most as many nodes as allowed, matches the schema and
  passes the validator; the result is the validator's.
\<close>

theorem structured_output_exact:
  "parse_and_validate json_loads matches validator ct t = Inr r \<longleftrightarrow>
     utf8_length t \<le> ct_max_output_bytes ct
     \<and> (\<exists>v. json_loads t = Inr v \<and> unique_keys v \<and> int (json_depth v) \<le> ct_max_depth ct \<and> int (json_nodes v) \<le> ct_max_nodes ct
          \<and> matches (ct_json_schema ct) v \<and> validator v = Some r)"
  unfolding parse_and_validate_def validate_bounds_def bounds_loop_exact hooks_exact
  by (auto split: sum.splits loads_error.splits option.splits if_splits)

end
