(* ===== verification/Reflection_Service.thy ===== *)
theory Reflection_Service
  imports Structured_Output Evidence_Verifier Complex_Main
begin

text \<open>
  Bounded reflection at the final answer (\<open>reflection/models.py\<close>, \<open>reflection/service.py\<close>): one critique and
  at most one revision, within a policy's limits of time, tokens and cost. The clock, the provider
  and the sink of events answer by the number of the step and may raise or hang. Times are in
  milliseconds. Amounts of money are rationals: the products of token counts with prices are exact
  in Python's decimals of 28 digits, and their division is the parameter \<open>rf_div\<close>.
\<close>

subsection \<open>Policies, verdicts and results\<close>

datatype reflection_decision = KEEP | REVISE

datatype reflection_issue = FACTUAL_ERROR | INSTRUCTION_MISS | UNSUPPORTED_CLAIM | INCOMPLETE | UNCLEAR | SAFETY

datatype reflection_outcome =
    KEPT | REVISED | INVALID_VERDICT | REFLECTION_PROVIDER_ERROR | TIME_LIMIT | TOKEN_LIMIT | COST_LIMIT | TOOL_CALL_BLOCKED
  | EMPTY_REVISION

definition decision_text :: "reflection_decision \<Rightarrow> string" where
  "decision_text d = (case d of KEEP \<Rightarrow> ''keep'' | REVISE \<Rightarrow> ''revise'')"

definition issue_text :: "reflection_issue \<Rightarrow> string" where
  "issue_text i =
     (case i of FACTUAL_ERROR \<Rightarrow> ''factual_error'' | INSTRUCTION_MISS \<Rightarrow> ''instruction_miss'' | UNSUPPORTED_CLAIM \<Rightarrow> ''unsupported_claim''
      | INCOMPLETE \<Rightarrow> ''incomplete'' | UNCLEAR \<Rightarrow> ''unclear'' | SAFETY \<Rightarrow> ''safety'')"

definition outcome_text :: "reflection_outcome \<Rightarrow> string" where
  "outcome_text c =
     (case c of KEPT \<Rightarrow> ''kept'' | REVISED \<Rightarrow> ''revised'' | INVALID_VERDICT \<Rightarrow> ''invalid_verdict''
      | REFLECTION_PROVIDER_ERROR \<Rightarrow> ''provider_error'' | TIME_LIMIT \<Rightarrow> ''time_limit'' | TOKEN_LIMIT \<Rightarrow> ''token_limit''
      | COST_LIMIT \<Rightarrow> ''cost_limit'' | TOOL_CALL_BLOCKED \<Rightarrow> ''tool_call_blocked'' | EMPTY_REVISION \<Rightarrow> ''empty_revision'')"

definition decision_of :: "string \<Rightarrow> reflection_decision option" where
  "decision_of t = List.find (\<lambda>d. decision_text d = t) [KEEP, REVISE]"

definition issue_of :: "string \<Rightarrow> reflection_issue option" where
  "issue_of t = List.find (\<lambda>i. issue_text i = t) [FACTUAL_ERROR, INSTRUCTION_MISS, UNSUPPORTED_CLAIM, INCOMPLETE, UNCLEAR, SAFETY]"

definition MAX_ISSUES :: nat where "MAX_ISSUES = 16"
definition MAX_EVIDENCE_REFS :: nat where "MAX_EVIDENCE_REFS = 32"

record reflection_policy =
  rp_enabled :: bool
  rp_rubric_id :: string
  rp_rubric_version :: string
  rp_max_revisions :: int
  rp_max_input_tokens :: int
  rp_max_output_tokens :: int
  rp_max_time :: int
  rp_max_cost :: rat
  rp_input_cost :: rat
  rp_output_cost :: rat

definition reflection_policy_ok :: "reflection_policy \<Rightarrow> bool" where
  "reflection_policy_ok p =
     (VERIFIER_ID (rp_rubric_id p) \<and> VERIFIER_ID (rp_rubric_version p) \<and> (rp_max_revisions p = 0 \<or> rp_max_revisions p = 1)
      \<and> 1 \<le> rp_max_input_tokens p \<and> rp_max_input_tokens p \<le> 65536 \<and> 1 \<le> rp_max_output_tokens p \<and> rp_max_output_tokens p \<le> 16384
      \<and> 50 \<le> rp_max_time p \<and> rp_max_time p \<le> 60000 \<and> 0 \<le> rp_max_cost p \<and> 0 \<le> rp_input_cost p \<and> 0 \<le> rp_output_cost p
      \<and> \<not> (rp_enabled p \<and> rp_max_cost p > 0 \<and> rp_input_cost p = 0 \<and> rp_output_cost p = 0))"

text \<open>A reference is the source and the line of \<open>request:L12\<close> or \<open>draft:L3\<close>.\<close>

definition split_ref :: "string \<Rightarrow> (bool \<times> string) option" where
  "split_ref r =
     (if startswith r ''request:L'' then Some (True, drop 9 r)
      else if startswith r ''draft:L'' then Some (False, drop 7 r) else None)"

definition EVIDENCE_REF :: "string \<Rightarrow> bool" where
  "EVIDENCE_REF r =
     (case split_ref r of
        None \<Rightarrow> False
      | Some (b, line) \<Rightarrow> line \<noteq> [] \<and> length line \<le> 6 \<and> list_all ascii_digit line \<and> hd line \<noteq> CHR ''0'')"

record reflection_verdict =
  rv_decision :: reflection_decision
  rv_issue_codes :: "reflection_issue list"
  rv_evidence_refs :: "string list"
  rv_confidence :: json

definition reflection_verdict_ok :: "reflection_verdict \<Rightarrow> bool" where
  "reflection_verdict_ok v =
     (length (rv_issue_codes v) \<le> MAX_ISSUES \<and> distinct (rv_issue_codes v) \<and> (rv_decision v = KEEP \<longleftrightarrow> rv_issue_codes v = [])
      \<and> length (rv_evidence_refs v) \<le> MAX_EVIDENCE_REFS \<and> distinct (rv_evidence_refs v) \<and> list_all EVIDENCE_REF (rv_evidence_refs v)
      \<and> confidence_ok (rv_confidence v))"

record reflection_result =
  rr_content :: string
  rr_verdict :: "reflection_verdict option"
  rr_outcome :: reflection_outcome
  rr_usage :: token_usage
  rr_calls :: int
  rr_revisions :: int
  rr_cost :: rat

definition reflection_result_ok :: "reflection_result \<Rightarrow> bool" where
  "reflection_result_ok r =
     (rr_calls r \<in> {0, 1, 2} \<and> rr_revisions r \<in> {0, 1} \<and> rr_revisions r \<le> rr_calls r)"

subsection \<open>The verdict of a critique\<close>

text \<open>\<open>_verdict_validator\<close>; every exception it raises is the contract's mismatch.\<close>

definition verdict_validator :: "json \<Rightarrow> reflection_verdict option" where
  "verdict_validator v =
     (case v of
        JObj kvs \<Rightarrow>
          if set (map fst kvs) \<noteq> {''verdict'', ''issue_codes'', ''evidence_refs'', ''confidence''} then None
          else
            (case (map_of kvs ''verdict'', Option.bind (map_of kvs ''issue_codes'') text_items,
                   Option.bind (map_of kvs ''evidence_refs'') text_items, map_of kvs ''confidence'') of
               (Some (JStr d), Some codes, Some refs, Some confidence) \<Rightarrow>
                 (case (decision_of d, those (map issue_of codes)) of
                    (Some d', Some codes') \<Rightarrow>
                      (let rv = \<lparr>rv_decision = d', rv_issue_codes = codes', rv_evidence_refs = refs, rv_confidence = confidence\<rparr> in
                       if reflection_verdict_ok rv then Some rv else None)
                  | _ \<Rightarrow> None)
             | _ \<Rightarrow> None)
      | _ \<Rightarrow> None)"

definition reflection_contract :: response_contract where
  "reflection_contract =
     \<lparr>ct_schema_id = ''cogentrex.reflection-verdict'', ct_schema_version = ''1'',
      ct_json_schema =
        JObj [(''type'', JStr ''object''), (''additionalProperties'', JBool False),
          (''required'', JList [JStr ''verdict'', JStr ''issue_codes'', JStr ''evidence_refs'', JStr ''confidence'']),
          (''properties'', JObj
            [(''verdict'', JObj [(''enum'', JList [JStr ''keep'', JStr ''revise''])]),
             (''issue_codes'', JObj [(''type'', JStr ''array''), (''maxItems'', JInt 16), (''uniqueItems'', JBool True),
                (''items'', JObj [(''enum'', JList (map (JStr \<circ> issue_text)
                   [FACTUAL_ERROR, INSTRUCTION_MISS, UNSUPPORTED_CLAIM, INCOMPLETE, UNCLEAR, SAFETY]))])]),
             (''evidence_refs'', JObj [(''type'', JStr ''array''), (''maxItems'', JInt 32), (''uniqueItems'', JBool True),
                (''items'', JObj [(''type'', JStr ''string''), (''maxLength'', JInt 128),
                   (''pattern'', JStr ''^(request|draft):L[1-9][0-9]{0,5}$'')])]),
             (''confidence'', JObj [(''type'', JStr ''number''), (''minimum'', JInt 0), (''maximum'', JInt 1)])])],
      ct_max_output_bytes = 1048576, ct_max_depth = 64, ct_max_nodes = 20000, ct_parse = (\<lambda>_. Inl [])\<rparr>"

text \<open>\<open>str.splitlines\<close> below 256: a line ends at each of these, and \<open>\r\n\<close> is one end.\<close>

definition line_break :: "char \<Rightarrow> bool" where
  "line_break c = (let n = of_char c :: nat in 10 \<le> n \<and> n \<le> 13 \<or> 28 \<le> n \<and> n \<le> 30 \<or> n = 133)"

fun line_ends :: "string \<Rightarrow> nat" where
  "line_ends [] = 0"
| "line_ends (c # s) =
     (if c = CHR 0x0D \<and> startswith s [CHR 0x0A] then line_ends s else if line_break c then Suc (line_ends s) else line_ends s)"

definition line_count :: "string \<Rightarrow> nat" where
  "line_count s = max 1 (line_ends s + (if s \<noteq> [] \<and> \<not> line_break (last s) then 1 else 0))"

definition shown_messages :: "message list \<Rightarrow> message list" where
  "shown_messages ms = filter (\<lambda>m. mg_role m = RSystem \<or> mg_role m = RUser) ms"

text \<open>Whether every reference is within the supplied content.\<close>

definition locations_ok :: "reflection_verdict \<Rightarrow> message list \<Rightarrow> string \<Rightarrow> bool" where
  "locations_ok v ms draft =
     list_all (\<lambda>r. case split_ref r of
        None \<Rightarrow> False
      | Some (b, line) \<Rightarrow> digits_value line \<le> (if b then sum_list (map (line_count \<circ> mg_content) (shown_messages ms)) else line_count draft))
       (rv_evidence_refs v)"

subsection \<open>The service\<close>

text \<open>\<open>_ReflectionLimitError\<close> is private to the service. The charge errors of the budgeted provider pass; \<open>RGone\<close> is a coroutine left behind at an event that hangs.\<close>

datatype reflection_exc = RLimit reflection_outcome | RCharge | RCancelled | RGone | RError

record reflection_response =
  rq_content :: "string option"
  rq_tool_calls :: nat
  rq_input :: pyval
  rq_output :: pyval
  rq_cache_read :: pyval
  rq_cache_write :: pyval

datatype 'a reflection_reply = RDone 'a | RRaised reflection_exc | RHangs

datatype reflection_action =
    ReflectionEvent agent_event
  | ReflectionAsked "message list" int bool

record reflection_state =
  rs_step :: nat
  rs_trace :: "reflection_action list"
  rs_usage :: token_usage
  rs_cost :: rat
  rs_calls :: int
  rs_verdict :: "reflection_verdict option"

type_synonym 'a rprog = "(reflection_state, reflection_exc, 'a) prog"

text \<open>\<open>rf_fired\<close> says whether a provider that hangs is left behind by the time limit, or else by the caller's cancellation.\<close>

record reflection_env =
  rf_policy :: reflection_policy
  rf_clock :: "nat \<Rightarrow> int"
  rf_provider :: "nat \<Rightarrow> message list \<Rightarrow> int \<Rightarrow> bool \<Rightarrow> reflection_response reflection_reply"
  rf_fired :: "nat \<Rightarrow> bool"
  rf_sink :: "nat \<Rightarrow> agent_event \<Rightarrow> unit reflection_reply"
  rf_hmac :: "string \<Rightarrow> string \<Rightarrow> string"
  rf_key :: string
  rf_scope :: string
  rf_loads :: "string \<Rightarrow> loads_error + json"
  rf_matches :: "json \<Rightarrow> json \<Rightarrow> bool"
  rf_div :: "rat \<Rightarrow> rat \<Rightarrow> rat"

text \<open>The construction of a service, and the key it is given.\<close>

definition reflection_env_ok :: "reflection_env \<Rightarrow> bool" where
  "reflection_env_ok e = (rp_enabled (rf_policy e) \<longrightarrow> 32 \<le> length (rf_key e) \<and> rf_scope e \<noteq> [])"

definition derive_reflection_hmac_key :: "(string \<Rightarrow> string \<Rightarrow> string) \<Rightarrow> string \<Rightarrow> string option" where
  "derive_reflection_hmac_key hmac secret =
     (if secret = [] then None else Some (hmac (utf8 secret) ''cogentrex/reflection-fingerprint-key/v1''))"

definition reflection_digest :: "reflection_env \<Rightarrow> string \<Rightarrow> string \<Rightarrow> string" where
  "reflection_digest e label t =
     rf_hmac e (rf_key e) (''cogentrex/reflection/v1'' @ [CHR 0x00] @ utf8 (rf_scope e) @ [CHR 0x00] @ label @ [CHR 0x00] @ utf8 t)"

definition rask :: "(nat \<Rightarrow> 'a) \<Rightarrow> 'a rprog" where
  "rask f = (\<lambda>s. (Inr (f (rs_step s)), s\<lparr>rs_step := Suc (rs_step s)\<rparr>))"

definition rlog :: "reflection_action \<Rightarrow> unit rprog" where
  "rlog a = modify (\<lambda>s. s\<lparr>rs_trace := a # rs_trace s\<rparr>)"

definition emit_reflection :: "reflection_env \<Rightarrow> event_kind \<Rightarrow> int \<Rightarrow> (string \<times> pyval) list \<Rightarrow> token_usage \<Rightarrow> unit rprog" where
  "emit_reflection e kind iteration payload u =
     (let ev = \<lparr>ae_kind = kind, ae_iteration = iteration, ae_data = payload, ae_usage = u\<rparr> in
      seq (rlog (ReflectionEvent ev))
      (bind (rask (\<lambda>n. rf_sink e n ev)) (\<lambda>r. case r of RDone _ \<Rightarrow> ret () | RRaised x \<Rightarrow> throw (case x of RLimit _ \<Rightarrow> RError | _ \<Rightarrow> x) | RHangs \<Rightarrow> throw RGone)))"

definition response_token_floor :: "reflection_response \<Rightarrow> int" where
  "response_token_floor resp =
     (utf8_length (case rq_content resp of Some t \<Rightarrow> t | None \<Rightarrow> []) + 3) div 4 + 8 * int (rq_tool_calls resp)"

definition required_usage_count :: "pyval \<Rightarrow> int option" where
  "required_usage_count v = (case v of VInt n \<Rightarrow> if n < 0 then None else Some n | _ \<Rightarrow> None)"

definition optional_usage_count :: "pyval \<Rightarrow> int option option" where
  "optional_usage_count v = (if v = VNone then Some None else map_option Some (required_usage_count v))"

text \<open>The usage of a response, at least what was sent and what came back.\<close>

definition response_usage :: "reflection_response \<Rightarrow> int \<Rightarrow> token_usage option" where
  "response_usage resp estimated =
     (case (required_usage_count (rq_input resp), required_usage_count (rq_output resp), optional_usage_count (rq_cache_read resp),
            optional_usage_count (rq_cache_write resp)) of
        (Some i, Some out, Some r, Some w) \<Rightarrow>
          Some \<lparr>tu_input_tokens = max i estimated, tu_output_tokens = max out (response_token_floor resp), tu_cache_read = r,
                tu_cache_write = w\<rparr>
      | _ \<Rightarrow> None)"

definition input_price :: "reflection_policy \<Rightarrow> rat" where "input_price p = rp_input_cost p / 1000000"
definition output_price :: "reflection_policy \<Rightarrow> rat" where "output_price p = rp_output_cost p / 1000000"

text \<open>How many tokens a call may produce, or the limit that forbids it.\<close>

definition call_allowance ::
  "reflection_env \<Rightarrow> int option \<Rightarrow> int \<Rightarrow> int \<Rightarrow> token_usage \<Rightarrow> rat \<Rightarrow> reflection_outcome + int" where
  "call_allowance e max_total cap estimated u cost =
     (let p = rf_policy e;
          max_tokens = min cap (rp_max_output_tokens p - tu_output_tokens u);
          max_tokens' = (case max_total of None \<Rightarrow> max_tokens | Some m \<Rightarrow> min max_tokens (m - total_tokens u - estimated));
          after_input = rp_max_cost p - cost - of_int estimated * input_price p in
      if tu_input_tokens u + estimated > rp_max_input_tokens p then Inl TOKEN_LIMIT
      else if max_tokens' \<le> 0 then Inl TOKEN_LIMIT
      else if after_input < 0 then Inl COST_LIMIT
      else if output_price p > 0
      then (let affordable = \<lfloor>rf_div e after_input (output_price p)\<rfloor> in
            if min max_tokens' affordable \<le> 0 then Inl COST_LIMIT else Inr (min max_tokens' affordable))
      else Inr max_tokens')"

text \<open>A call: the checks before it, the provider within the remaining time, and the checks of what it used.\<close>

definition await_provider ::
  "reflection_env \<Rightarrow> int \<Rightarrow> int \<Rightarrow> message list \<Rightarrow> int \<Rightarrow> bool \<Rightarrow> reflection_response rprog" where
  "await_provider e started time_limit ms max_tokens contract =
     bind (rask (\<lambda>n. rf_provider e n ms max_tokens contract)) (\<lambda>r.
     case r of
       RHangs \<Rightarrow> bind (rask (rf_fired e)) (\<lambda>b. throw (if b then RLimit TIME_LIMIT else RCancelled))
     | _ \<Rightarrow>
         bind (rask (rf_clock e)) (\<lambda>now.
         if now - started \<ge> time_limit then throw (RLimit TIME_LIMIT)
         else
           (case r of
              RDone resp \<Rightarrow> ret resp
            | RRaised x \<Rightarrow> throw (if x = RCharge \<or> x = RCancelled then x else RLimit REFLECTION_PROVIDER_ERROR)
            | RHangs \<Rightarrow> throw RGone)))"

definition account_response ::
  "reflection_env \<Rightarrow> int option \<Rightarrow> int \<Rightarrow> int \<Rightarrow> reflection_response \<Rightarrow> reflection_response rprog" where
  "account_response e max_total estimated max_tokens resp =
     (case response_usage resp estimated of
        None \<Rightarrow> throw (RLimit REFLECTION_PROVIDER_ERROR)
      | Some ru \<Rightarrow>
          (let p = rf_policy e in
           seq (modify (\<lambda>s. s\<lparr>rs_usage := add_usage (rs_usage s) ru,
                  rs_cost := rs_cost s + (of_int (tu_input_tokens ru) * input_price p + of_int (tu_output_tokens ru) * output_price p)\<rparr>))
           (bind (reads id) (\<lambda>s.
            if response_token_floor resp > max_tokens \<or> tu_input_tokens (rs_usage s) > rp_max_input_tokens p
               \<or> tu_output_tokens (rs_usage s) > rp_max_output_tokens p
               \<or> (case max_total of None \<Rightarrow> False | Some m \<Rightarrow> total_tokens (rs_usage s) > m)
            then throw (RLimit TOKEN_LIMIT)
            else if rs_cost s > rp_max_cost p then throw (RLimit COST_LIMIT)
            else if rq_tool_calls resp \<noteq> 0 then throw (RLimit TOOL_CALL_BLOCKED)
            else ret resp))))"

definition complete_reflection ::
  "reflection_env \<Rightarrow> int option \<Rightarrow> int \<Rightarrow> int \<Rightarrow> message list \<Rightarrow> int \<Rightarrow> bool \<Rightarrow> reflection_response rprog" where
  "complete_reflection e max_total started time_limit ms cap contract =
     bind (rask (rf_clock e)) (\<lambda>now.
     if time_limit - (now - started) \<le> 0 then throw (RLimit TIME_LIMIT)
     else
       (let estimated = estimate_input_tokens ms in
        bind (reads id) (\<lambda>s.
        case call_allowance e max_total cap estimated (rs_usage s) (rs_cost s) of
          Inl limit \<Rightarrow> throw (RLimit limit)
        | Inr max_tokens \<Rightarrow>
            seq (modify (\<lambda>s. s\<lparr>rs_calls := rs_calls s + 1\<rparr>))
            (seq (rlog (ReflectionAsked ms max_tokens contract))
            (bind (await_provider e started time_limit ms max_tokens contract) (account_response e max_total estimated max_tokens))))))"

text \<open>\<open>json.dumps\<close> without \<open>sort_keys\<close>.\<close>

fun dumps_plain :: "json \<Rightarrow> string" where
  "dumps_plain JNull = ''null''"
| "dumps_plain (JBool b) = (if b then ''true'' else ''false'')"
| "dumps_plain (JInt n) = show_int n"
| "dumps_plain (JFloat r) = r"
| "dumps_plain (JStr s) = json_quote s"
| "dumps_plain (JList vs) = ''['' @ join '','' (map dumps_plain vs) @ '']''"
| "dumps_plain (JObj kvs) = ''{'' @ join '','' (map (\<lambda>(k, v). json_quote k @ '':'' @ dumps_plain v) kvs) @ ''}''"

definition critique_system :: string where
  "critique_system =
     ''You are a bounded final-answer quality reviewer, not an agent.'' @ [CHR 0x0A]
     @ ''Do not call tools, take actions, or reveal chain-of-thought. Assess only the supplied request and'' @ [CHR 0x0A]
     @ ''draft against the named rubric. Return only the requested compact JSON verdict. Evidence refs are'' @ [CHR 0x0A]
     @ ''short locations such as draft:L1 or request:L2, never quotations or reasoning.''"

definition revision_system :: string where
  "revision_system =
     ''You are a bounded final-answer editor, not an agent.'' @ [CHR 0x0A]
     @ ''Do not call tools, take actions, discuss your reasoning, or output metadata. Return only one revised'' @ [CHR 0x0A]
     @ ''final answer that fixes the supplied issue codes using the supplied evidence references.''"

definition critique_messages :: "reflection_policy \<Rightarrow> message list \<Rightarrow> string \<Rightarrow> message list" where
  "critique_messages p ms draft =
     [text_message RSystem critique_system,
      text_message RUser (dumps_plain (JObj [(''rubric_id'', JStr (rp_rubric_id p)), (''rubric_version'', JStr (rp_rubric_version p)),
        (''request'', JList (map (\<lambda>m. JObj [(''role'', JStr (role_value (mg_role m))), (''content'', JStr (mg_content m))]) (shown_messages ms))),
        (''draft'', JStr draft)]))]"

definition revision_messages :: "reflection_verdict \<Rightarrow> string \<Rightarrow> message list" where
  "revision_messages v draft =
     [text_message RSystem revision_system,
      text_message RUser (dumps_plain (JObj [(''draft'', JStr draft), (''issue_codes'', JList (map (JStr \<circ> issue_text) (rv_issue_codes v))),
        (''evidence_refs'', JList (map JStr (rv_evidence_refs v)))]))]"

definition finish_reflection ::
  "reflection_env \<Rightarrow> string \<Rightarrow> string \<Rightarrow> reflection_outcome \<Rightarrow> int \<Rightarrow> int \<Rightarrow> reflection_result rprog" where
  "finish_reflection e draft selected outcome revisions iteration =
     bind (reads id) (\<lambda>s.
     seq (emit_reflection e REFLECTION_COMPLETED iteration
       [(''rubric_id'', VStr (rp_rubric_id (rf_policy e))), (''rubric_version'', VStr (rp_rubric_version (rf_policy e))),
        (''draft_hash'', VStr (reflection_digest e ''draft'' draft)), (''selected_hash'', VStr (reflection_digest e ''selected'' selected)),
        (''outcome'', VStr (outcome_text outcome)), (''calls'', VInt (rs_calls s)), (''revisions'', VInt revisions),
        (''input_tokens'', VInt (tu_input_tokens (rs_usage s))), (''output_tokens'', VInt (tu_output_tokens (rs_usage s))),
        (''cost_microusd'', VInt \<lfloor>rs_cost s * 1000000\<rfloor>)] (rs_usage s))
     (let r = \<lparr>rr_content = selected, rr_verdict = rs_verdict s, rr_outcome = outcome, rr_usage = rs_usage s, rr_calls = rs_calls s,
               rr_revisions = revisions, rr_cost = rs_cost s\<rparr> in
      if reflection_result_ok r then ret r else throw RError))"

text \<open>\<open>json.loads\<close> raises \<open>RecursionError\<close>, which is no \<open>ValueError\<close>.\<close>

definition read_verdict :: "reflection_env \<Rightarrow> reflection_response \<Rightarrow> message list \<Rightarrow> string \<Rightarrow> reflection_verdict rprog" where
  "read_verdict e resp ms draft =
     (case parse_and_validate (rf_loads e) (rf_matches e) verdict_validator reflection_contract
             (case rq_content resp of Some t \<Rightarrow> t | None \<Rightarrow> []) of
        Inl RecursionFailure \<Rightarrow> throw RError
      | Inl _ \<Rightarrow> throw (RLimit INVALID_VERDICT)
      | Inr v \<Rightarrow>
          seq (modify (\<lambda>s. s\<lparr>rs_verdict := Some v\<rparr>))
          (if locations_ok v ms draft then ret v else throw (RLimit INVALID_VERDICT)))"

text \<open>\<open>float(confidence)\<close>.\<close>

definition confidence_float :: "json \<Rightarrow> pyval" where
  "confidence_float v = (case v of JInt n \<Rightarrow> VFloat True (show_int n @ ''.0'') | JFloat r \<Rightarrow> VFloat True r | _ \<Rightarrow> VNone)"

definition emit_verdict :: "reflection_env \<Rightarrow> int \<Rightarrow> string \<Rightarrow> reflection_response \<Rightarrow> reflection_verdict \<Rightarrow> unit rprog" where
  "emit_verdict e iteration draft resp v =
     emit_reflection e REFLECTION_VERDICT iteration
       [(''rubric_id'', VStr (rp_rubric_id (rf_policy e))), (''rubric_version'', VStr (rp_rubric_version (rf_policy e))),
        (''draft_hash'', VStr (reflection_digest e ''draft'' draft)),
        (''critique_hash'', VStr (reflection_digest e ''critique'' (case rq_content resp of Some t \<Rightarrow> t | None \<Rightarrow> []))),
        (''verdict'', VStr (decision_text (rv_decision v))), (''issue_codes'', VList (map (VStr \<circ> issue_text) (rv_issue_codes v))),
        (''evidence_refs'', VList (map VStr (rv_evidence_refs v))), (''confidence'', confidence_float (rv_confidence v))]
       (case (rq_input resp, rq_output resp) of
          (VInt i, VInt out) \<Rightarrow>
            \<lparr>tu_input_tokens = i, tu_output_tokens = out, tu_cache_read = (case rq_cache_read resp of VInt n \<Rightarrow> Some n | _ \<Rightarrow> None),
             tu_cache_write = (case rq_cache_write resp of VInt n \<Rightarrow> Some n | _ \<Rightarrow> None)\<rparr>
        | _ \<Rightarrow> no_usage)"

definition revise :: "reflection_env \<Rightarrow> int option \<Rightarrow> int \<Rightarrow> int \<Rightarrow> string \<Rightarrow> int \<Rightarrow> reflection_verdict \<Rightarrow> reflection_result rprog" where
  "revise e max_total started time_limit draft iteration v =
     bind (complete_reflection e max_total started time_limit (revision_messages v draft) (rp_max_output_tokens (rf_policy e)) False)
       (\<lambda>resp.
        let revised = (case rq_content resp of Some t \<Rightarrow> strip t | None \<Rightarrow> []) in
        if revised = [] then throw (RLimit EMPTY_REVISION)
        else finish_reflection e draft revised REVISED 1 iteration)"

definition critique :: "reflection_env \<Rightarrow> int option \<Rightarrow> int \<Rightarrow> int \<Rightarrow> message list \<Rightarrow> string \<Rightarrow> int \<Rightarrow> reflection_result rprog" where
  "critique e max_total started time_limit ms draft iteration =
     bind (complete_reflection e max_total started time_limit (critique_messages (rf_policy e) ms draft) 512 True) (\<lambda>resp.
     bind (read_verdict e resp ms draft) (\<lambda>v.
     seq (emit_verdict e iteration draft resp v)
     (if rv_decision v = KEEP \<or> rp_max_revisions (rf_policy e) = 0 then finish_reflection e draft draft KEPT 0 iteration
      else revise e max_total started time_limit draft iteration v)))"

definition reflect :: "reflection_env \<Rightarrow> message list \<Rightarrow> string \<Rightarrow> int \<Rightarrow> int option \<Rightarrow> int option \<Rightarrow> reflection_result rprog" where
  "reflect e ms draft iteration timeout max_total =
     (if \<not> rp_enabled (rf_policy e)
      then ret \<lparr>rr_content = draft, rr_verdict = None, rr_outcome = KEPT, rr_usage = no_usage, rr_calls = 0, rr_revisions = 0, rr_cost = 0\<rparr>
      else if (case max_total of None \<Rightarrow> False | Some m \<Rightarrow> m < 0) then throw RError
      else
        bind (rask (rf_clock e)) (\<lambda>started.
        let time_limit = (case timeout of None \<Rightarrow> rp_max_time (rf_policy e) | Some t \<Rightarrow> min (rp_max_time (rf_policy e)) (max 0 t)) in
        seq (emit_reflection e REFLECTION_STARTED iteration
          [(''rubric_id'', VStr (rp_rubric_id (rf_policy e))), (''rubric_version'', VStr (rp_rubric_version (rf_policy e))),
           (''draft_hash'', VStr (reflection_digest e ''draft'' draft)), (''max_revisions'', VInt (rp_max_revisions (rf_policy e)))] no_usage)
        (try_catch (critique e max_total started time_limit ms draft iteration)
          (\<lambda>x. case x of RLimit code \<Rightarrow> finish_reflection e draft draft code 0 iteration | _ \<Rightarrow> throw x))))"

definition new_reflection :: reflection_state where
  "new_reflection = \<lparr>rs_step = 0, rs_trace = [], rs_usage = no_usage, rs_cost = 0, rs_calls = 0, rs_verdict = None\<rparr>"

subsection \<open>What a reflection may do\<close>

fun reflection_asks :: "reflection_action \<Rightarrow> bool" where
  "reflection_asks (ReflectionAsked ms k b) = True"
| "reflection_asks _ = False"

fun ask_ok :: "reflection_env \<Rightarrow> reflection_action \<Rightarrow> bool" where
  "ask_ok e (ReflectionAsked ms k b) = (0 < k \<and> k \<le> rp_max_output_tokens (rf_policy e))"
| "ask_ok e _ = True"

fun completed_outcome :: "reflection_action \<Rightarrow> pyval option list" where
  "completed_outcome (ReflectionEvent ev) = (if ae_kind ev = REFLECTION_COMPLETED then [map_of (ae_data ev) ''outcome''] else [])"
| "completed_outcome _ = []"

definition reflection_calls :: "reflection_action list \<Rightarrow> int" where
  "reflection_calls tr = int (length (filter reflection_asks tr))"

definition outcomes_logged :: "reflection_action list \<Rightarrow> pyval option list" where
  "outcomes_logged tr = concat (map completed_outcome tr)"

definition within_limits :: "reflection_env \<Rightarrow> int option \<Rightarrow> token_usage \<Rightarrow> rat \<Rightarrow> bool" where
  "within_limits e max_total u cost =
     (tu_input_tokens u \<le> rp_max_input_tokens (rf_policy e) \<and> tu_output_tokens u \<le> rp_max_output_tokens (rf_policy e)
      \<and> (case max_total of None \<Rightarrow> True | Some m \<Rightarrow> total_tokens u \<le> m) \<and> cost \<le> rp_max_cost (rf_policy e))"

definition bounded_reflection :: "reflection_env \<Rightarrow> int \<Rightarrow> reflection_state \<Rightarrow> bool" where
  "bounded_reflection e c s =
     (rs_calls s = reflection_calls (rs_trace s) \<and> rs_calls s \<le> c \<and> list_all (ask_ok e) (rs_trace s) \<and> 0 \<le> tu_output_tokens (rs_usage s))"

definition open_reflection :: "reflection_env \<Rightarrow> int \<Rightarrow> reflection_state \<Rightarrow> bool" where
  "open_reflection e c s = (bounded_reflection e c s \<and> outcomes_logged (rs_trace s) = [])"

text \<open>After an exception: only a limit is still to be finished.\<close>

definition real_limit :: "reflection_exc \<Rightarrow> bool" where
  "real_limit x = (x \<noteq> RLimit KEPT \<and> x \<noteq> RLimit REVISED)"

definition interrupted :: "reflection_env \<Rightarrow> int \<Rightarrow> reflection_exc \<Rightarrow> reflection_state \<Rightarrow> bool" where
  "interrupted e c x s = (bounded_reflection e c s \<and> real_limit x \<and> (\<forall>code. x = RLimit code \<longrightarrow> outcomes_logged (rs_trace s) = []))"

lemma reflection_trace_simps [simp]:
  "reflection_calls [] = 0" "reflection_calls (a # tr) = (if reflection_asks a then reflection_calls tr + 1 else reflection_calls tr)"
  "outcomes_logged [] = []" "outcomes_logged (a # tr) = completed_outcome a @ outcomes_logged tr"
  by (simp_all add: reflection_calls_def outcomes_logged_def)

lemma open_step [simp]:
  "open_reflection e c (s\<lparr>rs_step := n\<rparr>) = open_reflection e c s" "open_reflection e c (s\<lparr>rs_verdict := v\<rparr>) = open_reflection e c s"
  by (simp_all add: open_reflection_def bounded_reflection_def)

lemma quiet_ask_ok: "\<not> reflection_asks a \<Longrightarrow> ask_ok e a"
  by (cases a) auto

lemma open_mono: "open_reflection e c s \<Longrightarrow> c \<le> c' \<Longrightarrow> open_reflection e c' s"
  by (simp add: open_reflection_def bounded_reflection_def)

lemma open_interrupted: "open_reflection e c s \<Longrightarrow> c \<le> c' \<Longrightarrow> real_limit x \<Longrightarrow> interrupted e c' x s"
  by (simp add: interrupted_def open_reflection_def bounded_reflection_def)

lemma interrupted_mono: "interrupted e c x s \<Longrightarrow> c \<le> c' \<Longrightarrow> interrupted e c' x s"
  by (simp add: interrupted_def bounded_reflection_def)

lemma triple_rask: "(\<And>s. P s \<Longrightarrow> Q (f (rs_step s)) (s\<lparr>rs_step := Suc (rs_step s)\<rparr>)) \<Longrightarrow> triple P (rask f) Q E"
  by (simp add: triple_def rask_def)

text \<open>Every event but the last.\<close>

lemma triple_emit:
  assumes "kind \<noteq> REFLECTION_COMPLETED"
    and P: "\<And>s. P s \<Longrightarrow> open_reflection e c s" "\<And>s a. P s \<Longrightarrow> P (s\<lparr>rs_trace := a # rs_trace s, rs_step := Suc (rs_step s)\<rparr>) \<or> reflection_asks a \<or> completed_outcome a \<noteq> []"
  shows "triple P (emit_reflection e kind iteration payload u) (\<lambda>_. P) (interrupted e c)"
proof (rule tripleI)
  fix s assume s: "P s"
  let ?a = "ReflectionEvent \<lparr>ae_kind = kind, ae_iteration = iteration, ae_data = payload, ae_usage = u\<rparr>"
  from P(2) [OF s, of ?a] assms(1) have "P (s\<lparr>rs_trace := ?a # rs_trace s, rs_step := Suc (rs_step s)\<rparr>)" by simp
  moreover from P(1) [OF this] have "real_limit x \<Longrightarrow> interrupted e c x (s\<lparr>rs_trace := ?a # rs_trace s, rs_step := Suc (rs_step s)\<rparr>)" for x
    by (rule open_interrupted) simp
  ultimately show "case emit_reflection e kind iteration payload u s of (Inl x, s') \<Rightarrow> interrupted e c x s' | (Inr a, s') \<Rightarrow> P s'"
    by (auto simp: emit_reflection_def rlog_def rask_def prog_defs Let_def real_limit_def split: reflection_reply.splits reflection_exc.splits)
qed

lemma allowance_bound:
  assumes "call_allowance e max_total cap estimated u cost = Inr k" "0 \<le> tu_output_tokens u"
  shows "0 < k \<and> k \<le> rp_max_output_tokens (rf_policy e)"
  using assms by (auto simp: call_allowance_def Let_def split: if_splits option.splits)

lemma triple_provider:
  assumes "\<And>s n. P s \<Longrightarrow> P (s\<lparr>rs_step := n\<rparr>)" "\<And>s x. P s \<Longrightarrow> real_limit x \<Longrightarrow> E x s"
  shows "triple P (await_provider e started time_limit ms k contract) (\<lambda>_. P) E"
  using assms by (auto simp: triple_def await_provider_def rask_def prog_defs real_limit_def split: reflection_reply.splits)

lemma response_usage_output: "response_usage resp estimated = Some ru \<Longrightarrow> 0 \<le> tu_output_tokens ru"
  by (auto simp: response_usage_def required_usage_count_def split: option.splits pyval.splits if_splits prod.splits)

lemma triple_account:
  "triple (open_reflection e c) (account_response e max_total estimated k resp)
     (\<lambda>_ s. open_reflection e c s \<and> within_limits e max_total (rs_usage s) (rs_cost s)) (interrupted e c)"
proof (rule tripleI)
  fix s assume s: "open_reflection e c s"
  show "case account_response e max_total estimated k resp s of (Inl x, s') \<Rightarrow> interrupted e c x s'
    | (Inr a, s') \<Rightarrow> open_reflection e c s' \<and> within_limits e max_total (rs_usage s') (rs_cost s')"
  proof (cases "response_usage resp estimated")
    case None
    then show ?thesis using s by (simp add: account_response_def prog_defs open_interrupted real_limit_def)
  next
    case (Some ru)
    let ?s = "s\<lparr>rs_usage := add_usage (rs_usage s) ru,
      rs_cost := rs_cost s + (of_int (tu_input_tokens ru) * input_price (rf_policy e) + of_int (tu_output_tokens ru) * output_price (rf_policy e))\<rparr>"
    have "open_reflection e c ?s"
      using s response_usage_output [OF Some] by (simp add: open_reflection_def bounded_reflection_def add_usage_def)
    moreover from open_interrupted [OF this order_refl] have "real_limit x \<Longrightarrow> interrupted e c x ?s" for x .
    ultimately show ?thesis
      by (auto simp: account_response_def Some Let_def seq_modify bind_reads within_limits_def real_limit_def prog_defs(1,2)
          split: option.splits)
  qed
qed

lemma triple_complete:
  "triple (open_reflection e c) (complete_reflection e max_total started time_limit ms cap contract)
     (\<lambda>_ s. open_reflection e (c + 1) s \<and> within_limits e max_total (rs_usage s) (rs_cost s)) (interrupted e (c + 1))"
  unfolding complete_reflection_def
proof (rule triple_bind [where Q' = "\<lambda>_. open_reflection e c"], goal_cases)
  case 1
  show ?case by (rule triple_rask) simp
next
  case (2 now)
  let ?Q = "\<lambda>_ s. open_reflection e (c + 1) s \<and> within_limits e max_total (rs_usage s) (rs_cost s)"
  have "triple (\<lambda>s. open_reflection e c s \<and> id s = s0)
    (case call_allowance e max_total cap (estimate_input_tokens ms) (rs_usage s0) (rs_cost s0) of
       Inl limit \<Rightarrow> throw (RLimit limit)
     | Inr k \<Rightarrow> seq (modify (\<lambda>s. s\<lparr>rs_calls := rs_calls s + 1\<rparr>)) (seq (rlog (ReflectionAsked ms k contract))
         (bind (await_provider e started time_limit ms k contract) (account_response e max_total (estimate_input_tokens ms) k))))
    ?Q (interrupted e (c + 1))" for s0
  proof (cases "call_allowance e max_total cap (estimate_input_tokens ms) (rs_usage s0) (rs_cost s0)")
    case (Inl limit)
    then have "real_limit (RLimit limit)"
      by (auto simp: call_allowance_def Let_def real_limit_def split: if_splits option.splits)
    with Inl show ?thesis by (auto intro!: triple_throw open_interrupted)
  next
    case (Inr k)
    have call: "triple (open_reflection e (c + 1))
      (bind (await_provider e started time_limit ms k contract) (account_response e max_total (estimate_input_tokens ms) k)) ?Q
      (interrupted e (c + 1))"
      by (rule triple_bind [OF triple_provider triple_account]) (auto intro: open_interrupted)
    have "triple (\<lambda>s. open_reflection e c s \<and> id s = s0) (modify (\<lambda>s. s\<lparr>rs_calls := rs_calls s + 1\<rparr>))
      (\<lambda>_ s. open_reflection e (c + 1) (s\<lparr>rs_trace := ReflectionAsked ms k contract # rs_trace s\<rparr>)) (interrupted e (c + 1))"
      by (rule triple_modify) (use allowance_bound [OF Inr] in \<open>auto simp: open_reflection_def bounded_reflection_def\<close>)
    moreover have "triple (\<lambda>s. open_reflection e (c + 1) (s\<lparr>rs_trace := ReflectionAsked ms k contract # rs_trace s\<rparr>))
      (rlog (ReflectionAsked ms k contract)) (\<lambda>_. open_reflection e (c + 1)) (interrupted e (c + 1))"
      unfolding rlog_def by (rule triple_modify)
    ultimately show ?thesis by (simp add: Inr triple_seq [OF _ triple_seq [OF _ call]])
  qed
  then have "triple (open_reflection e c) (bind (reads id) (\<lambda>s0.
    case call_allowance e max_total cap (estimate_input_tokens ms) (rs_usage s0) (rs_cost s0) of
       Inl limit \<Rightarrow> throw (RLimit limit)
     | Inr k \<Rightarrow> seq (modify (\<lambda>s. s\<lparr>rs_calls := rs_calls s + 1\<rparr>)) (seq (rlog (ReflectionAsked ms k contract))
         (bind (await_provider e started time_limit ms k contract) (account_response e max_total (estimate_input_tokens ms) k)))))
    ?Q (interrupted e (c + 1))" by (rule triple_bind_reads)
  then show ?case unfolding Let_def by (intro triple_if) (auto intro!: triple_throw open_interrupted simp: real_limit_def)
qed

text \<open>A result as it must be, with the events of its run.\<close>

definition sound_reflection ::
  "reflection_env \<Rightarrow> int option \<Rightarrow> message list \<Rightarrow> string \<Rightarrow> reflection_result \<Rightarrow> reflection_state \<Rightarrow> bool" where
  "sound_reflection e max_total ms draft res s =
     (outcomes_logged (rs_trace s) = [Some (VStr (outcome_text (rr_outcome res)))] \<and> rr_calls res = reflection_calls (rs_trace s)
      \<and> (rr_outcome res = KEPT \<or> rr_outcome res = REVISED \<longrightarrow> within_limits e max_total (rr_usage res) (rr_cost res))
      \<and> (if rr_outcome res = REVISED
         then rr_content res \<noteq> [] \<and> rr_revisions res = 1 \<and> rp_max_revisions (rf_policy e) \<noteq> 0
           \<and> (\<exists>v. rr_verdict res = Some v \<and> rv_decision v = REVISE \<and> locations_ok v ms draft)
         else rr_content res = draft \<and> rr_revisions res = 0))"

definition reflection_ends ::
  "reflection_env \<Rightarrow> int \<Rightarrow> int option \<Rightarrow> message list \<Rightarrow> string \<Rightarrow> reflection_result \<Rightarrow> reflection_state \<Rightarrow> bool" where
  "reflection_ends e c max_total ms draft res s = (bounded_reflection e c s \<and> sound_reflection e max_total ms draft res s)"

lemma triple_finish_reflection:
  assumes "\<And>s. P s \<Longrightarrow> open_reflection e c s"
    and "\<And>s. P s \<Longrightarrow> outcome = KEPT \<or> outcome = REVISED \<Longrightarrow> within_limits e max_total (rs_usage s) (rs_cost s)"
    and "\<And>s. P s \<Longrightarrow> outcome = REVISED \<Longrightarrow> selected \<noteq> [] \<and> revisions = 1 \<and> rp_max_revisions (rf_policy e) \<noteq> 0
      \<and> (\<exists>v. rs_verdict s = Some v \<and> rv_decision v = REVISE \<and> locations_ok v ms draft)"
    and "outcome \<noteq> REVISED \<Longrightarrow> selected = draft \<and> revisions = 0"
  shows "triple P (finish_reflection e draft selected outcome revisions iteration) (reflection_ends e c max_total ms draft) (interrupted e c)"
proof (rule tripleI)
  fix s assume s: "P s"
  note facts = assms(1) [OF s] assms(2,3) [OF s] assms(4)
  show "case finish_reflection e draft selected outcome revisions iteration s of (Inl x, s') \<Rightarrow> interrupted e c x s'
    | (Inr res, s') \<Rightarrow> reflection_ends e c max_total ms draft res s'"
    using facts
    by (auto simp: finish_reflection_def emit_reflection_def rlog_def rask_def prog_defs Let_def interrupted_def open_reflection_def
        bounded_reflection_def reflection_ends_def sound_reflection_def real_limit_def split: reflection_reply.splits reflection_exc.splits)
qed

definition asked_calls :: "reflection_env \<Rightarrow> int" where
  "asked_calls e = (if rp_max_revisions (rf_policy e) = 0 then 1 else 2)"

lemma triple_read_verdict:
  "triple (\<lambda>s. open_reflection e c s \<and> within_limits e max_total (rs_usage s) (rs_cost s)) (read_verdict e resp ms draft)
     (\<lambda>v s. open_reflection e c s \<and> within_limits e max_total (rs_usage s) (rs_cost s) \<and> rs_verdict s = Some v \<and> locations_ok v ms draft)
     (interrupted e c)"
  by (auto simp: triple_def read_verdict_def prog_defs open_interrupted real_limit_def split: sum.splits output_error.splits)

text \<open>A call leaves the verdict alone.\<close>

definition same_verdict :: "reflection_state \<Rightarrow> reflection_state \<Rightarrow> bool" where
  "same_verdict s s' = (rs_verdict s' = rs_verdict s)"

interpretation verdict_kept: state_order same_verdict
  by unfold_locales (auto simp: same_verdict_def)

lemma call_keeps_verdict: "obeys same_verdict (complete_reflection e max_total started time_limit ms cap contract)"
proof -
  have steps: "obeys same_verdict (rask f)" "obeys same_verdict (rlog a)" "obeys same_verdict (modify (\<lambda>s. s\<lparr>rs_calls := rs_calls s + 1\<rparr>))"
    "obeys same_verdict (modify (\<lambda>s. s\<lparr>rs_usage := g s, rs_cost := h s\<rparr>))" for f :: "nat \<Rightarrow> 'b" and a g h
    by (simp_all add: obeys_def rask_def rlog_def modify_def same_verdict_def)
  have reply: "obeys same_verdict (case r of RDone a \<Rightarrow> f a | RRaised x \<Rightarrow> g x | RHangs \<Rightarrow> h)"
    if "\<And>a. obeys same_verdict (f a)" "\<And>x. obeys same_verdict (g x)" "obeys same_verdict h"
    for r :: "'r reflection_reply" and f g and h :: "'a rprog"
    using that by (cases r) simp_all
  show ?thesis
    unfolding complete_reflection_def await_provider_def account_response_def Let_def
    by (intro verdict_kept.obeys_rules steps reply)
qed

lemma triple_revise:
  assumes "rv_decision v = REVISE" "rp_max_revisions (rf_policy e) \<noteq> 0" "locations_ok v ms draft"
  shows "triple (\<lambda>s. open_reflection e 1 s \<and> rs_verdict s = Some v) (revise e max_total started time_limit draft iteration v)
    (reflection_ends e 2 max_total ms draft) (interrupted e 2)"
proof -
  let ?W = "\<lambda>s. open_reflection e 2 s \<and> within_limits e max_total (rs_usage s) (rs_cost s) \<and> rs_verdict s = Some v"
  have "triple (\<lambda>s. open_reflection e 1 s \<and> rs_verdict s = Some v)
    (complete_reflection e max_total started time_limit (revision_messages v draft) (rp_max_output_tokens (rf_policy e)) False)
    (\<lambda>_ s. open_reflection e (1 + 1) s \<and> within_limits e max_total (rs_usage s) (rs_cost s)) (interrupted e (1 + 1))"
    by (rule triple_pre [OF triple_complete]) simp
  from triple_strengthen [OF this call_keeps_verdict, of "\<lambda>s. rs_verdict s = Some v"]
  have call: "triple (\<lambda>s. open_reflection e 1 s \<and> rs_verdict s = Some v)
    (complete_reflection e max_total started time_limit (revision_messages v draft) (rp_max_output_tokens (rf_policy e)) False)
    (\<lambda>_. ?W) (interrupted e 2)"
    by (rule triple_conseq) (auto simp: same_verdict_def)
  have "triple ?W (finish_reflection e draft revised REVISED 1 iteration) (reflection_ends e 2 max_total ms draft) (interrupted e 2)"
    if "revised \<noteq> []" for revised
    by (rule triple_finish_reflection) (use assms that in auto)
  moreover have "triple ?W (throw (RLimit EMPTY_REVISION)) (reflection_ends e 2 max_total ms draft) (interrupted e 2)"
    by (rule triple_throw) (auto simp: real_limit_def intro: open_interrupted)
  ultimately show ?thesis unfolding revise_def Let_def
    by (intro triple_bind [OF call] triple_if) blast+
qed

lemma triple_critique:
  "triple (open_reflection e 0) (critique e max_total started time_limit ms draft iteration)
     (reflection_ends e (asked_calls e) max_total ms draft) (interrupted e (asked_calls e))"
proof -
  have calls: "1 \<le> asked_calls e" by (simp add: asked_calls_def)
  let ?V = "\<lambda>v s. open_reflection e 1 s \<and> within_limits e max_total (rs_usage s) (rs_cost s) \<and> rs_verdict s = Some v"
  have keep: "triple (?V v) (finish_reflection e draft draft KEPT 0 iteration) (reflection_ends e (asked_calls e) max_total ms draft)
    (interrupted e (asked_calls e))" for v
    by (rule triple_finish_reflection) (use calls in \<open>auto intro: open_mono\<close>)
  have revise: "triple (?V v) (revise e max_total started time_limit draft iteration v) (reflection_ends e (asked_calls e) max_total ms draft)
    (interrupted e (asked_calls e))" if "\<not> (rv_decision v = KEEP \<or> rp_max_revisions (rf_policy e) = 0)" "locations_ok v ms draft" for v
  proof -
    from that have "rv_decision v = REVISE" "rp_max_revisions (rf_policy e) \<noteq> 0" by (cases "rv_decision v"; simp)+
    note revised = triple_revise [OF this that(2)] and more = this(2)
    have "triple (?V v) (revise e max_total started time_limit draft iteration v) (reflection_ends e 2 max_total ms draft) (interrupted e 2)"
      by (rule triple_pre [OF revised]) simp
    with more show ?thesis by (simp add: asked_calls_def)
  qed
  have emit: "triple (?V v) (emit_verdict e iteration draft resp v) (\<lambda>_. ?V v) (interrupted e 1)" for v resp
    unfolding emit_verdict_def by (rule triple_emit) (auto simp: open_reflection_def bounded_reflection_def quiet_ask_ok)
  have decide: "triple (\<lambda>s. ?V v s \<and> locations_ok v ms draft) (seq (emit_verdict e iteration draft resp v)
      (if rv_decision v = KEEP \<or> rp_max_revisions (rf_policy e) = 0 then finish_reflection e draft draft KEPT 0 iteration
       else revise e max_total started time_limit draft iteration v))
    (reflection_ends e (asked_calls e) max_total ms draft) (interrupted e (asked_calls e))" for v resp
  proof (cases "locations_ok v ms draft")
    case True
    have "triple (?V v) (emit_verdict e iteration draft resp v) (\<lambda>_. ?V v) (interrupted e (asked_calls e))"
      using emit by (rule triple_conseq) (use calls in \<open>auto intro: interrupted_mono\<close>)
    from triple_seq [OF this triple_if [OF keep revise [OF _ True]]] show ?thesis by (rule triple_pre) simp_all
  qed (simp add: triple_def)
  have read: "triple (\<lambda>s. open_reflection e 1 s \<and> within_limits e max_total (rs_usage s) (rs_cost s)) (read_verdict e resp ms draft)
    (\<lambda>v s. ?V v s \<and> locations_ok v ms draft) (interrupted e (asked_calls e))" for resp
    by (rule triple_conseq [OF triple_read_verdict [where c = 1]]) (use calls in \<open>auto intro: interrupted_mono\<close>)
  have call: "triple (open_reflection e 0) (complete_reflection e max_total started time_limit (critique_messages (rf_policy e) ms draft) 512 True)
    (\<lambda>_ s. open_reflection e 1 s \<and> within_limits e max_total (rs_usage s) (rs_cost s)) (interrupted e (asked_calls e))"
    by (rule triple_conseq [OF triple_complete [where c = 0]]) (use calls in \<open>auto intro: interrupted_mono\<close>)
  show ?thesis unfolding critique_def by (rule triple_bind [OF call triple_bind [OF read decide]])
qed

lemma triple_reflect:
  assumes "rp_enabled (rf_policy e)"
  shows "triple (open_reflection e 0) (reflect e ms draft iteration timeout max_total)
    (reflection_ends e (asked_calls e) max_total ms draft) (interrupted e (asked_calls e))"
proof -
  have calls: "0 \<le> asked_calls e" by (simp add: asked_calls_def)
  have clock: "triple (open_reflection e 0) (rask (rf_clock e)) (\<lambda>_. open_reflection e 0) (interrupted e (asked_calls e))"
    by (rule triple_rask) simp
  have emit: "triple (open_reflection e 0) (emit_reflection e REFLECTION_STARTED iteration payload u) (\<lambda>_. open_reflection e 0)
    (interrupted e (asked_calls e))" for payload u
    by (rule triple_conseq [OF triple_emit [where c = 0]])
      (use calls in \<open>auto simp: open_reflection_def bounded_reflection_def quiet_ask_ok intro: interrupted_mono\<close>)
  have "triple (interrupted e (asked_calls e) x) (case x of RLimit code \<Rightarrow> finish_reflection e draft draft code 0 iteration | _ \<Rightarrow> throw x)
    (reflection_ends e (asked_calls e) max_total ms draft) (interrupted e (asked_calls e))" for x
  proof (cases x)
    case (RLimit code)
    have "triple (interrupted e (asked_calls e) x) (finish_reflection e draft draft code 0 iteration)
      (reflection_ends e (asked_calls e) max_total ms draft) (interrupted e (asked_calls e))"
      by (rule triple_finish_reflection) (auto simp: RLimit interrupted_def open_reflection_def real_limit_def)
    then show ?thesis by (simp add: RLimit)
  qed (auto intro: triple_throw)
  then have body: "triple (open_reflection e 0) (try_catch (critique e max_total started time_limit ms draft iteration)
      (\<lambda>x. case x of RLimit code \<Rightarrow> finish_reflection e draft draft code 0 iteration | _ \<Rightarrow> throw x))
    (reflection_ends e (asked_calls e) max_total ms draft) (interrupted e (asked_calls e))" for started time_limit
    by (rule triple_try [OF triple_critique])
  have refuse: "triple (open_reflection e 0) (throw RError) (reflection_ends e (asked_calls e) max_total ms draft) (interrupted e (asked_calls e))"
    by (rule triple_throw) (use calls in \<open>auto simp: real_limit_def intro: open_interrupted\<close>)
  show ?thesis unfolding reflect_def Let_def using assms
    by (simp add: triple_if [OF refuse triple_bind [OF clock triple_seq [OF emit body]]])
qed

lemma open_new: "open_reflection e 0 new_reflection"
  by (simp add: open_reflection_def bounded_reflection_def new_reflection_def no_usage_def)

lemma reflect_disabled:
  "\<not> rp_enabled (rf_policy e) \<Longrightarrow> reflect e ms draft iteration timeout max_total s =
     (Inr \<lparr>rr_content = draft, rr_verdict = None, rr_outcome = KEPT, rr_usage = no_usage, rr_calls = 0, rr_revisions = 0, rr_cost = 0\<rparr>, s)"
  by (simp add: reflect_def prog_defs)

lemma reflect_bounded:
  assumes "reflect e ms draft iteration timeout max_total new_reflection = (r, s)"
  shows "bounded_reflection e (asked_calls e) s"
proof (cases "rp_enabled (rf_policy e)")
  case True
  from tripleD [OF triple_reflect [OF True] open_new] tripleE [OF triple_reflect [OF True] open_new] assms
  show ?thesis by (cases r) (auto simp: reflection_ends_def interrupted_def)
next
  case False
  with assms open_new [of e] show ?thesis by (auto simp: reflect_disabled open_reflection_def bounded_reflection_def asked_calls_def)
qed

lemma reflect_sound:
  assumes "rp_enabled (rf_policy e)" "reflect e ms draft iteration timeout max_total new_reflection = (Inr res, s)"
  shows "sound_reflection e max_total ms draft res s"
  using tripleD [OF triple_reflect [OF assms(1)] open_new assms(2)] by (simp add: reflection_ends_def)

subsection \<open>A reflection\<close>

definition demo_policy :: reflection_policy where
  "demo_policy =
     \<lparr>rp_enabled = True, rp_rubric_id = ''quality'', rp_rubric_version = ''1'', rp_max_revisions = 1, rp_max_input_tokens = 8192,
      rp_max_output_tokens = 2048, rp_max_time = 10000, rp_max_cost = 1, rp_input_cost = 1, rp_output_cost = 2\<rparr>"

definition demo_critique :: json where
  "demo_critique = JObj [(''verdict'', JStr ''revise''), (''issue_codes'', JList [JStr ''unclear'']), (''evidence_refs'', JList [JStr ''draft:L1'']),
     (''confidence'', JInt 1)]"

definition demo_reflection :: reflection_env where
  "demo_reflection =
     \<lparr>rf_policy = demo_policy, rf_clock = int,
      rf_provider = (\<lambda>n ms k contract. RDone \<lparr>rq_content = Some (if contract then ''{}'' else ''better ''), rq_tool_calls = 0,
        rq_input = VInt 5, rq_output = VInt 2, rq_cache_read = VNone, rq_cache_write = VNone\<rparr>),
      rf_fired = (\<lambda>_. False), rf_sink = (\<lambda>n ev. RDone ()), rf_hmac = (\<lambda>k t. ''h''), rf_key = replicate 32 (CHR ''k''), rf_scope = ''run'',
      rf_loads = (\<lambda>t. Inr demo_critique), rf_matches = (\<lambda>schema v. True), rf_div = (/)\<rparr>"

lemma demo_reflects:
  "case reflect demo_reflection [text_message RUser ''hi''] ''good'' 1 None None new_reflection of
     (Inl x, s) \<Rightarrow> False
   | (Inr res, s) \<Rightarrow> rr_outcome res = REVISED \<and> rr_calls res = 2 \<and> length (rs_trace s) = 5"
  by code_simp

lemma demo_reflection_run:
  obtains res s where "reflect demo_reflection [text_message RUser ''hi''] ''good'' 1 None None new_reflection = (Inr res, s)"
    "rr_outcome res = REVISED" "rr_calls res = 2" "rp_enabled (rf_policy demo_reflection)"
proof -
  have "rp_enabled (rf_policy demo_reflection)" by (simp add: demo_reflection_def demo_policy_def)
  with demo_reflects that show ?thesis by (auto split: prod.splits sum.splits)
qed

subsection \<open>The limits\<close>

text \<open>
  C26: reflection stays within its limits. However a reflection ends, it has asked its provider at most
  twice, at most once when the policy allows no revision, and each time for a positive number
  of tokens within the policy's output limit; and a result that keeps or revises the answer after
  a critique has used tokens and money within the policy and within the caller's total.
\<close>

theorem reflection_within_limits:
  assumes "reflect e ms draft iteration timeout max_total new_reflection = (r, s)"
  shows "reflection_calls (rs_trace s) \<le> (if rp_max_revisions (rf_policy e) = 0 then 1 else 2)
    \<and> (\<forall>request k contract. ReflectionAsked request k contract \<in> set (rs_trace s) \<longrightarrow> 0 < k \<and> k \<le> rp_max_output_tokens (rf_policy e))
    \<and> (case r of
         Inl x \<Rightarrow> True
       | Inr res \<Rightarrow> rp_enabled (rf_policy e) \<and> (rr_outcome res = KEPT \<or> rr_outcome res = REVISED) \<longrightarrow>
           tu_input_tokens (rr_usage res) \<le> rp_max_input_tokens (rf_policy e)
           \<and> tu_output_tokens (rr_usage res) \<le> rp_max_output_tokens (rf_policy e)
           \<and> (\<forall>m. max_total = Some m \<longrightarrow> total_tokens (rr_usage res) \<le> m) \<and> rr_cost res \<le> rp_max_cost (rf_policy e))"
proof -
  have "ask_ok e a" if "a \<in> set (rs_trace s)" for a
    using reflect_bounded [OF assms] that by (simp add: bounded_reflection_def list_all_iff)
  then have "\<forall>request k contract. ReflectionAsked request k contract \<in> set (rs_trace s) \<longrightarrow> 0 < k \<and> k \<le> rp_max_output_tokens (rf_policy e)"
    by fastforce
  moreover have "reflection_calls (rs_trace s) \<le> (if rp_max_revisions (rf_policy e) = 0 then 1 else 2)"
    using reflect_bounded [OF assms] by (simp add: bounded_reflection_def asked_calls_def)
  moreover have "within_limits e max_total (rr_usage res) (rr_cost res)"
    if "r = Inr res" "rp_enabled (rf_policy e)" "rr_outcome res = KEPT \<or> rr_outcome res = REVISED" for res
    using reflect_sound [OF that(2)] assms that unfolding sound_reflection_def by blast
  ultimately show ?thesis by (auto simp: within_limits_def split: sum.split)
qed

theorem reflection_within_limits_witness:
  "\<exists>e ms draft res s. reflect e ms draft 1 None None new_reflection = (Inr res, s) \<and> rr_outcome res = REVISED
     \<and> rr_cost res \<le> rp_max_cost (rf_policy e)"
proof -
  obtain res s where run: "reflect demo_reflection [text_message RUser ''hi''] ''good'' 1 None None new_reflection = (Inr res, s)"
    "rr_outcome res = REVISED" "rr_calls res = 2" "rp_enabled (rf_policy demo_reflection)" by (rule demo_reflection_run)
  have "rr_cost res \<le> rp_max_cost (rf_policy demo_reflection)"
    using reflection_within_limits [OF run(1)] run(2,4) by simp
  with run(1,2) show ?thesis by (intro exI conjI)
qed

subsection \<open>The answer\<close>

text \<open>
  C27: reflection never loses the answer. Unless the outcome is that the answer was revised, the
  result holds the draft unchanged; a revised answer is not empty, was allowed by the policy, and
  answers a valid verdict that asked for a revision and refers to lines that exist. With reflection
  enabled, exactly one completion event was emitted, and it has the outcome that is returned.
\<close>

theorem reflection_keeps_draft:
  assumes "reflect e ms draft iteration timeout max_total new_reflection = (Inr res, s)"
  shows "(rr_outcome res \<noteq> REVISED \<longrightarrow> rr_content res = draft)
    \<and> (rr_outcome res = REVISED \<longrightarrow> rr_content res \<noteq> [] \<and> rp_max_revisions (rf_policy e) \<noteq> 0
         \<and> (\<exists>v. rr_verdict res = Some v \<and> rv_decision v = REVISE \<and> locations_ok v ms draft))
    \<and> (rp_enabled (rf_policy e) \<longrightarrow> outcomes_logged (rs_trace s) = [Some (VStr (outcome_text (rr_outcome res)))])"
proof (cases "rp_enabled (rf_policy e)")
  case True
  from reflect_sound [OF True assms] show ?thesis by (auto simp: sound_reflection_def split: if_splits)
next
  case False
  with assms show ?thesis by (auto simp: reflect_disabled)
qed

theorem reflection_keeps_draft_witness:
  "\<exists>e ms draft res s. reflect e ms draft 1 None None new_reflection = (Inr res, s) \<and> rr_content res \<noteq> []
     \<and> outcomes_logged (rs_trace s) = [Some (VStr ''revised'')]"
proof -
  obtain res s where run: "reflect demo_reflection [text_message RUser ''hi''] ''good'' 1 None None new_reflection = (Inr res, s)"
    "rr_outcome res = REVISED" "rr_calls res = 2" "rp_enabled (rf_policy demo_reflection)" by (rule demo_reflection_run)
  have "rr_content res \<noteq> []" "outcomes_logged (rs_trace s) = [Some (VStr ''revised'')]"
    using reflection_keeps_draft [OF run(1)] run(2,4) by (simp_all add: outcome_text_def)
  with run(1) show ?thesis by (intro exI conjI)
qed

end
