(* ===== verification/Spec2Isabelle.thy ===== *)
theory Spec2Isabelle
  imports Budget_Ledger Budgeted_Provider Effect_Executor Policy Circuit_Breaker Job_Worker Rate_Limiter
    Live_Approvals Run_Trajectories Agent_Terminal Agent_Authorization Agent_Bounds
    Graduated_Permissions Verifier_Safety Reflection_Service
begin

text \<open>
  \<^bold>\<open>Cogentrex: an agent runtime and its durable core.\<close>

  The repository is a FastAPI backend (\<open>backend/app\<close>) around an agent loop. What must not go wrong
  there is money, side effects, permissions and background work: a model call is paid for once
  and within its budget, an effectful tool runs at most once, a dangerous tool call runs only with
  an owner's approval of exactly that call, a job is not completed by a worker that lost it, and
  a provider or a client that misbehaves is shut out. This development models the components that
  promise these things and proves that they keep the promise.

  \<^bold>\<open>How the parts interact.\<close> The runtime engine calls the model in a loop and dispatches the tool
  calls of its responses. In policy mode it asks the policy engine about every call of a response
  before any of them runs; when the answer is to ask, an approval broker reserves a request in the
  approval repository and waits for the owner. What a run does becomes events of the run ledger,
  redacted on the way, and what leaves the system passes the disclosure scanner. Effectful tools run
  under the effect executor, which reserves, commits and cleans up rows of the effect ledger. Model calls go through the budgeted provider, which quotes them with the
  price table and reserves, dispatches and reconciles charges of the budget ledger, and through
  the circuit breaker. A run delegates the check of its claims to a verifier child, under a signed
  envelope that can be consumed once. Workers claim jobs of the durable queue. All the ledgers live in one SQL
  database that many processes share, and their calls can fail before or after their commit.

  \<^bold>\<open>Theories.\<close>
  \<^item> \<open>Prelude\<close>: text predicates, decimal printing, 64-bit column ranges; the collections of
    rewrite rules.
  \<^item> \<open>Sql_Table\<close>: tables and the statements on them; the locale \<open>durable_ledger\<close>, the contract of
    every ledger (keys are kept, rows are never removed and only move forward).
  \<^item> \<open>Durable_Calls\<close>: a call of a repository with interleaved transactions of other processes and
    with a loss before or after its commit; cancellation-resistant waiting
    (\<open>runtime/monetary_budget.py\<close>, \<open>_cancellation_resistant\<close>).
  \<^item> \<open>Cost_Tracker\<close> (\<open>observability/cost_tracker.py\<close>): the price table in exact rationals, the price of a
    usage and the quote of a call; a quote covers every usage it was made for.
  \<^item> \<open>Monetary_Budget\<close>, \<open>Budget_Invariant\<close>, \<open>Budget_Ledger\<close> (\<open>services/monetary_budget.py\<close> and its three tables in
    \<open>services/db_store.py\<close>): every repository operation; conservation of money, CHECK constraints, charges
    granted once and final, complete recovery. Interprets \<open>durable_ledger\<close> as \<open>charge_ledger\<close>.
  \<^item> \<open>Budgeted_Provider\<close> (\<open>runtime/monetary_budget.py\<close>): the protocol of one model call under every
    fault, cancellation and interleaving.
  \<^item> \<open>Effect_Ledger\<close> (\<open>services/effect_ledger.py\<close>; interpretation \<open>effect_ledger\<close>) and \<open>Effect_Executor\<close>
    (\<open>runtime/effect_executor.py\<close>): reservation, execution and evidence of effects, the evidence over a
    heap of Python objects that may be shared or cyclic.
  \<^item> \<open>Json\<close>: canonical JSON encoding, with quoting proved unambiguous.
  \<^item> \<open>Policy\<close> (\<open>security/policy.py\<close>, \<open>security/default_policy.py\<close>): canonical tools, paths and hosts, rule matching
    and the decision.
  \<^item> \<open>Circuit_Breaker\<close> (\<open>security/circuit_breaker.py\<close>): admissions and completions of concurrent calls as
    steps of a transition system.
  \<^item> \<open>Task_Queue\<close> (\<open>services/task_queue.py\<close>; interpretation \<open>job_ledger\<close>) and \<open>Job_Worker\<close> (\<open>workers/jobs.py\<close>):
    the job queue with leases and fencing, and one iteration of a worker with heartbeats.
  \<^item> \<open>Rate_Limiter\<close> (\<open>security/rate_limiter.py\<close>): the local limiter, the Redis script and its fallback. The
    locale \<open>sliding_window\<close> carries the bound for both limiters (\<open>local_window\<close>, \<open>redis_window\<close>).
  \<^item> \<open>Approval_Repository\<close> (\<open>security/approval_repository.py\<close>, \<open>security/approvals.py\<close>; interpretation \<open>approval_ledger\<close>)
    and \<open>Live_Approvals\<close> (\<open>security/live_approvals.py\<close>; interpretation \<open>future_ledger\<close>): approval requests, the
    polling broker and the in-memory broker.
  \<^item> \<open>Regex\<close>, \<open>Redactor\<close> (\<open>security/pii_detector.py\<close>, \<open>security/persistence_redactor.py\<close>) and \<open>Disclosure\<close>
    (\<open>security/disclosure.py\<close>): backtracking matching as Python's \<open>re\<close> does it, detection and redaction of
    personal data in text and in structured values, and the scan for secrets.
  \<^item> \<open>Run_Ledger\<close>, \<open>Run_Trajectories\<close> (\<open>services/run_ledger.py\<close>): runs, their event sequences, forks and
    children, retention; every stored sequence is complete and ends with its only stop event.
  \<^item> \<open>Json_Reader\<close>, \<open>Runtime_Values\<close> (\<open>runtime/models.py\<close>, \<open>runtime/events.py\<close>, \<open>runtime/capabilities.py\<close>, the
    argument snapshot and hash of \<open>security/policy.py\<close>, the token estimate of \<open>runtime/monetary_budget.py\<close>): the
    values the engine exchanges; reading back canonical JSON gives the value it was made from.
  \<^item> \<open>Runtime_Monad\<close>: programs with a state and exceptions; relations that every run of a program
    obeys (locale \<open>state_order\<close>) and triples.
  \<^item> \<open>Agent_Runtime\<close>, \<open>Agent_Run\<close> (\<open>runtime/engine.py\<close>, \<open>runtime/deadline.py\<close>): the whole engine, from
    \<open>run\<close> to the terminal task. The collaborators are functions of the step number that may answer,
    raise, hang or change the objects they hold, so a theorem about all of them covers every
    schedule; \<open>rt_trace\<close> records what was done. The loop is a total function.
  \<^item> \<open>Agent_Frames\<close>: locales by groups of effects (\<open>event_order\<close>, \<open>quiet_order\<close>, \<open>terminal_order\<close>, \<open>stop_order\<close>,
    \<open>model_order\<close>, \<open>tool_order\<close>, \<open>pass_order\<close>; in \<open>Agent_Run\<close> also \<open>frame_order\<close> and \<open>run_order\<close>), whose lemmas
    carry a relation from the small updates to every operation of the engine. \<open>Agent_Terminal\<close>
    (a run stops once), \<open>Agent_Authorization\<close> (what runs was authorized) and \<open>Agent_Bounds\<close> (what a
    run may spend) interpret them; \<open>Agent_Demo\<close> is a concrete run that executes a tool.
  \<^item> \<open>Graduated_Permissions\<close> (\<open>security/graduated_permissions.py\<close>): the permission modes, protected paths and
    commands, and the transformation of the mode after denials.
  \<^item> \<open>Delegation_Envelope\<close> (\<open>delegation/envelope.py\<close>): signed envelopes, issued and consumed once; the
    canonical payload determines the envelope.
  \<^item> \<open>Evidence_Verifier\<close> (\<open>delegation/models.py\<close>, \<open>delegation/service.py\<close>): the verifier child, from the envelope
    to the terminal task, with collaborators that answer by the number of the step as those of the
    engine do; the loop of attempts is a total function. \<open>Verifier_Safety\<close>: one invariant of the
    child's state, carried by triples through every operation, and what it gives: verdicts that fail
    closed, attempts within the budget, no provider before the envelope, one terminal record.
  \<^item> \<open>Structured_Output\<close> (\<open>runtime/structured_output.py\<close>): contracts for structured responses; the stack loop
    over a value decides exactly its depth and its number of nodes.
  \<^item> \<open>Reflection_Service\<close> (\<open>reflection/models.py\<close>, \<open>reflection/service.py\<close>): one critique and at most one
    revision of a final answer within limits of time, tokens and cost; amounts are rationals.

  \<^bold>\<open>Conventions.\<close> A repository method is a function from the table to the table and its result,
  \<open>Inl\<close> being the raised exception. What other processes commit between two statements of a method
  that is not a single statement is an argument of it (\<open>between\<close>, \<open>later\<close>), and so are fresh
  identifiers and the database's order among equal sort keys. Times are integers. Text is code
  points below 256. A loop that waits takes its rounds as a list and returns \<open>None\<close> when they end
  first; that it returns is proved under the hypothesis that the clock reaches the deadline.
  \<open>to_json\<close> takes fuel 33, one more than the nesting depth the traversal before it admits, and it is
  proved to suffice. SHA-256, IDNA encoding, spaCy and the output compliance filter are parameters.
  The job queue takes the disclosure scanner as a parameter of its own.

  \<^bold>\<open>Not modelled.\<close> Orchestration, memory, retrieval, MCP and skills; HTTP routes, provider adapters,
  logging and the sandbox are glue around services outside the repository. In modelled files: usage
  statistics of the cost tracker, the in-memory \<open>TaskQueue\<close> shim, and \<open>run_forever\<close>, which only repeats
  \<open>run_once\<close>. The response contract of the engine is a parameter (its parser is a field), and so is
  its reflection service; the two are modelled on their own. The compliance filter rewrites text outside the modelled code points.
\<close>

end
